(* ===== verification/Prelude.thy ===== *)
theory Prelude
  imports Main "HOL-Library.AList" "HOL-Library.Multiset" "HOL-Library.List_Lexorder"
    "HOL-Library.Char_ord"
begin

text \<open>
  Shared vocabulary of the development.

  Go values: a \<^verbatim>\<open>string\<close> is a list of bytes, so it is the HOL type \<^typ>\<open>string\<close>;
  a \<^verbatim>\<open>time.Time\<close> is an \<^typ>\<open>int\<close>, the nanoseconds since the Unix epoch; a
  \<^verbatim>\<open>time.Duration\<close> is an \<^typ>\<open>int\<close> of nanoseconds, with the saturation of
  \<^verbatim>\<open>Time.Sub\<close> and the wrap-around of int64 multiplication written out where the code can
  meet them; a map is an association list with distinct keys, whose order is the iteration
  order of a \<^verbatim>\<open>range\<close> (results about loops over maps are stated so that they do not
  depend on it).  A function that returns \<^verbatim>\<open>(T, error)\<close> has the result type
  \<open>go_error + T\<close>; one that returns \<^verbatim>\<open>error\<close> alone returns \<open>go_error option\<close>.

  Error values: \<open>Coded\<close> is \<^verbatim>\<open>*errors.Error\<close> of \<^verbatim>\<open>src/errors/codes.go\<close>, \<open>Plain\<close> is
  what \<^verbatim>\<open>errors.New\<close> and \<^verbatim>\<open>fmt.Errorf\<close> build.  The text of an error is the format string
  of the source; the arguments are not rendered into it.
\<close>

subsection \<open>Automation shared by the components\<close>

named_theorems go_simps \<open>unfoldings of the Go library functions and constants\<close>

type_synonym go_time = int
type_synonym duration = int
type_synonym ('k, 'v) gomap = "('k \<times> 'v) list"

subsection \<open>Errors (src/errors/codes.go)\<close>

datatype code =
    ChannelInvalid | ChannelNotFound | ChannelExists | ChannelClosed | ChannelTTLExceeds
  | AuthDenied | AuthExpired
  | BrokerNotReady | BrokerInternal
  | SinkUnavailable | SinkConfig | SinkDLQOverflow | SinkDLQNotFound
  | RateLimited
  | InvalidArgument | Internal

datatype go_error =
    Coded code string "go_error option"
  | Plain string

type_synonym 'a result = "go_error + 'a"

abbreviation Err :: "go_error \<Rightarrow> 'a result" where "Err \<equiv> Inl"
abbreviation Ok :: "'a \<Rightarrow> 'a result" where "Ok \<equiv> Inr"

definition err_New :: "code \<Rightarrow> string \<Rightarrow> go_error" where
  "err_New c msg = Coded c msg None"

definition err_Wrap :: "code \<Rightarrow> string \<Rightarrow> go_error \<Rightarrow> go_error" where
  "err_Wrap c msg cause = Coded c msg (Some cause)"

text \<open>
  A run-time panic (a nil pointer dereference, an index out of range) ends the call; where a
  model can reach one its result is this value, and the invariants show that it is not reached.
\<close>

definition go_panic :: "string \<Rightarrow> go_error" where
  "go_panic msg = Plain (''panic: '' @ msg)"

text \<open>\<^verbatim>\<open>CodeOf(nil)\<close> is the empty code, here \<open>None\<close>.\<close>

fun CodeOf :: "go_error option \<Rightarrow> code option" where
  "CodeOf None = None"
| "CodeOf (Some (Coded c _ _)) = Some c"
| "CodeOf (Some (Plain _)) = Some Internal"

fun code_string :: "code \<Rightarrow> string" where
  "code_string ChannelInvalid = ''PARSEC_CHANNEL_INVALID''"
| "code_string ChannelNotFound = ''PARSEC_CHANNEL_NOT_FOUND''"
| "code_string ChannelExists = ''PARSEC_CHANNEL_EXISTS''"
| "code_string ChannelClosed = ''PARSEC_CHANNEL_CLOSED''"
| "code_string ChannelTTLExceeds = ''PARSEC_CHANNEL_TTL_EXCEEDS_MAX''"
| "code_string AuthDenied = ''PARSEC_AUTH_DENIED''"
| "code_string AuthExpired = ''PARSEC_AUTH_EXPIRED''"
| "code_string BrokerNotReady = ''PARSEC_BROKER_NOT_READY''"
| "code_string BrokerInternal = ''PARSEC_BROKER_INTERNAL''"
| "code_string SinkUnavailable = ''PARSEC_SINK_UNAVAILABLE''"
| "code_string SinkConfig = ''PARSEC_SINK_CONFIG_INVALID''"
| "code_string SinkDLQOverflow = ''PARSEC_SINK_DLQ_OVERFLOW''"
| "code_string SinkDLQNotFound = ''PARSEC_SINK_DLQ_NOT_FOUND''"
| "code_string RateLimited = ''PARSEC_RATE_LIMITED''"
| "code_string InvalidArgument = ''PARSEC_INVALID_ARGUMENT''"
| "code_string Internal = ''PARSEC_INTERNAL''"

fun err_Error :: "go_error \<Rightarrow> string" where
  "err_Error (Coded c msg (Some cause)) = code_string c @ '': '' @ msg @ '': '' @ err_Error cause"
| "err_Error (Coded c msg None) = code_string c @ '': '' @ msg"
| "err_Error (Plain msg) = msg"

fun err_Unwrap :: "go_error \<Rightarrow> go_error option" where
  "err_Unwrap (Coded _ _ cause) = cause"
| "err_Unwrap (Plain _) = None"

lemma CodeOf_New [simp]: "CodeOf (Some (err_New c m)) = Some c"
  by (simp add: err_New_def)

lemma CodeOf_Wrap [simp]: "CodeOf (Some (err_Wrap c m e)) = Some c"
  by (simp add: err_Wrap_def)

subsection \<open>Time and durations\<close>

abbreviation second :: duration where "second \<equiv> 1000000000"
abbreviation minute :: duration where "minute \<equiv> 60 * second"
abbreviation hour :: duration where "hour \<equiv> 60 * minute"

definition max_int64 :: int where [go_simps]: "max_int64 = 9223372036854775807"
definition min_int64 :: int where [go_simps]: "min_int64 = - 9223372036854775808"

text \<open>\<^verbatim>\<open>t.Sub(u)\<close> saturates at the ends of int64; int64 products wrap around.\<close>

definition time_Sub :: "go_time \<Rightarrow> go_time \<Rightarrow> duration" where
  "time_Sub t u = max min_int64 (min max_int64 (t - u))"

definition wrap64 :: "int \<Rightarrow> int" where
  "wrap64 x = (x + 9223372036854775808) mod 18446744073709551616 - 9223372036854775808"

text \<open>The zero \<^verbatim>\<open>time.Time\<close> is the first instant of year 1, in Unix nanoseconds.\<close>

definition zero_time :: go_time where
  "zero_time = - 62135596800 * second"

definition time_Unix :: "go_time \<Rightarrow> int" where
  "time_Unix t = t div second"

lemma time_Sub_exact: "min_int64 \<le> t - u \<Longrightarrow> t - u \<le> max_int64 \<Longrightarrow> time_Sub t u = t - u"
  by (simp add: time_Sub_def)

lemma time_Sub_less: "d \<le> max_int64 \<Longrightarrow> min_int64 < d \<Longrightarrow> time_Sub t u < d \<longleftrightarrow> t - u < d"
  by (auto simp: time_Sub_def go_simps)

lemma time_Sub_greater: "d < max_int64 \<Longrightarrow> min_int64 \<le> d \<Longrightarrow> d < time_Sub t u \<longleftrightarrow> d < t - u"
  by (auto simp: time_Sub_def go_simps)

lemma time_Sub_mono: "t \<le> t' \<Longrightarrow> time_Sub t u \<le> time_Sub t' u"
  by (auto simp: time_Sub_def)

lemma time_Unix_mono: "t \<le> u \<Longrightarrow> time_Unix t \<le> time_Unix u"
  by (simp add: time_Unix_def zdiv_mono1)

lemma wrap64_id: "min_int64 \<le> x \<Longrightarrow> x \<le> max_int64 \<Longrightarrow> wrap64 x = x"
  by (simp add: wrap64_def go_simps)

subsection \<open>The strings package\<close>

fun strings_Split :: "char \<Rightarrow> string \<Rightarrow> string list" where
  "strings_Split c [] = [[]]"
| "strings_Split c (x # xs) =
     (if x = c then [] # strings_Split c xs
      else (case strings_Split c xs of [] \<Rightarrow> [[x]] | p # ps \<Rightarrow> (x # p) # ps))"

fun strings_Join :: "string list \<Rightarrow> char \<Rightarrow> string" where
  "strings_Join [] c = []"
| "strings_Join [p] c = p"
| "strings_Join (p # q # ps) c = p @ c # strings_Join (q # ps) c"

definition ascii :: "string \<Rightarrow> bool" where
  "ascii s \<longleftrightarrow> list_all (\<lambda>c. (of_char c :: nat) < 128) s"

text \<open>\<^verbatim>\<open>IndexByte\<close> is -1 when the byte is absent.\<close>

fun strings_IndexByte :: "string \<Rightarrow> char \<Rightarrow> int" where
  "strings_IndexByte [] c = -1"
| "strings_IndexByte (x # xs) c =
     (if x = c then 0 else
      let i = strings_IndexByte xs c in if i < 0 then -1 else i + 1)"

lemma strings_Split_nonempty [simp]: "strings_Split c s \<noteq> []"
  by (induction s) (auto split: list.splits)

lemma strings_Join_Cons: "ps \<noteq> [] \<Longrightarrow> strings_Join (p # ps) c = p @ c # strings_Join ps c"
  by (cases ps) auto

lemma strings_Join_Split [simp]: "strings_Join (strings_Split c s) c = s"
proof (induction s)
  case (Cons x xs)
  obtain p ps where split: "strings_Split c xs = p # ps"
    by (metis list.exhaust strings_Split_nonempty)
  with Cons show ?case by (cases ps) auto
qed simp

lemma strings_Split_no_sep: "p \<in> set (strings_Split c s) \<Longrightarrow> c \<notin> set p"
  by (induction s arbitrary: p) (auto split: if_splits list.splits)

lemma strings_Split_prefix:
  "c \<notin> set p \<Longrightarrow> strings_Split c (p @ c # s) = p # strings_Split c s"
  by (induction p) auto

lemma strings_Split_single: "c \<notin> set p \<Longrightarrow> strings_Split c p = [p]"
  by (induction p) auto

lemma strings_Split_Join:
  "ps \<noteq> [] \<Longrightarrow> (\<And>p. p \<in> set ps \<Longrightarrow> c \<notin> set p) \<Longrightarrow> strings_Split c (strings_Join ps c) = ps"
proof (induction ps c rule: strings_Join.induct)
  case (2 p c)
  then show ?case by (simp add: strings_Split_single)
next
  case (3 p q ps c)
  then show ?case by (simp add: strings_Split_prefix)
qed simp

lemma strings_IndexByte_neg: "strings_IndexByte s c < 0 \<longleftrightarrow> c \<notin> set s"
  by (induction s) (auto simp: Let_def)

lemma strings_IndexByte_append:
  "c \<notin> set p \<Longrightarrow> strings_IndexByte (p @ c # s) c = int (length p)"
  by (induction p) (auto simp: Let_def)

lemma strings_IndexByte_split:
  assumes "0 \<le> strings_IndexByte s c"
  shows "s = take (nat (strings_IndexByte s c)) s @ c # drop (Suc (nat (strings_IndexByte s c))) s
    \<and> c \<notin> set (take (nat (strings_IndexByte s c)) s)"
proof -
  from assms have "c \<in> set s" by (meson linorder_not_le strings_IndexByte_neg)
  then obtain p q where s: "s = p @ c # q" and p: "c \<notin> set p"
    by (meson split_list_first)
  then show ?thesis by (simp add: strings_IndexByte_append)
qed

subsection \<open>Maps\<close>

text \<open>A well-formed map holds each key once; the library's update and delete keep it so.\<close>

abbreviation map_wf :: "('k, 'v) gomap \<Rightarrow> bool" where
  "map_wf m \<equiv> distinct (map fst m)"

lemma map_wf_update [simp]: "map_wf m \<Longrightarrow> map_wf (AList.update k v m)"
  by (rule distinct_update)

lemma map_wf_delete [simp]: "map_wf m \<Longrightarrow> map_wf (AList.delete k m)"
  by (rule distinct_delete)

lemma map_wf_filter [simp]: "map_wf m \<Longrightarrow> map_wf (filter P m)"
  by (induction m) auto

lemma map_of_update_apply [simp]:
  "map_of (AList.update k v m) k' = (if k' = k then Some v else map_of m k')"
  by (simp add: update_conv')

lemma map_of_delete_apply [simp]:
  "map_of (AList.delete k m) k' = (if k' = k then None else map_of m k')"
  by (simp add: delete_conv')

lemma map_of_filter_wf:
  "map_wf m \<Longrightarrow> map_of (filter P m) k =
     (case map_of m k of None \<Rightarrow> None | Some v \<Rightarrow> if P (k, v) then Some v else None)"
  by (induction m) (auto split: option.splits simp: map_of_eq_None_iff image_iff)

text \<open>A loop over a map that keeps, changes or deletes each entry by its value.\<close>

definition map_bind :: "('v \<Rightarrow> 'w option) \<Rightarrow> ('k, 'v) gomap \<Rightarrow> ('k, 'w) gomap" where
  "map_bind f m = List.map_filter (\<lambda>(k, v). map_option (Pair k) (f v)) m"

lemma map_bind_simps [simp]:
  "map_bind f [] = []"
  "map_bind f ((k, v) # m) = (case f v of None \<Rightarrow> map_bind f m | Some w \<Rightarrow> (k, w) # map_bind f m)"
  by (simp_all add: map_bind_def map_filter_simps split: option.split)

lemma map_bind_keys: "fst ` set (map_bind f m) \<subseteq> fst ` set m"
proof (induction m)
  case (Cons p m)
  then show ?case by (cases p) (auto split: option.split)
qed simp

lemma map_wf_bind [simp]: "map_wf m \<Longrightarrow> map_wf (map_bind f m)"
proof (induction m)
  case (Cons p m)
  then show ?case using map_bind_keys [of f m] by (cases p) (auto split: option.split)
qed simp

lemma map_of_bind: "map_wf m \<Longrightarrow> map_of (map_bind f m) k = Option.bind (map_of m k) f"
proof (induction m)
  case (Cons p m)
  moreover have "fst p \<notin> fst ` set m \<Longrightarrow> map_of (map_bind f m) (fst p) = None"
    using map_bind_keys [of f m] by (auto simp: map_of_eq_None_iff)
  ultimately show ?case by (cases p) (auto split: option.split)
qed simp

lemma ran_map_of: "map_wf m \<Longrightarrow> ran (map_of m) = snd ` set m"
  by (simp add: ran_distinct)

end
