(* ===== verification/ChannelName.thy ===== *)
theory ChannelName
  imports Prelude
begin

text \<open>
  The channel grammar of \<^verbatim>\<open>src/channels/name.go\<close>: the parsed name, its printer
  \<^verbatim>\<open>Name.String\<close>, the parser \<^verbatim>\<open>ParseName\<close> and the builder \<^verbatim>\<open>BuildName\<close>.
  \<open>wf_name\<close> is the grammar as a predicate; the parser is shown to accept exactly the printed
  forms of well-formed names.
\<close>

text \<open>\<^verbatim>\<open>type Visibility string\<close>: a name can carry any string there, so it is one here too.\<close>

type_synonym visibility = string

definition VisibilityPublic :: visibility where [go_simps]: "VisibilityPublic = ''public''"
definition VisibilityPrivate :: visibility where [go_simps]: "VisibilityPrivate = ''private''"

record chan_name =
  n_Visibility :: visibility
  n_App :: string
  n_Domain :: string
  n_ID :: string
  n_Topic :: string

definition name_String :: "chan_name \<Rightarrow> string" where
  "name_String n =
     (let parts = [n_App n, n_Domain n];
          parts = (if n_ID n \<noteq> [] then parts @ [n_ID n] else parts);
          parts = (if n_Topic n \<noteq> [] then parts @ [n_Topic n] else parts)
      in n_Visibility n @ '':'' @ strings_Join parts CHR ''.'')"

definition IsPrivate :: "chan_name \<Rightarrow> bool" where
  "IsPrivate n \<longleftrightarrow> n_Visibility n = VisibilityPrivate"

text \<open>
  \<^verbatim>\<open>range s\<close> yields code points; every byte of a multi-byte one is at least 128, and so is the
  code point, so testing the bytes refuses the same strings.
\<close>

definition component_char :: "char \<Rightarrow> bool" where
  "component_char r \<longleftrightarrow>
     (CHR ''a'' \<le> r \<and> r \<le> CHR ''z'') \<or> (CHR ''0'' \<le> r \<and> r \<le> CHR ''9'') \<or>
     r = CHR ''-'' \<or> r = CHR ''_''"

fun validate_chars :: "string \<Rightarrow> go_error option" where
  "validate_chars [] = None"
| "validate_chars (r # rs) =
     (if component_char r then validate_chars rs
      else Some (err_New ChannelInvalid ''invalid character %q in channel component %q''))"

definition validateComponent :: "string \<Rightarrow> go_error option" where
  "validateComponent s =
     (if s = [] then Some (err_New ChannelInvalid ''channel component must not be empty'')
      else validate_chars s)"

fun validate_all :: "string list \<Rightarrow> go_error option" where
  "validate_all [] = None"
| "validate_all (p # ps) =
     (case validateComponent p of Some e \<Rightarrow> Some e | None \<Rightarrow> validate_all ps)"

definition ParseName :: "string \<Rightarrow> chan_name result" where
  "ParseName s =
     (let colon = strings_IndexByte s CHR '':'' in
      if colon \<le> 0 \<or> colon = int (length s) - 1 then
        Err (err_New ChannelInvalid ''channel name must start with public: or private:'')
      else
        let vis = take (nat colon) s in
        if vis \<noteq> VisibilityPublic \<and> vis \<noteq> VisibilityPrivate then
          Err (err_New ChannelInvalid ''unknown visibility %q; want public or private'')
        else
          let rest = drop (nat (colon + 1)) s in
          if CHR '':'' \<in> set rest then
            Err (err_New ChannelInvalid ''the : character is reserved for the visibility prefix'')
          else
            let parts = strings_Split CHR ''.'' rest in
            if length parts < 2 then
              Err (err_New ChannelInvalid ''channel name must include at least <app>.<domain>'')
            else if length parts > 4 then
              Err (err_New ChannelInvalid ''channel name has too many components'')
            else
              case validate_all parts of
                Some e \<Rightarrow> Err e
              | None \<Rightarrow>
                  let n = \<lparr>n_Visibility = vis, n_App = parts ! 0, n_Domain = parts ! 1,
                           n_ID = (if length parts \<ge> 3 then parts ! 2 else []),
                           n_Topic = (if length parts = 4 then parts ! 3 else [])\<rparr> in
                  if vis = VisibilityPrivate \<and> n_ID n = [] then
                    Err (err_New ChannelInvalid ''private channels must include an id segment'')
                  else Ok n)"

definition BuildName :: "visibility \<Rightarrow> string \<Rightarrow> string \<Rightarrow> string \<Rightarrow> string \<Rightarrow> chan_name result" where
  "BuildName vis app domain ident topic =
     (let n = \<lparr>n_Visibility = vis, n_App = app, n_Domain = domain, n_ID = ident, n_Topic = topic\<rparr> in
      case ParseName (name_String n) of Err e \<Rightarrow> Err e | Ok _ \<Rightarrow> Ok n)"

subsection \<open>The grammar as a predicate\<close>

definition component_ok :: "string \<Rightarrow> bool" where
  "component_ok s \<longleftrightarrow> s \<noteq> [] \<and> list_all component_char s"

definition wf_name :: "chan_name \<Rightarrow> bool" where
  "wf_name n \<longleftrightarrow>
     (n_Visibility n = VisibilityPublic \<or> n_Visibility n = VisibilityPrivate) \<and>
     component_ok (n_App n) \<and> component_ok (n_Domain n) \<and>
     (n_ID n = [] \<or> component_ok (n_ID n)) \<and>
     (n_Topic n = [] \<or> component_ok (n_Topic n) \<and> n_ID n \<noteq> []) \<and>
     (IsPrivate n \<longrightarrow> n_ID n \<noteq> [])"

text \<open>The segments of a name: what \<^verbatim>\<open>String\<close> joins.\<close>

definition name_segs :: "chan_name \<Rightarrow> string list" where
  "name_segs n = [n_App n, n_Domain n] @ (if n_ID n \<noteq> [] then [n_ID n] else [])
     @ (if n_Topic n \<noteq> [] then [n_Topic n] else [])"

lemma name_String_segs: "name_String n = n_Visibility n @ '':'' @ strings_Join (name_segs n) CHR ''.''"
  by (simp add: name_String_def name_segs_def Let_def)

lemma validate_chars_None: "validate_chars s = None \<longleftrightarrow> list_all component_char s"
  by (induction s) auto

lemma validateComponent_None [simp]: "validateComponent s = None \<longleftrightarrow> component_ok s"
  by (simp add: validateComponent_def component_ok_def validate_chars_None)

lemma validate_all_None: "validate_all ps = None \<longleftrightarrow> list_all component_ok ps"
  by (induction ps) (auto split: option.splits simp flip: validateComponent_None)

lemma component_char_not_sep: "component_char c \<Longrightarrow> c \<noteq> CHR '':'' \<and> c \<noteq> CHR ''.''"
  by (auto simp: component_char_def less_eq_char_def)

lemma component_ok_not_sep:
  "component_ok s \<Longrightarrow> CHR '':'' \<notin> set s \<and> CHR ''.'' \<notin> set s"
  by (auto simp: component_ok_def list_all_iff dest: component_char_not_sep)

lemma strings_Join_chars: "set (strings_Join ps c) \<subseteq> insert c (\<Union> (set ` set ps))"
  by (induction ps c rule: strings_Join.induct) auto

lemma wf_name_segs:
  assumes "wf_name n"
  shows "list_all component_ok (name_segs n)" "2 \<le> length (name_segs n)" "length (name_segs n) \<le> 4"
  using assms by (auto simp: wf_name_def name_segs_def)

lemma wf_segs_Split:
  assumes "list_all component_ok ps" and "ps \<noteq> []"
  shows "strings_Split CHR ''.'' (strings_Join ps CHR ''.'') = ps"
    and "CHR '':'' \<notin> set (strings_Join ps CHR ''.'')"
proof -
  show "strings_Split CHR ''.'' (strings_Join ps CHR ''.'') = ps"
    using assms by (intro strings_Split_Join) (auto simp: list_all_iff dest: component_ok_not_sep)
  show "CHR '':'' \<notin> set (strings_Join ps CHR ''.'')"
    using assms(1) strings_Join_chars [of ps "CHR ''.''"]
    by (auto simp: list_all_iff dest: component_ok_not_sep)
qed

subsection \<open>The parser on a string with a visibility prefix\<close>

definition name_of_parts :: "visibility \<Rightarrow> string list \<Rightarrow> chan_name" where
  "name_of_parts vis parts =
     \<lparr>n_Visibility = vis, n_App = parts ! 0, n_Domain = parts ! 1,
      n_ID = (if length parts \<ge> 3 then parts ! 2 else []),
      n_Topic = (if length parts = 4 then parts ! 3 else [])\<rparr>"

definition parts_ok :: "visibility \<Rightarrow> string list \<Rightarrow> bool" where
  "parts_ok vis parts \<longleftrightarrow>
     (vis = VisibilityPublic \<or> vis = VisibilityPrivate) \<and>
     2 \<le> length parts \<and> length parts \<le> 4 \<and> list_all component_ok parts \<and>
     (vis = VisibilityPrivate \<longrightarrow> 3 \<le> length parts)"

lemma nat_int_Suc [simp]: "nat (int k + 1) = Suc k"
  by simp

lemma ParseName_prefixed:
  assumes "CHR '':'' \<notin> set vis"
  shows "ParseName (vis @ CHR '':'' # rest) = Ok n \<longleftrightarrow>
     CHR '':'' \<notin> set rest \<and> parts_ok vis (strings_Split CHR ''.'' rest) \<and>
     n = name_of_parts vis (strings_Split CHR ''.'' rest)"
proof -
  let ?parts = "strings_Split CHR ''.'' rest"
  have colon: "strings_IndexByte (vis @ CHR '':'' # rest) CHR '':'' = int (length vis)"
    using assms by (rule strings_IndexByte_append)
  have vis: "vis = VisibilityPublic \<or> vis = VisibilityPrivate \<Longrightarrow> vis \<noteq> []"
    by (auto simp: go_simps)
  have ident: "list_all component_ok ?parts \<Longrightarrow> 3 \<le> length ?parts \<Longrightarrow> ?parts ! 2 \<noteq> []"
    by (auto simp: list_all_length component_ok_def)
  have short: "rest = [] \<Longrightarrow> length ?parts < 2" by simp
  show ?thesis
  proof (cases "(vis = VisibilityPublic \<or> vis = VisibilityPrivate) \<and> CHR '':'' \<notin> set rest
      \<and> 2 \<le> length ?parts \<and> length ?parts \<le> 4")
    case False
    then show ?thesis
      by (auto simp: ParseName_def colon Let_def parts_ok_def split: option.splits if_splits)
  next
    case True
    then have eq: "ParseName (vis @ CHR '':'' # rest) =
      (case validate_all ?parts of Some e \<Rightarrow> Err e | None \<Rightarrow>
         if vis = VisibilityPrivate \<and> n_ID (name_of_parts vis ?parts) = [] then
           Err (err_New ChannelInvalid ''private channels must include an id segment'')
         else Ok (name_of_parts vis ?parts))"
      using vis short
      by (auto simp: ParseName_def colon Let_def name_of_parts_def split: option.split)
    show ?thesis
      using True ident
      by (cases "validate_all ?parts")
        (auto simp: eq parts_ok_def name_of_parts_def simp flip: validate_all_None)
  qed
qed

lemma ParseName_has_prefix:
  assumes "ParseName s = Ok n"
  obtains vis rest where "s = vis @ CHR '':'' # rest" and "CHR '':'' \<notin> set vis"
proof -
  from assms have "0 \<le> strings_IndexByte s CHR '':''"
    by (auto simp: ParseName_def Let_def split: if_splits)
  from strings_IndexByte_split [OF this] that show thesis by blast
qed

subsection \<open>Names and their segments\<close>

lemma list_len_2_4:
  assumes "2 \<le> length xs" and "length xs \<le> 4"
  obtains a b where "xs = [a, b]" | a b c where "xs = [a, b, c]" | a b c d where "xs = [a, b, c, d]"
proof -
  from assms have "length xs = 2 \<or> length xs = 3 \<or> length xs = 4" by arith
  then show thesis
    using that by (auto simp: numeral_eq_Suc length_Suc_conv)
qed

lemma name_of_parts_wf:
  assumes "parts_ok vis ps"
  shows "wf_name (name_of_parts vis ps)" and "name_segs (name_of_parts vis ps) = ps"
proof -
  from assms have "2 \<le> length ps" "length ps \<le> 4" by (auto simp: parts_ok_def)
  then show "wf_name (name_of_parts vis ps)" and "name_segs (name_of_parts vis ps) = ps"
    using assms
    by (cases rule: list_len_2_4;
        auto simp: parts_ok_def name_of_parts_def name_segs_def wf_name_def IsPrivate_def component_ok_def)+
qed

lemma wf_name_parts:
  assumes "wf_name n"
  shows "parts_ok (n_Visibility n) (name_segs n)" and "name_of_parts (n_Visibility n) (name_segs n) = n"
  using assms
  by (auto simp: wf_name_def parts_ok_def name_of_parts_def name_segs_def IsPrivate_def)

lemma ParseName_print:
  assumes "wf_name n"
  shows "ParseName (name_String n) = Ok n"
proof -
  have "CHR '':'' \<notin> set (n_Visibility n)"
    using assms by (auto simp: wf_name_def go_simps)
  moreover have "name_segs n \<noteq> []" by (simp add: name_segs_def)
  ultimately show ?thesis
    using wf_name_parts [OF assms] wf_segs_Split [OF wf_name_segs(1) [OF assms]]
    by (simp add: name_String_segs ParseName_prefixed)
qed

lemma ParseName_sound:
  assumes "ParseName s = Ok n"
  shows "wf_name n" and "name_String n = s"
proof -
  from assms obtain vis rest where s: "s = vis @ CHR '':'' # rest" and vis: "CHR '':'' \<notin> set vis"
    by (rule ParseName_has_prefix)
  let ?ps = "strings_Split CHR ''.'' rest"
  from assms s vis have ok: "parts_ok vis ?ps" and n: "n = name_of_parts vis ?ps"
    by (auto simp: ParseName_prefixed)
  from name_of_parts_wf [OF ok] n show "wf_name n" by simp
  have "n_Visibility n = vis" by (simp add: n name_of_parts_def)
  with name_of_parts_wf(2) [OF ok] show "name_String n = s"
    by (simp add: name_String_segs s n)
qed

lemma name_String_inject:
  "wf_name n \<Longrightarrow> wf_name m \<Longrightarrow> name_String n = name_String m \<longleftrightarrow> n = m"
  by (metis ParseName_print sum.inject(2))

subsection \<open>Properties\<close>

text \<open>
  C37. The parser accepts a string exactly when it is the printed form of a well-formed name, and
  returns that name: parse and print are inverse, and nothing outside the grammar is accepted.
\<close>

theorem ParseName_iff: "ParseName s = Ok n \<longleftrightarrow> wf_name n \<and> name_String n = s"
  using ParseName_print ParseName_sound by metis

text \<open>
  \<^verbatim>\<open>BuildName\<close> validates the printed form but returns the components it was given: with an
  empty id and a topic it returns a private name without the required id segment, and the name it
  returns does not survive printing and parsing.
\<close>

theorem BuildName_topic_without_id:
  assumes "component_ok app" and "component_ok domain" and "component_ok topic"
  shows "\<exists>n. BuildName VisibilityPrivate app domain [] topic = Ok n \<and> IsPrivate n \<and> n_ID n = []
     \<and> \<not> wf_name n \<and> ParseName (name_String n) \<noteq> Ok n"
proof -
  let ?n = "\<lparr>n_Visibility = VisibilityPrivate, n_App = app, n_Domain = domain, n_ID = [], n_Topic = topic\<rparr>"
  let ?m = "\<lparr>n_Visibility = VisibilityPrivate, n_App = app, n_Domain = domain, n_ID = topic, n_Topic = []\<rparr>"
  from assms have wf: "wf_name ?m"
    by (auto simp: wf_name_def IsPrivate_def component_ok_def)
  have "name_String ?n = name_String ?m"
    by (simp add: name_String_def Let_def)
  with ParseName_print [OF wf] have parse: "ParseName (name_String ?n) = Ok ?m" by simp
  then have "BuildName VisibilityPrivate app domain [] topic = Ok ?n"
    by (simp add: BuildName_def Let_def)
  with parse assms(3) show ?thesis
    by (auto simp: IsPrivate_def wf_name_def component_ok_def)
qed

theorem BuildName_topic_without_id_witness:
  "component_ok ''shop'' \<and> component_ok ''order'' \<and> component_ok ''events'' \<and>
   (\<exists>n. BuildName VisibilityPrivate ''shop'' ''order'' [] ''events'' = Ok n \<and> IsPrivate n \<and> n_ID n = []
     \<and> \<not> wf_name n \<and> ParseName (name_String n) \<noteq> Ok n)"
proof -
  have "component_ok ''shop''" "component_ok ''order''" "component_ok ''events''" by code_simp+
  with BuildName_topic_without_id [OF this] show ?thesis by blast
qed

end
