(* ===== verification/ChannelStore.thy ===== *)
theory ChannelStore
  imports ChannelName
begin

text \<open>
  Channel records and the \<^verbatim>\<open>Store\<close> interface (\<^verbatim>\<open>src/channels/store.go\<close>), its in-memory
  implementation (\<^verbatim>\<open>src/channels/memory_store.go\<close>) and the abstract registry both implement.

  \<open>store_ops\<close> is the Go interface as a record of operations.  The abstract registry is a map
  from the canonical channel text to the record; \<open>reg_*\<close> are its operations.  The locale
  \<open>channel_store\<close> is the contract: an implementation with an invariant and an abstraction
  function whose operations commute with those of the registry.  Under the store's mutex each
  operation is one atomic step, so each is one function.
\<close>

subsection \<open>Data\<close>

datatype State = StateOpen | StateClosed | StateDeleted

record channel =
  c_Name :: chan_name
  c_State :: State
  c_TTL :: duration
  c_CreatedAt :: go_time
  c_LastActive :: go_time
  c_DeltaEnabled :: bool

datatype EventKind = EventOpened | EventClosed | EventDeleted

record event =
  e_Kind :: EventKind
  e_Name :: chan_name
  e_At :: go_time

text \<open>The zero \<^verbatim>\<open>Event\<close>, by which a store says that nothing is to be emitted, is \<open>None\<close>.\<close>

record 's store_ops =
  so_Get :: "chan_name \<Rightarrow> 's \<Rightarrow> channel result"
  so_List :: "'s \<Rightarrow> channel list result"
  so_IsOpen :: "chan_name \<Rightarrow> 's \<Rightarrow> bool"
  so_OpenPublic :: "chan_name \<Rightarrow> duration \<Rightarrow> go_time \<Rightarrow> 's \<Rightarrow> (channel \<times> event option) result \<times> 's"
  so_CreatePrivate :: "chan_name \<Rightarrow> duration \<Rightarrow> go_time \<Rightarrow> 's \<Rightarrow> (channel \<times> event option) result \<times> 's"
  so_Touch :: "chan_name \<Rightarrow> go_time \<Rightarrow> 's \<Rightarrow> go_error option \<times> 's"
  so_Delete :: "chan_name \<Rightarrow> go_time \<Rightarrow> 's \<Rightarrow> event option result \<times> 's"
  so_Sweep :: "go_time \<Rightarrow> 's \<Rightarrow> event list result \<times> 's"
  so_SetDelta :: "chan_name \<Rightarrow> bool \<Rightarrow> 's \<Rightarrow> go_error option \<times> 's"

subsection \<open>The in-memory store\<close>

record MemoryStore =
  ms_channels :: "(string, channel) gomap"

definition NewMemoryStore :: MemoryStore where
  "NewMemoryStore = \<lparr>ms_channels = []\<rparr>"

definition ms_put :: "string \<Rightarrow> channel \<Rightarrow> MemoryStore \<Rightarrow> MemoryStore" where
  "ms_put key ch s = s\<lparr>ms_channels := AList.update key ch (ms_channels s)\<rparr>"

definition ms_Get :: "chan_name \<Rightarrow> MemoryStore \<Rightarrow> channel result" where
  "ms_Get name s =
     (case map_of (ms_channels s) (name_String name) of
        None \<Rightarrow> Err (err_New ChannelNotFound ''no such channel'')
      | Some ch \<Rightarrow>
          if c_State ch = StateDeleted then Err (err_New ChannelNotFound ''no such channel'') else Ok ch)"

definition ms_List :: "MemoryStore \<Rightarrow> channel list result" where
  "ms_List s = Ok (map snd (ms_channels s))"

definition ms_IsOpen :: "chan_name \<Rightarrow> MemoryStore \<Rightarrow> bool" where
  "ms_IsOpen name s =
     (case map_of (ms_channels s) (name_String name) of
        None \<Rightarrow> False
      | Some ch \<Rightarrow> c_State ch = StateOpen)"

definition ms_OpenPublic ::
  "chan_name \<Rightarrow> duration \<Rightarrow> go_time \<Rightarrow> MemoryStore \<Rightarrow> (channel \<times> event option) result \<times> MemoryStore" where
  "ms_OpenPublic name ttl now s =
     (if n_Visibility name \<noteq> VisibilityPublic then
        (Err (err_New ChannelInvalid ''OpenPublic requires a public channel name''), s)
      else
        let key = name_String name in
        case map_of (ms_channels s) key of
          Some existing \<Rightarrow>
            if c_State existing = StateDeleted then
              (Err (err_New ChannelNotFound ''channel was deleted; create a new one''), s)
            else
              let wasClosed = (c_State existing = StateClosed);
                  out = existing\<lparr>c_State := StateOpen, c_LastActive := now, c_TTL := ttl\<rparr>;
                  ev = (if wasClosed then Some \<lparr>e_Kind = EventOpened, e_Name = name, e_At = now\<rparr> else None)
              in (Ok (out, ev), ms_put key out s)
        | None \<Rightarrow>
            let ch = \<lparr>c_Name = name, c_State = StateOpen, c_TTL = ttl, c_CreatedAt = now,
                      c_LastActive = now, c_DeltaEnabled = False\<rparr>
            in (Ok (ch, Some \<lparr>e_Kind = EventOpened, e_Name = name, e_At = now\<rparr>), ms_put key ch s))"

definition ms_CreatePrivate ::
  "chan_name \<Rightarrow> duration \<Rightarrow> go_time \<Rightarrow> MemoryStore \<Rightarrow> (channel \<times> event option) result \<times> MemoryStore" where
  "ms_CreatePrivate name ttl now s =
     (if n_Visibility name \<noteq> VisibilityPrivate then
        (Err (err_New ChannelInvalid ''CreatePrivate requires a private channel name''), s)
      else
        let key = name_String name in
        case map_of (ms_channels s) key of
          Some _ \<Rightarrow> (Err (err_New ChannelExists ''channel already exists''), s)
        | None \<Rightarrow>
            let ch = \<lparr>c_Name = name, c_State = StateOpen, c_TTL = ttl, c_CreatedAt = now,
                      c_LastActive = now, c_DeltaEnabled = False\<rparr>
            in (Ok (ch, Some \<lparr>e_Kind = EventOpened, e_Name = name, e_At = now\<rparr>), ms_put key ch s))"

definition ms_Touch :: "chan_name \<Rightarrow> go_time \<Rightarrow> MemoryStore \<Rightarrow> go_error option \<times> MemoryStore" where
  "ms_Touch name now s =
     (case map_of (ms_channels s) (name_String name) of
        None \<Rightarrow> (Some (err_New ChannelNotFound ''no such channel''), s)
      | Some ch \<Rightarrow>
          if c_State ch = StateDeleted then (Some (err_New ChannelNotFound ''channel deleted''), s)
          else if c_State ch = StateClosed then (Some (err_New ChannelClosed ''channel closed; reopen first''), s)
          else (None, ms_put (name_String name) (ch\<lparr>c_LastActive := now\<rparr>) s))"

definition ms_Delete :: "chan_name \<Rightarrow> go_time \<Rightarrow> MemoryStore \<Rightarrow> event option result \<times> MemoryStore" where
  "ms_Delete name now s =
     (case map_of (ms_channels s) (name_String name) of
        None \<Rightarrow> (Err (err_New ChannelNotFound ''no such channel''), s)
      | Some ch \<Rightarrow>
          let alreadyDeleted = (c_State ch = StateDeleted);
              s' = ms_put (name_String name) (ch\<lparr>c_State := StateDeleted\<rparr>) s
          in if alreadyDeleted then (Ok None, s')
             else (Ok (Some \<lparr>e_Kind = EventDeleted, e_Name = name, e_At = now\<rparr>), s'))"

definition ms_SetDelta :: "chan_name \<Rightarrow> bool \<Rightarrow> MemoryStore \<Rightarrow> go_error option \<times> MemoryStore" where
  "ms_SetDelta name enabled s =
     (case map_of (ms_channels s) (name_String name) of
        None \<Rightarrow> (Some (err_New ChannelNotFound ''no such channel''), s)
      | Some ch \<Rightarrow>
          if c_State ch = StateDeleted then (Some (err_New ChannelNotFound ''no such channel''), s)
          else (None, ms_put (name_String name) (ch\<lparr>c_DeltaEnabled := enabled\<rparr>) s))"

text \<open>The loop over the map: the events appended and the entries left behind.\<close>

fun sweep_loop :: "go_time \<Rightarrow> (string, channel) gomap \<Rightarrow> event list \<times> (string, channel) gomap" where
  "sweep_loop now [] = ([], [])"
| "sweep_loop now ((key, ch) # rest) =
     (let (events, rest') = sweep_loop now rest in
      if c_State ch \<noteq> StateOpen then (events, (key, ch) # rest')
      else if time_Sub now (c_LastActive ch) < c_TTL ch then (events, (key, ch) # rest')
      else if IsPrivate (c_Name ch) then
        (\<lparr>e_Kind = EventDeleted, e_Name = c_Name ch, e_At = now\<rparr> # events, rest')
      else
        (\<lparr>e_Kind = EventClosed, e_Name = c_Name ch, e_At = now\<rparr> # events,
         (key, ch\<lparr>c_State := StateClosed\<rparr>) # rest'))"

definition ms_Sweep :: "go_time \<Rightarrow> MemoryStore \<Rightarrow> event list result \<times> MemoryStore" where
  "ms_Sweep now s =
     (let (events, chans) = sweep_loop now (ms_channels s) in (Ok events, s\<lparr>ms_channels := chans\<rparr>))"

definition MemoryStore_ops :: "MemoryStore store_ops" where
  "MemoryStore_ops = \<lparr>so_Get = ms_Get, so_List = ms_List, so_IsOpen = ms_IsOpen,
     so_OpenPublic = ms_OpenPublic, so_CreatePrivate = ms_CreatePrivate, so_Touch = ms_Touch,
     so_Delete = ms_Delete, so_Sweep = ms_Sweep, so_SetDelta = ms_SetDelta\<rparr>"

subsection \<open>The abstract registry\<close>

type_synonym registry = "string \<rightharpoonup> channel"

definition live :: "channel option \<Rightarrow> bool" where
  "live c \<longleftrightarrow> (\<exists>ch. c = Some ch \<and> c_State ch \<noteq> StateDeleted)"

definition open_event :: "chan_name \<Rightarrow> go_time \<Rightarrow> event" where
  "open_event n now = \<lparr>e_Kind = EventOpened, e_Name = n, e_At = now\<rparr>"

definition new_channel :: "chan_name \<Rightarrow> duration \<Rightarrow> go_time \<Rightarrow> channel" where
  "new_channel n ttl now = \<lparr>c_Name = n, c_State = StateOpen, c_TTL = ttl, c_CreatedAt = now,
     c_LastActive = now, c_DeltaEnabled = False\<rparr>"

definition reg_OpenPublic ::
  "chan_name \<Rightarrow> duration \<Rightarrow> go_time \<Rightarrow> registry \<Rightarrow> (channel \<times> event option) result \<times> registry" where
  "reg_OpenPublic n ttl now m =
     (if n_Visibility n \<noteq> VisibilityPublic then
        (Err (err_New ChannelInvalid ''OpenPublic requires a public channel name''), m)
      else case m (name_String n) of
        None \<Rightarrow> (Ok (new_channel n ttl now, Some (open_event n now)), m(name_String n \<mapsto> new_channel n ttl now))
      | Some c \<Rightarrow>
          (case c_State c of
             StateDeleted \<Rightarrow> (Err (err_New ChannelNotFound ''channel was deleted; create a new one''), m)
           | st \<Rightarrow>
               let c' = c\<lparr>c_State := StateOpen, c_LastActive := now, c_TTL := ttl\<rparr> in
               (Ok (c', if st = StateClosed then Some (open_event n now) else None), m(name_String n \<mapsto> c'))))"

definition reg_CreatePrivate ::
  "chan_name \<Rightarrow> duration \<Rightarrow> go_time \<Rightarrow> registry \<Rightarrow> (channel \<times> event option) result \<times> registry" where
  "reg_CreatePrivate n ttl now m =
     (if n_Visibility n \<noteq> VisibilityPrivate then
        (Err (err_New ChannelInvalid ''CreatePrivate requires a private channel name''), m)
      else if m (name_String n) \<noteq> None then (Err (err_New ChannelExists ''channel already exists''), m)
      else (Ok (new_channel n ttl now, Some (open_event n now)), m(name_String n \<mapsto> new_channel n ttl now)))"

definition reg_Touch :: "chan_name \<Rightarrow> go_time \<Rightarrow> registry \<Rightarrow> go_error option \<times> registry" where
  "reg_Touch n now m =
     (case m (name_String n) of
        None \<Rightarrow> (Some (err_New ChannelNotFound ''no such channel''), m)
      | Some c \<Rightarrow>
          (case c_State c of
             StateOpen \<Rightarrow> (None, m(name_String n \<mapsto> c\<lparr>c_LastActive := now\<rparr>))
           | StateClosed \<Rightarrow> (Some (err_New ChannelClosed ''channel closed; reopen first''), m)
           | StateDeleted \<Rightarrow> (Some (err_New ChannelNotFound ''channel deleted''), m)))"

definition reg_Delete :: "chan_name \<Rightarrow> go_time \<Rightarrow> registry \<Rightarrow> event option result \<times> registry" where
  "reg_Delete n now m =
     (case m (name_String n) of
        None \<Rightarrow> (Err (err_New ChannelNotFound ''no such channel''), m)
      | Some c \<Rightarrow>
          (Ok (if c_State c = StateDeleted then None
               else Some \<lparr>e_Kind = EventDeleted, e_Name = n, e_At = now\<rparr>),
           m(name_String n \<mapsto> c\<lparr>c_State := StateDeleted\<rparr>)))"

definition reg_SetDelta :: "chan_name \<Rightarrow> bool \<Rightarrow> registry \<Rightarrow> go_error option \<times> registry" where
  "reg_SetDelta n b m =
     (if live (m (name_String n)) then (None, m(name_String n \<mapsto> (the (m (name_String n)))\<lparr>c_DeltaEnabled := b\<rparr>))
      else (Some (err_New ChannelNotFound ''no such channel''), m))"

text \<open>A channel has expired when it is open and idle for its TTL or longer.\<close>

definition expired :: "go_time \<Rightarrow> channel \<Rightarrow> bool" where
  "expired now c \<longleftrightarrow> c_State c = StateOpen \<and> c_TTL c \<le> time_Sub now (c_LastActive c)"

definition swept :: "go_time \<Rightarrow> channel \<Rightarrow> channel option" where
  "swept now c =
     (if \<not> expired now c then Some c
      else if IsPrivate (c_Name c) then None
      else Some (c\<lparr>c_State := StateClosed\<rparr>))"

definition sweep_event :: "go_time \<Rightarrow> channel \<Rightarrow> event" where
  "sweep_event now c =
     \<lparr>e_Kind = (if IsPrivate (c_Name c) then EventDeleted else EventClosed), e_Name = c_Name c, e_At = now\<rparr>"

definition reg_Sweep :: "go_time \<Rightarrow> registry \<Rightarrow> registry" where
  "reg_Sweep now m k = Option.bind (m k) (swept now)"

definition sweep_events :: "go_time \<Rightarrow> registry \<Rightarrow> event set" where
  "sweep_events now m = sweep_event now ` {c \<in> ran m. expired now c}"

text \<open>Every record is filed under the text of its own name.\<close>

definition keyed :: "registry \<Rightarrow> bool" where
  "keyed m \<longleftrightarrow> (\<forall>k c. m k = Some c \<longrightarrow> name_String (c_Name c) = k)"

subsection \<open>The contract of a store\<close>

locale channel_store =
  fixes ops :: "'s store_ops" and inv :: "'s \<Rightarrow> bool" and abs :: "'s \<Rightarrow> registry"
  assumes inv_keyed: "inv s \<Longrightarrow> keyed (abs s)"
    and Get: "inv s \<Longrightarrow> so_Get ops n s =
      (if live (abs s (name_String n)) then Ok (the (abs s (name_String n)))
       else Err (err_New ChannelNotFound ''no such channel''))"
    and List: "inv s \<Longrightarrow> \<exists>cs. so_List ops s = Ok cs \<and>
      {c \<in> set cs. c_State c \<noteq> StateDeleted} = {c \<in> ran (abs s). c_State c \<noteq> StateDeleted}"
    and IsOpen: "inv s \<Longrightarrow> so_IsOpen ops n s = (\<exists>c. abs s (name_String n) = Some c \<and> c_State c = StateOpen)"
    and OpenPublic: "inv s \<Longrightarrow> map_prod (\<lambda>r. r) abs (so_OpenPublic ops n ttl now s) = reg_OpenPublic n ttl now (abs s)"
    and OpenPublic_inv: "inv s \<Longrightarrow> inv (snd (so_OpenPublic ops n ttl now s))"
    and CreatePrivate: "inv s \<Longrightarrow> map_prod (\<lambda>r. r) abs (so_CreatePrivate ops n ttl now s) = reg_CreatePrivate n ttl now (abs s)"
    and CreatePrivate_inv: "inv s \<Longrightarrow> inv (snd (so_CreatePrivate ops n ttl now s))"
    and Touch: "inv s \<Longrightarrow> map_prod (\<lambda>r. r) abs (so_Touch ops n now s) = reg_Touch n now (abs s)"
    and Touch_inv: "inv s \<Longrightarrow> inv (snd (so_Touch ops n now s))"
    and Delete: "inv s \<Longrightarrow> map_prod (\<lambda>r. r) abs (so_Delete ops n now s) = reg_Delete n now (abs s)"
    and Delete_inv: "inv s \<Longrightarrow> inv (snd (so_Delete ops n now s))"
    and SetDelta: "inv s \<Longrightarrow> map_prod (\<lambda>r. r) abs (so_SetDelta ops n b s) = reg_SetDelta n b (abs s)"
    and SetDelta_inv: "inv s \<Longrightarrow> inv (snd (so_SetDelta ops n b s))"
    and Sweep: "inv s \<Longrightarrow> \<exists>evs s'. so_Sweep ops now s = (Ok evs, s') \<and> inv s' \<and>
      abs s' = reg_Sweep now (abs s) \<and> distinct evs \<and> set evs = sweep_events now (abs s)"

subsection \<open>The in-memory store fulfils the contract\<close>

definition ms_abs :: "MemoryStore \<Rightarrow> registry" where
  "ms_abs s = map_of (ms_channels s)"

definition ms_inv :: "MemoryStore \<Rightarrow> bool" where
  "ms_inv s \<longleftrightarrow> map_wf (ms_channels s) \<and> keyed (ms_abs s)"

lemma keyed_upd: "keyed m \<Longrightarrow> name_String (c_Name c) = k \<Longrightarrow> keyed (m(k \<mapsto> c))"
  by (auto simp: keyed_def)

lemma keyedD: "keyed m \<Longrightarrow> m k = Some c \<Longrightarrow> name_String (c_Name c) = k"
  by (auto simp: keyed_def)

lemma ms_abs_put [simp]: "ms_abs (ms_put k c s) = (ms_abs s)(k \<mapsto> c)"
  by (simp add: ms_abs_def ms_put_def update_conv')

lemma ms_inv_put: "ms_inv s \<Longrightarrow> name_String (c_Name c) = k \<Longrightarrow> ms_inv (ms_put k c s)"
  using ms_abs_put [of k c s]
  by (auto simp: ms_inv_def keyed_upd ms_put_def map_wf_update)

lemma ms_inv_new: "ms_inv NewMemoryStore"
  by (simp add: ms_inv_def NewMemoryStore_def keyed_def ms_abs_def)

lemma sweep_loop_fst: "fst (sweep_loop now m) = map (sweep_event now) (filter (expired now) (map snd m))"
  by (induction now m rule: sweep_loop.induct)
    (auto simp: split_beta Let_def expired_def sweep_event_def)

lemma sweep_loop_snd: "snd (sweep_loop now m) = map_bind (swept now) m"
  by (induction now m rule: sweep_loop.induct)
    (auto simp: split_beta Let_def expired_def swept_def)

lemma keyed_sweep: "keyed m \<Longrightarrow> keyed (reg_Sweep now m)"
  by (auto simp: keyed_def reg_Sweep_def swept_def bind_eq_Some_conv split: if_splits)

lemma distinct_map_filter_inj:
  "inj_on f (set xs) \<Longrightarrow> distinct xs \<Longrightarrow> distinct (map f (filter P xs))"
  by (simp add: distinct_map inj_on_def)

lemma ms_Sweep_refines:
  assumes "ms_inv s"
  shows "\<exists>evs s'. ms_Sweep now s = (Ok evs, s') \<and> ms_inv s' \<and> ms_abs s' = reg_Sweep now (ms_abs s) \<and>
    distinct evs \<and> set evs = sweep_events now (ms_abs s)"
proof -
  let ?evs = "map (sweep_event now) (filter (expired now) (map snd (ms_channels s)))"
  let ?s' = "s\<lparr>ms_channels := map_bind (swept now) (ms_channels s)\<rparr>"
  have wf: "map_wf (ms_channels s)" and keyed: "keyed (ms_abs s)" using assms by (auto simp: ms_inv_def)
  have abs: "ms_abs ?s' = reg_Sweep now (ms_abs s)"
    by (rule ext) (simp add: ms_abs_def reg_Sweep_def map_of_bind wf)
  have own: "k = name_String (c_Name c)" if "(k, c) \<in> set (ms_channels s)" for k c
    using keyedD [OF keyed, of k c] map_of_is_SomeI [OF wf that] by (simp add: ms_abs_def)
  have "inj_on (sweep_event now) (snd ` set (ms_channels s))"
  proof (rule inj_onI)
    fix c c' assume "c \<in> snd ` set (ms_channels s)" "c' \<in> snd ` set (ms_channels s)"
      and "sweep_event now c = sweep_event now c'"
    then obtain k k' where "(k, c) \<in> set (ms_channels s)" "(k', c') \<in> set (ms_channels s)"
      and "c_Name c = c_Name c'"
      by (auto simp: sweep_event_def)
    with own have "(k, c) \<in> set (ms_channels s)" "(k, c') \<in> set (ms_channels s)" by metis+
    then show "c = c'" using eq_key_imp_eq_value [OF wf] by blast
  qed
  moreover have "distinct (map snd (ms_channels s))"
    using wf by (auto simp: distinct_map intro!: inj_onI) (metis own)
  ultimately have "distinct ?evs"
    by (simp add: distinct_map_filter_inj)
  moreover have "set ?evs = sweep_events now (ms_abs s)"
    using wf by (auto simp: sweep_events_def ms_abs_def ran_map_of)
  moreover have "ms_inv ?s'"
    using wf keyed_sweep [OF keyed] by (simp add: ms_inv_def abs)
  moreover have "ms_Sweep now s = (Ok ?evs, ?s')"
    by (simp add: ms_Sweep_def split_beta sweep_loop_fst sweep_loop_snd)
  ultimately show ?thesis using abs by blast
qed

lemmas ms_defs = ms_Get_def ms_List_def ms_IsOpen_def ms_OpenPublic_def ms_CreatePrivate_def ms_Touch_def
  ms_Delete_def ms_SetDelta_def

lemmas reg_defs = reg_OpenPublic_def reg_CreatePrivate_def reg_Touch_def reg_Delete_def reg_SetDelta_def

lemma ms_inv_update:
  "ms_inv s \<Longrightarrow> map_of (ms_channels s) k = Some c \<Longrightarrow> c_Name c' = c_Name c \<Longrightarrow> ms_inv (ms_put k c' s)"
  by (rule ms_inv_put) (auto simp: ms_inv_def ms_abs_def dest: keyedD)

interpretation mem: channel_store MemoryStore_ops ms_inv ms_abs
proof
  fix s :: MemoryStore and n ttl now b
  assume inv: "ms_inv s"
  have look: "ms_abs s = map_of (ms_channels s)" by (simp add: ms_abs_def)
  note facts = MemoryStore_ops_def ms_defs reg_defs Let_def live_def new_channel_def open_event_def
  note splits = option.split State.split
  show "keyed (ms_abs s)" using inv by (simp add: ms_inv_def)
  show "so_Get MemoryStore_ops n s =
      (if live (ms_abs s (name_String n)) then Ok (the (ms_abs s (name_String n)))
       else Err (err_New ChannelNotFound ''no such channel''))"
    by (auto simp: facts look split: splits)
  show "\<exists>cs. so_List MemoryStore_ops s = Ok cs \<and>
      {c \<in> set cs. c_State c \<noteq> StateDeleted} = {c \<in> ran (ms_abs s). c_State c \<noteq> StateDeleted}"
    using inv by (simp add: facts look ran_map_of ms_inv_def)
  show "so_IsOpen MemoryStore_ops n s = (\<exists>c. ms_abs s (name_String n) = Some c \<and> c_State c = StateOpen)"
    by (auto simp: facts look split: splits)
  show "map_prod (\<lambda>r. r) ms_abs (so_OpenPublic MemoryStore_ops n ttl now s) = reg_OpenPublic n ttl now (ms_abs s)"
    by (auto simp: facts look split: splits)
  show "map_prod (\<lambda>r. r) ms_abs (so_CreatePrivate MemoryStore_ops n ttl now s) = reg_CreatePrivate n ttl now (ms_abs s)"
    by (auto simp: facts look split: splits)
  show "map_prod (\<lambda>r. r) ms_abs (so_Touch MemoryStore_ops n now s) = reg_Touch n now (ms_abs s)"
    by (auto simp: facts look split: splits)
  show "map_prod (\<lambda>r. r) ms_abs (so_Delete MemoryStore_ops n now s) = reg_Delete n now (ms_abs s)"
    by (auto simp: facts look split: splits)
  show "map_prod (\<lambda>r. r) ms_abs (so_SetDelta MemoryStore_ops n b s) = reg_SetDelta n b (ms_abs s)"
    by (auto simp: facts look split: splits)
  show "ms_inv (snd (so_OpenPublic MemoryStore_ops n ttl now s))"
    "ms_inv (snd (so_CreatePrivate MemoryStore_ops n ttl now s))"
    "ms_inv (snd (so_Touch MemoryStore_ops n now s))" "ms_inv (snd (so_Delete MemoryStore_ops n now s))"
    "ms_inv (snd (so_SetDelta MemoryStore_ops n b s))"
    using inv by (auto simp: facts intro: ms_inv_put ms_inv_update split: option.splits)
  show "\<exists>evs s'. so_Sweep MemoryStore_ops now s = (Ok evs, s') \<and> ms_inv s' \<and>
      ms_abs s' = reg_Sweep now (ms_abs s) \<and> distinct evs \<and> set evs = sweep_events now (ms_abs s)"
    using ms_Sweep_refines [OF inv] by (simp add: MemoryStore_ops_def)
qed

end
