(* ===== verification/ChannelManager.thy ===== *)
theory ChannelManager
  imports ChannelStore
begin

text \<open>
  The channel manager of \<^verbatim>\<open>src/channels/manager.go\<close> over any implementation of \<^verbatim>\<open>Store\<close>.

  \<open>manager\<close> is the Go struct: the store, the subscribers as bounded buffers, the event bus as
  the list of events handed to its \<^verbatim>\<open>Publish\<close> (\<open>None\<close> when no bus is configured) and the sweep
  callback as the list of its calls.  The clock reading \<^verbatim>\<open>m.now()\<close> is an argument.
  \<open>mgr_step\<close> interleaves the operations; \<open>reg_step\<close> is the same system over the abstract
  registry.  Every manager step over a store that fulfils \<open>channel_store\<close> is a registry step, so
  the invariants are proved on the registry once and hold for each store.
\<close>

definition MaxPrivateTTL :: duration where [go_simps]: "MaxPrivateTTL = 1 * hour"
definition DefaultPublicTTL :: duration where [go_simps]: "DefaultPublicTTL = 30 * minute"

record subscriber =
  sub_cap :: nat
  sub_buf :: "event list"

record 's manager =
  m_store :: 's
  m_subs :: "subscriber list"
  m_bus :: "event list option"
  m_onSweep :: "channel list list option"

definition NewManagerWithStore :: "'s \<Rightarrow> 's manager" where
  "NewManagerWithStore s = \<lparr>m_store = s, m_subs = [], m_bus = None, m_onSweep = None\<rparr>"

definition NewManager :: "MemoryStore manager" where
  "NewManager = NewManagerWithStore NewMemoryStore"

definition SetEventBus :: "event list option \<Rightarrow> 's manager \<Rightarrow> 's manager" where
  "SetEventBus b m = m\<lparr>m_bus := b\<rparr>"

definition SetOnSweep :: "channel list list option \<Rightarrow> 's manager \<Rightarrow> 's manager" where
  "SetOnSweep cb m = m\<lparr>m_onSweep := cb\<rparr>"

definition mgr_Subscribe :: "subscriber \<Rightarrow> 's manager \<Rightarrow> 's manager" where
  "mgr_Subscribe ch m = m\<lparr>m_subs := m_subs m @ [ch]\<rparr>"

text \<open>A send that does not block: the event is dropped when the buffer is full.\<close>

definition try_send :: "event \<Rightarrow> subscriber \<Rightarrow> subscriber" where
  "try_send ev ch = (if length (sub_buf ch) < sub_cap ch then ch\<lparr>sub_buf := sub_buf ch @ [ev]\<rparr> else ch)"

definition emitLocal :: "event option \<Rightarrow> 's manager \<Rightarrow> 's manager" where
  "emitLocal ev m = (case ev of None \<Rightarrow> m | Some e \<Rightarrow> m\<lparr>m_subs := map (try_send e) (m_subs m)\<rparr>)"

definition emit :: "event option \<Rightarrow> 's manager \<Rightarrow> 's manager" where
  "emit ev m =
     (case ev of None \<Rightarrow> m
      | Some e \<Rightarrow>
          let m = emitLocal ev m in
          case m_bus m of None \<Rightarrow> m | Some sent \<Rightarrow> m\<lparr>m_bus := Some (sent @ [e])\<rparr>)"

definition mgr_OpenPublic ::
  "'s store_ops \<Rightarrow> chan_name \<Rightarrow> duration \<Rightarrow> go_time \<Rightarrow> 's manager \<Rightarrow> channel result \<times> 's manager" where
  "mgr_OpenPublic ops name ttl now m =
     (let ttl = (if ttl = 0 then DefaultPublicTTL else ttl) in
      case so_OpenPublic ops name ttl now (m_store m) of
        (Err e, s) \<Rightarrow> (Err e, m\<lparr>m_store := s\<rparr>)
      | (Ok (ch, ev), s) \<Rightarrow> (Ok ch, emit ev (m\<lparr>m_store := s\<rparr>)))"

definition mgr_CreatePrivate ::
  "'s store_ops \<Rightarrow> chan_name \<Rightarrow> duration \<Rightarrow> go_time \<Rightarrow> 's manager \<Rightarrow> channel result \<times> 's manager" where
  "mgr_CreatePrivate ops name ttl now m =
     (let ttl = (if ttl \<le> 0 then 15 * minute else ttl) in
      if ttl > MaxPrivateTTL then
        (Err (err_New ChannelTTLExceeds ''private channel TTL must be <= 1h''), m)
      else
        case so_CreatePrivate ops name ttl now (m_store m) of
          (Err e, s) \<Rightarrow> (Err e, m\<lparr>m_store := s\<rparr>)
        | (Ok (ch, ev), s) \<Rightarrow> (Ok ch, emit ev (m\<lparr>m_store := s\<rparr>)))"

definition mgr_Touch :: "'s store_ops \<Rightarrow> chan_name \<Rightarrow> go_time \<Rightarrow> 's manager \<Rightarrow> go_error option \<times> 's manager" where
  "mgr_Touch ops name now m =
     (case so_Touch ops name now (m_store m) of (err, s) \<Rightarrow> (err, m\<lparr>m_store := s\<rparr>))"

definition mgr_Delete :: "'s store_ops \<Rightarrow> chan_name \<Rightarrow> go_time \<Rightarrow> 's manager \<Rightarrow> go_error option \<times> 's manager" where
  "mgr_Delete ops name now m =
     (case so_Delete ops name now (m_store m) of
        (Err e, s) \<Rightarrow> (Some e, m\<lparr>m_store := s\<rparr>)
      | (Ok ev, s) \<Rightarrow> (None, emit ev (m\<lparr>m_store := s\<rparr>)))"

definition mgr_IsOpen :: "'s store_ops \<Rightarrow> chan_name \<Rightarrow> 's manager \<Rightarrow> bool" where
  "mgr_IsOpen ops name m = so_IsOpen ops name (m_store m)"

definition mgr_SetDelta :: "'s store_ops \<Rightarrow> chan_name \<Rightarrow> bool \<Rightarrow> 's manager \<Rightarrow> go_error option \<times> 's manager" where
  "mgr_SetDelta ops name enabled m =
     (case so_SetDelta ops name enabled (m_store m) of (err, s) \<Rightarrow> (err, m\<lparr>m_store := s\<rparr>))"

definition mgr_Get :: "'s store_ops \<Rightarrow> chan_name \<Rightarrow> 's manager \<Rightarrow> channel result" where
  "mgr_Get ops name m = so_Get ops name (m_store m)"

definition mgr_IsDelta :: "'s store_ops \<Rightarrow> chan_name \<Rightarrow> 's manager \<Rightarrow> bool" where
  "mgr_IsDelta ops name m =
     (case so_Get ops name (m_store m) of Err _ \<Rightarrow> False | Ok ch \<Rightarrow> c_DeltaEnabled ch)"

definition mgr_List :: "'s store_ops \<Rightarrow> 's manager \<Rightarrow> channel list" where
  "mgr_List ops m = (case so_List ops (m_store m) of Err _ \<Rightarrow> [] | Ok out \<Rightarrow> out)"

definition fireSweepCallback :: "'s store_ops \<Rightarrow> 's manager \<Rightarrow> 's manager" where
  "fireSweepCallback ops m =
     (case m_onSweep m of None \<Rightarrow> m | Some calls \<Rightarrow> m\<lparr>m_onSweep := Some (calls @ [mgr_List ops m])\<rparr>)"

definition mgr_Sweep :: "'s store_ops \<Rightarrow> go_time \<Rightarrow> 's manager \<Rightarrow> nat \<times> 's manager" where
  "mgr_Sweep ops now m =
     (case so_Sweep ops now (m_store m) of
        (Err e, s) \<Rightarrow> (0, m\<lparr>m_store := s\<rparr>)
      | (Ok events, s) \<Rightarrow>
          (length events, fireSweepCallback ops (fold (\<lambda>ev. emit (Some ev)) events (m\<lparr>m_store := s\<rparr>))))"

subsection \<open>The system of interleaved operations\<close>

text \<open>
  A configuration is the clock and the manager; the clock does not run backwards.  \<open>recv\<close> is a
  subscriber taking the head of its buffer, \<open>remote\<close> an event that \<^verbatim>\<open>RunEventBus\<close> fans in.
\<close>

inductive mgr_step :: "'s store_ops \<Rightarrow> go_time \<times> 's manager \<Rightarrow> go_time \<times> 's manager \<Rightarrow> bool" for ops where
  open_public: "t \<le> t' \<Longrightarrow> mgr_step ops (t, m) (t', snd (mgr_OpenPublic ops n ttl t' m))"
| create_private: "t \<le> t' \<Longrightarrow> mgr_step ops (t, m) (t', snd (mgr_CreatePrivate ops n ttl t' m))"
| touch: "t \<le> t' \<Longrightarrow> mgr_step ops (t, m) (t', snd (mgr_Touch ops n t' m))"
| delete: "t \<le> t' \<Longrightarrow> mgr_step ops (t, m) (t', snd (mgr_Delete ops n t' m))"
| set_delta: "t \<le> t' \<Longrightarrow> mgr_step ops (t, m) (t', snd (mgr_SetDelta ops n b m))"
| sweep: "t \<le> t' \<Longrightarrow> mgr_step ops (t, m) (t', snd (mgr_Sweep ops t' m))"
| subscribe: "t \<le> t' \<Longrightarrow> mgr_step ops (t, m) (t', mgr_Subscribe ch m)"
| recv: "t \<le> t' \<Longrightarrow> i < length (m_subs m) \<Longrightarrow>
    mgr_step ops (t, m) (t', m\<lparr>m_subs := (m_subs m)[i := (m_subs m ! i)\<lparr>sub_buf := tl (sub_buf (m_subs m ! i))\<rparr>]\<rparr>)"
| remote: "t \<le> t' \<Longrightarrow> mgr_step ops (t, m) (t', emitLocal (Some ev) m)"

text \<open>The events a result asks the manager to emit.\<close>

definition asked :: "(channel \<times> event option) result \<Rightarrow> event list" where
  "asked r = (case r of Ok (c, Some e) \<Rightarrow> [e] | _ \<Rightarrow> [])"

inductive reg_step :: "go_time \<times> registry \<times> event list \<Rightarrow> go_time \<times> registry \<times> event list \<Rightarrow> bool" where
  rs_open: "t \<le> t' \<Longrightarrow> reg_OpenPublic n ttl t' m = (r, m') \<Longrightarrow> reg_step (t, m, log) (t', m', log @ asked r)"
| rs_create: "t \<le> t' \<Longrightarrow> 0 < ttl \<Longrightarrow> ttl \<le> MaxPrivateTTL \<Longrightarrow> reg_CreatePrivate n ttl t' m = (r, m') \<Longrightarrow>
    reg_step (t, m, log) (t', m', log @ asked r)"
| rs_touch: "t \<le> t' \<Longrightarrow> reg_Touch n t' m = (r, m') \<Longrightarrow> reg_step (t, m, log) (t', m', log)"
| rs_delete: "t \<le> t' \<Longrightarrow> reg_Delete n t' m = (Err e, m') \<Longrightarrow> reg_step (t, m, log) (t', m', log)"
| rs_deleted: "t \<le> t' \<Longrightarrow> reg_Delete n t' m = (Ok ev, m') \<Longrightarrow>
    reg_step (t, m, log) (t', m', log @ (case ev of None \<Rightarrow> [] | Some e \<Rightarrow> [e]))"
| rs_delta: "t \<le> t' \<Longrightarrow> reg_SetDelta n b m = (r, m') \<Longrightarrow> reg_step (t, m, log) (t', m', log)"
| rs_sweep: "t \<le> t' \<Longrightarrow> distinct evs \<Longrightarrow> set evs = sweep_events t' m \<Longrightarrow>
    reg_step (t, m, log) (t', reg_Sweep t' m, log @ evs)"
| rs_idle: "t \<le> t' \<Longrightarrow> reg_step (t, m, log) (t', m, log)"

subsection \<open>Emission\<close>

lemma emit_fields [simp]:
  "m_store (emit ev m) = m_store m"
  "m_bus (emit ev m) = map_option (\<lambda>l. l @ (case ev of None \<Rightarrow> [] | Some e \<Rightarrow> [e])) (m_bus m)"
  "m_onSweep (emit ev m) = m_onSweep m"
  "m_subs (emit ev m) = (case ev of None \<Rightarrow> m_subs m | Some e \<Rightarrow> map (try_send e) (m_subs m))"
  by (auto simp: emit_def emitLocal_def Let_def option.map_ident split: option.split)

lemma emitLocal_fields [simp]:
  "m_store (emitLocal ev m) = m_store m" "m_bus (emitLocal ev m) = m_bus m"
  by (auto simp: emitLocal_def split: option.split)

lemma emit_fold_fields [simp]:
  "m_store (fold (\<lambda>ev. emit (Some ev)) evs m) = m_store m"
  "m_bus (fold (\<lambda>ev. emit (Some ev)) evs m) = map_option (\<lambda>l. l @ evs) (m_bus m)"
  "m_subs (fold (\<lambda>ev. emit (Some ev)) evs m) = fold (\<lambda>ev. map (try_send ev)) evs (m_subs m)"
  by (induction evs arbitrary: m) (auto simp: option.map_comp comp_def option.map_ident)

lemma fireSweep_fields [simp]:
  "m_store (fireSweepCallback ops m) = m_store m" "m_bus (fireSweepCallback ops m) = m_bus m"
  "m_subs (fireSweepCallback ops m) = m_subs m"
  by (auto simp: fireSweepCallback_def split: option.split)

subsection \<open>Manager steps are registry steps\<close>

context channel_store
begin

definition simulated :: "go_time \<times> 's manager \<Rightarrow> go_time \<times> 's manager \<Rightarrow> event list \<Rightarrow> bool" where
  "simulated c c' evs \<longleftrightarrow> inv (m_store (snd c')) \<and>
     m_bus (snd c') = map_option (\<lambda>l. l @ evs) (m_bus (snd c)) \<and>
     (\<forall>log. reg_step (fst c, abs (m_store (snd c)), log) (fst c', abs (m_store (snd c')), log @ evs))"

lemma refine:
  assumes "map_prod (\<lambda>r. r) abs (f s) = g (abs s)"
  shows "g (abs s) = (fst (f s), abs (snd (f s)))"
  using assms [symmetric] by (cases "f s") simp

lemma sim_open:
  assumes "inv (m_store m)" "t \<le> t'"
  shows "\<exists>evs. simulated (t, m) (t', snd (mgr_OpenPublic ops n ttl t' m)) evs"
proof -
  let ?ttl = "if ttl = 0 then DefaultPublicTTL else ttl"
  obtain r s where f: "so_OpenPublic ops n ?ttl t' (m_store m) = (r, s)" by (cases "so_OpenPublic ops n ?ttl t' (m_store m)")
  then have "reg_OpenPublic n ?ttl t' (abs (m_store m)) = (r, abs s)" and "inv s"
    using OpenPublic [OF assms(1), of n ?ttl t'] OpenPublic_inv [OF assms(1), of n ?ttl t'] by auto
  then have "simulated (t, m) (t', snd (mgr_OpenPublic ops n ttl t' m)) (asked r)"
    using f assms(2) rs_open [OF assms(2), of n ?ttl "abs (m_store m)" r "abs s"]
    by (auto simp: simulated_def mgr_OpenPublic_def Let_def asked_def option.map_ident split: sum.splits option.splits)
  then show ?thesis by blast
qed

lemma sim_create:
  assumes "inv (m_store m)" "t \<le> t'"
  shows "\<exists>evs. simulated (t, m) (t', snd (mgr_CreatePrivate ops n ttl t' m)) evs"
proof (cases "(if ttl \<le> 0 then 15 * minute else ttl) > MaxPrivateTTL")
  case True
  then have "simulated (t, m) (t', snd (mgr_CreatePrivate ops n ttl t' m)) []"
    using assms rs_idle [OF assms(2)]
    by (simp add: simulated_def mgr_CreatePrivate_def Let_def option.map_ident)
  then show ?thesis by blast
next
  case False
  define d where "d = (if ttl \<le> 0 then 15 * minute else ttl)"
  obtain r s where f: "so_CreatePrivate ops n d t' (m_store m) = (r, s)" by (cases "so_CreatePrivate ops n d t' (m_store m)")
  have d: "0 < d" "d \<le> MaxPrivateTTL" using False by (auto simp: d_def)
  have "reg_CreatePrivate n d t' (abs (m_store m)) = (r, abs s)" and "inv s"
    using f CreatePrivate [OF assms(1), of n d t'] CreatePrivate_inv [OF assms(1), of n d t'] by auto
  then have "simulated (t, m) (t', snd (mgr_CreatePrivate ops n ttl t' m)) (asked r)"
    using f d rs_create [OF assms(2) d, of n "abs (m_store m)" r "abs s"]
    by (auto simp: simulated_def mgr_CreatePrivate_def d_def [symmetric] Let_def asked_def option.map_ident
        split: sum.splits option.splits)
  then show ?thesis by blast
qed

lemma sim_touch:
  assumes "inv (m_store m)" "t \<le> t'"
  shows "simulated (t, m) (t', snd (mgr_Touch ops n t' m)) []"
  using refine [where f = "so_Touch ops n t'" and g = "reg_Touch n t'", OF Touch [OF assms(1)]] Touch_inv [OF assms(1), of n t']
    rs_touch [OF assms(2)]
  by (simp add: simulated_def mgr_Touch_def split_beta option.map_ident)

lemma sim_set_delta:
  assumes "inv (m_store m)" "t \<le> t'"
  shows "simulated (t, m) (t', snd (mgr_SetDelta ops n b m)) []"
  using refine [where f = "so_SetDelta ops n b" and g = "reg_SetDelta n b", OF SetDelta [OF assms(1)]]
    SetDelta_inv [OF assms(1), of n b] rs_delta [OF assms(2)]
  by (simp add: simulated_def mgr_SetDelta_def split_beta option.map_ident)

lemma sim_delete:
  assumes "inv (m_store m)" "t \<le> t'"
  shows "\<exists>evs. simulated (t, m) (t', snd (mgr_Delete ops n t' m)) evs"
proof -
  obtain r s where f: "so_Delete ops n t' (m_store m) = (r, s)" by (cases "so_Delete ops n t' (m_store m)")
  then have reg: "reg_Delete n t' (abs (m_store m)) = (r, abs s)" and "inv s"
    using Delete [OF assms(1), of n t'] Delete_inv [OF assms(1), of n t'] by auto
  then have "simulated (t, m) (t', snd (mgr_Delete ops n t' m)) (case r of Ok (Some e) \<Rightarrow> [e] | _ \<Rightarrow> [])"
    using f rs_delete [OF assms(2), of n "abs (m_store m)"] rs_deleted [OF assms(2), of n "abs (m_store m)"]
    by (cases r) (fastforce simp: simulated_def mgr_Delete_def option.map_ident split: option.splits)+
  then show ?thesis by blast
qed

lemma sim_sweep:
  assumes "inv (m_store m)" "t \<le> t'"
  shows "\<exists>evs. simulated (t, m) (t', snd (mgr_Sweep ops t' m)) evs"
proof -
  obtain evs s where "so_Sweep ops t' (m_store m) = (Ok evs, s)" "inv s"
    "abs s = reg_Sweep t' (abs (m_store m))" "distinct evs" "set evs = sweep_events t' (abs (m_store m))"
    using Sweep [OF assms(1)] by blast
  then have "simulated (t, m) (t', snd (mgr_Sweep ops t' m)) evs"
    using rs_sweep [OF assms(2)] by (simp add: simulated_def mgr_Sweep_def)
  then show ?thesis by blast
qed

lemma sim_step: "mgr_step ops c c' \<Longrightarrow> inv (m_store (snd c)) \<Longrightarrow> \<exists>evs. simulated c c' evs"
proof (induction rule: mgr_step.induct)
  case (touch t t' m n)
  then show ?case using sim_touch by fastforce
next
  case (set_delta t t' m n b)
  then show ?case using sim_set_delta by fastforce
qed (auto simp: sim_open sim_create sim_delete sim_sweep simulated_def mgr_Subscribe_def option.map_ident
     intro!: exI [of _ "[]"] rs_idle)

lemma sim_steps:
  assumes "(mgr_step ops)\<^sup>*\<^sup>* c c'" and "inv (m_store (snd c))"
  shows "\<exists>evs. inv (m_store (snd c')) \<and> m_bus (snd c') = map_option (\<lambda>l. l @ evs) (m_bus (snd c)) \<and>
    reg_step\<^sup>*\<^sup>* (fst c, abs (m_store (snd c)), log) (fst c', abs (m_store (snd c')), log @ evs)"
  using assms(1)
proof (induction rule: rtranclp_induct)
  case base
  then show ?case using assms(2) by (auto simp: option.map_ident intro!: exI [of _ "[]"])
next
  case (step c' c'')
  then obtain evs where IH: "inv (m_store (snd c'))" "m_bus (snd c') = map_option (\<lambda>l. l @ evs) (m_bus (snd c))"
    "reg_step\<^sup>*\<^sup>* (fst c, abs (m_store (snd c)), log) (fst c', abs (m_store (snd c')), log @ evs)" by blast
  with sim_step [OF step.hyps(2)] obtain evs' where "simulated c' c'' evs'" by blast
  then have "reg_step (fst c', abs (m_store (snd c')), log @ evs) (fst c'', abs (m_store (snd c'')), (log @ evs) @ evs')"
    and "inv (m_store (snd c''))" and "m_bus (snd c'') = map_option (\<lambda>l. l @ evs') (m_bus (snd c'))"
    by (auto simp: simulated_def simp del: append_assoc)
  then show ?case
    using IH rtranclp.rtrancl_into_rtrancl [OF IH(3)]
    by (intro exI [of _ "evs @ evs'"]) (simp add: option.map_comp comp_def)
qed

end

subsection \<open>Invariants of the registry\<close>

lemma name_String_visibility:
  assumes "name_String a = name_String b"
    and "n_Visibility a = VisibilityPublic \<or> n_Visibility a = VisibilityPrivate"
    and "n_Visibility b = VisibilityPublic \<or> n_Visibility b = VisibilityPrivate"
  shows "n_Visibility a = n_Visibility b"
  using assms by (auto simp: name_String_segs go_simps)

definition channel_ok :: "go_time \<Rightarrow> channel \<Rightarrow> bool" where
  "channel_ok now c \<longleftrightarrow>
     (n_Visibility (c_Name c) = VisibilityPublic \<or> n_Visibility (c_Name c) = VisibilityPrivate) \<and>
     (IsPrivate (c_Name c) \<longrightarrow> 0 < c_TTL c \<and> c_TTL c \<le> MaxPrivateTTL \<and> c_State c \<noteq> StateClosed) \<and>
     c_CreatedAt c \<le> c_LastActive c \<and> c_LastActive c \<le> now"

definition reg_ok :: "go_time \<Rightarrow> registry \<Rightarrow> bool" where
  "reg_ok now m \<longleftrightarrow> (\<forall>k c. m k = Some c \<longrightarrow> name_String (c_Name c) = k \<and> channel_ok now c)"

definition open_keys :: "registry \<Rightarrow> string set" where
  "open_keys m = {k. \<exists>c. m k = Some c \<and> c_State c = StateOpen}"

fun replay :: "event list \<Rightarrow> string set \<Rightarrow> string set" where
  "replay [] S = S"
| "replay (e # es) S =
     replay es (if e_Kind e = EventOpened then insert (name_String (e_Name e)) S else S - {name_String (e_Name e)})"

lemma channel_ok_mono: "channel_ok t c \<Longrightarrow> t \<le> t' \<Longrightarrow> channel_ok t' c"
  by (auto simp: channel_ok_def)

lemma reg_ok_mono: "reg_ok t m \<Longrightarrow> t \<le> t' \<Longrightarrow> reg_ok t' m"
  by (auto simp: reg_ok_def intro: channel_ok_mono)

lemma reg_ok_upd: "reg_ok t m \<Longrightarrow> name_String (c_Name c) = k \<Longrightarrow> channel_ok t c \<Longrightarrow> reg_ok t (m(k \<mapsto> c))"
  by (auto simp: reg_ok_def)

lemma reg_ok_public:
  assumes "reg_ok t m" and "m (name_String n) = Some c" and "n_Visibility n = VisibilityPublic"
  shows "n_Visibility (c_Name c) = VisibilityPublic"
  using assms name_String_visibility [of "c_Name c" n] by (auto simp: reg_ok_def channel_ok_def)

lemma public_not_private [simp]: "n_Visibility n = VisibilityPublic \<Longrightarrow> \<not> IsPrivate n"
  by (simp add: IsPrivate_def go_simps)

lemma reg_okD: "reg_ok t m \<Longrightarrow> m k = Some c \<Longrightarrow> name_String (c_Name c) = k \<and> channel_ok t c"
  by (auto simp: reg_ok_def)

lemma swept_ok: "swept now c = Some c' \<Longrightarrow> channel_ok t c \<Longrightarrow> channel_ok t c' \<and> c_Name c' = c_Name c"
  by (auto simp: swept_def channel_ok_def split: if_splits)

lemma reg_ok_step:
  "reg_step c c' \<Longrightarrow> reg_ok (fst c) (fst (snd c)) \<Longrightarrow> reg_ok (fst c') (fst (snd c'))"
proof (induction rule: reg_step.induct)
  case (rs_open t t' n ttl m r m' log)
  then have ok: "reg_ok t' m" using reg_ok_mono by fastforce
  have reopened: "reg_ok t' (m(name_String n \<mapsto> c\<lparr>c_State := StateOpen, c_LastActive := t', c_TTL := ttl\<rparr>))"
    if "m (name_String n) = Some c" and "n_Visibility n = VisibilityPublic" for c
    using reg_okD [OF ok that(1)] reg_ok_public [OF ok that]
    by (intro reg_ok_upd [OF ok]) (auto simp: channel_ok_def)
  have created: "reg_ok t' (m(name_String n \<mapsto> new_channel n ttl t'))" if "n_Visibility n = VisibilityPublic"
    using that by (intro reg_ok_upd [OF ok]) (auto simp: new_channel_def channel_ok_def)
  from rs_open ok show ?case
    by (auto simp: reg_OpenPublic_def Let_def reopened created split: if_splits option.splits State.splits)
next
  case (rs_create t t' ttl n m r m' log)
  then show ?case
    using reg_ok_mono [of t m t'] by (auto simp: reg_CreatePrivate_def new_channel_def channel_ok_def
        intro!: reg_ok_upd split: if_splits)
next
  case (rs_touch t t' n m r m' log)
  then show ?case
    using reg_ok_mono [of t m t']
    by (auto simp: reg_Touch_def channel_ok_def intro!: reg_ok_upd dest: reg_okD split: option.splits State.splits)
next
  case (rs_delete t t' n m e m' log)
  then show ?case using reg_ok_mono [of t m t'] by (auto simp: reg_Delete_def split: option.splits)
next
  case (rs_deleted t t' n m ev m' log)
  then show ?case
    using reg_ok_mono [of t m t']
    by (auto simp: reg_Delete_def channel_ok_def intro!: reg_ok_upd dest: reg_okD split: option.splits)
next
  case (rs_delta t t' n b m r m' log)
  then show ?case
    using reg_ok_mono [of t m t']
    by (auto simp: reg_SetDelta_def live_def channel_ok_def intro!: reg_ok_upd dest: reg_okD split: if_splits)
next
  case (rs_sweep t t' evs m log)
  then show ?case
    using reg_ok_mono [of t m t']
    by (fastforce simp: reg_ok_def reg_Sweep_def bind_eq_Some_conv dest: swept_ok)
next
  case (rs_idle t t' m log)
  then show ?case using reg_ok_mono by fastforce
qed

subsection \<open>The event log determines the open channels\<close>

lemma replay_append: "replay (xs @ ys) S = replay ys (replay xs S)"
  by (induction xs arbitrary: S) auto

lemma replay_closing:
  "(\<And>e. e \<in> set es \<Longrightarrow> e_Kind e \<noteq> EventOpened) \<Longrightarrow> replay es S = S - (\<lambda>e. name_String (e_Name e)) ` set es"
  by (induction es arbitrary: S) auto

lemma open_keys_upd:
  "open_keys (m(k \<mapsto> c)) = (if c_State c = StateOpen then insert k (open_keys m) else open_keys m - {k})"
  by (auto simp: open_keys_def)

lemma open_keys_sweep:
  assumes "reg_ok t m"
  shows "open_keys (reg_Sweep now m) = open_keys m - (\<lambda>e. name_String (e_Name e)) ` sweep_events now m"
proof -
  have keys: "(\<lambda>e. name_String (e_Name e)) ` sweep_events now m = {k. \<exists>c. m k = Some c \<and> expired now c}"
    using assms by (fastforce simp: sweep_events_def sweep_event_def ran_def reg_ok_def image_iff)
  have "(\<exists>c. reg_Sweep now m k = Some c \<and> c_State c = StateOpen) \<longleftrightarrow>
      (\<exists>c. m k = Some c \<and> c_State c = StateOpen \<and> \<not> expired now c)" for k
    by (cases "m k") (auto simp: reg_Sweep_def swept_def)
  then show ?thesis
    unfolding keys by (auto simp: open_keys_def)
qed

definition log_ok :: "go_time \<times> registry \<times> event list \<Rightarrow> bool" where
  "log_ok c \<longleftrightarrow> reg_ok (fst c) (fst (snd c)) \<and> replay (snd (snd c)) {} = open_keys (fst (snd c))"

lemma log_ok_step: "reg_step c c' \<Longrightarrow> log_ok c \<Longrightarrow> log_ok c'"
proof (unfold log_ok_def, intro conjI, use reg_ok_step in blast, induction rule: reg_step.induct)
  case (rs_sweep t t' evs m log)
  then have "e_Kind e \<noteq> EventOpened" if "e \<in> set evs" for e
    using that by (auto simp: sweep_events_def sweep_event_def split: if_splits)
  from replay_closing [of evs "open_keys m", OF this] rs_sweep show ?case
    by (simp add: replay_append open_keys_sweep [of t])
qed (auto simp: replay_append asked_def reg_defs Let_def open_event_def new_channel_def open_keys_upd live_def
     open_keys_def split: if_splits option.splits State.splits)

lemma log_ok_steps: "reg_step\<^sup>*\<^sup>* c c' \<Longrightarrow> log_ok c \<Longrightarrow> log_ok c'"
  by (induction rule: rtranclp_induct) (auto intro: log_ok_step)

lemma reg_step_deleted:
  "reg_step c c' \<Longrightarrow> (\<exists>ch. fst (snd c) k = Some ch \<and> c_State ch = StateDeleted) \<Longrightarrow>
     \<exists>ch. fst (snd c') k = Some ch \<and> c_State ch = StateDeleted"
  by (induction rule: reg_step.induct)
    (auto simp: reg_defs Let_def new_channel_def live_def reg_Sweep_def swept_def expired_def
      split: if_splits option.splits State.splits)

lemma reg_steps_deleted:
  "reg_step\<^sup>*\<^sup>* c c' \<Longrightarrow> (\<exists>ch. fst (snd c) k = Some ch \<and> c_State ch = StateDeleted) \<Longrightarrow>
     \<exists>ch. fst (snd c') k = Some ch \<and> c_State ch = StateDeleted"
  by (induction rule: rtranclp_induct) (auto dest: reg_step_deleted)

subsection \<open>Properties of the manager over the in-memory store\<close>

definition mgr_start :: "MemoryStore manager" where
  "mgr_start = SetEventBus (Some []) NewManager"

lemma mgr_start_fields: "m_store mgr_start = NewMemoryStore" "m_bus mgr_start = Some []"
  by (simp_all add: mgr_start_def SetEventBus_def NewManager_def NewManagerWithStore_def)

lemma mgr_reach:
  assumes "(mgr_step MemoryStore_ops)\<^sup>*\<^sup>* (t0, mgr_start) (t, m)"
  obtains log where "ms_inv (m_store m)" and "m_bus m = Some log" and "log_ok (t, ms_abs (m_store m), log)"
proof -
  have init: "log_ok (t0, ms_abs NewMemoryStore, [])"
    by (simp add: log_ok_def reg_ok_def open_keys_def ms_abs_def NewMemoryStore_def)
  obtain evs where "ms_inv (m_store m)" "m_bus m = Some evs"
    and run: "reg_step\<^sup>*\<^sup>* (t0, ms_abs NewMemoryStore, []) (t, ms_abs (m_store m), evs)"
    using mem.sim_steps [OF assms, of "[]"] by (auto simp: mgr_start_fields ms_inv_new)
  then show thesis using that log_ok_steps [OF run init] by blast
qed





lemma mgr_Delete_marks:
  assumes "ms_inv (m_store m)" and "mgr_Delete MemoryStore_ops n now m = (None, m')"
  shows "ms_inv (m_store m') \<and> (\<exists>c. ms_abs (m_store m') (name_String n) = Some c \<and> c_State c = StateDeleted)"
proof -
  obtain r s where f: "so_Delete MemoryStore_ops n now (m_store m) = (r, s)"
    by (cases "so_Delete MemoryStore_ops n now (m_store m)")
  then have "reg_Delete n now (ms_abs (m_store m)) = (r, ms_abs s)" and "ms_inv s" and "m_store m' = s"
    and "\<exists>ev. r = Ok ev"
    using mem.Delete [OF assms(1), of n now] mem.Delete_inv [OF assms(1), of n now] assms(2)
    by (auto simp: mgr_Delete_def split: sum.splits)
  moreover from this(1) have "ms_abs s = snd (reg_Delete n now (ms_abs (m_store m)))" by simp
  ultimately show ?thesis by (auto simp: reg_Delete_def split: option.splits)
qed

lemma mgr_refuses_deleted:
  assumes inv: "ms_inv (m_store m)" and "ms_abs (m_store m) (name_String n) = Some c" and "c_State c = StateDeleted"
  shows "\<exists>e. mgr_Get MemoryStore_ops n m = Err e"
    and "\<exists>e. fst (mgr_OpenPublic MemoryStore_ops n ttl now m) = Err e"
    and "\<exists>e. fst (mgr_CreatePrivate MemoryStore_ops n ttl now m) = Err e"
  using assms
  by (auto simp: mgr_Get_def mgr_OpenPublic_def mgr_CreatePrivate_def MemoryStore_ops_def ms_defs ms_abs_def Let_def)

text \<open>
  C39. A channel removed by \<^verbatim>\<open>Delete\<close> never comes back: after any later sequence of operations it
  is not found, and opening or creating a channel of that name is refused.
\<close>

theorem deleted_name_is_burnt:
  assumes "(mgr_step MemoryStore_ops)\<^sup>*\<^sup>* (t0, mgr_start) (t, m)" and "t \<le> now"
    and "mgr_Delete MemoryStore_ops n now m = (None, m')"
    and "(mgr_step MemoryStore_ops)\<^sup>*\<^sup>* (now, m') (t'', m'')"
  shows "(\<exists>e. mgr_Get MemoryStore_ops n m'' = Err e) \<and>
    (\<exists>e. fst (mgr_OpenPublic MemoryStore_ops n ttl later m'') = Err e) \<and>
    (\<exists>e. fst (mgr_CreatePrivate MemoryStore_ops n ttl later m'') = Err e)"
proof (rule mgr_reach [OF assms(1)])
  assume "ms_inv (m_store m)"
  from mgr_Delete_marks [OF this assms(3)]
  have inv: "ms_inv (m_store (snd (now, m')))"
    and del: "\<exists>c. ms_abs (m_store m') (name_String n) = Some c \<and> c_State c = StateDeleted" by auto
  obtain evs where "ms_inv (m_store m'')"
    and run: "reg_step\<^sup>*\<^sup>* (now, ms_abs (m_store m'), []) (t'', ms_abs (m_store m''), evs)"
    using mem.sim_steps [OF assms(4) inv, of "[]"] by auto
  moreover have "\<exists>c. ms_abs (m_store m'') (name_String n) = Some c \<and> c_State c = StateDeleted"
    using reg_steps_deleted [OF run] del by simp
  ultimately show ?thesis using mgr_refuses_deleted by blast
qed

theorem deleted_name_is_burnt_witness:
  "\<exists>e. fst (mgr_CreatePrivate MemoryStore_ops
      \<lparr>n_Visibility = ''private'', n_App = ''a'', n_Domain = ''b'', n_ID = ''c'', n_Topic = []\<rparr> 0 99
      (snd (mgr_Sweep MemoryStore_ops (5 * hour)
        (snd (mgr_Delete MemoryStore_ops
           \<lparr>n_Visibility = ''private'', n_App = ''a'', n_Domain = ''b'', n_ID = ''c'', n_Topic = []\<rparr> 8
           (snd (mgr_CreatePrivate MemoryStore_ops
             \<lparr>n_Visibility = ''private'', n_App = ''a'', n_Domain = ''b'', n_ID = ''c'', n_Topic = []\<rparr>
             0 7 mgr_start))))))) = Err e"
proof -
  let ?n = "\<lparr>n_Visibility = ''private'', n_App = ''a'', n_Domain = ''b'', n_ID = ''c'', n_Topic = []\<rparr>"
  let ?m = "snd (mgr_CreatePrivate MemoryStore_ops ?n 0 7 mgr_start)"
  let ?m' = "snd (mgr_Delete MemoryStore_ops ?n 8 ?m)"
  have run: "(mgr_step MemoryStore_ops)\<^sup>*\<^sup>* (5, mgr_start) (7, ?m)"
    by (rule r_into_rtranclp) (rule mgr_step.create_private, simp)
  have "fst (mgr_Delete MemoryStore_ops ?n 8 ?m) = None" by code_simp
  then have del: "mgr_Delete MemoryStore_ops ?n 8 ?m = (None, ?m')" by (simp add: prod_eq_iff)
  have later: "(mgr_step MemoryStore_ops)\<^sup>*\<^sup>* (8, ?m') (5 * hour, snd (mgr_Sweep MemoryStore_ops (5 * hour) ?m'))"
    by (rule r_into_rtranclp) (rule mgr_step.sweep, simp)
  from deleted_name_is_burnt [OF run _ del later] show ?thesis by simp
qed

lemma card_sweep_events:
  assumes "keyed m"
  shows "card (sweep_events now m) = card {k. \<exists>c. m k = Some c \<and> expired now c}"
proof -
  let ?K = "{k. \<exists>c. m k = Some c \<and> expired now c}" and ?f = "\<lambda>k. sweep_event now (the (m k))"
  have "inj_on ?f ?K"
    by (rule inj_onI, clarsimp simp: sweep_event_def) (metis assms keyedD option.sel)
  moreover have "?f ` ?K = sweep_events now m"
    by (force simp: sweep_events_def ran_def image_iff)
  ultimately show ?thesis using card_image [of ?f ?K] by simp
qed

text \<open>
  One sweep is complete and exact: afterwards no open channel has been idle for its TTL, the
  number returned is the number of channels that had, an expired private channel is gone (its
  name can be created again), an expired public one is closed, and every other record is as it was.
\<close>

theorem sweep_complete:
  assumes "(mgr_step MemoryStore_ops)\<^sup>*\<^sup>* (t0, mgr_start) (t, m)"
    and "mgr_Sweep MemoryStore_ops now m = (cnt, m')"
  shows "ms_abs (m_store m') k =
      (case ms_abs (m_store m) k of
         None \<Rightarrow> None
       | Some c \<Rightarrow>
           if c_State c = StateOpen \<and> c_TTL c \<le> time_Sub now (c_LastActive c)
           then if n_Visibility (c_Name c) = VisibilityPrivate then None else Some (c\<lparr>c_State := StateClosed\<rparr>)
           else Some c) \<and>
    cnt = card {k. \<exists>c. ms_abs (m_store m) k = Some c \<and> c_State c = StateOpen \<and>
                       c_TTL c \<le> time_Sub now (c_LastActive c)}"
proof (rule mgr_reach [OF assms(1)])
  assume inv: "ms_inv (m_store m)"
  obtain evs s where run: "so_Sweep MemoryStore_ops now (m_store m) = (Ok evs, s)"
    and abs: "ms_abs s = reg_Sweep now (ms_abs (m_store m))"
    and evs: "distinct evs" "set evs = sweep_events now (ms_abs (m_store m))"
    using mem.Sweep [OF inv] by blast
  have "cnt = length evs" and m': "m_store m' = s" using assms(2) run by (auto simp: mgr_Sweep_def)
  then have "cnt = card {k. \<exists>c. ms_abs (m_store m) k = Some c \<and> expired now c}"
    using evs card_sweep_events [OF mem.inv_keyed [OF inv]] by (metis distinct_card)
  moreover have "ms_abs (m_store m') k = Option.bind (ms_abs (m_store m) k) (swept now)"
    using abs m' by (simp add: reg_Sweep_def)
  ultimately show ?thesis
    by (auto simp: expired_def swept_def IsPrivate_def split: option.splits)
qed

theorem sweep_complete_witness:
  "fst (mgr_Sweep MemoryStore_ops (2 * hour)
     (snd (mgr_CreatePrivate MemoryStore_ops
       \<lparr>n_Visibility = ''private'', n_App = ''a'', n_Domain = ''b'', n_ID = ''c'', n_Topic = []\<rparr> 0 7 mgr_start)))
   = card {''private:a.b.c''}"
proof -
  let ?n = "\<lparr>n_Visibility = ''private'', n_App = ''a'', n_Domain = ''b'', n_ID = ''c'', n_Topic = []\<rparr>"
  let ?m = "snd (mgr_CreatePrivate MemoryStore_ops ?n 0 7 mgr_start)"
  have run: "(mgr_step MemoryStore_ops)\<^sup>*\<^sup>* (5, mgr_start) (7, ?m)"
    by (rule r_into_rtranclp) (rule mgr_step.create_private, simp)
  have sw: "mgr_Sweep MemoryStore_ops (2 * hour) ?m =
    (fst (mgr_Sweep MemoryStore_ops (2 * hour) ?m), snd (mgr_Sweep MemoryStore_ops (2 * hour) ?m))" by simp
  have st: "ms_abs (m_store ?m) = [''private:a.b.c'' \<mapsto> new_channel ?n (15 * minute) 7]"
    by (simp add: mgr_CreatePrivate_def MemoryStore_ops_def ms_CreatePrivate_def mgr_start_def SetEventBus_def
        NewManager_def NewManagerWithStore_def NewMemoryStore_def go_simps new_channel_def ms_abs_def ms_put_def
        Let_def name_String_def)
  have "{k. \<exists>c. ms_abs (m_store ?m) k = Some c \<and> c_State c = StateOpen \<and>
      c_TTL c \<le> time_Sub (2 * hour) (c_LastActive c)} = {''private:a.b.c''}"
    unfolding st by (auto simp: new_channel_def time_Sub_def go_simps)
  with sweep_complete [OF run sw] show ?thesis by simp
qed

text \<open>
  What the store's sweep does is independent of Go's map iteration order: from two stores
  with the same entries in different orders, the same events are emitted (as a multiset) and the
  same records are left.
\<close>

theorem sweep_order_independent:
  assumes "mset (ms_channels s1) = mset (ms_channels s2)" and "map_wf (ms_channels s1)"
  shows "\<exists>evs1 evs2 s1' s2'. ms_Sweep now s1 = (Ok evs1, s1') \<and> ms_Sweep now s2 = (Ok evs2, s2') \<and>
    mset evs1 = mset evs2 \<and> mset (ms_channels s1') = mset (ms_channels s2') \<and> ms_abs s1' = ms_abs s2'"
proof -
  have "mset (map fst (ms_channels s1)) = mset (map fst (ms_channels s2))" using assms(1) by simp
  then have wf: "map_wf (ms_channels s2)" using assms(2) mset_eq_imp_distinct_iff by blast
  have "mset (map_bind (swept now) (ms_channels s1)) = mset (map_bind (swept now) (ms_channels s2))"
    using assms(1) by (simp add: map_bind_def List.map_filter_def)
  moreover have "map_of (map_bind (swept now) (ms_channels s1)) = map_of (map_bind (swept now) (ms_channels s2))"
    using map_of_inject_set [OF map_wf_bind [OF assms(2)] map_wf_bind [OF wf]] mset_eq_setD [OF calculation]
    by blast
  moreover have "mset (fst (sweep_loop now (ms_channels s1))) = mset (fst (sweep_loop now (ms_channels s2)))"
    using assms(1) by (simp add: sweep_loop_fst)
  ultimately show ?thesis
    by (simp add: ms_Sweep_def split_beta sweep_loop_snd ms_abs_def)
qed

theorem sweep_order_independent_witness:
  "let n1 = \<lparr>n_Visibility = ''public'', n_App = ''a'', n_Domain = ''b'', n_ID = [], n_Topic = []\<rparr>;
       n2 = \<lparr>n_Visibility = ''public'', n_App = ''a'', n_Domain = ''c'', n_ID = [], n_Topic = []\<rparr>;
       s1 = \<lparr>ms_channels = [(''public:a.b'', new_channel n1 5 0), (''public:a.c'', new_channel n2 5 0)]\<rparr>;
       s2 = \<lparr>ms_channels = [(''public:a.c'', new_channel n2 5 0), (''public:a.b'', new_channel n1 5 0)]\<rparr>
   in ms_abs (snd (ms_Sweep 9 s1)) = ms_abs (snd (ms_Sweep 9 s2))"
proof -
  let ?e1 = "(''public:a.b'', new_channel \<lparr>n_Visibility = ''public'', n_App = ''a'', n_Domain = ''b'', n_ID = [], n_Topic = []\<rparr> 5 0)"
  let ?e2 = "(''public:a.c'', new_channel \<lparr>n_Visibility = ''public'', n_App = ''a'', n_Domain = ''c'', n_ID = [], n_Topic = []\<rparr> 5 0)"
  have "mset (ms_channels \<lparr>ms_channels = [?e1, ?e2]\<rparr>) = mset (ms_channels \<lparr>ms_channels = [?e2, ?e1]\<rparr>)"
    and "map_wf (ms_channels \<lparr>ms_channels = [?e1, ?e2]\<rparr>)" by (simp_all add: add_mset_commute)
  from sweep_order_independent [OF this, of 9] show ?thesis by (auto simp: Let_def)
qed

text \<open>
  \<^verbatim>\<open>List\<close> of the in-memory store still reports a channel after it was deleted, although
  \<^verbatim>\<open>Get\<close> no longer finds it; the interface documents a list of the non-deleted records.
\<close>

theorem List_reports_deleted:
  assumes "ms_inv s" and "ms_Delete n now s = (Ok ev, s')"
  shows "\<exists>cs c. ms_List s' = Ok cs \<and> c \<in> set cs \<and> name_String (c_Name c) = name_String n \<and>
    c_State c = StateDeleted \<and> (\<exists>e. ms_Get n s' = Err e)"
proof -
  obtain c where c: "map_of (ms_channels s) (name_String n) = Some c"
    and s': "s' = ms_put (name_String n) (c\<lparr>c_State := StateDeleted\<rparr>) s"
    using assms(2) by (auto simp: ms_Delete_def Let_def split: option.splits if_splits)
  have look: "map_of (ms_channels s') (name_String n) = Some (c\<lparr>c_State := StateDeleted\<rparr>)"
    by (simp add: s' ms_put_def)
  moreover have "name_String (c_Name c) = name_String n"
    using assms(1) c by (auto simp: ms_inv_def ms_abs_def dest: keyedD)
  moreover have "c\<lparr>c_State := StateDeleted\<rparr> \<in> set (map snd (ms_channels s'))"
    using map_of_SomeD [OF look] by force
  ultimately show ?thesis
    by (intro exI [of _ "map snd (ms_channels s')"] exI [of _ "c\<lparr>c_State := StateDeleted\<rparr>"])
      (simp add: ms_List_def ms_Get_def)
qed

theorem List_reports_deleted_witness:
  "let n = \<lparr>n_Visibility = ''public'', n_App = ''a'', n_Domain = ''b'', n_ID = [], n_Topic = []\<rparr>;
       s = \<lparr>ms_channels = [(''public:a.b'', new_channel n 5 0)]\<rparr>
   in \<exists>cs c. ms_List (snd (ms_Delete n 3 s)) = Ok cs \<and> c \<in> set cs \<and> c_State c = StateDeleted"
proof -
  let ?n = "\<lparr>n_Visibility = ''public'', n_App = ''a'', n_Domain = ''b'', n_ID = [], n_Topic = []\<rparr>"
  let ?s = "\<lparr>ms_channels = [(''public:a.b'', new_channel ?n 5 0)]\<rparr>"
  have inv: "ms_inv ?s"
    by (auto simp: ms_inv_def keyed_def ms_abs_def new_channel_def name_String_def)
  have "ms_Delete ?n 3 ?s = (Ok (Some \<lparr>e_Kind = EventDeleted, e_Name = ?n, e_At = 3\<rparr>), snd (ms_Delete ?n 3 ?s))"
    by (simp add: ms_Delete_def name_String_def new_channel_def)
  from List_reports_deleted [OF inv this] show ?thesis by (auto simp: Let_def)
qed

end
