(* ===== verification/Encoding.thy ===== *)
theory Encoding
  imports Prelude
begin

text \<open>
  The encodings of the Go library the auth and cache packages use, written out: raw base64url
  (\<^verbatim>\<open>encoding/base64\<close>), hex (\<^verbatim>\<open>encoding/hex\<close>) and the big-endian form of \<^verbatim>\<open>math/big\<close>.  A
  byte slice is a \<^typ>\<open>string\<close>.  The decoders accept what the Go decoders accept: the base64
  decoder skips carriage returns and line feeds and ignores the unused bits of the last
  character, the hex decoder takes both cases.
\<close>

type_synonym bytes = string

subsection \<open>Raw base64url\<close>

definition b64_char :: "nat \<Rightarrow> char" where
  "b64_char n =
     (if n < 26 then char_of (65 + n)
      else if n < 52 then char_of (n + 71)
      else if n < 62 then char_of (n - 4)
      else if n = 62 then CHR ''-'' else CHR ''_'')"

definition b64_val :: "char \<Rightarrow> nat option" where
  "b64_val c =
     (let n = of_char c :: nat in
      if 65 \<le> n \<and> n \<le> 90 then Some (n - 65)
      else if 97 \<le> n \<and> n \<le> 122 then Some (n - 71)
      else if 48 \<le> n \<and> n \<le> 57 then Some (n + 4)
      else if c = CHR ''-'' then Some 62
      else if c = CHR ''_'' then Some 63
      else None)"

fun b64_encode :: "bytes \<Rightarrow> string" where
  "b64_encode [] = []"
| "b64_encode [a] = [b64_char (of_char a div 4), b64_char (of_char a mod 4 * 16)]"
| "b64_encode [a, b] =
     [b64_char (of_char a div 4), b64_char (of_char a mod 4 * 16 + of_char b div 16),
      b64_char (of_char b mod 16 * 4)]"
| "b64_encode (a # b # c # rest) =
     b64_char (of_char a div 4) # b64_char (of_char a mod 4 * 16 + of_char b div 16) #
     b64_char (of_char b mod 16 * 4 + of_char c div 64) # b64_char (of_char c mod 64) # b64_encode rest"

fun b64_groups :: "nat list \<Rightarrow> bytes option" where
  "b64_groups [] = Some []"
| "b64_groups [x] = None"
| "b64_groups [x, y] = Some [char_of (x * 4 + y div 16)]"
| "b64_groups [x, y, z] = Some [char_of (x * 4 + y div 16), char_of (y mod 16 * 16 + z div 4)]"
| "b64_groups (x # y # z # w # rest) =
     (case b64_groups rest of
        None \<Rightarrow> None
      | Some bs \<Rightarrow> Some (char_of (x * 4 + y div 16) # char_of (y mod 16 * 16 + z div 4)
                         # char_of (z mod 4 * 64 + w) # bs))"

definition b64_decode :: "string \<Rightarrow> bytes option" where
  "b64_decode s =
     (case those (map b64_val (filter (\<lambda>c. c \<noteq> CHR 0x0A \<and> c \<noteq> CHR 0x0D) s)) of
        None \<Rightarrow> None
      | Some vs \<Rightarrow> b64_groups vs)"

lemma b64_char_facts:
  assumes "n < 64"
  shows "b64_val (b64_char n) = Some n" and "b64_char n \<noteq> CHR 0x0A" and "b64_char n \<noteq> CHR 0x0D"
    and "b64_char n \<noteq> CHR ''.''"
  using assms by (auto simp: b64_char_def b64_val_def Let_def char_of_eq_iff take_bit_eq_mod)

lemma merge_bits:
  fixes x y :: nat
  assumes "y < k"
  shows "(x * k + y) div k = x" and "(x * k + y) mod k = y"
  using assms by auto

lemma sextets:
  fixes a b c :: nat
  assumes "a < 256" and "b < 256" and "c < 256"
  shows "a div 4 < 64" and "a mod 4 * 16 < 64" and "a mod 4 * 16 + b div 16 < 64"
    and "b mod 16 * 4 < 64" and "b mod 16 * 4 + c div 64 < 64" and "c mod 64 < 64"
  using assms by linarith+

lemma octets:
  fixes a b c :: nat
  assumes "a < 256" and "b < 256" and "c < 256"
  shows "a div 4 * 4 + a mod 4 * 16 div 16 = a"
    and "a div 4 * 4 + (a mod 4 * 16 + b div 16) div 16 = a"
    and "(a mod 4 * 16 + b div 16) mod 16 * 16 + b mod 16 * 4 div 4 = b"
    and "(a mod 4 * 16 + b div 16) mod 16 * 16 + (b mod 16 * 4 + c div 64) div 4 = b"
    and "(b mod 16 * 4 + c div 64) mod 4 * 64 + c mod 64 = c"
proof -
  have "b div 16 < 16" "c div 64 < 4" using assms by auto
  note m = merge_bits [OF this(1), of "a mod 4"] merge_bits [OF this(2), of "b mod 16"]
  show "a div 4 * 4 + a mod 4 * 16 div 16 = a" by simp
  show "a div 4 * 4 + (a mod 4 * 16 + b div 16) div 16 = a" unfolding m by simp
  show "(a mod 4 * 16 + b div 16) mod 16 * 16 + b mod 16 * 4 div 4 = b" unfolding m by simp
  show "(a mod 4 * 16 + b div 16) mod 16 * 16 + (b mod 16 * 4 + c div 64) div 4 = b" unfolding m by simp
  show "(b mod 16 * 4 + c div 64) mod 4 * 64 + c mod 64 = c" unfolding m by simp
qed

lemma b64_encode_vals:
  "\<exists>vs. those (map b64_val (b64_encode s)) = Some vs \<and> b64_groups vs = Some s"
proof (induction s rule: b64_encode.induct)
  case (2 a)
  then show ?case
    using sextets [of "of_char a" 0 0] octets [of "of_char a" 0 0] by (simp add: b64_char_facts)
next
  case (3 a b)
  then show ?case
    using sextets [of "of_char a" "of_char b" 0] octets [of "of_char a" "of_char b" 0]
    by (simp add: b64_char_facts)
next
  case (4 a b c rest)
  then obtain vs where "those (map b64_val (b64_encode rest)) = Some vs" "b64_groups vs = Some rest" by blast
  moreover have "(of_char b :: nat) div 16 < 16" using nat_of_char_less_256 [of b] by linarith
  ultimately show ?case
    using sextets [of "of_char a" "of_char b" "of_char c"] octets [of "of_char a" "of_char b" "of_char c"]
    by (simp add: b64_char_facts)
qed simp

lemma b64_encode_chars:
  "x \<in> set (b64_encode s) \<Longrightarrow> x \<noteq> CHR ''.'' \<and> x \<noteq> CHR 0x0A \<and> x \<noteq> CHR 0x0D"
proof (induction s rule: b64_encode.induct)
  case (2 a)
  then show ?case using sextets [of "of_char a" 0 0] by (auto simp: b64_char_facts)
next
  case (3 a b)
  then show ?case using sextets [of "of_char a" "of_char b" 0] by (auto simp: b64_char_facts)
next
  case (4 a b c rest)
  then show ?case using sextets [of "of_char a" "of_char b" "of_char c"] by (auto simp: b64_char_facts)
qed simp

lemma b64_decode_encode [simp]: "b64_decode (b64_encode s) = Some s"
proof -
  have "filter (\<lambda>c. c \<noteq> CHR 0x0A \<and> c \<noteq> CHR 0x0D) (b64_encode s) = b64_encode s"
    using b64_encode_chars [of _ s] by (auto simp: filter_id_conv)
  then show ?thesis using b64_encode_vals [of s] by (auto simp: b64_decode_def)
qed

lemma b64_encode_no_dot [simp]: "CHR ''.'' \<notin> set (b64_encode s)"
  using b64_encode_chars by blast

lemma b64_encode_ascii: "x \<in> set (b64_encode s) \<Longrightarrow> (of_char x :: nat) < 128"
proof -
  have c: "(of_char (b64_char n) :: nat) < 128" if "n < 64" for n using that by (auto simp: b64_char_def)
  show "x \<in> set (b64_encode s) \<Longrightarrow> (of_char x :: nat) < 128"
  proof (induction s rule: b64_encode.induct)
    case (2 a)
    then show ?case using sextets [of "of_char a" 0 0] by (auto simp: c)
  next
    case (3 a b)
    then show ?case using sextets [of "of_char a" "of_char b" 0] by (auto simp: c)
  next
    case (4 a b c' rest)
    then show ?case using sextets [of "of_char a" "of_char b" "of_char c'"] by (auto simp: c)
  qed simp
qed

subsection \<open>Hex\<close>

definition hex_digit :: "nat \<Rightarrow> char" where
  "hex_digit n = (if n < 10 then char_of (48 + n) else char_of (87 + n))"

definition hex_val :: "char \<Rightarrow> nat option" where
  "hex_val c =
     (let n = of_char c :: nat in
      if 48 \<le> n \<and> n \<le> 57 then Some (n - 48)
      else if 97 \<le> n \<and> n \<le> 102 then Some (n - 87)
      else if 65 \<le> n \<and> n \<le> 70 then Some (n - 55)
      else None)"

fun hex_encode :: "bytes \<Rightarrow> string" where
  "hex_encode [] = []"
| "hex_encode (b # bs) = hex_digit (of_char b div 16) # hex_digit (of_char b mod 16) # hex_encode bs"

fun hex_decode :: "string \<Rightarrow> bytes option" where
  "hex_decode [] = Some []"
| "hex_decode [_] = None"
| "hex_decode (x # y # s) =
     (case (hex_val x, hex_val y, hex_decode s) of
        (Some h, Some l, Some bs) \<Rightarrow> Some (char_of (h * 16 + l) # bs)
      | _ \<Rightarrow> None)"

lemma hex_val_digit [simp]: "n < 16 \<Longrightarrow> hex_val (hex_digit n) = Some n"
  by (auto simp: hex_val_def hex_digit_def Let_def)

lemma hex_decode_encode [simp]: "hex_decode (hex_encode bs) = Some bs"
proof (induction bs)
  case (Cons b bs)
  have "(of_char b :: nat) div 16 < 16" using nat_of_char_less_256 [of b] by linarith
  with Cons show ?case by simp
qed simp

lemma hex_encode_digits: "c \<in> set (hex_encode bs) \<Longrightarrow> hex_val c \<noteq> None"
proof (induction bs)
  case (Cons b bs)
  have "(of_char b :: nat) div 16 < 16" using nat_of_char_less_256 [of b] by linarith
  with Cons show ?case by auto
qed simp

subsection \<open>Big-endian naturals\<close>

text \<open>\<^verbatim>\<open>big.Int.Bytes\<close>, the shortest form, and \<^verbatim>\<open>SetBytes\<close>.\<close>

fun be_bytes :: "nat \<Rightarrow> bytes" where
  "be_bytes n = (if n = 0 then [] else be_bytes (n div 256) @ [char_of (n mod 256)])"

declare be_bytes.simps [simp del]

definition be_val :: "bytes \<Rightarrow> nat" where
  "be_val bs = foldl (\<lambda>a c. a * 256 + of_char c) 0 bs"

lemma be_val_bytes [simp]: "be_val (be_bytes n) = n"
proof (induction n rule: be_bytes.induct)
  case (1 n)
  then show ?case by (subst be_bytes.simps) (simp add: be_val_def)
qed

lemma be_val_zeros [simp]: "be_val (replicate k (char_of (0 :: nat)) @ bs) = be_val bs"
proof -
  have "foldl (\<lambda>a c. a * 256 + of_char c) (0 :: nat) (replicate k (char_of (0 :: nat))) = 0"
    by (induction k) auto
  then show ?thesis by (simp add: be_val_def)
qed

lemma length_be_bytes: "n < 256 ^ k \<Longrightarrow> length (be_bytes n) \<le> k"
proof (induction n arbitrary: k rule: be_bytes.induct)
  case (1 n)
  show ?case
  proof (cases "n = 0")
    case True
    then show ?thesis by (simp add: be_bytes.simps)
  next
    case False
    with "1.prems" obtain j where k: "k = Suc j" by (cases k) auto
    with "1.prems" have "n div 256 < 256 ^ j" by (simp add: less_mult_imp_div_less mult.commute)
    from "1.IH" [OF False this] False show ?thesis by (subst be_bytes.simps) (simp add: k)
  qed
qed

end
