(* ===== verification/KeyRing.thy ===== *)
theory KeyRing
  imports Encoding
begin

text \<open>
  The signing-key ring of \<^verbatim>\<open>src/auth/keyring.go\<close> with the header builder of
  \<^verbatim>\<open>src/auth/signer.go\<close>.

  The codecs of the Go library (JSON of the JOSE header, PKCS#8, PEM, RFC 3339 times) are the
  fields of \<open>key_codec\<close>, an argument of the definitions that use them; \<open>key_codec_ok\<close> names what
  the ring relies on, that decoding returns what was encoded.  Randomness and the clock are
  arguments: \<open>rnd\<close> is what \<^verbatim>\<open>rand.Read\<close> delivers (\<open>None\<close> when it fails), \<open>gen\<close> what a key
  generator of the crypto packages delivers.
\<close>

subsection \<open>Algorithms, roles, key material\<close>

type_synonym Alg = string
type_synonym Role = string

definition AlgHS256 :: Alg where [go_simps]: "AlgHS256 = ''HS256''"
definition AlgRS256 :: Alg where [go_simps]: "AlgRS256 = ''RS256''"
definition AlgEdDSA :: Alg where [go_simps]: "AlgEdDSA = ''EdDSA''"
definition AlgES256 :: Alg where [go_simps]: "AlgES256 = ''ES256''"
definition AlgES384 :: Alg where [go_simps]: "AlgES384 = ''ES384''"

definition SupportedAlgs :: "Alg list" where
  "SupportedAlgs = [AlgHS256, AlgEdDSA, AlgES256, AlgES384, AlgRS256]"

definition IsAsymmetric :: "Alg \<Rightarrow> bool" where
  "IsAsymmetric a \<longleftrightarrow> a = AlgRS256 \<or> a = AlgEdDSA \<or> a = AlgES256 \<or> a = AlgES384"

definition alg_Valid :: "Alg \<Rightarrow> go_error option" where
  "alg_Valid a =
     (if a = AlgHS256 \<or> a = AlgRS256 \<or> a = AlgEdDSA \<or> a = AlgES256 \<or> a = AlgES384 then None
      else Some (Plain ''auth: unsupported alg %q''))"

definition RoleActive :: Role where [go_simps]: "RoleActive = ''active''"
definition RoleVerifyOnly :: Role where [go_simps]: "RoleVerifyOnly = ''verify-only''"
definition RoleRetired :: Role where [go_simps]: "RoleRetired = ''retired''"

datatype curve = P256 | P384 | OtherCurve string

text \<open>
  A public key is its opaque text, with the modulus size or the curve; a private key carries its
  public half, as the Go types do (an Ed25519 private key ends with it).
\<close>

datatype pubkey = RSA_pub nat string | Ed_pub bytes | EC_pub curve string

datatype privkey = RSA_priv nat string string | Ed_priv bytes | EC_priv curve string string

fun priv_Public :: "privkey \<Rightarrow> pubkey" where
  "priv_Public (RSA_priv bits p s) = RSA_pub bits p"
| "priv_Public (Ed_priv k) = Ed_pub (drop 32 k)"
| "priv_Public (EC_priv c p s) = EC_pub c p"

record Key =
  k_ID :: string
  k_Alg :: Alg
  k_Secret :: bytes
  k_Private :: "privkey option"
  k_Public :: "pubkey option"
  k_Role :: Role
  k_CreatedAt :: go_time
  k_RetiredAt :: "go_time option"
  k_headerB64 :: string

record KeyRing =
  kr_byID :: "(string, Key) gomap"
  kr_active :: string

record joseHeader =
  h_Alg :: string
  h_Kid :: string
  h_Typ :: string

record key_codec =
  kc_header :: "joseHeader \<Rightarrow> bytes result"
  kc_unheader :: "bytes \<Rightarrow> joseHeader result"
  kc_pkcs8 :: "privkey \<Rightarrow> bytes result"
  kc_unpkcs8 :: "bytes \<Rightarrow> privkey result"
  kc_pem :: "string \<Rightarrow> bytes \<Rightarrow> string"
  kc_unpem :: "string \<Rightarrow> bytes option"
  kc_time :: "go_time \<Rightarrow> string"
  kc_untime :: "string \<Rightarrow> go_time result"

subsection \<open>Operations\<close>

definition NewKeyRing :: KeyRing where
  "NewKeyRing = \<lparr>kr_byID = [], kr_active = []\<rparr>"

definition buildHeader :: "key_codec \<Rightarrow> string \<Rightarrow> Alg \<Rightarrow> string result" where
  "buildHeader kc kid alg =
     (if kid = [] then Err (Plain ''auth: kid required'')
      else
        let alg = (if alg = [] then AlgHS256 else alg) in
        case alg_Valid alg of
          Some e \<Rightarrow> Err e
        | None \<Rightarrow>
            (case kc_header kc \<lparr>h_Alg = alg, h_Kid = kid, h_Typ = ''JWT''\<rparr> of
               Err e \<Rightarrow> Err e
             | Ok b \<Rightarrow> Ok (b64_encode b)))"

definition installHeader :: "key_codec \<Rightarrow> Key \<Rightarrow> Key result" where
  "installHeader kc k =
     (case buildHeader kc (k_ID k) (k_Alg k) of Err e \<Rightarrow> Err e | Ok b \<Rightarrow> Ok (k\<lparr>k_headerB64 := b\<rparr>))"

definition kr_Active :: "KeyRing \<Rightarrow> Key result" where
  "kr_Active r =
     (if kr_active r = [] then Err (Plain ''auth: keyring has no active key'')
      else case map_of (kr_byID r) (kr_active r) of
             None \<Rightarrow> Err (go_panic ''nil pointer dereference'')
           | Some k \<Rightarrow> Ok k)"

definition kr_ActiveID :: "KeyRing \<Rightarrow> string" where
  "kr_ActiveID r = kr_active r"

definition kr_Get :: "string \<Rightarrow> KeyRing \<Rightarrow> Key result" where
  "kr_Get ident r =
     (case map_of (kr_byID r) ident of
        None \<Rightarrow> Err (Plain ''auth: unknown key id %q'')
      | Some k \<Rightarrow>
          if k_Role k = RoleRetired then Err (Plain ''auth: key %q is retired'') else Ok k)"

definition kr_List :: "KeyRing \<Rightarrow> Key list" where
  "kr_List r = sort_key k_CreatedAt (map snd (kr_byID r))"

definition kr_install :: "key_codec \<Rightarrow> Key \<Rightarrow> KeyRing \<Rightarrow> Key result \<times> KeyRing" where
  "kr_install kc k r =
     (case installHeader kc k of
        Err e \<Rightarrow> (Err e, r)
      | Ok k \<Rightarrow>
          let r = r\<lparr>kr_byID := AList.update (k_ID k) k (kr_byID r)\<rparr>;
              r = (if k_Role k = RoleActive then r\<lparr>kr_active := k_ID k\<rparr> else r)
          in (Ok k, r))"

definition kr_Add :: "key_codec \<Rightarrow> string \<Rightarrow> bytes \<Rightarrow> go_time \<Rightarrow> KeyRing \<Rightarrow> Key result \<times> KeyRing" where
  "kr_Add kc ident secret now r =
     (if ident = [] then (Err (Plain ''auth: key id required''), r)
      else if length secret < 32 then (Err (Plain ''auth: key secret must be at least 32 bytes''), r)
      else if map_of (kr_byID r) ident \<noteq> None then (Err (Plain ''auth: key id %q already exists''), r)
      else
        let role = (if length (kr_byID r) = 0 then RoleActive else RoleVerifyOnly) in
        kr_install kc \<lparr>k_ID = ident, k_Alg = AlgHS256, k_Secret = secret, k_Private = None,
          k_Public = None, k_Role = role, k_CreatedAt = now, k_RetiredAt = None, k_headerB64 = []\<rparr> r)"

definition addAsymmetric ::
  "key_codec \<Rightarrow> string \<Rightarrow> Alg \<Rightarrow> privkey option \<Rightarrow> pubkey option \<Rightarrow> go_time \<Rightarrow> KeyRing \<Rightarrow> Key result \<times> KeyRing" where
  "addAsymmetric kc ident alg priv pub now r =
     (if ident = [] then (Err (Plain ''auth: key id required''), r)
      else if priv = None then (Err (Plain ''auth: nil private key''), r)
      else if map_of (kr_byID r) ident \<noteq> None then (Err (Plain ''auth: key id %q already exists''), r)
      else
        let role = (if length (kr_byID r) = 0 then RoleActive else RoleVerifyOnly) in
        kr_install kc \<lparr>k_ID = ident, k_Alg = alg, k_Secret = [], k_Private = priv,
          k_Public = pub, k_Role = role, k_CreatedAt = now, k_RetiredAt = None, k_headerB64 = []\<rparr> r)"

definition algForCurve :: "curve \<Rightarrow> Alg result" where
  "algForCurve c =
     (case c of P256 \<Rightarrow> Ok AlgES256 | P384 \<Rightarrow> Ok AlgES384
      | OtherCurve _ \<Rightarrow> Err (Plain ''auth: ecdsa curve %s not supported (use P-256 or P-384)''))"

text \<open>
  \<^verbatim>\<open>AddEd25519\<close>, \<^verbatim>\<open>AddECDSA\<close> and \<^verbatim>\<open>AddRSA\<close> are typed by the key they take; a nil pointer is
  \<open>None\<close>, and a key of another kind cannot be passed.
\<close>

definition AddEd25519 :: "key_codec \<Rightarrow> string \<Rightarrow> bytes \<Rightarrow> go_time \<Rightarrow> KeyRing \<Rightarrow> Key result \<times> KeyRing" where
  "AddEd25519 kc ident priv now r =
     (if length priv \<noteq> 64 then (Err (Plain ''auth: ed25519 private key wrong size: %d''), r)
      else addAsymmetric kc ident AlgEdDSA (Some (Ed_priv priv)) (Some (priv_Public (Ed_priv priv))) now r)"

definition AddECDSA ::
  "key_codec \<Rightarrow> string \<Rightarrow> (curve \<times> string \<times> string) option \<Rightarrow> go_time \<Rightarrow> KeyRing \<Rightarrow> Key result \<times> KeyRing" where
  "AddECDSA kc ident priv now r =
     (case priv of
        None \<Rightarrow> (Err (Plain ''auth: nil ECDSA private key''), r)
      | Some (c, p, d) \<Rightarrow>
          (case algForCurve c of
             Err e \<Rightarrow> (Err e, r)
           | Ok alg \<Rightarrow> addAsymmetric kc ident alg (Some (EC_priv c p d)) (Some (EC_pub c p)) now r))"

definition AddRSA ::
  "key_codec \<Rightarrow> string \<Rightarrow> (nat \<times> string \<times> string) option \<Rightarrow> go_time \<Rightarrow> KeyRing \<Rightarrow> Key result \<times> KeyRing" where
  "AddRSA kc ident priv now r =
     (case priv of
        None \<Rightarrow> (Err (Plain ''auth: nil RSA private key''), r)
      | Some (bits, n, d) \<Rightarrow>
          if bits < 2048 then (Err (Plain ''auth: rsa key %d bits too small''), r)
          else addAsymmetric kc ident AlgRS256 (Some (RSA_priv bits n d)) (Some (RSA_pub bits n)) now r)"

definition newKeyID :: "bytes option \<Rightarrow> string result" where
  "newKeyID rnd =
     (case rnd of None \<Rightarrow> Err (Plain ''auth: key id generation failed'')
      | Some buf \<Rightarrow> Ok (''k-'' @ hex_encode buf))"

definition GenerateEd25519 ::
  "key_codec \<Rightarrow> bytes option \<Rightarrow> bytes result \<Rightarrow> go_time \<Rightarrow> KeyRing \<Rightarrow> Key result \<times> KeyRing" where
  "GenerateEd25519 kc rnd gen now r =
     (case newKeyID rnd of
        Err e \<Rightarrow> (Err e, r)
      | Ok ident \<Rightarrow>
          (case gen of
             Err e \<Rightarrow> (Err (Plain ''auth: ed25519 generate: %w''), r)
           | Ok priv \<Rightarrow>
               addAsymmetric kc ident AlgEdDSA (Some (Ed_priv priv)) (Some (priv_Public (Ed_priv priv))) now r))"

text \<open>The generators: \<open>gen bits\<close> and \<open>gen c\<close> deliver the public and the secret part.\<close>

definition GenerateRSA ::
  "key_codec \<Rightarrow> nat \<Rightarrow> bytes option \<Rightarrow> (string \<times> string) result \<Rightarrow> go_time \<Rightarrow> KeyRing \<Rightarrow> Key result \<times> KeyRing" where
  "GenerateRSA kc bits rnd gen now r =
     (if bits \<noteq> 2048 \<and> bits \<noteq> 3072 \<and> bits \<noteq> 4096 then
        (Err (Plain ''auth: rsa key size %d not supported (use 2048/3072/4096)''), r)
      else
        case newKeyID rnd of
          Err e \<Rightarrow> (Err e, r)
        | Ok ident \<Rightarrow>
            (case gen of
               Err e \<Rightarrow> (Err (Plain ''auth: rsa generate: %w''), r)
             | Ok (n, d) \<Rightarrow>
                 addAsymmetric kc ident AlgRS256 (Some (RSA_priv bits n d)) (Some (RSA_pub bits n)) now r))"

definition GenerateECDSA ::
  "key_codec \<Rightarrow> curve \<Rightarrow> bytes option \<Rightarrow> (string \<times> string) result \<Rightarrow> go_time \<Rightarrow> KeyRing \<Rightarrow> Key result \<times> KeyRing" where
  "GenerateECDSA kc c rnd gen now r =
     (case algForCurve c of
        Err e \<Rightarrow> (Err e, r)
      | Ok alg \<Rightarrow>
          (case newKeyID rnd of
             Err e \<Rightarrow> (Err e, r)
           | Ok ident \<Rightarrow>
               (case gen of
                  Err e \<Rightarrow> (Err (Plain ''auth: ecdsa generate: %w''), r)
                | Ok (p, d) \<Rightarrow> addAsymmetric kc ident alg (Some (EC_priv c p d)) (Some (EC_pub c p)) now r)))"

record generators =
  g_id :: "bytes option"
  g_secret :: "bytes option"
  g_ed :: "bytes result"
  g_rsa :: "(string \<times> string) result"
  g_ec :: "(string \<times> string) result"

definition GenerateAlg :: "key_codec \<Rightarrow> Alg \<Rightarrow> generators \<Rightarrow> go_time \<Rightarrow> KeyRing \<Rightarrow> Key result \<times> KeyRing" where
  "GenerateAlg kc alg g now r =
     (if alg = AlgHS256 \<or> alg = [] then
        (case newKeyID (g_id g) of
           Err e \<Rightarrow> (Err e, r)
         | Ok ident \<Rightarrow>
             (case g_secret g of
                None \<Rightarrow> (Err (Plain ''auth: keyring generate failed''), r)
              | Some secret \<Rightarrow> kr_Add kc ident secret now r))
      else if alg = AlgEdDSA then GenerateEd25519 kc (g_id g) (g_ed g) now r
      else if alg = AlgRS256 then GenerateRSA kc 2048 (g_id g) (g_rsa g) now r
      else if alg = AlgES256 then GenerateECDSA kc P256 (g_id g) (g_ec g) now r
      else if alg = AlgES384 then GenerateECDSA kc P384 (g_id g) (g_ec g) now r
      else (case alg_Valid alg of Some e \<Rightarrow> (Err e, r) | None \<Rightarrow> (Err (go_panic ''unreachable''), r)))"

definition kr_Generate :: "key_codec \<Rightarrow> generators \<Rightarrow> go_time \<Rightarrow> KeyRing \<Rightarrow> Key result \<times> KeyRing" where
  "kr_Generate kc g now r = GenerateAlg kc AlgHS256 g now r"

definition NewKeyRingFromSecret :: "key_codec \<Rightarrow> bytes \<Rightarrow> generators \<Rightarrow> go_time \<Rightarrow> KeyRing result" where
  "NewKeyRingFromSecret kc secret g now =
     (case kr_Generate kc g now NewKeyRing of
        (Err e, _) \<Rightarrow> Err e
      | (Ok k, r) \<Rightarrow>
          (case map_of (kr_byID r) (k_ID k) of
             None \<Rightarrow> Err (go_panic ''nil pointer dereference'')
           | Some k' \<Rightarrow>
               (case installHeader kc (k'\<lparr>k_Secret := secret\<rparr>) of
                  Err e \<Rightarrow> Err e
                | Ok k'' \<Rightarrow> Ok (r\<lparr>kr_byID := AList.update (k_ID k) k'' (kr_byID r)\<rparr>))))"

definition kr_Promote :: "string \<Rightarrow> KeyRing \<Rightarrow> go_error option \<times> KeyRing" where
  "kr_Promote ident r =
     (case map_of (kr_byID r) ident of
        None \<Rightarrow> (Some (Plain ''auth: unknown key id %q''), r)
      | Some k \<Rightarrow>
          if k_Role k = RoleRetired then (Some (Plain ''auth: cannot promote retired key %q''), r)
          else if kr_active r \<noteq> [] \<and> kr_active r \<noteq> ident then
            (case map_of (kr_byID r) (kr_active r) of
               None \<Rightarrow> (Some (go_panic ''nil pointer dereference''), r)
             | Some old \<Rightarrow>
                 let m = AList.update (kr_active r) (old\<lparr>k_Role := RoleVerifyOnly\<rparr>) (kr_byID r);
                     m = AList.update ident (k\<lparr>k_Role := RoleActive\<rparr>) m
                 in (None, r\<lparr>kr_byID := m, kr_active := ident\<rparr>))
          else
            (None, r\<lparr>kr_byID := AList.update ident (k\<lparr>k_Role := RoleActive\<rparr>) (kr_byID r), kr_active := ident\<rparr>))"

definition kr_Retire :: "string \<Rightarrow> go_time \<Rightarrow> KeyRing \<Rightarrow> go_error option \<times> KeyRing" where
  "kr_Retire ident now r =
     (case map_of (kr_byID r) ident of
        None \<Rightarrow> (Some (Plain ''auth: unknown key id %q''), r)
      | Some k \<Rightarrow>
          if k_Role k = RoleRetired then (None, r)
          else if ident = kr_active r then
            (Some (Plain ''auth: cannot retire active key %q; promote another first''), r)
          else
            (None, r\<lparr>kr_byID := AList.update ident (k\<lparr>k_Role := RoleRetired, k_RetiredAt := Some now\<rparr>) (kr_byID r)\<rparr>))"

subsection \<open>Snapshots\<close>

record SnapshotKey =
  sk_ID :: string
  sk_Alg :: Alg
  sk_SecretHex :: string
  sk_PrivatePEM :: string
  sk_Role :: Role
  sk_CreatedAt :: string
  sk_RetiredAt :: string

record Snapshot =
  sn_FormatVersion :: string
  sn_ActiveKeyID :: string
  sn_Keys :: "SnapshotKey list"

definition encodePEM :: "key_codec \<Rightarrow> string \<Rightarrow> bytes \<Rightarrow> string" where
  "encodePEM kc blockType data = kc_pem kc blockType data"

text \<open>The private part of an entry: a key whose type does not fit its algorithm leaves it empty.\<close>

definition snapshot_pem :: "key_codec \<Rightarrow> Alg \<Rightarrow> privkey option \<Rightarrow> string" where
  "snapshot_pem kc alg p =
     (let marshal = (\<lambda>priv. case kc_pkcs8 kc priv of Ok blob \<Rightarrow> encodePEM kc ''PRIVATE KEY'' blob | Err _ \<Rightarrow> []) in
      case p of
        Some (Ed_priv k) \<Rightarrow> if alg = AlgEdDSA then marshal (Ed_priv k) else []
      | Some (RSA_priv b n d) \<Rightarrow> if alg = AlgRS256 then marshal (RSA_priv b n d) else []
      | Some (EC_priv c q d) \<Rightarrow> if alg = AlgES256 \<or> alg = AlgES384 then marshal (EC_priv c q d) else []
      | None \<Rightarrow> [])"

definition snapshot_entry :: "key_codec \<Rightarrow> Key \<Rightarrow> SnapshotKey" where
  "snapshot_entry kc k =
     (let alg = (if k_Alg k = [] then AlgHS256 else k_Alg k) in
      \<lparr>sk_ID = k_ID k, sk_Alg = alg,
       sk_SecretHex = (if alg = AlgHS256 then hex_encode (k_Secret k) else []),
       sk_PrivatePEM = snapshot_pem kc alg (k_Private k),
       sk_Role = k_Role k,
       sk_CreatedAt = kc_time kc (k_CreatedAt k),
       sk_RetiredAt = (case k_RetiredAt k of None \<Rightarrow> [] | Some t \<Rightarrow> kc_time kc t)\<rparr>)"

definition kr_Snapshot :: "key_codec \<Rightarrow> KeyRing \<Rightarrow> Snapshot" where
  "kr_Snapshot kc r =
     \<lparr>sn_FormatVersion = [], sn_ActiveKeyID = kr_active r,
      sn_Keys = sort_key sk_ID (map (snapshot_entry kc) (filter (\<lambda>k. k_Role k \<noteq> RoleRetired) (map snd (kr_byID r))))\<rparr>"

definition decodePrivatePEM :: "key_codec \<Rightarrow> string \<Rightarrow> Alg \<Rightarrow> (privkey \<times> pubkey) result" where
  "decodePrivatePEM kc s alg =
     (case kc_unpem kc s of
        None \<Rightarrow> Err (Plain ''private_pem: no PEM block'')
      | Some blob \<Rightarrow>
          (case kc_unpkcs8 kc blob of
             Err e \<Rightarrow> Err (Plain ''private_pem parse: %w'')
           | Ok priv \<Rightarrow>
               if alg = AlgEdDSA then
                 (case priv of Ed_priv _ \<Rightarrow> Ok (priv, priv_Public priv)
                  | _ \<Rightarrow> Err (Plain ''private_pem: expected Ed25519, got %T''))
               else if alg = AlgRS256 then
                 (case priv of RSA_priv _ _ _ \<Rightarrow> Ok (priv, priv_Public priv)
                  | _ \<Rightarrow> Err (Plain ''private_pem: expected RSA, got %T''))
               else if alg = AlgES256 \<or> alg = AlgES384 then
                 (case priv of
                    EC_priv c _ _ \<Rightarrow>
                      (case algForCurve c of
                         Err e \<Rightarrow> Err (Plain ''private_pem: %w'')
                       | Ok expected \<Rightarrow>
                           if expected \<noteq> alg then Err (Plain ''private_pem: alg %s but curve %s'')
                           else Ok (priv, priv_Public priv))
                  | _ \<Rightarrow> Err (Plain ''private_pem: expected ECDSA, got %T''))
               else Err (Plain ''private_pem: alg %s not asymmetric'')))"

definition buildHeaderInto :: "key_codec \<Rightarrow> Key \<Rightarrow> Key result" where
  "buildHeaderInto kc k =
     (case buildHeader kc (k_ID k) (k_Alg k) of Err e \<Rightarrow> Err e | Ok b \<Rightarrow> Ok (k\<lparr>k_headerB64 := b\<rparr>))"

text \<open>The key material of an entry, by its algorithm.\<close>

definition load_material :: "key_codec \<Rightarrow> SnapshotKey \<Rightarrow> Alg \<Rightarrow> (bytes \<times> privkey option \<times> pubkey option) result" where
  "load_material kc e alg =
     (if alg = AlgHS256 then
        (case hex_decode (sk_SecretHex e) of
           None \<Rightarrow> Err (Plain ''auth: snapshot key %q: secret_hex: %w'')
         | Some secret \<Rightarrow>
             if length secret < 32 then Err (Plain ''auth: snapshot key %q: secret too short'')
             else Ok (secret, None, None))
      else if sk_PrivatePEM e = [] then Err (Plain ''auth: snapshot key %q: missing private_pem'')
      else
        case decodePrivatePEM kc (sk_PrivatePEM e) alg of
          Err _ \<Rightarrow> Err (Plain ''auth: snapshot key %q: %w'')
        | Ok (priv, pub) \<Rightarrow> Ok ([], Some priv, Some pub))"

definition load_entry :: "key_codec \<Rightarrow> SnapshotKey \<Rightarrow> Key result" where
  "load_entry kc e =
     (case kc_untime kc (sk_CreatedAt e) of
        Err _ \<Rightarrow> Err (Plain ''auth: snapshot key %q: created_at: %w'')
      | Ok createdAt \<Rightarrow>
          let alg = (if sk_Alg e = [] then AlgHS256 else sk_Alg e) in
          case alg_Valid alg of
            Some _ \<Rightarrow> Err (Plain ''auth: snapshot key %q: %w'')
          | None \<Rightarrow>
              (case load_material kc e alg of
                 Err err \<Rightarrow> Err err
               | Ok (secret, priv, pub) \<Rightarrow>
                   (case (if sk_RetiredAt e = [] then Ok None else map_sum (\<lambda>x. x) Some (kc_untime kc (sk_RetiredAt e))) of
                      Err _ \<Rightarrow> Err (Plain ''auth: snapshot key %q: retired_at: %w'')
                    | Ok ret \<Rightarrow>
                        buildHeaderInto kc \<lparr>k_ID = sk_ID e, k_Alg = alg, k_Secret = secret, k_Private = priv,
                          k_Public = pub, k_Role = sk_Role e, k_CreatedAt = createdAt, k_RetiredAt = ret,
                          k_headerB64 = []\<rparr>)))"

fun load_entries :: "key_codec \<Rightarrow> SnapshotKey list \<Rightarrow> (string, Key) gomap \<Rightarrow> (string, Key) gomap result" where
  "load_entries kc [] next = Ok next"
| "load_entries kc (e # es) next =
     (case load_entry kc e of Err err \<Rightarrow> Err err | Ok k \<Rightarrow> load_entries kc es (AList.update (sk_ID e) k next))"

definition kr_LoadSnapshot :: "key_codec \<Rightarrow> Snapshot \<Rightarrow> KeyRing \<Rightarrow> go_error option \<times> KeyRing" where
  "kr_LoadSnapshot kc s r =
     (if sn_ActiveKeyID s = [] \<and> length (sn_Keys s) > 0 then
        (Some (Plain ''auth: snapshot has keys but no active_key_id''), r)
      else
        case load_entries kc (sn_Keys s) [] of
          Err e \<Rightarrow> (Some e, r)
        | Ok m \<Rightarrow>
            if sn_ActiveKeyID s \<noteq> [] \<and> map_of m (sn_ActiveKeyID s) = None then
              (Some (Plain ''auth: snapshot active_key_id %q not present in keys''), r)
            else (None, r\<lparr>kr_byID := m, kr_active := sn_ActiveKeyID s\<rparr>))"

subsection \<open>The invariant\<close>

text \<open>
  \<open>good\<close> says which private keys are well-formed pairs; the generators of the crypto packages
  deliver such keys, and only they are promised to survive PKCS#8.  RFC 3339 has four digits for
  the year, which bounds the times that survive formatting.
\<close>

definition rfc3339_range :: "go_time \<Rightarrow> bool" where
  "rfc3339_range t \<longleftrightarrow> zero_time \<le> t \<and> t < 253402300800 * second"

definition key_codec_ok :: "key_codec \<Rightarrow> (privkey \<Rightarrow> bool) \<Rightarrow> bool" where
  "key_codec_ok kc good \<longleftrightarrow>
     (\<forall>p. good p \<longrightarrow> (\<exists>b. kc_pkcs8 kc p = Ok b \<and> kc_unpkcs8 kc b = Ok p)) \<and>
     (\<forall>ty b. kc_pem kc ty b \<noteq> [] \<and> kc_unpem kc (kc_pem kc ty b) = Some b) \<and>
     (\<forall>t. rfc3339_range t \<longrightarrow> kc_time kc t \<noteq> [] \<and> kc_untime kc (kc_time kc t) = Ok t)"

fun fits :: "Alg \<Rightarrow> privkey \<Rightarrow> bool" where
  "fits alg (RSA_priv bits n d) = (alg = AlgRS256)"
| "fits alg (Ed_priv k) = (alg = AlgEdDSA)"
| "fits alg (EC_priv c p d) = (algForCurve c = Ok alg)"

definition material_ok :: "(privkey \<Rightarrow> bool) \<Rightarrow> Key \<Rightarrow> bool" where
  "material_ok good k \<longleftrightarrow>
     (if k_Alg k = AlgHS256 then 32 \<le> length (k_Secret k) \<and> k_Private k = None \<and> k_Public k = None
      else k_Secret k = [] \<and>
        (\<exists>p. k_Private k = Some p \<and> k_Public k = Some (priv_Public p) \<and> good p \<and> fits (k_Alg k) p))"

definition key_ok :: "key_codec \<Rightarrow> (privkey \<Rightarrow> bool) \<Rightarrow> string \<Rightarrow> Key \<Rightarrow> bool" where
  "key_ok kc good ident k \<longleftrightarrow>
     k_ID k = ident \<and> alg_Valid (k_Alg k) = None \<and>
     buildHeader kc ident (k_Alg k) = Ok (k_headerB64 k) \<and> material_ok good k \<and>
     k_Role k \<in> {RoleActive, RoleVerifyOnly, RoleRetired} \<and>
     (k_Role k = RoleRetired \<longleftrightarrow> k_RetiredAt k \<noteq> None) \<and> rfc3339_range (k_CreatedAt k)"

definition ring_ok :: "key_codec \<Rightarrow> (privkey \<Rightarrow> bool) \<Rightarrow> KeyRing \<Rightarrow> bool" where
  "ring_ok kc good r \<longleftrightarrow>
     map_wf (kr_byID r) \<and>
     (\<forall>ident k. map_of (kr_byID r) ident = Some k \<longrightarrow>
        key_ok kc good ident k \<and> (k_Role k = RoleActive \<longleftrightarrow> ident = kr_active r)) \<and>
     (if kr_active r = [] then kr_byID r = [] else map_of (kr_byID r) (kr_active r) \<noteq> None)"

declare map_of_eq_Some_iff [simp del]

lemma ring_okD:
  assumes "ring_ok kc good r" and "map_of (kr_byID r) ident = Some k"
  shows "key_ok kc good ident k" and "k_Role k = RoleActive \<longleftrightarrow> ident = kr_active r" and "kr_active r \<noteq> []"
proof -
  show "key_ok kc good ident k" and "k_Role k = RoleActive \<longleftrightarrow> ident = kr_active r"
    using assms by (auto simp: ring_ok_def)
  show "kr_active r \<noteq> []" using assms by (cases "kr_byID r") (auto simp: ring_ok_def)
qed

lemma ring_ok_new: "ring_ok kc good NewKeyRing"
  by (simp add: ring_ok_def NewKeyRing_def)

lemma update_not_Nil [simp]: "AList.update k v m \<noteq> []"
  by (induction m) auto

lemma role_distinct [simp]:
  "RoleActive \<noteq> RoleVerifyOnly" "RoleVerifyOnly \<noteq> RoleActive" "RoleActive \<noteq> RoleRetired"
  "RoleRetired \<noteq> RoleActive" "RoleVerifyOnly \<noteq> RoleRetired" "RoleRetired \<noteq> RoleVerifyOnly"
  by (simp_all add: go_simps)

text \<open>The common tail of \<^verbatim>\<open>Add\<close> and \<^verbatim>\<open>addAsymmetric\<close>.\<close>

lemma kr_install_ok:
  assumes ok: "ring_ok kc good r" and fresh: "map_of (kr_byID r) (k_ID k) = None" and "k_ID k \<noteq> []"
    and role: "k_Role k = (if length (kr_byID r) = 0 then RoleActive else RoleVerifyOnly)"
    and k: "material_ok good k" "k_RetiredAt k = None" "rfc3339_range (k_CreatedAt k)" "k_Alg k \<noteq> []"
  shows "ring_ok kc good (snd (kr_install kc k r))"
proof (cases "buildHeader kc (k_ID k) (k_Alg k)")
  case (Inl e)
  then show ?thesis using ok by (simp add: kr_install_def installHeader_def)
next
  case (Inr b)
  let ?k = "k\<lparr>k_headerB64 := b\<rparr>"
  have valid: "alg_Valid (k_Alg k) = None"
    using Inr k(4) by (auto simp: buildHeader_def Let_def split: if_splits option.splits)
  have key: "key_ok kc good (k_ID k) ?k"
    using Inr k role valid by (auto simp: key_ok_def material_ok_def)
  show ?thesis
  proof (cases "kr_byID r = []")
    case True
    with Inr role key assms(3) show ?thesis
      by (auto simp: ring_ok_def kr_install_def installHeader_def Let_def map_wf_update)
  next
    case False
    then have act: "kr_active r \<noteq> []" "map_of (kr_byID r) (kr_active r) \<noteq> None"
      using ok by (simp_all add: ring_ok_def split: if_splits)
    with fresh have "k_ID k \<noteq> kr_active r" by auto
    with False Inr role key act ok show ?thesis
      by (auto simp: ring_ok_def kr_install_def installHeader_def Let_def map_wf_update split: if_splits)
  qed
qed

lemma kr_Add_ok:
  "ring_ok kc good r \<Longrightarrow> rfc3339_range now \<Longrightarrow> ring_ok kc good (snd (kr_Add kc ident secret now r))"
  by (auto simp: kr_Add_def Let_def material_ok_def AlgHS256_def intro!: kr_install_ok)

lemma addAsymmetric_ok:
  assumes "ring_ok kc good r" and "rfc3339_range now" and "good p" and "fits alg p" and "alg \<noteq> AlgHS256" and "alg \<noteq> []"
  shows "ring_ok kc good (snd (addAsymmetric kc ident alg (Some p) (Some (priv_Public p)) now r))"
  using assms by (auto simp: addAsymmetric_def Let_def material_ok_def intro!: kr_install_ok)

lemma algForCurve_alg: "algForCurve c = Ok alg \<Longrightarrow> alg \<noteq> AlgHS256 \<and> alg \<noteq> []"
  by (auto simp: algForCurve_def go_simps split: curve.splits)

definition gens_good :: "(privkey \<Rightarrow> bool) \<Rightarrow> generators \<Rightarrow> bool" where
  "gens_good good g \<longleftrightarrow>
     (\<forall>k. g_ed g = Ok k \<longrightarrow> good (Ed_priv k)) \<and>
     (\<forall>bits n d. g_rsa g = Ok (n, d) \<longrightarrow> good (RSA_priv bits n d)) \<and>
     (\<forall>c p d. g_ec g = Ok (p, d) \<longrightarrow> good (EC_priv c p d))"

lemma GenerateAlg_ok:
  assumes ok: "ring_ok kc good r" "rfc3339_range now" and g: "gens_good good g"
  shows "ring_ok kc good (snd (GenerateAlg kc alg g now r))"
proof -
  have ed: "ring_ok kc good (snd (GenerateEd25519 kc (g_id g) (g_ed g) now r))"
    using ok g addAsymmetric_ok [OF ok, of "Ed_priv k" AlgEdDSA for k]
    by (auto simp: GenerateEd25519_def gens_good_def go_simps split: sum.split)
  have rsa: "ring_ok kc good (snd (GenerateRSA kc 2048 (g_id g) (g_rsa g) now r))"
    using ok g addAsymmetric_ok [OF ok, of "RSA_priv 2048 n d" AlgRS256 for n d]
    by (auto simp: GenerateRSA_def gens_good_def go_simps split: sum.split prod.split)
  have ec: "ring_ok kc good (snd (GenerateECDSA kc c (g_id g) (g_ec g) now r))" for c
    using ok g addAsymmetric_ok [OF ok, of "EC_priv c p d" for p d] algForCurve_alg [of c]
    by (auto simp: GenerateECDSA_def gens_good_def split: sum.split prod.split)
  show ?thesis
    using ok ed rsa ec by (auto simp: GenerateAlg_def kr_Add_ok split: sum.split option.split)
qed

lemma ring_ok_update:
  assumes "ring_ok kc good r" and "map_of (kr_byID r) ident = Some k" and "key_ok kc good ident k'"
    and "k_Role k' = RoleActive \<longleftrightarrow> ident = kr_active r"
  shows "ring_ok kc good (r\<lparr>kr_byID := AList.update ident k' (kr_byID r)\<rparr>)"
  using assms ring_okD(3) [OF assms(1,2)] by (auto simp: ring_ok_def split: if_splits)

lemma kr_Retire_ok:
  assumes "ring_ok kc good r"
  shows "ring_ok kc good (snd (kr_Retire ident now r))"
  using assms ring_okD(1,2) [OF assms, of ident]
  by (auto simp: kr_Retire_def key_ok_def material_ok_def intro!: ring_ok_update split: option.split)

lemma key_ok_role:
  "key_ok kc good ident k \<Longrightarrow> k_Role k \<noteq> RoleRetired \<Longrightarrow> role \<in> {RoleActive, RoleVerifyOnly} \<Longrightarrow>
     key_ok kc good ident (k\<lparr>k_Role := role\<rparr>)"
  by (auto simp: key_ok_def material_ok_def)

lemma key_ok_ident: "key_ok kc good ident k \<Longrightarrow> k_ID k = ident \<and> ident \<noteq> []"
  by (auto simp: key_ok_def buildHeader_def)

lemma kr_Promote_ok:
  assumes ok: "ring_ok kc good r"
  shows "ring_ok kc good (snd (kr_Promote ident r))"
proof (cases "map_of (kr_byID r) ident")
  case None
  then show ?thesis using ok by (simp add: kr_Promote_def)
next
  case (Some k)
  note k = ring_okD [OF ok Some]
  show ?thesis
  proof (cases "k_Role k = RoleRetired")
    case True
    with Some ok show ?thesis by (simp add: kr_Promote_def)
  next
    case live: False
    have new: "key_ok kc good ident (k\<lparr>k_Role := RoleActive\<rparr>)" using key_ok_role [OF k(1) live] by simp
    obtain old where old: "map_of (kr_byID r) (kr_active r) = Some old"
      using ok k(3) by (auto simp: ring_ok_def split: if_splits)
    note old_ok = ring_okD [OF ok old]
    have "key_ok kc good (kr_active r) (old\<lparr>k_Role := RoleVerifyOnly\<rparr>)"
      using key_ok_role [OF old_ok(1)] old_ok(2) by simp
    moreover have "ident \<noteq> []" using key_ok_ident [OF k(1)] by simp
    ultimately show ?thesis
      using ok Some old new live
      by (cases "kr_active r = ident") (auto simp: kr_Promote_def ring_ok_def Let_def)
  qed
qed

subsection \<open>Reachable rings\<close>

text \<open>
  The ring as a state machine: its public operations in any order, on well-formed key material
  and with a clock in the range of RFC 3339.
\<close>

inductive ring_step :: "key_codec \<Rightarrow> (privkey \<Rightarrow> bool) \<Rightarrow> KeyRing \<Rightarrow> KeyRing \<Rightarrow> bool" for kc good where
  st_add: "rfc3339_range now \<Longrightarrow> ring_step kc good r (snd (kr_Add kc ident secret now r))"
| st_ed: "rfc3339_range now \<Longrightarrow> good (Ed_priv p) \<Longrightarrow> ring_step kc good r (snd (AddEd25519 kc ident p now r))"
| st_ec: "rfc3339_range now \<Longrightarrow> good (EC_priv c p d) \<Longrightarrow>
    ring_step kc good r (snd (AddECDSA kc ident (Some (c, p, d)) now r))"
| st_rsa: "rfc3339_range now \<Longrightarrow> good (RSA_priv b n d) \<Longrightarrow>
    ring_step kc good r (snd (AddRSA kc ident (Some (b, n, d)) now r))"
| st_gen: "rfc3339_range now \<Longrightarrow> gens_good good g \<Longrightarrow> ring_step kc good r (snd (GenerateAlg kc alg g now r))"
| st_promote: "ring_step kc good r (snd (kr_Promote ident r))"
| st_retire: "ring_step kc good r (snd (kr_Retire ident now r))"

lemma ring_ok_step: "ring_step kc good r r' \<Longrightarrow> ring_ok kc good r \<Longrightarrow> ring_ok kc good r'"
proof (induction rule: ring_step.induct)
  case (st_ed now p r ident)
  then show ?case
    using addAsymmetric_ok [of kc good r now "Ed_priv p" AlgEdDSA] by (auto simp: AddEd25519_def go_simps)
next
  case (st_ec now c p d r ident)
  then show ?case
    using addAsymmetric_ok [of kc good r now "EC_priv c p d"] algForCurve_alg [of c]
    by (auto simp: AddECDSA_def split: sum.split)
next
  case (st_rsa now b n d r ident)
  then show ?case
    using addAsymmetric_ok [of kc good r now "RSA_priv b n d" AlgRS256] by (auto simp: AddRSA_def go_simps)
qed (auto intro: kr_Add_ok GenerateAlg_ok kr_Promote_ok kr_Retire_ok)

lemma ring_ok_steps: "(ring_step kc good)\<^sup>*\<^sup>* r r' \<Longrightarrow> ring_ok kc good r \<Longrightarrow> ring_ok kc good r'"
  by (induction rule: rtranclp_induct) (auto intro: ring_ok_step)

lemma ring_ok_reach: "(ring_step kc good)\<^sup>*\<^sup>* NewKeyRing r \<Longrightarrow> ring_ok kc good r"
  using ring_ok_steps ring_ok_new by blast

subsection \<open>Snapshots of well-formed rings\<close>

lemma load_material_snapshot:
  assumes "key_ok kc good ident k" and kc: "key_codec_ok kc good"
  shows "load_material kc (snapshot_entry kc k) (k_Alg k) = Ok (k_Secret k, k_Private k, k_Public k)"
proof (cases "k_Alg k = AlgHS256")
  case True
  with assms show ?thesis
    by (auto simp: load_material_def snapshot_entry_def Let_def key_ok_def material_ok_def go_simps)
next
  case False
  with assms(1) obtain p where p: "k_Private k = Some p" "k_Public k = Some (priv_Public p)" "good p" "fits (k_Alg k) p"
    and sec: "k_Secret k = []" by (auto simp: key_ok_def material_ok_def)
  obtain b where b: "kc_pkcs8 kc p = Ok b" "kc_unpkcs8 kc b = Ok p" using kc p(3) by (auto simp: key_codec_ok_def)
  have pem: "kc_pem kc ''PRIVATE KEY'' b \<noteq> []" "kc_unpem kc (kc_pem kc ''PRIVATE KEY'' b) = Some b"
    using kc by (auto simp: key_codec_ok_def)
  have alg: "k_Alg k \<noteq> []" using assms(1) by (auto simp: key_ok_def alg_Valid_def go_simps split: if_splits)
  show ?thesis
    using p sec b pem alg False
    by (cases p) (auto simp: load_material_def snapshot_entry_def snapshot_pem_def Let_def encodePEM_def
        decodePrivatePEM_def algForCurve_def go_simps split: curve.splits)
qed

lemma load_entry_snapshot:
  assumes k: "key_ok kc good ident k" and kc: "key_codec_ok kc good" and live: "k_Role k \<noteq> RoleRetired"
  shows "load_entry kc (snapshot_entry kc k) = Ok k"
proof -
  have alg: "k_Alg k \<noteq> []" "alg_Valid (k_Alg k) = None" and hdr: "buildHeader kc (k_ID k) (k_Alg k) = Ok (k_headerB64 k)"
    and ret: "k_RetiredAt k = None"
    using k live by (auto simp: key_ok_def alg_Valid_def go_simps split: if_splits)
  have "kc_untime kc (kc_time kc (k_CreatedAt k)) = Ok (k_CreatedAt k)"
    using k kc by (auto simp: key_ok_def key_codec_ok_def)
  moreover have "sk_CreatedAt (snapshot_entry kc k) = kc_time kc (k_CreatedAt k)"
    "sk_Alg (snapshot_entry kc k) = k_Alg k" "sk_RetiredAt (snapshot_entry kc k) = []"
    "sk_ID (snapshot_entry kc k) = k_ID k" "sk_Role (snapshot_entry kc k) = k_Role k"
    using alg ret by (simp_all add: snapshot_entry_def Let_def)
  ultimately show ?thesis
    using load_material_snapshot [OF k kc] alg hdr ret
    by (simp add: load_entry_def buildHeaderInto_def Let_def)
qed

lemma load_entries_snapshot:
  assumes "\<And>k. k \<in> set ks \<Longrightarrow> load_entry kc (snapshot_entry kc k) = Ok k"
  shows "load_entries kc (map (snapshot_entry kc) ks) m = Ok (fold (\<lambda>k. AList.update (k_ID k) k) ks m)"
proof -
  have "sk_ID (snapshot_entry kc k) = k_ID k" for k by (simp add: snapshot_entry_def Let_def)
  then show ?thesis using assms by (induction ks arbitrary: m) auto
qed

lemma map_of_fold_update:
  "distinct (map k_ID ks) \<Longrightarrow> map_of (fold (\<lambda>k. AList.update (k_ID k) k) ks m) ident =
     (case find (\<lambda>k. k_ID k = ident) ks of Some k \<Rightarrow> Some k | None \<Rightarrow> map_of m ident)"
proof (induction ks arbitrary: m)
  case (Cons k ks)
  have "k_ID k = ident \<Longrightarrow> find (\<lambda>k. k_ID k = ident) ks = None"
    using Cons.prems by (simp add: find_None_iff) (metis imageI)
  then show ?case using Cons by (auto split: option.split)
qed simp

lemma ring_keys:
  assumes ok: "ring_ok kc good r"
  shows "distinct (map k_ID (map snd (kr_byID r)))"
    and "k \<in> set (map snd (kr_byID r)) \<Longrightarrow> map_of (kr_byID r) (k_ID k) = Some k"
proof -
  have wf: "map_wf (kr_byID r)" using ok by (simp add: ring_ok_def)
  have own: "k_ID k = ident" if "(ident, k) \<in> set (kr_byID r)" for ident k
    using ring_okD(1) [OF ok map_of_is_SomeI [OF wf that]] by (simp add: key_ok_def)
  then have "map k_ID (map snd (kr_byID r)) = map fst (kr_byID r)" by auto
  with wf show "distinct (map k_ID (map snd (kr_byID r)))" by metis
  show "map_of (kr_byID r) (k_ID k) = Some k" if "k \<in> set (map snd (kr_byID r))"
    using that own wf by (force intro: map_of_is_SomeI)
qed

lemma sort_key_map: "sort_key f (map g xs) = map g (sort_key (\<lambda>x. f (g x)) xs)"
proof (induction xs)
  case (Cons x xs)
  have "insort_key f (g x) (map g ys) = map g (insort_key (\<lambda>x. f (g x)) x ys)" for ys
    by (induction ys) auto
  with Cons show ?case by simp
qed simp

lemma snapshot_roundtrip:
  assumes ok: "ring_ok kc good r" and kc: "key_codec_ok kc good"
  obtains r'' where "kr_LoadSnapshot kc (kr_Snapshot kc r) r' = (None, r'')"
    and "\<And>ident. map_of (kr_byID r'') ident =
      (case map_of (kr_byID r) ident of Some k \<Rightarrow> if k_Role k = RoleRetired then None else Some k | None \<Rightarrow> None)"
    and "kr_active r'' = kr_active r"
proof -
  let ?live = "filter (\<lambda>k. k_Role k \<noteq> RoleRetired) (map snd (kr_byID r))"
  obtain ks where ks: "sort_key sk_ID (map (snapshot_entry kc) ?live) = map (snapshot_entry kc) ks"
    and perm: "mset ks = mset ?live"
  proof
    show "sort_key sk_ID (map (snapshot_entry kc) ?live) =
        map (snapshot_entry kc) (sort_key (\<lambda>k. sk_ID (snapshot_entry kc k)) ?live)"
      by (rule sort_key_map)
  qed simp
  have set: "set ks = set ?live" using perm by (metis set_mset_mset)
  have load: "load_entries kc (map (snapshot_entry kc) ks) [] = Ok (fold (\<lambda>k. AList.update (k_ID k) k) ks [])"
  proof (rule load_entries_snapshot)
    fix k assume "k \<in> set ks"
    then have "k \<in> set (map snd (kr_byID r))" "k_Role k \<noteq> RoleRetired" using set by auto
    then show "load_entry kc (snapshot_entry kc k) = Ok k"
      using load_entry_snapshot [OF _ kc] ring_okD(1) [OF ok ring_keys(2) [OF ok]] by blast
  qed
  have dist: "distinct (map k_ID ks)"
  proof -
    have "distinct (map k_ID ?live)" using ring_keys(1) [OF ok] by (simp add: distinct_map_filter)
    moreover have "mset (map k_ID ks) = mset (map k_ID ?live)" using perm by simp
    ultimately show ?thesis using mset_eq_imp_distinct_iff by blast
  qed
  let ?m = "fold (\<lambda>k. AList.update (k_ID k) k) ks []"
  have look: "map_of ?m ident = (case map_of (kr_byID r) ident of
      Some k \<Rightarrow> if k_Role k = RoleRetired then None else Some k | None \<Rightarrow> None)" for ident
  proof (cases "find (\<lambda>k. k_ID k = ident) ks")
    case None
    have "k_Role k = RoleRetired" if k: "map_of (kr_byID r) ident = Some k" for k
    proof (rule ccontr)
      assume live: "k_Role k \<noteq> RoleRetired"
      have "k_ID k = ident" using ring_okD(1) [OF ok k] by (simp add: key_ok_def)
      moreover have "k \<in> set ks" using live map_of_SomeD [OF k] unfolding set by force
      ultimately show False using None by (auto simp: find_None_iff)
    qed
    with None show ?thesis using map_of_fold_update [OF dist, of "[]" ident] by (auto split: option.split)
  next
    case (Some k)
    then have "k \<in> set ks" and ident: "k_ID k = ident" by (auto simp: find_Some_iff)
    then have "k \<in> set (map snd (kr_byID r))" "k_Role k \<noteq> RoleRetired" using set by auto
    with ring_keys(2) [OF ok, of k] ident show ?thesis
      using map_of_fold_update [OF dist, of "[]" ident] Some by simp
  qed
  show thesis
  proof (rule that)
    have "sn_Keys (kr_Snapshot kc r) = map (snapshot_entry kc) ks" using ks by (simp add: kr_Snapshot_def)
    moreover have "kr_active r = [] \<Longrightarrow> ks = []" using ok perm by (simp add: ring_ok_def)
    moreover have "map_of ?m (kr_active r) \<noteq> None" if act: "kr_active r \<noteq> []"
    proof -
      obtain k where k: "map_of (kr_byID r) (kr_active r) = Some k" using ok act by (auto simp: ring_ok_def)
      then show ?thesis using look [of "kr_active r"] ring_okD(2) [OF ok k] by simp
    qed
    ultimately show "kr_LoadSnapshot kc (kr_Snapshot kc r) r' = (None, r'\<lparr>kr_byID := ?m, kr_active := kr_active r\<rparr>)"
      using load by (auto simp: kr_LoadSnapshot_def kr_Snapshot_def)
  qed (simp_all add: look)
qed

subsection \<open>Properties\<close>


definition plain_codec :: key_codec where
  "plain_codec = \<lparr>kc_header = (\<lambda>h. Ok (h_Alg h @ CHR ''.'' # h_Typ h @ CHR ''.'' # h_Kid h)),
     kc_unheader = (\<lambda>b. case strings_Split CHR ''.'' b of
        a # t # kid # rest \<Rightarrow> Ok \<lparr>h_Alg = a, h_Kid = strings_Join (kid # rest) CHR ''.'', h_Typ = t\<rparr>
      | _ \<Rightarrow> Err (Plain ''malformed'')),
     kc_pkcs8 = (\<lambda>p. case p of Ed_priv k \<Rightarrow> Ok k | _ \<Rightarrow> Err (Plain ''unsupported'')),
     kc_unpkcs8 = (\<lambda>b. Ok (Ed_priv b)),
     kc_pem = (\<lambda>ty b. CHR ''-'' # b), kc_unpem = (\<lambda>s. case s of [] \<Rightarrow> None | _ # b \<Rightarrow> Some b),
     kc_time = (\<lambda>t. if t < 0 then CHR ''-'' # be_bytes (nat (- t)) else CHR ''+'' # be_bytes (nat t)),
     kc_untime = (\<lambda>s. case s of [] \<Rightarrow> Err (Plain ''empty'')
        | c # bs \<Rightarrow> Ok (if c = CHR ''-'' then - int (be_val bs) else int (be_val bs)))\<rparr>"

definition ed_only :: "privkey \<Rightarrow> bool" where
  "ed_only p \<longleftrightarrow> (case p of Ed_priv k \<Rightarrow> True | _ \<Rightarrow> False)"

lemma plain_codec_ok: "key_codec_ok plain_codec ed_only"
  by (auto simp: key_codec_ok_def plain_codec_def ed_only_def split: privkey.splits)


lemma kr_GetD: "kr_Get ident r = Ok k \<Longrightarrow> map_of (kr_byID r) ident = Some k \<and> k_Role k \<noteq> RoleRetired"
  by (auto simp: kr_Get_def split: option.splits if_splits)

lemma kr_Promote_lookup:
  assumes ok: "ring_ok kc good r" and "kr_Get new r = Ok k"
  obtains r' where "kr_Promote new r = (None, r')" and "kr_active r' = new"
    and "\<And>x. map_of (kr_byID r') x =
      (if x = new then Some (k\<lparr>k_Role := RoleActive\<rparr>)
       else if x = kr_active r then map_option (\<lambda>ko. ko\<lparr>k_Role := RoleVerifyOnly\<rparr>) (map_of (kr_byID r) x)
       else map_of (kr_byID r) x)"
proof -
  note k = kr_GetD [OF assms(2)]
  obtain old where old: "map_of (kr_byID r) (kr_active r) = Some old"
    using ok ring_okD(3) [OF ok, of new k] k by (auto simp: ring_ok_def)
  have act: "kr_active r \<noteq> []" using ring_okD(3) [OF ok] k by blast
  show thesis
  proof (cases "kr_active r = new")
    case True
    show thesis
      by (rule that [of "r\<lparr>kr_byID := AList.update new (k\<lparr>k_Role := RoleActive\<rparr>) (kr_byID r), kr_active := new\<rparr>"])
        (use k True in \<open>auto simp: kr_Promote_def\<close>)
  next
    case False
    show thesis
      by (rule that [of "r\<lparr>kr_byID := AList.update new (k\<lparr>k_Role := RoleActive\<rparr>)
            (AList.update (kr_active r) (old\<lparr>k_Role := RoleVerifyOnly\<rparr>) (kr_byID r)), kr_active := new\<rparr>"])
        (use k old act False in \<open>auto simp: kr_Promote_def\<close>)
  qed
qed

text \<open>
  Rotation without downtime: promoting a key makes it the signing key and leaves every other
  live key usable for verification with the same material; only an explicit \<^verbatim>\<open>Retire\<close> of a key
  other than the active one stops it, and then at once.
\<close>

theorem ring_rotation:
  assumes "(ring_step kc good)\<^sup>*\<^sup>* NewKeyRing r" and "kr_Get new r = Ok k" and "kr_Get old r = Ok k'"
    and "old \<noteq> new"
  shows "\<exists>r' r'' ka kb. kr_Promote new r = (None, r') \<and> kr_Active r' = Ok ka \<and> k_ID ka = new \<and>
      kr_Get old r' = Ok kb \<and> k_ID kb = old \<and> k_Alg kb = k_Alg k' \<and> k_Secret kb = k_Secret k' \<and>
      k_Private kb = k_Private k' \<and> k_Public kb = k_Public k' \<and>
      kr_Retire old now r' = (None, r'') \<and> (\<exists>e. kr_Get old r'' = Err e) \<and> kr_Active r'' = Ok ka"
proof -
  have ok: "ring_ok kc good r" using assms(1) by (rule ring_ok_reach)
  obtain r' where r': "kr_Promote new r = (None, r')" "kr_active r' = new"
    and look: "\<And>x. map_of (kr_byID r') x =
      (if x = new then Some (k\<lparr>k_Role := RoleActive\<rparr>)
       else if x = kr_active r then map_option (\<lambda>ko. ko\<lparr>k_Role := RoleVerifyOnly\<rparr>) (map_of (kr_byID r) x)
       else map_of (kr_byID r) x)"
    using kr_Promote_lookup [OF ok assms(2)] by metis
  note k = kr_GetD [OF assms(2)] and k' = kr_GetD [OF assms(3)]
  have ids: "k_ID k = new" "k_ID k' = old" "new \<noteq> []"
    using key_ok_ident [OF ring_okD(1) [OF ok]] k k' by blast+
  define kb where "kb = (if old = kr_active r then k'\<lparr>k_Role := RoleVerifyOnly\<rparr> else k')"
  have kb: "map_of (kr_byID r') old = Some kb" "k_Role kb \<noteq> RoleRetired"
    using look [of old] k' assms(4) by (auto simp: kb_def)
  let ?r'' = "r'\<lparr>kr_byID := AList.update old (kb\<lparr>k_Role := RoleRetired, k_RetiredAt := Some now\<rparr>) (kr_byID r')\<rparr>"
  have "kr_Retire old now r' = (None, ?r'')" using kb r'(2) assms(4) by (simp add: kr_Retire_def)
  moreover have "\<exists>e. kr_Get old ?r'' = Err e" by (simp add: kr_Get_def)
  moreover have "kr_Active r' = Ok (k\<lparr>k_Role := RoleActive\<rparr>)" "kr_Active ?r'' = Ok (k\<lparr>k_Role := RoleActive\<rparr>)"
    using look [of new] r'(2) ids(3) assms(4) by (simp_all add: kr_Active_def)
  moreover have "kr_Get old r' = Ok kb" using kb by (simp add: kr_Get_def)
  moreover have "k_ID kb = old \<and> k_Alg kb = k_Alg k' \<and> k_Secret kb = k_Secret k' \<and>
      k_Private kb = k_Private k' \<and> k_Public kb = k_Public k'" using ids by (simp add: kb_def)
  ultimately show ?thesis using r'(1) ids(1)
    by (intro exI [of _ r'] exI [of _ ?r''] exI [of _ "k\<lparr>k_Role := RoleActive\<rparr>"] exI [of _ kb]) simp
qed

definition two_keys :: KeyRing where
  "two_keys = snd (kr_Add plain_codec ''k2'' (replicate 32 CHR ''t'') 1
     (snd (kr_Add plain_codec ''k1'' (replicate 32 CHR ''s'') 0 NewKeyRing)))"

lemma two_keys_reach: "(ring_step plain_codec ed_only)\<^sup>*\<^sup>* NewKeyRing two_keys"
proof -
  have "rfc3339_range 0" "rfc3339_range 1" by (simp_all add: rfc3339_range_def zero_time_def)
  then show ?thesis
    unfolding two_keys_def
    by (meson r_into_rtranclp ring_step.st_add rtranclp.rtrancl_into_rtrancl)
qed

theorem ring_rotation_witness:
  "\<exists>r' ka. kr_Promote ''k2'' two_keys = (None, r') \<and> kr_Active r' = Ok ka \<and> k_ID ka = ''k2'' \<and>
     (\<exists>kb. kr_Get ''k1'' r' = Ok kb \<and> k_Secret kb = replicate 32 CHR ''s'')"
proof -
  obtain k where new: "kr_Get ''k2'' two_keys = Ok k"
    by (simp add: two_keys_def kr_Add_def kr_install_def installHeader_def buildHeader_def plain_codec_def
        NewKeyRing_def kr_Get_def alg_Valid_def Let_def go_simps)
  obtain k' where old: "kr_Get ''k1'' two_keys = Ok k'" "k_Secret k' = replicate 32 CHR ''s''"
    by (simp add: two_keys_def kr_Add_def kr_install_def installHeader_def buildHeader_def plain_codec_def
        NewKeyRing_def kr_Get_def alg_Valid_def Let_def go_simps)
  have "''k1'' \<noteq> ''k2''" by simp
  from ring_rotation [OF two_keys_reach new old(1) this, of 5] old(2) show ?thesis by metis
qed

text \<open>
  C36. Saving and loading keep the ring: loading the snapshot of a reachable ring succeeds and
  gives back the same active id and exactly the keys that are not retired, each unchanged in every
  field, whatever the ring held before.
\<close>

theorem snapshot_load_roundtrip:
  assumes "(ring_step kc good)\<^sup>*\<^sup>* NewKeyRing r" and "key_codec_ok kc good"
  shows "\<exists>r''. kr_LoadSnapshot kc (kr_Snapshot kc r) r' = (None, r'') \<and> kr_active r'' = kr_active r \<and>
    (\<forall>ident. map_of (kr_byID r'') ident =
       (case map_of (kr_byID r) ident of Some k \<Rightarrow> if k_Role k = RoleRetired then None else Some k | None \<Rightarrow> None))"
  by (rule snapshot_roundtrip [OF ring_ok_reach [OF assms(1)] assms(2), of r']) blast

theorem snapshot_load_roundtrip_witness:
  "\<exists>r''. kr_LoadSnapshot plain_codec (kr_Snapshot plain_codec two_keys) NewKeyRing = (None, r'') \<and>
     kr_active r'' = kr_active two_keys"
  using snapshot_load_roundtrip [OF two_keys_reach plain_codec_ok, of NewKeyRing] by blast

text \<open>
  \<^verbatim>\<open>LoadSnapshot\<close> does not check the roles of the entries: a snapshot whose active key has
  the role \<^verbatim>\<open>retired\<close> is installed.  Then \<^verbatim>\<open>Active\<close> hands out a signing key that \<^verbatim>\<open>Get\<close>
  refuses, so no token minted with it verifies.
\<close>

theorem LoadSnapshot_accepts_retired_active:
  assumes "load_entry kc e = Ok k" and "sk_Role e = RoleRetired" and "sk_ID e \<noteq> []"
  shows "\<exists>r' k'. kr_LoadSnapshot kc \<lparr>sn_FormatVersion = v, sn_ActiveKeyID = sk_ID e, sn_Keys = [e]\<rparr> r = (None, r') \<and>
    kr_Active r' = Ok k' \<and> k_ID k' = sk_ID e \<and> (\<exists>err. kr_Get (sk_ID e) r' = Err err)"
proof -
  have "k_Role k = sk_Role e" "k_ID k = sk_ID e"
    using assms(1) by (auto simp: load_entry_def buildHeaderInto_def Let_def
        split: sum.splits option.splits if_splits prod.splits)
  with assms show ?thesis by (simp add: kr_LoadSnapshot_def kr_Active_def kr_Get_def)
qed

theorem LoadSnapshot_accepts_retired_active_witness:
  "let e = \<lparr>sk_ID = ''k1'', sk_Alg = [], sk_SecretHex = hex_encode (replicate 32 CHR ''s''), sk_PrivatePEM = [],
            sk_Role = ''retired'', sk_CreatedAt = ''+'', sk_RetiredAt = []\<rparr>
   in \<exists>r' k'. kr_LoadSnapshot plain_codec \<lparr>sn_FormatVersion = [], sn_ActiveKeyID = ''k1'', sn_Keys = [e]\<rparr> NewKeyRing
        = (None, r') \<and> kr_Active r' = Ok k' \<and> (\<exists>err. kr_Get ''k1'' r' = Err err)"
proof -
  let ?e = "\<lparr>sk_ID = ''k1'', sk_Alg = [], sk_SecretHex = hex_encode (replicate 32 CHR ''s''), sk_PrivatePEM = [],
            sk_Role = ''retired'', sk_CreatedAt = ''+'', sk_RetiredAt = []\<rparr>"
  have "\<exists>k. load_entry plain_codec ?e = Ok k"
    by (simp add: load_entry_def plain_codec_def load_material_def alg_Valid_def buildHeaderInto_def
        buildHeader_def Let_def go_simps del: hex_encode.simps)
  then obtain k where k: "load_entry plain_codec ?e = Ok k" by blast
  from LoadSnapshot_accepts_retired_active [OF k, of "[]" NewKeyRing] show ?thesis
    by (simp add: Let_def go_simps) blast
qed

end
