(* ===== verification/ChannelPattern.thy ===== *)
theory ChannelPattern
  imports ChannelName
begin

text \<open>
  Channel patterns of \<^verbatim>\<open>src/channels/pattern.go\<close>: the parser \<^verbatim>\<open>ParsePattern\<close> and the matcher
  \<^verbatim>\<open>Matches\<close> with its index loop \<^verbatim>\<open>matchSegments\<close>.  The parser is characterised by the
  pattern grammar (\<open>wf_pattern\<close>), the loop by a declarative match (\<open>segs_match\<close>).
\<close>

definition MaxPatternDepth :: nat where [go_simps]: "MaxPatternDepth = 8"

datatype patternSegmentKind = SegLiteral | SegSingleStar | SegDoubleStar

record patternSegment =
  ps_kind :: patternSegmentKind
  ps_lit :: string

record pattern =
  p_raw :: string
  p_visibility :: visibility
  p_segs :: "patternSegment list"

definition IsValid :: "pattern \<Rightarrow> bool" where
  "IsValid p \<longleftrightarrow> length (p_segs p) > 0"

text \<open>The loop over the split text; \<open>i\<close> is the loop index and \<open>n\<close> is \<^verbatim>\<open>len(parts)\<close>.\<close>

fun parse_segs :: "nat \<Rightarrow> nat \<Rightarrow> string list \<Rightarrow> patternSegment list result" where
  "parse_segs i n [] = Ok []"
| "parse_segs i n (p # ps) =
     (case
        (if p = [] then Err (err_New InvalidArgument ''pattern segment must not be empty'')
         else if p = ''*'' then Ok \<lparr>ps_kind = SegSingleStar, ps_lit = []\<rparr>
         else if p = ''**'' then
           (if i + 1 \<noteq> n then Err (err_New InvalidArgument ''** is only allowed as the trailing segment'')
            else Ok \<lparr>ps_kind = SegDoubleStar, ps_lit = []\<rparr>)
         else
           (case validateComponent p of
              Some e \<Rightarrow> Err (err_New InvalidArgument (''invalid pattern segment: '' @ err_Error e))
            | None \<Rightarrow> Ok \<lparr>ps_kind = SegLiteral, ps_lit = p\<rparr>))
      of Err e \<Rightarrow> Err e
       | Ok seg \<Rightarrow> (case parse_segs (Suc i) n ps of Err e \<Rightarrow> Err e | Ok segs \<Rightarrow> Ok (seg # segs)))"

definition ParsePattern :: "string \<Rightarrow> pattern result" where
  "ParsePattern s =
     (let colon = strings_IndexByte s CHR '':'' in
      if colon \<le> 0 \<or> colon = int (length s) - 1 then
        Err (err_New InvalidArgument ''pattern must start with public: or private:'')
      else
        let vis = take (nat colon) s in
        if vis \<noteq> VisibilityPublic \<and> vis \<noteq> VisibilityPrivate then
          Err (err_New InvalidArgument ''pattern visibility must be public or private (no cross-visibility wildcards)'')
        else
          let rest = drop (nat (colon + 1)) s in
          if CHR '':'' \<in> set rest then
            Err (err_New InvalidArgument ''the : character is reserved for the visibility prefix'')
          else
            let parts = strings_Split CHR ''.'' rest in
            if length parts < 1 \<or> (length parts = 1 \<and> parts ! 0 = []) then
              Err (err_New InvalidArgument ''pattern must have at least one segment after the visibility prefix'')
            else if length parts > MaxPatternDepth then
              Err (err_New InvalidArgument ''pattern exceeds maximum segment depth'')
            else
              case parse_segs 0 (length parts) parts of
                Err e \<Rightarrow> Err e
              | Ok segs \<Rightarrow> Ok \<lparr>p_raw = s, p_visibility = vis, p_segs = segs\<rparr>)"

text \<open>\<^verbatim>\<open>matchSegments\<close>: \<open>i\<close> is the loop index, \<open>n\<close> is \<^verbatim>\<open>len(pat)\<close>.\<close>

fun match_loop :: "nat \<Rightarrow> nat \<Rightarrow> patternSegment list \<Rightarrow> string list \<Rightarrow> bool" where
  "match_loop i n [] name = (length name = n)"
| "match_loop i n (ps # pat) name =
     (case ps_kind ps of
        SegDoubleStar \<Rightarrow> length name > i
      | SegSingleStar \<Rightarrow> if i \<ge> length name then False else match_loop (Suc i) n pat name
      | SegLiteral \<Rightarrow>
          if i \<ge> length name then False
          else if name ! i \<noteq> ps_lit ps then False
          else match_loop (Suc i) n pat name)"

definition matchSegments :: "patternSegment list \<Rightarrow> string list \<Rightarrow> bool" where
  "matchSegments pat name = match_loop 0 (length pat) pat name"

definition Matches :: "pattern \<Rightarrow> chan_name \<Rightarrow> bool" where
  "Matches p n =
     (if \<not> IsValid p then False
      else if p_visibility p \<noteq> n_Visibility n then False
      else matchSegments (p_segs p)
        (filter (\<lambda>s. s \<noteq> []) [n_App n, n_Domain n, n_ID n, n_Topic n]))"

subsection \<open>The pattern grammar and the declarative match\<close>

definition wf_segment :: "patternSegment \<Rightarrow> bool" where
  "wf_segment ps \<longleftrightarrow> (if ps_kind ps = SegLiteral then component_ok (ps_lit ps) else ps_lit ps = [])"

definition wf_pattern :: "pattern \<Rightarrow> bool" where
  "wf_pattern p \<longleftrightarrow>
     (p_visibility p = VisibilityPublic \<or> p_visibility p = VisibilityPrivate) \<and>
     0 < length (p_segs p) \<and> length (p_segs p) \<le> MaxPatternDepth \<and>
     list_all wf_segment (p_segs p) \<and>
     list_all (\<lambda>ps. ps_kind ps \<noteq> SegDoubleStar) (butlast (p_segs p))"

definition seg_text :: "patternSegment \<Rightarrow> string" where
  "seg_text ps = (case ps_kind ps of SegLiteral \<Rightarrow> ps_lit ps | SegSingleStar \<Rightarrow> ''*'' | SegDoubleStar \<Rightarrow> ''**'')"

definition pattern_text :: "pattern \<Rightarrow> string" where
  "pattern_text p = p_visibility p @ '':'' @ strings_Join (map seg_text (p_segs p)) CHR ''.''"

definition seg_fits :: "patternSegment \<Rightarrow> string \<Rightarrow> bool" where
  "seg_fits ps s \<longleftrightarrow> ps_kind ps = SegSingleStar \<or> ps_kind ps = SegLiteral \<and> ps_lit ps = s"

text \<open>
  Either the segments correspond one to one, or the last one is \<^verbatim>\<open>**\<close>, those before it
  correspond to a prefix, and at least one name segment is left for it.
\<close>

definition segs_match :: "patternSegment list \<Rightarrow> string list \<Rightarrow> bool" where
  "segs_match pat name \<longleftrightarrow>
     list_all2 seg_fits pat name \<or>
     (pat \<noteq> [] \<and> ps_kind (last pat) = SegDoubleStar \<and> length pat \<le> length name \<and>
      list_all2 seg_fits (butlast pat) (take (length pat - 1) name))"

lemma match_loop_drop:
  assumes "list_all (\<lambda>ps. ps_kind ps \<noteq> SegDoubleStar) (butlast pat)" and "i \<le> length name"
  shows "match_loop i (i + length pat) pat name \<longleftrightarrow> segs_match pat (drop i name)"
  using assms
proof (induction pat arbitrary: i)
  case Nil
  then show ?case by (auto simp: segs_match_def)
next
  case (Cons ps pat)
  show ?case
  proof (cases "i < length name")
    case False
    with Cons.prems(2) have "i = length name" by simp
    then show ?thesis by (simp add: segs_match_def split: patternSegmentKind.split)
  next
    case True
    then have drop: "drop i name = name ! i # drop (Suc i) name"
      by (simp add: Cons_nth_drop_Suc)
    have last: "list_all (\<lambda>ps. ps_kind ps \<noteq> SegDoubleStar) (butlast pat)"
      using Cons.prems(1) by (auto split: if_splits)
    have IH: "match_loop (Suc i) (Suc (i + length pat)) pat name = segs_match pat (drop (Suc i) name)"
      using Cons.IH [OF last, of "Suc i"] True by simp
    have step: "segs_match (ps # pat) (drop i name) \<longleftrightarrow>
      (if ps_kind ps = SegDoubleStar then pat = [] else seg_fits ps (name ! i) \<and> segs_match pat (drop (Suc i) name))"
      using Cons.prems(1) True
      by (cases pat) (auto simp: drop segs_match_def seg_fits_def)
    have dbl: "ps_kind ps = SegDoubleStar \<Longrightarrow> pat = []"
      using Cons.prems(1) by (auto split: if_splits)
    show ?thesis
      unfolding step using True dbl
      by (cases "ps_kind ps") (simp_all add: IH seg_fits_def eq_commute)
  qed
qed

lemma matchSegments_segs_match:
  "wf_pattern p \<Longrightarrow> matchSegments (p_segs p) name = segs_match (p_segs p) name"
  using match_loop_drop [of "p_segs p" 0 name] by (simp add: matchSegments_def wf_pattern_def)

subsection \<open>The parser\<close>

lemma wf_segment_text:
  assumes "wf_segment ps"
  shows "CHR ''.'' \<notin> set (seg_text ps)" and "CHR '':'' \<notin> set (seg_text ps)" and "seg_text ps \<noteq> []"
  using assms component_ok_not_sep [of "ps_lit ps"]
  by (auto simp: wf_segment_def seg_text_def component_ok_def split: patternSegmentKind.splits if_splits)

lemma parse_segs_sound:
  "parse_segs i (i + length ps) ps = Ok segs \<Longrightarrow>
     map seg_text segs = ps \<and> list_all wf_segment segs \<and>
     list_all (\<lambda>s. ps_kind s \<noteq> SegDoubleStar) (butlast segs)"
proof (induction ps arbitrary: i segs)
  case Nil
  then show ?case by simp
next
  case (Cons p ps)
  then obtain seg segs' where segs: "segs = seg # segs'"
    and rec: "parse_segs (Suc i) (Suc i + length ps) ps = Ok segs'"
    and seg: "seg_text seg = p \<and> wf_segment seg \<and> (ps_kind seg = SegDoubleStar \<longrightarrow> ps = [])"
    by (auto simp: seg_text_def wf_segment_def split: if_splits option.splits sum.splits)
  from Cons.IH [OF rec] seg show ?case
    unfolding segs by (cases segs') auto
qed

lemma parse_segs_complete:
  "list_all wf_segment segs \<Longrightarrow> list_all (\<lambda>s. ps_kind s \<noteq> SegDoubleStar) (butlast segs) \<Longrightarrow>
     parse_segs i (i + length segs) (map seg_text segs) = Ok segs"
proof (induction segs arbitrary: i)
  case Nil
  then show ?case by simp
next
  case (Cons s segs)
  have last: "list_all (\<lambda>s. ps_kind s \<noteq> SegDoubleStar) (butlast segs)"
    and dbl: "ps_kind s = SegDoubleStar \<Longrightarrow> segs = []"
    using Cons.prems(2) by (auto split: if_splits)
  have IH: "parse_segs (Suc i) (Suc (i + length segs)) (map seg_text segs) = Ok segs"
    using Cons.IH [OF _ last, of "Suc i"] Cons.prems(1) by simp
  have lit: "ps_kind s = SegLiteral \<Longrightarrow>
      ps_lit s \<noteq> ''*'' \<and> ps_lit s \<noteq> ''**'' \<and> ps_lit s \<noteq> [] \<and> validateComponent (ps_lit s) = None"
    using Cons.prems(1) by (auto simp: wf_segment_def component_ok_def component_char_def)
  have star: "ps_kind s \<noteq> SegLiteral \<Longrightarrow> ps_lit s = []"
    using Cons.prems(1) by (simp add: wf_segment_def)
  have prnt: "seg_text s = (case ps_kind s of SegLiteral \<Rightarrow> ps_lit s | SegSingleStar \<Rightarrow> ''*'' | SegDoubleStar \<Rightarrow> ''**'')"
    by (simp add: seg_text_def)
  have eq: "\<lparr>ps_kind = k, ps_lit = l\<rparr> = s" if "ps_kind s = k" "ps_lit s = l" for k l
    using that by auto
  show ?case
  proof (cases "ps_kind s")
    case SegLiteral
    with lit IH show ?thesis by (simp add: prnt eq del: validateComponent_None)
  next
    case SegSingleStar
    with star IH show ?thesis by (simp add: prnt eq)
  next
    case SegDoubleStar
    with star dbl show ?thesis by (simp add: prnt eq)
  qed
qed

lemma wf_pattern_Split:
  assumes "wf_pattern p"
  shows "strings_Split CHR ''.'' (strings_Join (map seg_text (p_segs p)) CHR ''.'') = map seg_text (p_segs p)"
proof (rule strings_Split_Join)
  show "map seg_text (p_segs p) \<noteq> []" using assms by (auto simp: wf_pattern_def)
  show "CHR ''.'' \<notin> set t" if "t \<in> set (map seg_text (p_segs p))" for t
    using that assms wf_segment_text(1) by (auto simp: wf_pattern_def list_all_iff)
qed

lemma set_strings_Join: "set (strings_Join ps c) \<subseteq> insert c (\<Union> (set ` set ps))"
  by (induction ps c rule: strings_Join.induct) auto

lemma visibility_no_colon:
  "vis = VisibilityPublic \<or> vis = VisibilityPrivate \<Longrightarrow> CHR '':'' \<notin> set vis \<and> vis \<noteq> []"
  by (auto simp: go_simps)

lemma ParsePattern_prefixed:
  assumes "vis = VisibilityPublic \<or> vis = VisibilityPrivate"
  shows "ParsePattern (vis @ CHR '':'' # rest) = Ok p \<longleftrightarrow>
    rest \<noteq> [] \<and> CHR '':'' \<notin> set rest \<and>
    length (strings_Split CHR ''.'' rest) \<le> MaxPatternDepth \<and>
    (\<exists>segs. parse_segs 0 (length (strings_Split CHR ''.'' rest)) (strings_Split CHR ''.'' rest) = Ok segs \<and>
       p = \<lparr>p_raw = vis @ CHR '':'' # rest, p_visibility = vis, p_segs = segs\<rparr>)"
proof -
  have colon: "strings_IndexByte (vis @ CHR '':'' # rest) CHR '':'' = int (length vis)"
    using visibility_no_colon [OF assms] by (simp add: strings_IndexByte_append)
  have one: "length (strings_Split CHR ''.'' rest) = 1 \<and> strings_Split CHR ''.'' rest ! 0 = [] \<longleftrightarrow> rest = []"
  proof
    assume asm: "length (strings_Split CHR ''.'' rest) = 1 \<and> strings_Split CHR ''.'' rest ! 0 = []"
    then have "strings_Split CHR ''.'' rest = [[]]" by (cases "strings_Split CHR ''.'' rest") auto
    then show "rest = []" using strings_Join_Split [of "CHR ''.''" rest] by simp
  qed simp
  have ne: "\<not> length (strings_Split CHR ''.'' rest) < 1" by (simp add: Suc_le_eq)
  have nvis: "\<not> (vis \<noteq> VisibilityPublic \<and> vis \<noteq> VisibilityPrivate)" using assms by auto
  have guard: "(int (length vis) \<le> 0 \<or> int (length vis) = int (length (vis @ CHR '':'' # rest)) - 1) \<longleftrightarrow> rest = []"
    using visibility_no_colon [OF assms] by auto
  have tk: "take (nat (int (length vis))) (vis @ CHR '':'' # rest) = vis"
    "drop (nat (int (length vis) + 1)) (vis @ CHR '':'' # rest) = rest"
    by (simp_all add: nat_add_distrib)
  show ?thesis
    unfolding ParsePattern_def Let_def colon tk guard one
    using nvis ne by (simp split: sum.split) blast
qed

lemma ParsePattern_has_prefix:
  assumes "ParsePattern s = Ok p"
  obtains vis rest where "s = vis @ CHR '':'' # rest"
    and "vis = VisibilityPublic \<or> vis = VisibilityPrivate"
proof -
  from assms have "0 \<le> strings_IndexByte s CHR '':''"
    and vis: "take (nat (strings_IndexByte s CHR '':'')) s = VisibilityPublic \<or>
      take (nat (strings_IndexByte s CHR '':'')) s = VisibilityPrivate"
    by (auto simp: ParsePattern_def Let_def split: if_splits)
  from strings_IndexByte_split [OF this(1)] vis that show thesis by blast
qed

lemma ParsePattern_sound:
  assumes "ParsePattern s = Ok p"
  shows "wf_pattern p \<and> p_raw p = s \<and> pattern_text p = s"
proof -
  obtain vis rest where s: "s = vis @ CHR '':'' # rest"
    and vis: "vis = VisibilityPublic \<or> vis = VisibilityPrivate"
    using ParsePattern_has_prefix [OF assms] .
  let ?parts = "strings_Split CHR ''.'' rest"
  from assms obtain segs where segs: "parse_segs 0 (0 + length ?parts) ?parts = Ok segs"
    and p: "p = \<lparr>p_raw = s, p_visibility = vis, p_segs = segs\<rparr>" and len: "length ?parts \<le> MaxPatternDepth"
    unfolding s ParsePattern_prefixed [OF vis] by auto
  note sound = parse_segs_sound [OF segs]
  then have "length segs = length ?parts" by (metis length_map)
  moreover have "0 < length ?parts" by simp
  moreover have "strings_Join (map seg_text segs) CHR ''.'' = rest" using sound by simp
  ultimately show ?thesis
    using sound len vis by (simp add: p wf_pattern_def pattern_text_def s)
qed

lemma ParsePattern_complete:
  assumes wf: "wf_pattern p" and raw: "p_raw p = pattern_text p"
  shows "ParsePattern (pattern_text p) = Ok p"
proof -
  let ?rest = "strings_Join (map seg_text (p_segs p)) CHR ''.''"
  have vis: "p_visibility p = VisibilityPublic \<or> p_visibility p = VisibilityPrivate"
    using wf by (simp add: wf_pattern_def)
  have colon: "CHR '':'' \<notin> set ?rest"
    using set_strings_Join [of "map seg_text (p_segs p)" "CHR ''.''"] wf wf_segment_text(2)
    by (fastforce simp: wf_pattern_def list_all_iff)
  have segs: "parse_segs 0 (length (p_segs p)) (map seg_text (p_segs p)) = Ok (p_segs p)"
    using parse_segs_complete [of "p_segs p" 0] wf by (simp add: wf_pattern_def)
  moreover have "?rest \<noteq> []"
  proof
    assume "?rest = []"
    with wf_pattern_Split [OF wf] have "map seg_text (p_segs p) = [[]]" by simp
    with wf wf_segment_text(3) show False by (auto simp: wf_pattern_def)
  qed
  ultimately show ?thesis
    using raw wf colon wf_pattern_Split [OF wf]
    by (simp add: pattern_text_def ParsePattern_prefixed [OF vis] wf_pattern_def)
qed

text \<open>
  The pattern parser accepts exactly the texts of well-formed patterns: a concrete
  visibility, one to eight segments, literals over the channel alphabet and \<^verbatim>\<open>**\<close> in the last
  place only.  The parsed value determines the text and carries it unchanged.
\<close>

theorem ParsePattern_iff:
  "ParsePattern s = Ok p \<longleftrightarrow> wf_pattern p \<and> p_raw p = s \<and> pattern_text p = s"
  using ParsePattern_sound ParsePattern_complete by metis

lemma Matches_wf:
  assumes "ParsePattern s = Ok p" and "wf_name n"
  shows "Matches p n \<longleftrightarrow> p_visibility p = n_Visibility n \<and> segs_match (p_segs p) (name_segs n)"
proof -
  have "filter (\<lambda>s. s \<noteq> []) [n_App n, n_Domain n, n_ID n, n_Topic n] = name_segs n"
    using assms(2) by (auto simp: wf_name_def name_segs_def component_ok_def)
  moreover have "wf_pattern p" using assms(1) ParsePattern_sound by blast
  ultimately show ?thesis
    by (simp add: Matches_def IsValid_def matchSegments_segs_match) (auto simp: wf_pattern_def)
qed

text \<open>
  C38. For every pattern the parser accepts, the index loop of \<^verbatim>\<open>matchSegments\<close> decides the
  declarative match on a well-formed name: same visibility, and the segments correspond one to
  one, a trailing \<^verbatim>\<open>**\<close> standing for one or more remaining name segments.
\<close>

theorem Matches_parsed:
  assumes "ParsePattern s = Ok p" and "wf_name n"
  shows "Matches p n \<longleftrightarrow> p_visibility p = n_Visibility n \<and> segs_match (p_segs p) (name_segs n)"
  using assms by (rule Matches_wf)

theorem Matches_parsed_witness:
  "Matches \<lparr>p_raw = ''public:a.**'', p_visibility = ''public'',
      p_segs = [\<lparr>ps_kind = SegLiteral, ps_lit = ''a''\<rparr>, \<lparr>ps_kind = SegDoubleStar, ps_lit = []\<rparr>]\<rparr>
     \<lparr>n_Visibility = ''public'', n_App = ''a'', n_Domain = ''b'', n_ID = ''c'', n_Topic = []\<rparr>"
proof -
  let ?p = "\<lparr>p_raw = ''public:a.**'', p_visibility = ''public'',
      p_segs = [\<lparr>ps_kind = SegLiteral, ps_lit = ''a''\<rparr>, \<lparr>ps_kind = SegDoubleStar, ps_lit = []\<rparr>]\<rparr>"
  let ?n = "\<lparr>n_Visibility = ''public'', n_App = ''a'', n_Domain = ''b'', n_ID = ''c'', n_Topic = []\<rparr>"
  have p: "ParsePattern ''public:a.**'' = Ok ?p" by code_simp
  have n: "wf_name ?n" by code_simp
  show ?thesis
    using Matches_parsed [OF p n] by (simp add: segs_match_def seg_fits_def name_segs_def)
qed

definition literal_pattern :: "chan_name \<Rightarrow> pattern" where
  "literal_pattern n = \<lparr>p_raw = name_String n, p_visibility = n_Visibility n,
     p_segs = map (\<lambda>s. \<lparr>ps_kind = SegLiteral, ps_lit = s\<rparr>) (name_segs n)\<rparr>"

lemma literal_segs_match:
  "segs_match (map (\<lambda>s. \<lparr>ps_kind = SegLiteral, ps_lit = s\<rparr>) xs) ys \<longleftrightarrow> ys = xs"
proof -
  have "list_all2 seg_fits (map (\<lambda>s. \<lparr>ps_kind = SegLiteral, ps_lit = s\<rparr>) xs) ys \<longleftrightarrow> ys = xs"
    by (induction xs arbitrary: ys) (auto simp: list_all2_Cons1 seg_fits_def)
  then show ?thesis by (auto simp: segs_match_def last_map)
qed

lemma literal_pattern_parses:
  assumes "wf_name n"
  shows "ParsePattern (name_String n) = Ok (literal_pattern n)"
proof -
  let ?lits = "map (\<lambda>s. \<lparr>ps_kind = SegLiteral, ps_lit = s\<rparr>) (name_segs n)"
  have "map seg_text ?lits = name_segs n" by (simp add: seg_text_def map_idI)
  then have print: "pattern_text (literal_pattern n) = name_String n"
    by (simp add: pattern_text_def literal_pattern_def name_String_segs)
  have "list_all (\<lambda>ps. ps_kind ps \<noteq> SegDoubleStar) (butlast ?lits)"
    by (auto simp: list_all_iff dest!: in_set_butlastD)
  moreover have "list_all wf_segment ?lits"
    using wf_name_segs(1) [OF assms] by (auto simp: list_all_iff wf_segment_def)
  ultimately have "wf_pattern (literal_pattern n)"
    using assms wf_name_segs(2,3) [OF assms]
    by (auto simp: wf_pattern_def literal_pattern_def MaxPatternDepth_def wf_name_def)
  then show ?thesis
    using ParsePattern_complete [of "literal_pattern n"] print by (simp add: literal_pattern_def)
qed

text \<open>
  A channel name read as a pattern parses, and then matches that channel and no other
  well-formed one: granting a literal name grants exactly one channel.
\<close>

theorem literal_pattern_exact:
  assumes "wf_name n"
  shows "\<exists>p. ParsePattern (name_String n) = Ok p \<and> (\<forall>m. wf_name m \<longrightarrow> Matches p m = (m = n))"
proof (intro exI conjI allI impI)
  show parsed: "ParsePattern (name_String n) = Ok (literal_pattern n)"
    using assms by (rule literal_pattern_parses)
  fix m assume m: "wf_name m"
  show "Matches (literal_pattern n) m = (m = n)"
    using name_String_inject [OF m assms] Matches_wf [OF parsed m]
    by (auto simp: literal_pattern_def literal_segs_match name_String_segs)
qed

theorem literal_pattern_exact_witness:
  "\<exists>p. ParsePattern ''private:a.b.c'' = Ok p \<and>
     (\<forall>m. wf_name m \<longrightarrow> Matches p m =
        (m = \<lparr>n_Visibility = ''private'', n_App = ''a'', n_Domain = ''b'', n_ID = ''c'', n_Topic = []\<rparr>))"
proof -
  let ?n = "\<lparr>n_Visibility = ''private'', n_App = ''a'', n_Domain = ''b'', n_ID = ''c'', n_Topic = []\<rparr>"
  have n: "wf_name ?n" by code_simp
  have s: "name_String ?n = ''private:a.b.c''" by code_simp
  show ?thesis using literal_pattern_exact [OF n] unfolding s .
qed

end
