(* ===== verification/RateLimit.thy ===== *)
theory RateLimit
  imports ChannelPattern "HOL-Library.Product_Lexorder"
begin

text \<open>
  The rate limits of \<^verbatim>\<open>src/ratelimit/types.go\<close> and the in-process sliding-window limiter of
  \<^verbatim>\<open>src/ratelimit/memory.go\<close>.

  The locale \<open>sliding_window\<close> is the contract of a limiter: which events of a key it still counts
  after a call.  From it alone follows the bound on every window of the history; the in-memory
  limiter is an instance.  A call's clock reading is an argument, and so is \<^verbatim>\<open>ctx.Err()\<close>.
\<close>

subsection \<open>Limits and per-channel rules\<close>

record Limit =
  l_Rate :: int
  l_Per :: duration
  l_Burst :: int

record Decision =
  d_Allowed :: bool
  d_Remaining :: int
  d_Reset :: duration

definition limit_Normalize :: "Limit \<Rightarrow> Limit" where
  "limit_Normalize l =
     (let l = (if l_Rate l < 0 then l\<lparr>l_Rate := 0\<rparr> else l);
          l = (if l_Burst l < 0 then l\<lparr>l_Burst := 0\<rparr> else l);
          l = (if l_Per l < 0 then l\<lparr>l_Per := 0\<rparr> else l);
          l = (if l_Rate l > 0 \<and> l_Per l = 0 then l\<lparr>l_Per := second\<rparr> else l);
          l = (if l_Burst l = 0 then l\<lparr>l_Burst := l_Rate l\<rparr> else l);
          l = (if l_Burst l < l_Rate l then l\<lparr>l_Burst := l_Rate l\<rparr> else l)
      in l)"

definition Unlimited :: "Limit \<Rightarrow> bool" where
  "Unlimited l \<longleftrightarrow> l_Rate (limit_Normalize l) = 0"

record ChannelRule =
  r_Pattern :: pattern
  r_Raw :: string
  r_Limit :: Limit

record RateLimits =
  rl_Publish :: Limit
  rl_Subscribe :: Limit
  rl_TokenIssue :: Limit
  rl_PerChannelPublish :: "ChannelRule list"
  rl_PerChannelSubscribe :: "ChannelRule list"

text \<open>\<^verbatim>\<open>patternSegments\<close>: the accumulator is the text since the last separator.\<close>

fun pattern_segments :: "string \<Rightarrow> string \<Rightarrow> string list" where
  "pattern_segments cur [] = [cur]"
| "pattern_segments cur (c # s) =
     (if c = CHR ''.'' \<or> c = CHR '':'' then cur # pattern_segments [] s
      else pattern_segments (cur @ [c]) s)"

definition patternSegments :: "string \<Rightarrow> string list" where
  "patternSegments s = pattern_segments [] s"

definition ruleSpecificity :: "pattern \<Rightarrow> int" where
  "ruleSpecificity p =
     foldl (\<lambda>score seg. if seg = ''**'' then score else if seg = ''*'' then score + 1 else score + 4)
       0 (patternSegments (p_raw p))"

fun compile_rules :: "(string, Limit) gomap \<Rightarrow> ChannelRule list result" where
  "compile_rules [] = Ok []"
| "compile_rules ((pat, lim) # raw) =
     (case ParsePattern pat of
        Err e \<Rightarrow> Err e
      | Ok p \<Rightarrow>
          (case compile_rules raw of
             Err e \<Rightarrow> Err e
           | Ok out \<Rightarrow> Ok (\<lparr>r_Pattern = p, r_Raw = pat, r_Limit = limit_Normalize lim\<rparr> # out)))"

definition rule_key :: "ChannelRule \<Rightarrow> int \<times> string" where
  "rule_key r = (- ruleSpecificity (r_Pattern r), r_Raw r)"

definition CompileChannelRules :: "(string, Limit) gomap \<Rightarrow> ChannelRule list result" where
  "CompileChannelRules raw =
     (if length raw = 0 then Ok []
      else case compile_rules raw of Err e \<Rightarrow> Err e | Ok out \<Rightarrow> Ok (sort_key rule_key out))"

fun match_rules :: "ChannelRule list \<Rightarrow> Limit \<Rightarrow> chan_name \<Rightarrow> Limit \<times> string" where
  "match_rules [] dflt ch = (dflt, [])"
| "match_rules (r # rs) dflt ch = (if Matches (r_Pattern r) ch then (r_Limit r, r_Raw r) else match_rules rs dflt ch)"

definition MatchPublish :: "RateLimits \<Rightarrow> chan_name \<Rightarrow> Limit \<times> string" where
  "MatchPublish rl ch = match_rules (rl_PerChannelPublish rl) (rl_Publish rl) ch"

definition MatchSubscribe :: "RateLimits \<Rightarrow> chan_name \<Rightarrow> Limit \<times> string" where
  "MatchSubscribe rl ch = match_rules (rl_PerChannelSubscribe rl) (rl_Subscribe rl) ch"

definition rule_Normalize :: "ChannelRule \<Rightarrow> ChannelRule" where
  "rule_Normalize r = \<lparr>r_Pattern = r_Pattern r, r_Raw = r_Raw r, r_Limit = limit_Normalize (r_Limit r)\<rparr>"

definition rl_Normalize :: "RateLimits \<Rightarrow> RateLimits" where
  "rl_Normalize rl =
     \<lparr>rl_Publish = limit_Normalize (rl_Publish rl), rl_Subscribe = limit_Normalize (rl_Subscribe rl),
      rl_TokenIssue = limit_Normalize (rl_TokenIssue rl),
      rl_PerChannelPublish = map rule_Normalize (rl_PerChannelPublish rl),
      rl_PerChannelSubscribe = map rule_Normalize (rl_PerChannelSubscribe rl)\<rparr>"

definition rl_Empty :: "RateLimits \<Rightarrow> bool" where
  "rl_Empty rl =
     (if \<not> Unlimited (rl_Publish rl) \<or> \<not> Unlimited (rl_Subscribe rl) \<or> \<not> Unlimited (rl_TokenIssue rl) then False
      else list_all (\<lambda>r. Unlimited (r_Limit r)) (rl_PerChannelPublish rl) \<and>
           list_all (\<lambda>r. Unlimited (r_Limit r)) (rl_PerChannelSubscribe rl))"

definition BucketPublish :: string where [go_simps]: "BucketPublish = ''publish''"
definition BucketSubscribe :: string where [go_simps]: "BucketSubscribe = ''subscribe''"
definition BucketTokenIssue :: string where [go_simps]: "BucketTokenIssue = ''token-issue''"

definition AllowDecisionUnlimited :: Decision where
  "AllowDecisionUnlimited = \<lparr>d_Allowed = True, d_Remaining = -1, d_Reset = 0\<rparr>"

subsection \<open>The in-process limiter\<close>

record MemoryLimiter =
  ml_limit :: Limit
  ml_buckets :: "(string, go_time list) gomap"

definition NewMemoryLimiter :: "Limit \<Rightarrow> MemoryLimiter" where
  "NewMemoryLimiter limit = \<lparr>ml_limit = limit_Normalize limit, ml_buckets = []\<rparr>"

definition ml_reset :: "go_time list \<Rightarrow> duration \<Rightarrow> go_time \<Rightarrow> duration" where
  "ml_reset events per now =
     (case events of [] \<Rightarrow> 0
      | e # _ \<Rightarrow> let reset = time_Sub (e + per) now in if reset < 0 then 0 else reset)"

definition ml_AllowWithLimit ::
  "go_error option \<Rightarrow> string \<Rightarrow> int \<Rightarrow> Limit \<Rightarrow> go_time \<Rightarrow> MemoryLimiter \<Rightarrow> Decision result \<times> MemoryLimiter" where
  "ml_AllowWithLimit ctx key n lim now m =
     (case ctx of
        Some e \<Rightarrow> (Err e, m)
      | None \<Rightarrow>
          let lim = limit_Normalize lim in
          if Unlimited lim then (Ok AllowDecisionUnlimited, m)
          else
            let n = (if n \<le> 0 then 1 else n);
                cutoff = now - l_Per lim;
                events = (case map_of (ml_buckets m) key of None \<Rightarrow> [] | Some es \<Rightarrow> es);
                events = dropWhile (\<lambda>t. t < cutoff) events;
                ceiling = (if l_Burst lim < l_Rate lim then l_Rate lim else l_Burst lim)
            in if int (length events) + n > ceiling then
                 (Ok \<lparr>d_Allowed = False, d_Remaining = 0, d_Reset = ml_reset events (l_Per lim) now\<rparr>,
                  m\<lparr>ml_buckets := AList.update key events (ml_buckets m)\<rparr>)
               else
                 let events = events @ replicate (nat n) now;
                     remaining = ceiling - int (length events)
                 in (Ok \<lparr>d_Allowed = True, d_Remaining = (if remaining < 0 then 0 else remaining),
                       d_Reset = ml_reset events (l_Per lim) now\<rparr>,
                     m\<lparr>ml_buckets := AList.update key events (ml_buckets m)\<rparr>))"

definition ml_Allow ::
  "go_error option \<Rightarrow> string \<Rightarrow> int \<Rightarrow> go_time \<Rightarrow> MemoryLimiter \<Rightarrow> Decision result \<times> MemoryLimiter" where
  "ml_Allow ctx key n now m = ml_AllowWithLimit ctx key n (ml_limit m) now m"

text \<open>The loop of \<^verbatim>\<open>Sweep\<close>: the count of removed buckets and those left.\<close>

fun ml_sweep_loop :: "go_time \<Rightarrow> (string, go_time list) gomap \<Rightarrow> nat \<times> (string, go_time list) gomap" where
  "ml_sweep_loop cutoff [] = (0, [])"
| "ml_sweep_loop cutoff ((k, events) # rest) =
     (let (removed, rest') = ml_sweep_loop cutoff rest;
          events = dropWhile (\<lambda>t. t < cutoff) events
      in if length events = 0 then (Suc removed, rest') else (removed, (k, events) # rest'))"

definition ml_Sweep :: "go_time \<Rightarrow> MemoryLimiter \<Rightarrow> nat \<times> MemoryLimiter" where
  "ml_Sweep now m =
     (let (removed, bs) = ml_sweep_loop (now - l_Per (ml_limit m)) (ml_buckets m)
      in (removed, m\<lparr>ml_buckets := bs\<rparr>))"

subsection \<open>The contract of a sliding-window limiter\<close>

definition in_window :: "duration \<Rightarrow> go_time \<Rightarrow> go_time multiset \<Rightarrow> go_time multiset" where
  "in_window per now ts = filter_mset (\<lambda>t. now - per \<le> t) ts"

record call =
  q_key :: string
  q_n :: int
  q_now :: go_time

text \<open>The events of key \<open>k\<close> that a sequence of calls charges.\<close>

fun charged :: "(call \<Rightarrow> 's \<Rightarrow> bool \<times> 's) \<Rightarrow> string \<Rightarrow> call list \<Rightarrow> 's \<Rightarrow> go_time list" where
  "charged allow k [] s = []"
| "charged allow k (q # qs) s =
     (let (ok, s') = allow q s in
      (if ok \<and> q_key q = k then replicate (nat (q_n q)) (q_now q) else []) @ charged allow k qs s')"

locale sliding_window =
  fixes allow :: "call \<Rightarrow> 's \<Rightarrow> bool \<times> 's"
    and inv :: "go_time \<Rightarrow> 's \<Rightarrow> bool"
    and events :: "'s \<Rightarrow> string \<Rightarrow> go_time multiset"
    and ceiling :: "'s \<Rightarrow> int" and per :: "'s \<Rightarrow> duration"
  assumes per_nonneg: "inv t s \<Longrightarrow> 0 \<le> per s"
    and allow_inv: "inv t s \<Longrightarrow> t \<le> q_now q \<Longrightarrow> 0 < q_n q \<Longrightarrow> inv (q_now q) (snd (allow q s))"
    and allow_params: "ceiling (snd (allow q s)) = ceiling s" "per (snd (allow q s)) = per s"
    and allow_keeps: "inv t s \<Longrightarrow> t \<le> q_now q \<Longrightarrow> 0 < q_n q \<Longrightarrow>
      in_window (per s) (q_now q) (events s k) \<subseteq># in_window (per s) (q_now q) (events (snd (allow q s)) k)"
    and allow_yes: "inv t s \<Longrightarrow> t \<le> q_now q \<Longrightarrow> 0 < q_n q \<Longrightarrow> fst (allow q s) \<Longrightarrow>
      in_window (per s) (q_now q) (events s (q_key q)) + replicate_mset (nat (q_n q)) (q_now q)
        \<subseteq># in_window (per s) (q_now q) (events (snd (allow q s)) (q_key q)) \<and>
      int (size (in_window (per s) (q_now q) (events (snd (allow q s)) (q_key q)))) \<le> ceiling s"
begin

text \<open>A history agrees with the state when the state still counts all its events in the window.\<close>

definition agrees :: "go_time \<Rightarrow> go_time list \<Rightarrow> string \<Rightarrow> 's \<Rightarrow> bool" where
  "agrees now h k s \<longleftrightarrow> in_window (per s) now (mset h) \<subseteq># in_window (per s) now (events s k)"

definition bounded :: "go_time list \<Rightarrow> 's \<Rightarrow> bool" where
  "bounded h s \<longleftrightarrow> (\<forall>a. int (length (filter (\<lambda>t. a \<le> t \<and> t \<le> a + per s) h)) \<le> max 0 (ceiling s))"

lemma in_window_later: "t \<le> t' \<Longrightarrow> in_window p t' ts = in_window p t' (in_window p t ts)"
  by (auto simp: in_window_def filter_filter_mset intro!: filter_mset_cong)

lemma agrees_later: "agrees t h k s \<Longrightarrow> t \<le> t' \<Longrightarrow> agrees t' h k s"
  unfolding agrees_def using in_window_later [of t t'] by (metis in_window_def multiset_filter_mono)

lemma in_window_plus: "in_window p now (A + B) = in_window p now A + in_window p now B"
  by (simp add: in_window_def)

lemma in_window_now: "0 \<le> p \<Longrightarrow> in_window p now (replicate_mset n now) = replicate_mset n now"
  by (auto simp: in_window_def filter_mset_eq_conv)

lemma step:
  assumes "inv t s" "t \<le> q_now q" "0 < q_n q" "agrees t h k s" "bounded h s"
  defines "h' \<equiv> h @ (if fst (allow q s) \<and> q_key q = k then replicate (nat (q_n q)) (q_now q) else [])"
  shows "agrees (q_now q) h' k (snd (allow q s))" and "bounded h' (snd (allow q s))"
proof -
  let ?s' = "snd (allow q s)"
  have now: "agrees (q_now q) h k s" using assms(2,4) by (rule agrees_later [rotated])
  note params [simp] = allow_params
  show agrees: "agrees (q_now q) h' k ?s'"
  proof (cases "fst (allow q s) \<and> q_key q = k")
    case True
    with allow_yes [OF assms(1-3)] now show ?thesis
      by (auto simp: agrees_def h'_def in_window_plus in_window_now per_nonneg [OF assms(1)]
          intro: subset_mset.order_trans subset_mset.add_right_mono)
  next
    case False
    then have "h' = h" by (auto simp: h'_def)
    then show ?thesis using allow_keeps [OF assms(1-3), of k] now
      by (auto simp: agrees_def intro: subset_mset.order_trans)
  qed
  show "bounded h' ?s'"
  proof (cases "fst (allow q s) \<and> q_key q = k")
    case False
    then have "h' = h" by (auto simp: h'_def)
    then show ?thesis using assms(5) by (simp add: bounded_def)
  next
    case True
    have h': "h' = h @ replicate (nat (q_n q)) (q_now q)" using True by (simp add: h'_def)
    have "size (in_window (per s) (q_now q) (mset h')) \<le> size (in_window (per s) (q_now q) (events ?s' k))"
      using agrees by (simp add: agrees_def size_mset_mono)
    then have total: "int (length (filter (\<lambda>t. q_now q - per s \<le> t) h')) \<le> ceiling s"
      using allow_yes [OF assms(1-3)] True by (simp add: in_window_def flip: mset_filter)
    have "int (length (filter (\<lambda>t. a \<le> t \<and> t \<le> a + per s) h')) \<le> max 0 (ceiling s)" for a
    proof (cases "q_now q \<le> a + per s")
      case True
      then have "filter (\<lambda>t. a \<le> t \<and> t \<le> a + per s) h' =
          filter (\<lambda>t. a \<le> t \<and> t \<le> a + per s) (filter (\<lambda>t. q_now q - per s \<le> t) h')"
        by (auto intro!: filter_cong)
      then have "length (filter (\<lambda>t. a \<le> t \<and> t \<le> a + per s) h') \<le> length (filter (\<lambda>t. q_now q - per s \<le> t) h')"
        by (simp only: length_filter_le)
      with total show ?thesis by linarith
    next
      case False
      then have "filter (\<lambda>t. a \<le> t \<and> t \<le> a + per s) h' = filter (\<lambda>t. a \<le> t \<and> t \<le> a + per s) h"
        by (simp add: h')
      then show ?thesis using assms(5) by (simp add: bounded_def)
    qed
    then show ?thesis by (simp add: bounded_def)
  qed
qed

lemma charged_bounded:
  assumes "inv t s" "agrees t h k s" "bounded h s"
    and "sorted (map q_now qs)" "\<And>q. q \<in> set qs \<Longrightarrow> t \<le> q_now q \<and> 0 < q_n q"
  shows "int (length (filter (\<lambda>t. a \<le> t \<and> t \<le> a + per s) (h @ charged allow k qs s))) \<le> max 0 (ceiling s)"
  using assms
proof (induction qs arbitrary: t s h)
  case Nil
  then show ?case by (simp add: bounded_def)
next
  case (Cons q qs)
  let ?s' = "snd (allow q s)"
  let ?h' = "h @ (if fst (allow q s) \<and> q_key q = k then replicate (nat (q_n q)) (q_now q) else [])"
  have q: "t \<le> q_now q" "0 < q_n q" using Cons.prems by auto
  note st = step [OF Cons.prems(1) q Cons.prems(2,3)]
  have "int (length (filter (\<lambda>t. a \<le> t \<and> t \<le> a + per ?s') (?h' @ charged allow k qs ?s'))) \<le> max 0 (ceiling ?s')"
    using Cons.prems q by (intro Cons.IH [OF allow_inv [OF Cons.prems(1) q] st]) auto
  then show ?case by (simp add: split_beta allow_params)
qed

lemma window_bound:
  assumes "inv t s" "sorted (map q_now qs)" "\<And>q. q \<in> set qs \<Longrightarrow> t \<le> q_now q \<and> 0 < q_n q"
  shows "int (length (filter (\<lambda>t. a \<le> t \<and> t \<le> a + per s) (charged allow k qs s))) \<le> max 0 (ceiling s)"
  using charged_bounded [OF assms(1), of "[]" k qs a] assms(2-)
  by (simp add: agrees_def bounded_def in_window_def)

end

subsection \<open>The in-process limiter fulfils the contract\<close>

definition ml_events :: "MemoryLimiter \<Rightarrow> string \<Rightarrow> go_time list" where
  "ml_events m k = (case map_of (ml_buckets m) k of None \<Rightarrow> [] | Some es \<Rightarrow> es)"

definition ml_call :: "call \<Rightarrow> MemoryLimiter \<Rightarrow> bool \<times> MemoryLimiter" where
  "ml_call q m =
     (case ml_Allow None (q_key q) (q_n q) (q_now q) m of
        (Ok d, m') \<Rightarrow> (d_Allowed d, m')
      | (Err _, m') \<Rightarrow> (False, m'))"

text \<open>A limiter with a budget, whose recorded events are in order, not in the future and within it.\<close>

definition ml_inv :: "go_time \<Rightarrow> MemoryLimiter \<Rightarrow> bool" where
  "ml_inv now m \<longleftrightarrow> limit_Normalize (ml_limit m) = ml_limit m \<and> 0 < l_Rate (ml_limit m) \<and>
     (\<forall>k. sorted (ml_events m k) \<and> (\<forall>t \<in> set (ml_events m k). t \<le> now) \<and>
        int (length (ml_events m k)) \<le> l_Burst (ml_limit m))"

lemma Normalize_fields:
  "l_Rate (limit_Normalize l) = max 0 (l_Rate l)"
  "l_Burst (limit_Normalize l) = max (max 0 (l_Rate l)) (l_Burst l)"
  "l_Per (limit_Normalize l) = (if 0 < l_Rate l \<and> l_Per l \<le> 0 then second else max 0 (l_Per l))"
proof -
  note dist = if_distrib [of l_Rate] if_distrib [of l_Per] if_distrib [of l_Burst]
  show "l_Rate (limit_Normalize l) = max 0 (l_Rate l)"
    by (simp add: limit_Normalize_def Let_def dist)
  show "l_Burst (limit_Normalize l) = max (max 0 (l_Rate l)) (l_Burst l)"
    by (simp add: limit_Normalize_def Let_def dist)
  show "l_Per (limit_Normalize l) = (if 0 < l_Rate l \<and> l_Per l \<le> 0 then second else max 0 (l_Per l))"
    by (cases "0 < l_Rate l"; cases "l_Per l < 0") (simp_all add: limit_Normalize_def Let_def dist)
qed

lemma Normalize_idem [simp]: "limit_Normalize (limit_Normalize l) = limit_Normalize l"
  by (rule Limit.equality) (auto simp: Normalize_fields)

lemma dropWhile_sorted: "sorted ts \<Longrightarrow> dropWhile (\<lambda>t. t < (c :: int)) ts = filter (\<lambda>t. c \<le> t) ts"
proof (induction ts)
  case (Cons t ts)
  have "c \<le> t \<Longrightarrow> filter (\<lambda>t. c \<le> t) ts = ts" using Cons.prems by (auto simp: filter_id_conv)
  with Cons show ?case by auto
qed simp

lemma ml_events_update [simp]:
  "ml_events (m\<lparr>ml_buckets := AList.update k es (ml_buckets m)\<rparr>) k' = (if k' = k then es else ml_events m k')"
  by (simp add: ml_events_def)

text \<open>The whole call in one equation, for a limiter with a budget.\<close>

lemma ml_AllowWithLimit_eq:
  assumes lim: "limit_Normalize lim = lim" "0 < l_Rate lim" and "0 < n"
  shows "ml_AllowWithLimit None key n lim now m =
    (let live = dropWhile (\<lambda>t. t < now - l_Per lim) (ml_events m key) in
     if int (length live) + n > l_Burst lim
     then (Ok \<lparr>d_Allowed = False, d_Remaining = 0, d_Reset = ml_reset live (l_Per lim) now\<rparr>,
           m\<lparr>ml_buckets := AList.update key live (ml_buckets m)\<rparr>)
     else (Ok \<lparr>d_Allowed = True, d_Remaining = l_Burst lim - int (length live) - n,
               d_Reset = ml_reset (live @ replicate (nat n) now) (l_Per lim) now\<rparr>,
           m\<lparr>ml_buckets := AList.update key (live @ replicate (nat n) now) (ml_buckets m)\<rparr>))"
proof -
  have "\<not> Unlimited lim" "l_Rate lim \<le> l_Burst lim"
    using lim Normalize_fields(2) [of lim] by (auto simp: Unlimited_def)
  then show ?thesis
    using assms by (simp add: ml_AllowWithLimit_def Let_def ml_events_def)
qed

lemma ml_call_eq:
  assumes "ml_inv t m" and "0 < q_n q"
  shows "ml_call q m =
    (let live = dropWhile (\<lambda>t. t < q_now q - l_Per (ml_limit m)) (ml_events m (q_key q)) in
     if int (length live) + q_n q > l_Burst (ml_limit m)
     then (False, m\<lparr>ml_buckets := AList.update (q_key q) live (ml_buckets m)\<rparr>)
     else (True, m\<lparr>ml_buckets := AList.update (q_key q) (live @ replicate (nat (q_n q)) (q_now q)) (ml_buckets m)\<rparr>))"
  using assms by (simp add: ml_call_def ml_Allow_def ml_AllowWithLimit_eq ml_inv_def Let_def)

lemma ml_AllowWithLimit_limit [simp]: "ml_limit (snd (ml_AllowWithLimit ctx key n lim now m)) = ml_limit m"
  by (simp add: ml_AllowWithLimit_def Let_def split: option.split)

lemma ml_call_limit [simp]: "ml_limit (snd (ml_call q m)) = ml_limit m"
  using ml_AllowWithLimit_limit [of None "q_key q" "q_n q" "ml_limit m" "q_now q" m]
  by (cases "ml_AllowWithLimit None (q_key q) (q_n q) (ml_limit m) (q_now q) m")
    (auto simp: ml_call_def ml_Allow_def split: sum.split)

lemma ml_call_other: "k \<noteq> q_key q \<Longrightarrow> ml_events (snd (ml_call q m)) k = ml_events m k"
  by (simp add: ml_call_def ml_Allow_def ml_AllowWithLimit_def Let_def)

interpretation mem_limiter: sliding_window ml_call ml_inv "\<lambda>m k. mset (ml_events m k)"
  "\<lambda>m. l_Burst (ml_limit m)" "\<lambda>m. l_Per (ml_limit m)"
proof
  fix t q and m :: MemoryLimiter
  show "l_Burst (ml_limit (snd (ml_call q m))) = l_Burst (ml_limit m)"
    "l_Per (ml_limit (snd (ml_call q m))) = l_Per (ml_limit m)" by simp_all
  assume inv: "ml_inv t m"
  show per: "0 \<le> l_Per (ml_limit m)"
    using inv Normalize_fields(3) [of "ml_limit m"] by (auto simp: ml_inv_def split: if_splits)
  assume q: "t \<le> q_now q" "0 < q_n q"
  let ?k = "q_key q" and ?p = "l_Per (ml_limit m)"
  let ?live = "dropWhile (\<lambda>t. t < q_now q - ?p) (ml_events m ?k)"
  have live: "?live = filter (\<lambda>t. q_now q - ?p \<le> t) (ml_events m ?k)"
    using inv by (simp add: ml_inv_def dropWhile_sorted)
  have sorted: "sorted ?live" "\<forall>t \<in> set ?live. t \<le> q_now q"
    using inv q(1) by (fastforce simp: ml_inv_def live sorted_wrt_filter)+
  have old: "\<forall>k. \<forall>t \<in> set (ml_events m k). t \<le> q_now q" using inv q(1) by (force simp: ml_inv_def)
  have "length ?live \<le> length (ml_events m ?k)" by (simp add: live)
  moreover have "int (length (ml_events m ?k)) \<le> l_Burst (ml_limit m)" using inv by (simp add: ml_inv_def)
  ultimately have len: "int (length ?live) \<le> l_Burst (ml_limit m)" by linarith
  show "ml_inv (q_now q) (snd (ml_call q m))"
    using inv q sorted old len
    by (auto simp: ml_call_eq [OF inv q(2)] Let_def ml_inv_def sorted_append split: if_splits)
  show "in_window ?p (q_now q) (mset (ml_events m k)) \<subseteq># in_window ?p (q_now q) (mset (ml_events (snd (ml_call q m)) k))" for k
  proof (cases "k = ?k")
    case True
    then show ?thesis by (auto simp: ml_call_eq [OF inv q(2)] Let_def live in_window_def filter_filter_mset)
  next
    case False
    then show ?thesis by (simp add: ml_call_other)
  qed
  show "in_window ?p (q_now q) (mset (ml_events m ?k)) + replicate_mset (nat (q_n q)) (q_now q)
        \<subseteq># in_window ?p (q_now q) (mset (ml_events (snd (ml_call q m)) ?k)) \<and>
      int (size (in_window ?p (q_now q) (mset (ml_events (snd (ml_call q m)) ?k)))) \<le> l_Burst (ml_limit m)"
    if "fst (ml_call q m)"
    using that q(2) per
    by (auto simp: ml_call_eq [OF inv q(2)] Let_def live in_window_def filter_filter_mset split: if_splits simp flip: mset_filter)
qed

subsection \<open>Properties\<close>

text \<open>
  C19. The in-process limiter keeps its budget: whatever calls are made, with the clock not running
  backwards, every closed window as long as \<^verbatim>\<open>Per\<close> holds at most \<^verbatim>\<open>max(Rate, Burst)\<close> charged
  events of a key.
\<close>

theorem limiter_window_bound:
  assumes "0 < l_Rate lim" and "sorted (map q_now qs)" and "\<forall>q \<in> set qs. 0 < q_n q"
  shows "int (length (filter (\<lambda>t. a \<le> t \<and> t \<le> a + l_Per (limit_Normalize lim))
      (charged ml_call k qs (NewMemoryLimiter lim)))) \<le> max (l_Rate lim) (l_Burst lim)"
proof (cases qs)
  case Nil
  with assms(1) show ?thesis by simp
next
  case (Cons q qs')
  have inv: "ml_inv (q_now q) (NewMemoryLimiter lim)"
    using assms(1) by (simp add: ml_inv_def NewMemoryLimiter_def Normalize_fields ml_events_def)
  have "q' \<in> set qs \<Longrightarrow> q_now q \<le> q_now q' \<and> 0 < q_n q'" for q'
    using assms Cons by auto
  from mem_limiter.window_bound [OF inv assms(2) this, of a k] show ?thesis
    using assms(1) by (simp add: NewMemoryLimiter_def ml_events_def Normalize_fields max_def split: if_splits)
qed

theorem limiter_window_bound_witness:
  "int (length (filter (\<lambda>t. 0 \<le> t \<and> t \<le> second)
      (charged ml_call ''u'' [\<lparr>q_key = ''u'', q_n = 1, q_now = 5\<rparr>, \<lparr>q_key = ''u'', q_n = 1, q_now = 6\<rparr>,
         \<lparr>q_key = ''u'', q_n = 1, q_now = 7\<rparr>] (NewMemoryLimiter \<lparr>l_Rate = 2, l_Per = 0, l_Burst = 0\<rparr>)))) \<le> 2"
  using limiter_window_bound [of "\<lparr>l_Rate = 2, l_Per = 0, l_Burst = 0\<rparr>" "[\<lparr>q_key = ''u'', q_n = 1, q_now = 5\<rparr>,
      \<lparr>q_key = ''u'', q_n = 1, q_now = 6\<rparr>, \<lparr>q_key = ''u'', q_n = 1, q_now = 7\<rparr>]" 0 "''u''"]
  by (simp add: Normalize_fields)

text \<open>
  A refused caller is not starved: when one event was refused, one event of the same key is
  admitted at any time after the advised \<^verbatim>\<open>Reset\<close> has passed, if no other call intervenes; the
  refusal itself costs nothing.
\<close>

theorem limiter_reset_sound:
  assumes "ml_inv now m" and "ml_Allow None k 1 now m = (Ok d, m')" and "\<not> d_Allowed d"
    and "now + d_Reset d < now'" and "l_Per (ml_limit m) \<le> max_int64"
  shows "\<exists>d'. fst (ml_Allow None k 1 now' m') = Ok d' \<and> d_Allowed d'"
proof -
  let ?p = "l_Per (ml_limit m)" and ?b = "l_Burst (ml_limit m)"
  let ?live = "dropWhile (\<lambda>t. t < now - ?p) (ml_events m k)"
  have lim: "limit_Normalize (ml_limit m) = ml_limit m" "0 < l_Rate (ml_limit m)" and sorted: "sorted (ml_events m k)"
    and past: "\<forall>t \<in> set (ml_events m k). t \<le> now" and len: "int (length (ml_events m k)) \<le> ?b"
    using assms(1) by (auto simp: ml_inv_def)
  have burst: "l_Rate (ml_limit m) \<le> ?b" using lim Normalize_fields(2) [of "ml_limit m"] by simp
  from assms(2,3) have full: "int (length ?live) + 1 > ?b" and reset: "d_Reset d = ml_reset ?live ?p now"
    and m': "m' = m\<lparr>ml_buckets := AList.update k ?live (ml_buckets m)\<rparr>"
    by (auto simp: ml_Allow_def ml_AllowWithLimit_eq [OF lim] Let_def split: if_splits)
  obtain e rest where live: "?live = e # rest"
    using full burst lim(2) by (cases ?live) auto
  have "e \<in> set (filter (\<lambda>t. now - ?p \<le> t) (ml_events m k))"
    using live dropWhile_sorted [OF sorted, of "now - ?p"] by simp
  then have e: "now - ?p \<le> e" "e \<le> now" using past by auto
  have "time_Sub (e + ?p) now = e + ?p - now"
    using e assms(5) by (intro time_Sub_exact) (auto simp: go_simps)
  with reset live e have "e + ?p < now'" using assms(4) by (auto simp: ml_reset_def Let_def split: if_splits)
  then have "dropWhile (\<lambda>t. t < now' - ?p) ?live = dropWhile (\<lambda>t. t < now' - ?p) rest" by (simp add: live)
  moreover have "length (dropWhile (\<lambda>t. t < now' - ?p) rest) \<le> length rest" by (rule length_dropWhile_le)
  moreover have "length ?live \<le> length (ml_events m k)" by (rule length_dropWhile_le)
  ultimately have "int (length (dropWhile (\<lambda>t. t < now' - ?p) ?live)) + 1 \<le> ?b" using live len by simp
  then show ?thesis
    by (simp add: ml_Allow_def m' ml_AllowWithLimit_eq [OF lim] Let_def)
qed

theorem limiter_reset_sound_witness:
  "let m = snd (ml_Allow None ''u'' 1 5 (NewMemoryLimiter \<lparr>l_Rate = 1, l_Per = 0, l_Burst = 0\<rparr>));
       (r, m') = ml_Allow None ''u'' 1 7 m
   in \<exists>d'. fst (ml_Allow None ''u'' 1 (second + 6) m') = Ok d' \<and> d_Allowed d'"
proof -
  let ?lim = "\<lparr>l_Rate = 1, l_Per = second, l_Burst = 1\<rparr>"
  let ?m = "\<lparr>ml_limit = ?lim, ml_buckets = [(''u'', [5])]\<rparr>"
  let ?d = "\<lparr>d_Allowed = False, d_Remaining = 0, d_Reset = second - 2\<rparr>"
  have norm: "limit_Normalize \<lparr>l_Rate = 1, l_Per = 0, l_Burst = 0\<rparr> = ?lim" "limit_Normalize ?lim = ?lim"
    by (simp_all add: limit_Normalize_def)
  have m: "snd (ml_Allow None ''u'' 1 5 (NewMemoryLimiter \<lparr>l_Rate = 1, l_Per = 0, l_Burst = 0\<rparr>)) = ?m"
    by (simp add: NewMemoryLimiter_def norm ml_Allow_def ml_AllowWithLimit_eq ml_events_def)
  have inv: "ml_inv 7 ?m" by (simp add: ml_inv_def norm ml_events_def)
  have den: "ml_Allow None ''u'' 1 7 ?m = (Ok ?d, ?m)"
    by (simp add: norm ml_Allow_def ml_AllowWithLimit_eq ml_events_def ml_reset_def time_Sub_def go_simps)
  have "\<exists>d'. fst (ml_Allow None ''u'' 1 (second + 6) ?m) = Ok d' \<and> d_Allowed d'"
    by (rule limiter_reset_sound [OF inv den]) (simp_all add: go_simps)
  then show ?thesis by (simp add: m den Let_def)
qed

definition rule_of :: "string \<times> Limit \<Rightarrow> ChannelRule" where
  "rule_of e = \<lparr>r_Pattern = projr (ParsePattern (fst e)), r_Raw = fst e, r_Limit = limit_Normalize (snd e)\<rparr>"

lemma compile_rules_Ok:
  "compile_rules raw = Ok out \<longleftrightarrow> (\<forall>e \<in> set raw. \<not> isl (ParsePattern (fst e))) \<and> out = map rule_of raw"
proof (induction raw arbitrary: out rule: compile_rules.induct)
  case (2 pat lim raw)
  then show ?case
    by (cases "ParsePattern pat"; cases "compile_rules raw") (auto simp: rule_of_def)
qed auto

lemma CompileChannelRules_Ok:
  "CompileChannelRules raw = Ok rules \<longleftrightarrow>
     (\<forall>e \<in> set raw. \<not> isl (ParsePattern (fst e))) \<and> rules = sort_key rule_key (map rule_of raw)"
proof (cases "compile_rules raw")
  case (Inl e)
  then have "raw \<noteq> []" and "\<not> (\<forall>e \<in> set raw. \<not> isl (ParsePattern (fst e)))"
    using compile_rules_Ok [of raw "map rule_of raw"] by auto
  with Inl show ?thesis by (simp add: CompileChannelRules_def)
next
  case (Inr out)
  with compile_rules_Ok [of raw out] show ?thesis by (auto simp: CompileChannelRules_def)
qed

lemma match_rules_sorted:
  assumes "sorted (map rule_key rules)" and "r \<in> set rules" and "Matches (r_Pattern r) ch"
  shows "\<exists>r'. r' \<in> set rules \<and> match_rules rules dflt ch = (r_Limit r', r_Raw r') \<and> Matches (r_Pattern r') ch \<and>
    ruleSpecificity (r_Pattern r) \<le> ruleSpecificity (r_Pattern r')"
  using assms
proof (induction rules)
  case (Cons x rules)
  show ?case
  proof (cases "Matches (r_Pattern x) ch")
    case True
    have "rule_key x \<le> rule_key r" using Cons.prems(1,2) by auto
    then have "ruleSpecificity (r_Pattern r) \<le> ruleSpecificity (r_Pattern x)"
      by (auto simp: rule_key_def less_eq_prod_def)
    with True show ?thesis by (intro exI [of _ x]) simp
  next
    case False
    with Cons.prems have "sorted (map rule_key rules)" "r \<in> set rules" by auto
    from Cons.IH [OF this Cons.prems(3)] False show ?thesis by auto
  qed
qed simp

text \<open>
  Compiling the per-channel rules does not depend on Go's map order, and the rule found for a
  channel is a most specific one: no rule that also matches has a higher score.
\<close>

theorem rules_most_specific:
  assumes "CompileChannelRules raw = Ok rules" and "map_wf raw" and "mset raw' = mset raw"
    and "r \<in> set rules" and "Matches (r_Pattern r) ch"
  shows "CompileChannelRules raw' = Ok rules \<and>
    (\<exists>r'. r' \<in> set rules \<and> match_rules rules dflt ch = (r_Limit r', r_Raw r') \<and> Matches (r_Pattern r') ch \<and>
       ruleSpecificity (r_Pattern r) \<le> ruleSpecificity (r_Pattern r'))"
proof
  have ok: "\<forall>e \<in> set raw. \<not> isl (ParsePattern (fst e))" and rules: "rules = sort_key rule_key (map rule_of raw)"
    using assms(1) by (simp_all add: CompileChannelRules_Ok)
  have "inj_on rule_key (set (map rule_of raw'))"
    using assms(2,3) mset_eq_setD [OF assms(3)]
    by (auto simp: inj_on_def rule_key_def rule_of_def distinct_map)
  then have "sort_key rule_key (map rule_of raw') = rules"
    using assms(3) by (intro sort_key_inj_key_eq) (simp_all add: rules)
  with ok mset_eq_setD [OF assms(3)] show "CompileChannelRules raw' = Ok rules" by (simp add: CompileChannelRules_Ok)
  show "\<exists>r'. r' \<in> set rules \<and> match_rules rules dflt ch = (r_Limit r', r_Raw r') \<and> Matches (r_Pattern r') ch \<and>
       ruleSpecificity (r_Pattern r) \<le> ruleSpecificity (r_Pattern r')"
    using assms(4,5) by (intro match_rules_sorted) (simp_all add: rules)
qed

theorem rules_most_specific_witness:
  "let raw = [(''public:a.**'', \<lparr>l_Rate = 9, l_Per = 0, l_Burst = 0\<rparr>), (''public:a.b'', \<lparr>l_Rate = 1, l_Per = 0, l_Burst = 0\<rparr>)];
       ch = \<lparr>n_Visibility = ''public'', n_App = ''a'', n_Domain = ''b'', n_ID = [], n_Topic = []\<rparr>
   in CompileChannelRules (rev raw) = CompileChannelRules raw"
proof -
  let ?raw = "[(''public:a.**'', \<lparr>l_Rate = 9, l_Per = 0, l_Burst = 0\<rparr>), (''public:a.b'', \<lparr>l_Rate = 1, l_Per = 0, l_Burst = 0\<rparr>)]"
  let ?ch = "\<lparr>n_Visibility = ''public'', n_App = ''a'', n_Domain = ''b'', n_ID = [], n_Topic = []\<rparr>"
  let ?r = "rule_of (''public:a.b'', \<lparr>l_Rate = 1, l_Per = 0, l_Burst = 0\<rparr>)"
  have "\<forall>e \<in> set ?raw. \<not> isl (ParsePattern (fst e))" by code_simp
  then have ok: "CompileChannelRules ?raw = Ok (sort_key rule_key (map rule_of ?raw))"
    by (simp only: CompileChannelRules_Ok)
  have "?r \<in> set (sort_key rule_key (map rule_of ?raw))" by simp
  moreover have "Matches (r_Pattern ?r) ?ch" by code_simp
  ultimately have "CompileChannelRules (rev ?raw) = Ok (sort_key rule_key (map rule_of ?raw))"
    using rules_most_specific [OF ok, of "rev ?raw" ?r ?ch] by simp
  then show ?thesis using ok by (simp only: Let_def)
qed

end
