(* ===== verification/Claims.thy ===== *)
theory Claims
  imports RateLimit
begin

text \<open>
  Token claims and their grants: \<^verbatim>\<open>src/auth/scope.go\<close> and \<^verbatim>\<open>src/auth/claims.go\<close>.

  A scope carries the cache of its parsed pattern, as the Go struct does; \<^verbatim>\<open>Compiled\<close> fills it and
  \<^verbatim>\<open>Authorizes\<close> threads the scopes it touches.  \<open>cache_ok\<close> is the invariant of the cache, and
  \<open>authorized\<close> the specification: deny wins over every grant.
\<close>

subsection \<open>Scopes\<close>

type_synonym Verb = string

definition VerbSubscribe :: Verb where [go_simps]: "VerbSubscribe = ''subscribe''"
definition VerbPublish :: Verb where [go_simps]: "VerbPublish = ''publish''"
definition VerbManage :: Verb where [go_simps]: "VerbManage = ''manage''"

definition AllVerbs :: "Verb list" where
  "AllVerbs = [VerbSubscribe, VerbPublish, VerbManage]"

definition verb_Valid :: "Verb \<Rightarrow> bool" where
  "verb_Valid v \<longleftrightarrow> v = VerbSubscribe \<or> v = VerbPublish \<or> v = VerbManage"

text \<open>\<open>s_compiled\<close> is \<open>Some\<close> exactly when \<^verbatim>\<open>compiledOK\<close> is set.\<close>

record Scope =
  s_Pattern :: string
  s_Verbs :: "Verb list"
  s_Deny :: bool
  s_compiled :: "pattern option"
  s_compileErr :: "go_error option"

definition Compiled :: "Scope \<Rightarrow> pattern result \<times> Scope" where
  "Compiled s =
     (case s_compileErr s of
        Some e \<Rightarrow> (Err e, s)
      | None \<Rightarrow>
          (case s_compiled s of
             Some p \<Rightarrow> (Ok p, s)
           | None \<Rightarrow>
               (case ParsePattern (s_Pattern s) of
                  Err e \<Rightarrow> (Err e, s\<lparr>s_compileErr := Some e\<rparr>)
                | Ok p \<Rightarrow> (Ok p, s\<lparr>s_compiled := Some p\<rparr>))))"

definition AllowsVerb :: "Verb \<Rightarrow> Scope \<Rightarrow> bool" where
  "AllowsVerb v s \<longleftrightarrow> v \<in> set (s_Verbs s)"

definition scope_Authorizes :: "chan_name \<Rightarrow> Verb \<Rightarrow> Scope \<Rightarrow> bool \<times> Scope" where
  "scope_Authorizes name v s =
     (case Compiled s of
        (Err _, s) \<Rightarrow> (False, s)
      | (Ok p, s) \<Rightarrow> if \<not> Matches p name then (False, s) else (v \<in> set (s_Verbs s), s))"

definition IsDeny :: "Scope \<Rightarrow> bool" where
  "IsDeny s = s_Deny s"

definition MatchesVerb :: "chan_name \<Rightarrow> Verb \<Rightarrow> Scope \<Rightarrow> bool \<times> Scope" where
  "MatchesVerb name v s =
     (case Compiled s of
        (Err _, s) \<Rightarrow> (False, s)
      | (Ok p, s) \<Rightarrow> if \<not> Matches p name then (False, s) else (AllowsVerb v s, s))"

subsection \<open>Claims\<close>

type_synonym token_type = string

definition TypeAccess :: token_type where [go_simps]: "TypeAccess = ''access''"
definition TypeRefresh :: token_type where [go_simps]: "TypeRefresh = ''refresh''"
definition TypeMgmt :: token_type where [go_simps]: "TypeMgmt = ''mgmt''"

definition type_Valid :: "token_type \<Rightarrow> go_error option" where
  "type_Valid t =
     (if t = TypeAccess \<or> t = TypeRefresh \<or> t = TypeMgmt then None else Some (Plain ''unknown token type''))"

record Claims =
  cl_Sub :: string
  cl_Typ :: token_type
  cl_Chs :: "string list"
  cl_Iat :: int
  cl_Exp :: int
  cl_RateLimitOverride :: "Limit option"
  cl_Scopes :: "Scope list"
  cl_JTI :: string
  cl_FID :: string

definition IssuedAt :: "Claims \<Rightarrow> go_time" where
  "IssuedAt c = cl_Iat c * second"

definition ExpiresAt :: "Claims \<Rightarrow> go_time" where
  "ExpiresAt c = cl_Exp c * second"

text \<open>One pass over the scopes with the given sign; it stops at the first hit.\<close>

fun scope_pass :: "bool \<Rightarrow> chan_name \<Rightarrow> Verb \<Rightarrow> Scope list \<Rightarrow> bool \<times> Scope list" where
  "scope_pass deny name v [] = (False, [])"
| "scope_pass deny name v (s # ss) =
     (if s_Deny s \<noteq> deny then
        (let (hit, ss') = scope_pass deny name v ss in (hit, s # ss'))
      else
        (let (m, s') = MatchesVerb name v s in
         if m then (True, s' # ss)
         else (let (hit, ss') = scope_pass deny name v ss in (hit, s' # ss'))))"

definition claims_Authorizes :: "string \<Rightarrow> Verb \<Rightarrow> Claims \<Rightarrow> bool \<times> Claims" where
  "claims_Authorizes channel v c =
     (let parsed = (if length (cl_Scopes c) > 0
                    then (case ParseName channel of Ok n \<Rightarrow> Some n | Err _ \<Rightarrow> None)
                    else None);
          (denied, c) = (case parsed of
              Some name \<Rightarrow> (let (hit, ss) = scope_pass True name v (cl_Scopes c) in (hit, c\<lparr>cl_Scopes := ss\<rparr>))
            | None \<Rightarrow> (False, c))
      in if denied then (False, c)
         else if channel \<in> set (cl_Chs c) then (True, c)
         else
           case parsed of
             None \<Rightarrow> (False, c)
           | Some name \<Rightarrow> (let (hit, ss) = scope_pass False name v (cl_Scopes c) in (hit, c\<lparr>cl_Scopes := ss\<rparr>)))"

definition ErrMalformedToken :: go_error where "ErrMalformedToken = Plain ''auth: malformed token''"
definition ErrInvalidSignature :: go_error where "ErrInvalidSignature = Plain ''auth: signature does not verify''"
definition ErrUnsupportedAlg :: go_error where "ErrUnsupportedAlg = Plain ''auth: unsupported algorithm''"
definition ErrExpired :: go_error where "ErrExpired = Plain ''auth: token expired''"
definition ErrNotYetValid :: go_error where "ErrNotYetValid = Plain ''auth: token not yet valid''"
definition ErrTypeMismatch :: go_error where "ErrTypeMismatch = Plain ''auth: token type mismatch''"
definition ErrChannelMismatch :: go_error where "ErrChannelMismatch = Plain ''auth: token does not authorize this channel''"

lemmas auth_errors = ErrMalformedToken_def ErrInvalidSignature_def ErrUnsupportedAlg_def ErrExpired_def
  ErrNotYetValid_def ErrTypeMismatch_def ErrChannelMismatch_def

subsection \<open>The specification of a grant\<close>

definition cache_ok :: "Scope \<Rightarrow> bool" where
  "cache_ok s \<longleftrightarrow>
     (\<forall>p. s_compiled s = Some p \<longrightarrow> ParsePattern (s_Pattern s) = Ok p) \<and>
     (\<forall>e. s_compileErr s = Some e \<longrightarrow> ParsePattern (s_Pattern s) = Err e)"

definition grants :: "Scope \<Rightarrow> chan_name \<Rightarrow> Verb \<Rightarrow> bool" where
  "grants s n v \<longleftrightarrow> (case ParsePattern (s_Pattern s) of Err _ \<Rightarrow> False | Ok p \<Rightarrow> Matches p n \<and> v \<in> set (s_Verbs s))"

text \<open>The scopes without the cache: what the JSON form carries.\<close>

definition strip_scope :: "Scope \<Rightarrow> Scope" where
  "strip_scope s = s\<lparr>s_compiled := None, s_compileErr := None\<rparr>"

definition strip_claims :: "Claims \<Rightarrow> Claims" where
  "strip_claims c = c\<lparr>cl_Scopes := map strip_scope (cl_Scopes c)\<rparr>"

definition authorized :: "Claims \<Rightarrow> string \<Rightarrow> Verb \<Rightarrow> bool" where
  "authorized c channel v \<longleftrightarrow>
     \<not> (\<exists>n. ParseName channel = Ok n \<and> (\<exists>s \<in> set (cl_Scopes c). s_Deny s \<and> grants s n v)) \<and>
     (channel \<in> set (cl_Chs c) \<or>
      (\<exists>n. ParseName channel = Ok n \<and> (\<exists>s \<in> set (cl_Scopes c). \<not> s_Deny s \<and> grants s n v)))"

lemma Compiled_ok:
  assumes "cache_ok s"
  shows "fst (Compiled s) = ParsePattern (s_Pattern s)" and "cache_ok (snd (Compiled s))"
    and "strip_scope (snd (Compiled s)) = strip_scope s"
  using assms by (auto simp: Compiled_def cache_ok_def strip_scope_def split: option.splits sum.splits)

lemma strip_scope_eq: "strip_scope s = strip_scope t \<Longrightarrow> s_Pattern s = s_Pattern t \<and> s_Verbs s = s_Verbs t \<and> s_Deny s = s_Deny t"
  by (cases s; cases t) (simp add: strip_scope_def)

lemma grants_strip: "strip_scope s = strip_scope t \<Longrightarrow> grants s n v = grants t n v"
  using strip_scope_eq [of s t] by (auto simp: grants_def split: sum.split)

lemma MatchesVerb_ok:
  assumes "cache_ok s"
  shows "fst (MatchesVerb n v s) = grants s n v" and "cache_ok (snd (MatchesVerb n v s))"
    and "strip_scope (snd (MatchesVerb n v s)) = strip_scope s"
proof -
  obtain r s' where c: "Compiled s = (r, s')" by (cases "Compiled s")
  with Compiled_ok [OF assms] have r: "r = ParsePattern (s_Pattern s)" and s': "cache_ok s'" "strip_scope s' = strip_scope s"
    by auto
  have "snd (MatchesVerb n v s) = s'" by (simp add: MatchesVerb_def c split: sum.split)
  with s' show "cache_ok (snd (MatchesVerb n v s))" and "strip_scope (snd (MatchesVerb n v s)) = strip_scope s" by auto
  show "fst (MatchesVerb n v s) = grants s n v"
    using strip_scope_eq [OF s'(2)] by (simp add: MatchesVerb_def c r grants_def AllowsVerb_def split: sum.split)
qed

lemma scope_pass_ok:
  "list_all cache_ok ss \<Longrightarrow>
     fst (scope_pass deny n v ss) = (\<exists>s \<in> set ss. s_Deny s = deny \<and> grants s n v) \<and>
     list_all cache_ok (snd (scope_pass deny n v ss)) \<and>
     map strip_scope (snd (scope_pass deny n v ss)) = map strip_scope ss"
  by (induction ss) (auto simp: split_beta Let_def MatchesVerb_ok)

lemma pass_cong:
  "map strip_scope ss = map strip_scope ts \<Longrightarrow>
     (\<exists>s \<in> set ss. s_Deny s = deny \<and> grants s n v) = (\<exists>s \<in> set ts. s_Deny s = deny \<and> grants s n v)"
proof (induction ss arbitrary: ts)
  case (Cons s ss)
  then obtain t ts' where "ts = t # ts'" "strip_scope s = strip_scope t" "map strip_scope ss = map strip_scope ts'"
    by (cases ts) auto
  with Cons.IH [of ts'] show ?case using strip_scope_eq [of s t] grants_strip [of s t] by simp
qed simp

lemma claims_Authorizes_ok:
  assumes "list_all cache_ok (cl_Scopes c)"
  shows "fst (claims_Authorizes channel v c) = authorized c channel v"
    and "list_all cache_ok (cl_Scopes (snd (claims_Authorizes channel v c)))"
    and "strip_claims (snd (claims_Authorizes channel v c)) = strip_claims c"
proof -
  let ?ss = "cl_Scopes c"
  have "fst (claims_Authorizes channel v c) = authorized c channel v \<and>
    list_all cache_ok (cl_Scopes (snd (claims_Authorizes channel v c))) \<and>
    strip_claims (snd (claims_Authorizes channel v c)) = strip_claims c"
  proof (cases "\<exists>n. ?ss \<noteq> [] \<and> ParseName channel = Ok n")
    case False
    then have "claims_Authorizes channel v c = (channel \<in> set (cl_Chs c), c)"
      by (auto simp: claims_Authorizes_def Let_def split: sum.split)
    with False assms show ?thesis by (auto simp: authorized_def)
  next
    case True
    then obtain n where n: "ParseName channel = Ok n" and ne: "?ss \<noteq> []" by blast
    obtain d ss1 where p1: "scope_pass True n v ?ss = (d, ss1)" by (cases "scope_pass True n v ?ss")
    obtain a ss2 where p2: "scope_pass False n v ss1 = (a, ss2)" by (cases "scope_pass False n v ss1")
    have d: "d = (\<exists>s \<in> set ?ss. s_Deny s \<and> grants s n v)" and ss1: "list_all cache_ok ss1" "map strip_scope ss1 = map strip_scope ?ss"
      using scope_pass_ok [OF assms, of True n v] p1 by auto
    have a: "a = (\<exists>s \<in> set ?ss. \<not> s_Deny s \<and> grants s n v)" and ss2: "list_all cache_ok ss2" "map strip_scope ss2 = map strip_scope ?ss"
      using scope_pass_ok [OF ss1(1), of False n v] p2 ss1(2) pass_cong [OF ss1(2), of False n v] by auto
    have "claims_Authorizes channel v c =
      (if d then (False, c\<lparr>cl_Scopes := ss1\<rparr>)
       else if channel \<in> set (cl_Chs c) then (True, c\<lparr>cl_Scopes := ss1\<rparr>)
       else (a, c\<lparr>cl_Scopes := ss2\<rparr>))"
      using ne by (simp add: claims_Authorizes_def n p1 p2 Let_def)
    with d a ss1 ss2 n show ?thesis by (auto simp: authorized_def strip_claims_def)
  qed
  then show "fst (claims_Authorizes channel v c) = authorized c channel v"
    and "list_all cache_ok (cl_Scopes (snd (claims_Authorizes channel v c)))"
    and "strip_claims (snd (claims_Authorizes channel v c)) = strip_claims c" by auto
qed

lemma strip_cache_ok [simp]: "list_all cache_ok (cl_Scopes (strip_claims c))"
  by (auto simp: strip_claims_def strip_scope_def cache_ok_def list_all_iff)

subsection \<open>Properties\<close>


definition sample_claims :: Claims where
  "sample_claims =
     \<lparr>cl_Sub = ''u'', cl_Typ = TypeAccess, cl_Chs = [''public:a.b''], cl_Iat = 1, cl_Exp = 100,
      cl_RateLimitOverride = None,
      cl_Scopes = [\<lparr>s_Pattern = ''public:a.**'', s_Verbs = [VerbPublish], s_Deny = True, s_compiled = None, s_compileErr = None\<rparr>],
      cl_JTI = ''j'', cl_FID = []\<rparr>"


end
