(* ===== verification/Token.thy ===== *)
theory Token
  imports KeyRing Claims
begin

text \<open>
  Signing and verifying tokens: \<^verbatim>\<open>src/auth/signer.go\<close> and \<^verbatim>\<open>src/auth/verifier.go\<close>.

  The primitives of the crypto packages are the fields of \<open>crypto\<close> and the JSON form of the claims
  those of \<open>claims_codec\<close>, arguments of the definitions that use them; \<open>crypto_ok\<close> and
  \<open>claims_codec_ok\<close> name what the code relies on: a signature verifies under the public key of its
  signer, the coordinates of an ECDSA signature fit the curve, and decoding returns what was
  encoded.  Splitting, base64url, the fixed-width ECDSA form and all checks are written out.
\<close>

record crypto =
  cr_hmac :: "bytes \<Rightarrow> bytes \<Rightarrow> bytes"
  cr_sha256 :: "bytes \<Rightarrow> bytes"
  cr_sha384 :: "bytes \<Rightarrow> bytes"
  cr_rsa_sign :: "bytes \<Rightarrow> privkey \<Rightarrow> bytes \<Rightarrow> bytes result"
  cr_rsa_verify :: "pubkey \<Rightarrow> bytes \<Rightarrow> bytes \<Rightarrow> bool"
  cr_ed_sign :: "bytes \<Rightarrow> bytes \<Rightarrow> bytes"
  cr_ed_verify :: "bytes \<Rightarrow> bytes \<Rightarrow> bytes \<Rightarrow> bool"
  cr_ec_sign :: "bytes \<Rightarrow> privkey \<Rightarrow> bytes \<Rightarrow> (nat \<times> nat) result"
  cr_ec_verify :: "pubkey \<Rightarrow> bytes \<Rightarrow> nat \<Rightarrow> nat \<Rightarrow> bool"

record claims_codec =
  cc_claims :: "Claims \<Rightarrow> bytes result"
  cc_unclaims :: "bytes \<Rightarrow> Claims result"

subsection \<open>Signing\<close>

definition ecdsaDigest :: "crypto \<Rightarrow> Alg \<Rightarrow> bytes \<Rightarrow> (bytes \<times> nat) result" where
  "ecdsaDigest cr alg msg =
     (if alg = AlgES256 then Ok (cr_sha256 cr msg, 32)
      else if alg = AlgES384 then Ok (cr_sha384 cr msg, 48)
      else Err (Plain ''auth: ecdsaDigest: unsupported alg %s''))"

text \<open>
  The fixed-width form: \<^verbatim>\<open>copy\<close> into a zeroed buffer; a number longer than the coordinate makes
  the slice expression panic.
\<close>

definition jose_rs :: "nat \<Rightarrow> nat \<Rightarrow> nat \<Rightarrow> bytes result" where
  "jose_rs coordSize r s =
     (let rb = be_bytes r; sb = be_bytes s in
      if length rb > coordSize \<or> length sb > 2 * coordSize then Err (go_panic ''slice bounds out of range'')
      else Ok (take (2 * coordSize - length sb)
                 (replicate (coordSize - length rb) (char_of (0 :: nat)) @ rb @ replicate coordSize (char_of (0 :: nat)))
               @ sb))"

definition signWith :: "crypto \<Rightarrow> bytes \<Rightarrow> Key \<Rightarrow> bytes \<Rightarrow> bytes result" where
  "signWith cr rnd k msg =
     (let alg = (if k_Alg k = [] then AlgHS256 else k_Alg k) in
      if alg = AlgHS256 then Ok (cr_hmac cr (k_Secret k) msg)
      else if alg = AlgRS256 then
        (case k_Private k of
           Some (RSA_priv b n d) \<Rightarrow> cr_rsa_sign cr rnd (RSA_priv b n d) (cr_sha256 cr msg)
         | _ \<Rightarrow> Err (Plain ''auth: key %q has alg %s but non-RSA private key''))
      else if alg = AlgEdDSA then
        (case k_Private k of
           Some (Ed_priv p) \<Rightarrow> Ok (cr_ed_sign cr p msg)
         | _ \<Rightarrow> Err (Plain ''auth: key %q has alg %s but non-Ed25519 private key''))
      else if alg = AlgES256 \<or> alg = AlgES384 then
        (case k_Private k of
           Some (EC_priv c p d) \<Rightarrow>
             (case ecdsaDigest cr alg msg of
                Err e \<Rightarrow> Err e
              | Ok (digest, coordSize) \<Rightarrow>
                  (case cr_ec_sign cr rnd (EC_priv c p d) digest of
                     Err e \<Rightarrow> Err (Plain ''auth: ecdsa sign: %w'')
                   | Ok (r, s) \<Rightarrow> jose_rs coordSize r s))
         | _ \<Rightarrow> Err (Plain ''auth: key %q has alg %s but non-ECDSA private key''))
      else Err (Plain ''auth: cannot sign with alg %q''))"

definition Sign :: "crypto \<Rightarrow> claims_codec \<Rightarrow> bytes \<Rightarrow> KeyRing \<Rightarrow> Claims \<Rightarrow> string result" where
  "Sign cr cc rnd ring c =
     (case type_Valid (cl_Typ c) of
        Some e \<Rightarrow> Err e
      | None \<Rightarrow>
          if cl_Iat c = 0 \<or> cl_Exp c = 0 then Err (Plain ''auth: iat and exp are required'')
          else if cl_Exp c \<le> cl_Iat c then Err (Plain ''auth: exp must be after iat'')
          else
            case kr_Active ring of
              Err e \<Rightarrow> Err e
            | Ok active \<Rightarrow>
                (case cc_claims cc c of
                   Err e \<Rightarrow> Err e
                 | Ok payload \<Rightarrow>
                     let payloadB64 = b64_encode payload;
                         signingInput = k_headerB64 active @ ''.'' @ payloadB64
                     in case signWith cr rnd active signingInput of
                          Err e \<Rightarrow> Err e
                        | Ok sigBytes \<Rightarrow> Ok (signingInput @ ''.'' @ b64_encode sigBytes)))"

subsection \<open>Verifying\<close>

definition splitToken :: "string \<Rightarrow> (string \<times> string \<times> string) result" where
  "splitToken token =
     (case strings_Split CHR ''.'' token of
        [h, p, s] \<Rightarrow> Ok (h, p, s)
      | _ \<Rightarrow> Err ErrMalformedToken)"

definition verifyWith :: "crypto \<Rightarrow> Key \<Rightarrow> bytes \<Rightarrow> bytes \<Rightarrow> go_error option" where
  "verifyWith cr k msg sig =
     (let alg = (if k_Alg k = [] then AlgHS256 else k_Alg k) in
      if alg = AlgHS256 then
        (if cr_hmac cr (k_Secret k) msg \<noteq> sig then Some ErrInvalidSignature else None)
      else if alg = AlgRS256 then
        (case k_Public k of
           Some (RSA_pub b n) \<Rightarrow>
             if \<not> cr_rsa_verify cr (RSA_pub b n) (cr_sha256 cr msg) sig then Some ErrInvalidSignature else None
         | _ \<Rightarrow> Some ErrInvalidSignature)
      else if alg = AlgEdDSA then
        (case k_Public k of
           Some (Ed_pub p) \<Rightarrow> if \<not> cr_ed_verify cr p msg sig then Some ErrInvalidSignature else None
         | _ \<Rightarrow> Some ErrInvalidSignature)
      else if alg = AlgES256 \<or> alg = AlgES384 then
        (case k_Public k of
           Some (EC_pub c p) \<Rightarrow>
             (case ecdsaDigest cr alg msg of
                Err _ \<Rightarrow> Some ErrInvalidSignature
              | Ok (digest, coordSize) \<Rightarrow>
                  if length sig \<noteq> 2 * coordSize then Some ErrInvalidSignature
                  else if algForCurve c \<noteq> Ok alg then Some ErrInvalidSignature
                  else if \<not> cr_ec_verify cr (EC_pub c p) digest (be_val (take coordSize sig)) (be_val (drop coordSize sig))
                  then Some ErrInvalidSignature
                  else None)
         | _ \<Rightarrow> Some ErrInvalidSignature)
      else Some (Plain ''auth: cannot verify alg %q''))"

text \<open>
  The verifier: its ring, its leeway, and the calls of \<^verbatim>\<open>OnVerify\<close> when a hook is set.  The clock
  reading is an argument.
\<close>

record Verifier =
  v_ring :: KeyRing
  v_Leeway :: duration
  v_OnVerify :: "(token_type \<times> token_type \<times> go_error option) list option"

definition verify ::
  "crypto \<Rightarrow> key_codec \<Rightarrow> claims_codec \<Rightarrow> KeyRing \<Rightarrow> duration \<Rightarrow> string \<Rightarrow> token_type \<Rightarrow> go_time \<Rightarrow> Claims result" where
  "verify cr kc cc ring leeway token expected now =
     (case splitToken token of
        Err e \<Rightarrow> Err e
      | Ok (headerB64, payloadB64, sigB64) \<Rightarrow>
     (case b64_decode headerB64 of
        None \<Rightarrow> Err ErrMalformedToken
      | Some headerBytes \<Rightarrow>
     (case kc_unheader kc headerBytes of
        Err _ \<Rightarrow> Err ErrMalformedToken
      | Ok h \<Rightarrow>
          if h_Typ h \<noteq> ''JWT'' then Err ErrUnsupportedAlg
          else if h_Kid h = [] then Err ErrMalformedToken
          else if alg_Valid (h_Alg h) \<noteq> None then Err ErrUnsupportedAlg
          else
     (case kr_Get (h_Kid h) ring of
        Err _ \<Rightarrow> Err ErrInvalidSignature
      | Ok key \<Rightarrow>
          let keyAlg = (if k_Alg key = [] then AlgHS256 else k_Alg key) in
          if h_Alg h \<noteq> keyAlg then Err ErrUnsupportedAlg
          else
     (case b64_decode sigB64 of
        None \<Rightarrow> Err ErrMalformedToken
      | Some got \<Rightarrow>
     (case verifyWith cr key (headerB64 @ ''.'' @ payloadB64) got of
        Some e \<Rightarrow> Err e
      | None \<Rightarrow>
     (case b64_decode payloadB64 of
        None \<Rightarrow> Err ErrMalformedToken
      | Some payloadBytes \<Rightarrow>
     (case cc_unclaims cc payloadBytes of
        Err _ \<Rightarrow> Err ErrMalformedToken
      | Ok c \<Rightarrow>
          if type_Valid (cl_Typ c) \<noteq> None then Err ErrMalformedToken
          else if time_Sub now (cl_Exp c * second) > leeway then Err ErrExpired
          else if time_Sub (cl_Iat c * second) now > leeway then Err ErrNotYetValid
          else if expected \<noteq> [] \<and> cl_Typ c \<noteq> expected then Err ErrTypeMismatch
          else Ok c))))))))"

definition Verify ::
  "crypto \<Rightarrow> key_codec \<Rightarrow> claims_codec \<Rightarrow> string \<Rightarrow> token_type \<Rightarrow> go_time \<Rightarrow> Verifier \<Rightarrow> Claims result \<times> Verifier" where
  "Verify cr kc cc token expected now v =
     (let r = verify cr kc cc (v_ring v) (v_Leeway v) token expected now;
          seen = (case r of Ok c \<Rightarrow> (cl_Typ c, expected, None) | Err e \<Rightarrow> ([], expected, Some e))
      in (r, v\<lparr>v_OnVerify := map_option (\<lambda>calls. calls @ [seen]) (v_OnVerify v)\<rparr>))"

subsection \<open>What the code relies on\<close>

definition coord_size :: "curve \<Rightarrow> nat" where
  "coord_size c = (case c of P384 \<Rightarrow> 48 | _ \<Rightarrow> 32)"

definition crypto_ok :: "crypto \<Rightarrow> (privkey \<Rightarrow> bool) \<Rightarrow> bool" where
  "crypto_ok cr good \<longleftrightarrow>
     (\<forall>rnd b n d dg sig. good (RSA_priv b n d) \<longrightarrow> cr_rsa_sign cr rnd (RSA_priv b n d) dg = Ok sig \<longrightarrow>
        cr_rsa_verify cr (RSA_pub b n) dg sig) \<and>
     (\<forall>p msg. good (Ed_priv p) \<longrightarrow> cr_ed_verify cr (drop 32 p) msg (cr_ed_sign cr p msg)) \<and>
     (\<forall>rnd c p d dg r s. good (EC_priv c p d) \<longrightarrow> cr_ec_sign cr rnd (EC_priv c p d) dg = Ok (r, s) \<longrightarrow>
        r < 256 ^ coord_size c \<and> s < 256 ^ coord_size c \<and> cr_ec_verify cr (EC_pub c p) dg r s)"

text \<open>The JSON codecs replace bytes that are not UTF-8; on ASCII text they are exact.\<close>

definition header_codec_ok :: "key_codec \<Rightarrow> bool" where
  "header_codec_ok kc \<longleftrightarrow>
     (\<forall>h b. ascii (h_Kid h) \<longrightarrow> alg_Valid (h_Alg h) = None \<longrightarrow> h_Typ h = ''JWT'' \<longrightarrow>
        kc_header kc h = Ok b \<longrightarrow> kc_unheader kc b = Ok h)"

definition scope_ascii :: "Scope \<Rightarrow> bool" where
  "scope_ascii s \<longleftrightarrow> ascii (s_Pattern s) \<and> list_all ascii (s_Verbs s)"

definition claims_ascii :: "Claims \<Rightarrow> bool" where
  "claims_ascii c \<longleftrightarrow> ascii (cl_Sub c) \<and> ascii (cl_Typ c) \<and> list_all ascii (cl_Chs c) \<and> ascii (cl_JTI c) \<and>
     ascii (cl_FID c) \<and> list_all scope_ascii (cl_Scopes c)"

definition claims_codec_ok :: "claims_codec \<Rightarrow> bool" where
  "claims_codec_ok cc \<longleftrightarrow>
     (\<forall>c b. claims_ascii c \<longrightarrow> cc_claims cc c = Ok b \<longrightarrow> cc_unclaims cc b = Ok (strip_claims c))"

subsection \<open>Signatures verify\<close>

lemma jose_rs_decode:
  assumes "r < 256 ^ cs" and "s < 256 ^ cs"
  obtains sig where "jose_rs cs r s = Ok sig" and "length sig = 2 * cs"
    and "be_val (take cs sig) = r" and "be_val (drop cs sig) = s"
proof -
  have len: "length (be_bytes r) \<le> cs" "length (be_bytes s) \<le> cs" using assms by (simp_all add: length_be_bytes)
  let ?z = "\<lambda>k. replicate k (char_of (0 :: nat))"
  let ?left = "?z (cs - length (be_bytes r)) @ be_bytes r" and ?right = "?z (cs - length (be_bytes s)) @ be_bytes s"
  have l: "length ?left = cs" "length ?right = cs" using len by simp_all
  have "2 * cs - length (be_bytes s) - cs = cs - length (be_bytes s)" using len by simp
  then have "take (2 * cs - length (be_bytes s)) (?left @ ?z cs) = ?left @ ?z (cs - length (be_bytes s))"
    using l(1) len by simp
  then have "jose_rs cs r s = Ok (?left @ ?right)"
    using len by (simp add: jose_rs_def Let_def)
  moreover have "be_val (take cs (?left @ ?right)) = r" "be_val (drop cs (?left @ ?right)) = s"
    using l by simp_all
  ultimately show thesis using that l by simp
qed

lemma sign_verify:
  assumes k: "key_ok kc good ident k" and cr: "crypto_ok cr good" and sig: "signWith cr rnd k msg = Ok sig"
    and same: "k_Alg k' = k_Alg k" "k_Secret k' = k_Secret k" "k_Public k' = k_Public k"
  shows "verifyWith cr k' msg sig = None"
proof -
  have alg: "k_Alg k \<noteq> []" "alg_Valid (k_Alg k) = None" and mat: "material_ok good k"
    using k by (auto simp: key_ok_def alg_Valid_def go_simps split: if_splits)
  show ?thesis
  proof (cases "k_Alg k = AlgHS256")
    case True
    then show ?thesis using sig same by (auto simp: signWith_def verifyWith_def go_simps)
  next
    case False
    with mat obtain p where p: "k_Private k = Some p" "k_Public k = Some (priv_Public p)" "good p" "fits (k_Alg k) p"
      by (auto simp: material_ok_def)
    show ?thesis
    proof (cases p)
      case (RSA_priv b n d)
      with p sig cr same show ?thesis
        by (auto simp: signWith_def verifyWith_def go_simps crypto_ok_def)
    next
      case (Ed_priv q)
      with p sig cr same show ?thesis
        by (auto simp: signWith_def verifyWith_def go_simps crypto_ok_def)
    next
      case (EC_priv c q d)
      with p(4) have c: "algForCurve c = Ok (k_Alg k)" by simp
      then have es: "k_Alg k = AlgES256 \<and> coord_size c = 32 \<or> k_Alg k = AlgES384 \<and> coord_size c = 48"
        by (auto simp: algForCurve_def coord_size_def split: curve.splits)
      then obtain dg where dg: "ecdsaDigest cr (k_Alg k) msg = Ok (dg, coord_size c)"
        by (auto simp: ecdsaDigest_def go_simps)
      have "signWith cr rnd k msg =
          (case cr_ec_sign cr rnd (EC_priv c q d) dg of
             Err e \<Rightarrow> Err (Plain ''auth: ecdsa sign: %w'') | Ok (r, s) \<Rightarrow> jose_rs (coord_size c) r s)"
        using es p(1) EC_priv dg by (auto simp: signWith_def go_simps split: sum.split)
      with sig obtain r s where rs: "cr_ec_sign cr rnd (EC_priv c q d) dg = Ok (r, s)" "jose_rs (coord_size c) r s = Ok sig"
        by (auto split: sum.splits)
      with cr p(3) EC_priv have bound: "r < 256 ^ coord_size c" "s < 256 ^ coord_size c"
        and ok: "cr_ec_verify cr (EC_pub c q) dg r s" by (auto simp: crypto_ok_def)
      have dec: "length sig = 2 * coord_size c" "be_val (take (coord_size c) sig) = r" "be_val (drop (coord_size c) sig) = s"
        using jose_rs_decode [OF bound] rs(2) by auto
      show ?thesis
        using es p(2) EC_priv dg dec ok c same by (auto simp: verifyWith_def go_simps)
    qed
  qed
qed

lemma splitToken_join:
  "CHR ''.'' \<notin> set h \<Longrightarrow> CHR ''.'' \<notin> set p \<Longrightarrow> CHR ''.'' \<notin> set s \<Longrightarrow>
     splitToken ((h @ ''.'' @ p) @ ''.'' @ s) = Ok (h, p, s)"
  using strings_Split_prefix [of "CHR ''.''" h "p @ CHR ''.'' # s"] strings_Split_prefix [of "CHR ''.''" p s]
  by (simp add: splitToken_def strings_Split_single)

lemma Sign_Ok:
  assumes "Sign cr cc rnd ring c = Ok tok"
  obtains k payload sig where "kr_Active ring = Ok k" and "cc_claims cc c = Ok payload"
    and "signWith cr rnd k (k_headerB64 k @ ''.'' @ b64_encode payload) = Ok sig"
    and "tok = (k_headerB64 k @ ''.'' @ b64_encode payload) @ ''.'' @ b64_encode sig"
    and "type_Valid (cl_Typ c) = None" and "cl_Iat c < cl_Exp c"
  using assms by (auto simp: Sign_def Let_def split: option.splits if_splits sum.splits)

text \<open>The header a well-formed key carries decodes to its own id and algorithm.\<close>

lemma key_header:
  assumes k: "key_ok kc good ident k" and kc: "header_codec_ok kc" and "ascii ident"
  obtains b where "k_headerB64 k = b64_encode b"
    and "kc_unheader kc b = Ok \<lparr>h_Alg = k_Alg k, h_Kid = ident, h_Typ = ''JWT''\<rparr>"
proof -
  have alg: "k_Alg k \<noteq> []" "alg_Valid (k_Alg k) = None" and hdr: "buildHeader kc ident (k_Alg k) = Ok (k_headerB64 k)"
    using k by (auto simp: key_ok_def alg_Valid_def go_simps split: if_splits)
  then obtain b where b: "kc_header kc \<lparr>h_Alg = k_Alg k, h_Kid = ident, h_Typ = ''JWT''\<rparr> = Ok b" "k_headerB64 k = b64_encode b"
    by (auto simp: buildHeader_def Let_def split: if_splits sum.splits)
  with kc assms(3) alg show thesis using that by (auto simp: header_codec_ok_def)
qed

lemma verify_signed:
  assumes ring: "ring_ok kc good ring" and cr: "crypto_ok cr good" and kc: "header_codec_ok kc" and cc: "claims_codec_ok cc"
    and ascii: "ascii (kr_active ring)" "claims_ascii c" and tok: "Sign cr cc rnd ring c = Ok tok"
    and k: "kr_Active ring = Ok k" and k': "kr_Get (kr_active ring) ring' = Ok k'"
    and same: "k_Alg k' = k_Alg k" "k_Secret k' = k_Secret k" "k_Public k' = k_Public k"
  shows "verify cr kc cc ring' leeway tok expected now =
    (if time_Sub now (cl_Exp c * second) > leeway then Err ErrExpired
     else if time_Sub (cl_Iat c * second) now > leeway then Err ErrNotYetValid
     else if expected \<noteq> [] \<and> cl_Typ c \<noteq> expected then Err ErrTypeMismatch
     else Ok (strip_claims c))"
proof -
  from tok k obtain payload sig where p: "cc_claims cc c = Ok payload"
    and sig: "signWith cr rnd k (k_headerB64 k @ ''.'' @ b64_encode payload) = Ok sig"
    and eq: "tok = (k_headerB64 k @ ''.'' @ b64_encode payload) @ ''.'' @ b64_encode sig"
    and tyv: "type_Valid (cl_Typ c) = None" by (auto elim!: Sign_Ok)
  have act: "map_of (kr_byID ring) (kr_active ring) = Some k"
    using k by (auto simp: kr_Active_def split: if_splits option.splits)
  note kok = ring_okD(1) [OF ring act]
  obtain b where b: "k_headerB64 k = b64_encode b"
    "kc_unheader kc b = Ok \<lparr>h_Alg = k_Alg k, h_Kid = kr_active ring, h_Typ = ''JWT''\<rparr>"
    using key_header [OF kok kc ascii(1)] .
  have split: "splitToken tok = Ok (b64_encode b, b64_encode payload, b64_encode sig)"
    unfolding eq b(1) by (rule splitToken_join) simp_all
  have v: "verifyWith cr k' (b64_encode b @ ''.'' @ b64_encode payload) sig = None"
    using sign_verify [OF kok cr sig same] by (simp add: b(1))
  have alg: "k_Alg k \<noteq> []" "alg_Valid (k_Alg k) = None" and ne: "kr_active ring \<noteq> []"
    using kok key_ok_ident [OF kok] by (auto simp: key_ok_def alg_Valid_def go_simps split: if_splits)
  have un: "cc_unclaims cc payload = Ok (strip_claims c)" using cc ascii(2) p by (auto simp: claims_codec_ok_def)
  have [simp]: "cl_Typ (strip_claims c) = cl_Typ c" "cl_Exp (strip_claims c) = cl_Exp c" "cl_Iat (strip_claims c) = cl_Iat c"
    by (simp_all add: strip_claims_def)
  show ?thesis
    using alg ne tyv same(1) v un k' by (simp add: verify_def split b(2) Let_def)
qed

lemma verify_sound:
  assumes "verify cr kc cc ring leeway token expected now = Ok c"
  obtains h p s hb sb pb hdr key where "splitToken token = Ok (h, p, s)"
    and "b64_decode h = Some hb" "b64_decode p = Some pb" "b64_decode s = Some sb"
    and "kc_unheader kc hb = Ok hdr" "h_Typ hdr = ''JWT''"
    and "kr_Get (h_Kid hdr) ring = Ok key" "h_Alg hdr = (if k_Alg key = [] then AlgHS256 else k_Alg key)"
    and "verifyWith cr key (h @ ''.'' @ p) sb = None" "cc_unclaims cc pb = Ok c"
    and "type_Valid (cl_Typ c) = None" "time_Sub now (cl_Exp c * second) \<le> leeway"
    and "time_Sub (cl_Iat c * second) now \<le> leeway" "expected = [] \<or> cl_Typ c = expected"
    and "h_Kid hdr \<noteq> []" "alg_Valid (h_Alg hdr) = None"
  using assms
  by (auto simp: verify_def Let_def split: sum.splits prod.splits option.splits if_splits)

text \<open>What verifies as a type verifies as no type, and the other way round.\<close>

lemma verify_type:
  assumes "verify cr kc cc ring leeway token expected now = Ok c" "expected' = [] \<or> cl_Typ c = expected'"
  shows "verify cr kc cc ring leeway token expected' now = Ok c"
  using assms(1) by (rule verify_sound) (use assms(2) in \<open>simp add: verify_def\<close>)

subsection \<open>Properties\<close>


definition toy_crypto :: crypto where
  "toy_crypto = \<lparr>cr_hmac = (\<lambda>k m. k @ m), cr_sha256 = (\<lambda>m. m), cr_sha384 = (\<lambda>m. m),
     cr_rsa_sign = (\<lambda>rnd p m. Err (Plain ''unsupported'')), cr_rsa_verify = (\<lambda>p m s. False),
     cr_ed_sign = (\<lambda>p m. drop 32 p @ m), cr_ed_verify = (\<lambda>p m s. s = p @ m),
     cr_ec_sign = (\<lambda>rnd p m. Err (Plain ''unsupported'')), cr_ec_verify = (\<lambda>p m r s. False)\<rparr>"

lemma toy_crypto_ok: "crypto_ok toy_crypto good"
  by (simp add: crypto_ok_def toy_crypto_def)

text \<open>A codec that knows one claims value; the laws say nothing about any other.\<close>

definition one_codec :: "Claims \<Rightarrow> claims_codec" where
  "one_codec c0 = \<lparr>cc_claims = (\<lambda>c. if c = c0 then Ok ''c'' else Err (Plain ''unsupported'')),
     cc_unclaims = (\<lambda>b. if b = ''c'' then Ok (strip_claims c0) else Err (Plain ''malformed''))\<rparr>"

lemma one_codec_ok: "claims_codec_ok (one_codec c0)"
  by (simp add: claims_codec_ok_def one_codec_def split: if_splits)

lemma plain_header_ok: "header_codec_ok plain_codec"
proof -
  have "kc_unheader plain_codec b = Ok h"
    if "alg_Valid (h_Alg h) = None" "h_Typ h = ''JWT''" "kc_header plain_codec h = Ok b" for h b
  proof -
    have alg: "CHR ''.'' \<notin> set (h_Alg h)" using that(1) by (auto simp: alg_Valid_def go_simps split: if_splits)
    have "strings_Split CHR ''.'' (h_Alg h @ CHR ''.'' # ''JWT'' @ CHR ''.'' # h_Kid h) =
        h_Alg h # ''JWT'' # strings_Split CHR ''.'' (h_Kid h)"
      using strings_Split_prefix [OF alg] strings_Split_prefix [of "CHR ''.''" "''JWT''"] by simp
    moreover obtain k ks where "strings_Split CHR ''.'' (h_Kid h) = k # ks"
      by (metis list.exhaust strings_Split_nonempty)
    moreover from this have "strings_Join (k # ks) CHR ''.'' = h_Kid h" by (metis strings_Join_Split)
    ultimately show ?thesis using that by (auto simp: plain_codec_def)
  qed
  then show ?thesis by (simp add: header_codec_ok_def)
qed

definition one_key :: KeyRing where
  "one_key = snd (kr_Add plain_codec ''k1'' (replicate 32 CHR ''s'') 0 NewKeyRing)"

lemma one_key_reach: "(ring_step plain_codec ed_only)\<^sup>*\<^sup>* NewKeyRing one_key"
  unfolding one_key_def
  by (rule r_into_rtranclp) (rule ring_step.st_add, simp add: rfc3339_range_def zero_time_def)

lemma one_key_active:
  obtains k where "kr_Active one_key = Ok k" "kr_Get (kr_active one_key) one_key = Ok k" "k_Alg k = AlgHS256"
  by (simp add: one_key_def kr_Add_def kr_install_def installHeader_def buildHeader_def plain_codec_def
      NewKeyRing_def kr_Get_def kr_Active_def alg_Valid_def Let_def go_simps)

lemma one_key_ascii: "ascii (kr_active one_key)"
  by (simp add: one_key_def kr_Add_def kr_install_def installHeader_def buildHeader_def plain_codec_def
      NewKeyRing_def alg_Valid_def Let_def go_simps ascii_def)

text \<open>Under this ring any claims the codec knows can be signed.\<close>

lemma one_key_Sign:
  assumes "type_Valid (cl_Typ c) = None" "cl_Iat c \<noteq> 0" "cl_Exp c \<noteq> 0" "cl_Iat c < cl_Exp c" "cc_claims cc c = Ok p"
  obtains tok where "Sign cr cc rnd one_key c = Ok tok"
proof -
  obtain k where "kr_Active one_key = Ok k" "k_Alg k = AlgHS256" by (rule one_key_active)
  with assms that show ?thesis by (simp add: Sign_def signWith_def Let_def go_simps)
qed

lemma sample_signed:
  obtains tok where "Sign toy_crypto (one_codec sample_claims) [] one_key sample_claims = Ok tok"
  by (rule one_key_Sign [of sample_claims "one_codec sample_claims" "''c''"])
    (simp_all add: sample_claims_def one_codec_def type_Valid_def go_simps)

lemma sample_claims_facts:
  "claims_ascii sample_claims" "\<not> time_Sub (50 * second) (cl_Exp sample_claims * second) > 0"
  "\<not> time_Sub (cl_Iat sample_claims * second) (50 * second) > 0" "cl_Typ sample_claims = TypeAccess"
  by (simp_all add: sample_claims_def claims_ascii_def scope_ascii_def ascii_def time_Sub_def go_simps)


text \<open>The sample token verifies: by the lemma on signed tokens.\<close>

lemma sample_token:
  obtains tok where "Sign toy_crypto (one_codec sample_claims) [] one_key sample_claims = Ok tok"
    "verify toy_crypto plain_codec (one_codec sample_claims) one_key 0 tok TypeAccess (50 * second) = Ok (strip_claims sample_claims)"
proof -
  obtain k where k: "kr_Active one_key = Ok k" "kr_Get (kr_active one_key) one_key = Ok k" by (rule one_key_active)
  obtain tok where tok: "Sign toy_crypto (one_codec sample_claims) [] one_key sample_claims = Ok tok"
    by (rule sample_signed)
  from verify_signed [OF ring_ok_reach [OF one_key_reach] toy_crypto_ok plain_header_ok one_codec_ok one_key_ascii
      sample_claims_facts(1) tok k refl refl refl, of 0 TypeAccess "50 * second"] sample_claims_facts(2-4)
  show ?thesis using that [OF tok] by simp
qed

text \<open>
  C2. What the verifier accepts: the token has three parts; its header names a key that is in the
  ring and not retired, with the algorithm of that key and no other; the signature over exactly
  the received header and payload text verifies under that key; the claims are those of the
  payload, of a known type and the expected one, and within their validity up to the leeway.
\<close>

theorem verify_accepts_only:
  assumes "verify cr kc cc ring leeway token expected now = Ok c"
  shows "\<exists>h p s hb sb pb hdr key.
    token = h @ ''.'' @ p @ ''.'' @ s \<and> b64_decode h = Some hb \<and> kc_unheader kc hb = Ok hdr \<and>
    map_of (kr_byID ring) (h_Kid hdr) = Some key \<and> k_Role key \<noteq> RoleRetired \<and>
    h_Alg hdr = (if k_Alg key = [] then AlgHS256 else k_Alg key) \<and>
    b64_decode s = Some sb \<and> verifyWith cr key (h @ ''.'' @ p) sb = None \<and>
    b64_decode p = Some pb \<and> cc_unclaims cc pb = Ok c \<and> cl_Typ c \<in> {TypeAccess, TypeRefresh, TypeMgmt} \<and>
    (expected = [] \<or> cl_Typ c = expected) \<and>
    time_Sub now (ExpiresAt c) \<le> leeway \<and> time_Sub (IssuedAt c) now \<le> leeway"
proof (rule verify_sound [OF assms])
  fix h p s hb sb pb hdr key
  assume split: "splitToken token = Ok (h, p, s)" and get: "kr_Get (h_Kid hdr) ring = Ok key"
    and typv: "type_Valid (cl_Typ c) = None"
    and rest: "b64_decode h = Some hb" "b64_decode p = Some pb" "b64_decode s = Some sb"
      "kc_unheader kc hb = Ok hdr" "h_Alg hdr = (if k_Alg key = [] then AlgHS256 else k_Alg key)"
      "verifyWith cr key (h @ ''.'' @ p) sb = None" "cc_unclaims cc pb = Ok c"
      "time_Sub now (cl_Exp c * second) \<le> leeway" "time_Sub (cl_Iat c * second) now \<le> leeway"
      "expected = [] \<or> cl_Typ c = expected"
  have parts: "strings_Split CHR ''.'' token = [h, p, s]"
    using split by (auto simp: splitToken_def split: list.splits)
  have "token = h @ ''.'' @ p @ ''.'' @ s"
    using strings_Join_Split [of "CHR ''.''" token] by (simp add: parts)
  moreover have "cl_Typ c \<in> {TypeAccess, TypeRefresh, TypeMgmt}"
    using typv by (auto simp: type_Valid_def split: if_splits)
  ultimately show ?thesis
    using rest kr_GetD [OF get]
    by (intro exI [of _ h] exI [of _ p] exI [of _ s] exI [of _ hb] exI [of _ sb] exI [of _ pb] exI [of _ hdr]
        exI [of _ key]) (simp add: ExpiresAt_def IssuedAt_def)
qed

theorem verify_accepts_only_witness:
  "\<exists>tok c. Sign toy_crypto (one_codec sample_claims) [] one_key sample_claims = Ok tok \<and>
     verify toy_crypto plain_codec (one_codec sample_claims) one_key 0 tok TypeAccess (50 * second) = Ok c \<and>
     cl_Typ c \<in> {TypeAccess, TypeRefresh, TypeMgmt}"
proof -
  obtain tok where tok: "Sign toy_crypto (one_codec sample_claims) [] one_key sample_claims = Ok tok"
    "verify toy_crypto plain_codec (one_codec sample_claims) one_key 0 tok TypeAccess (50 * second) = Ok (strip_claims sample_claims)"
    by (rule sample_token)
  from verify_accepts_only [OF tok(2)] tok show ?thesis by metis
qed

end
