(* ===== verification/Issuer.thy ===== *)
theory Issuer
  imports Token
begin

text \<open>
  Minting tokens with bounded lifetimes: \<^verbatim>\<open>src/auth/issuer.go\<close> and the identifiers of
  \<^verbatim>\<open>src/auth/random.go\<close>.

  \<open>auth_env\<close> bundles the crypto and codec parameters; \<open>issue_rnd\<close> is the randomness of one call.
  The clock reading is an argument, and the ring is the one the signer holds.
\<close>

record auth_env =
  ae_cr :: crypto
  ae_kc :: key_codec
  ae_cc :: claims_codec

record issue_rnd =
  ir_jti :: "bytes option"
  ir_fid :: "bytes option"
  ir_access :: "bytes option"
  ir_sig1 :: bytes
  ir_sig2 :: bytes

record Issuer =
  i_AccessTTL :: duration
  i_MaxRefreshTTL :: duration

definition NewIssuer :: Issuer where
  "NewIssuer = \<lparr>i_AccessTTL = 5 * minute, i_MaxRefreshTTL = hour\<rparr>"

record PairResult =
  pr_AccessToken :: string
  pr_RefreshToken :: string
  pr_AccessExpires :: go_time
  pr_RefreshExpires :: go_time

definition GenerateSecret :: "bytes option \<Rightarrow> bytes result" where
  "GenerateSecret rnd = (case rnd of None \<Rightarrow> Err (Plain ''auth: secret generation failed'') | Some buf \<Rightarrow> Ok buf)"

definition newTokenID :: "bytes option \<Rightarrow> string result" where
  "newTokenID rnd =
     (case rnd of None \<Rightarrow> Err (Plain ''auth: token id generation failed'') | Some buf \<Rightarrow> Ok (b64_encode buf))"

definition newRefreshIDs :: "bytes option \<Rightarrow> bytes option \<Rightarrow> (string \<times> string) result" where
  "newRefreshIDs r1 r2 =
     (case newTokenID r1 of
        Err e \<Rightarrow> Err e
      | Ok jti \<Rightarrow> (case newTokenID r2 of Err e \<Rightarrow> Err e | Ok fid \<Rightarrow> Ok (jti, fid)))"

definition sign_env :: "auth_env \<Rightarrow> bytes \<Rightarrow> KeyRing \<Rightarrow> Claims \<Rightarrow> string result" where
  "sign_env env rnd ring c = Sign (ae_cr env) (ae_cc env) rnd ring c"

fun check_verbs :: "Verb list \<Rightarrow> go_error option" where
  "check_verbs [] = None"
| "check_verbs (v # vs) =
     (if \<not> verb_Valid v then Some (Plain (''auth: unknown verb in scope: '' @ v)) else check_verbs vs)"

fun validateScopes :: "Scope list \<Rightarrow> go_error option" where
  "validateScopes [] = None"
| "validateScopes (s # ss) =
     (if s_Pattern s = [] then Some (Plain ''auth: scope pattern required'')
      else case fst (Compiled s) of
        Err e \<Rightarrow> Some e
      | Ok _ \<Rightarrow>
          if length (s_Verbs s) = 0 then Some (Plain ''auth: scope must list at least one verb'')
          else case check_verbs (s_Verbs s) of Some e \<Rightarrow> Some e | None \<Rightarrow> validateScopes ss)"

definition cloneScopesForClaim :: "Scope list \<Rightarrow> Scope list" where
  "cloneScopesForClaim scopes =
     map (\<lambda>s. \<lparr>s_Pattern = s_Pattern s, s_Verbs = s_Verbs s, s_Deny = s_Deny s, s_compiled = None, s_compileErr = None\<rparr>) scopes"

text \<open>The lifetimes every pair gets: the refresh token's, then the access token's.\<close>

definition pair_ttls :: "Issuer \<Rightarrow> duration \<Rightarrow> duration \<times> duration" where
  "pair_ttls i channelTTL =
     (let refreshTTL = channelTTL;
          refreshTTL = (if i_MaxRefreshTTL i > 0 \<and> refreshTTL > i_MaxRefreshTTL i then i_MaxRefreshTTL i else refreshTTL);
          accessTTL = i_AccessTTL i;
          accessTTL = (if accessTTL > refreshTTL then refreshTTL else accessTTL);
          accessTTL = (if accessTTL < minute then minute else accessTTL)
      in (refreshTTL, accessTTL))"

text \<open>Signing the two claims of a pair and assembling the result.\<close>

definition sign_pair ::
  "auth_env \<Rightarrow> KeyRing \<Rightarrow> issue_rnd \<Rightarrow> string \<Rightarrow> string list \<Rightarrow> go_time \<Rightarrow> go_time \<Rightarrow> go_time \<Rightarrow> Limit option \<Rightarrow>
   Scope list \<Rightarrow> string \<Rightarrow> string \<Rightarrow> string \<Rightarrow> PairResult result" where
  "sign_pair env ring rnd sub chs now accessExp refreshExp rl scopes accessJTI jti fid =
     (case sign_env env (ir_sig1 rnd) ring
        \<lparr>cl_Sub = sub, cl_Typ = TypeAccess, cl_Chs = chs, cl_Iat = time_Unix now, cl_Exp = time_Unix accessExp,
         cl_RateLimitOverride = rl, cl_Scopes = scopes, cl_JTI = accessJTI, cl_FID = []\<rparr> of
        Err e \<Rightarrow> Err e
      | Ok access \<Rightarrow>
          (case sign_env env (ir_sig2 rnd) ring
             \<lparr>cl_Sub = sub, cl_Typ = TypeRefresh, cl_Chs = chs, cl_Iat = time_Unix now, cl_Exp = time_Unix refreshExp,
              cl_RateLimitOverride = rl, cl_Scopes = scopes, cl_JTI = jti, cl_FID = fid\<rparr> of
             Err e \<Rightarrow> Err e
           | Ok refresh \<Rightarrow>
               Ok \<lparr>pr_AccessToken = access, pr_RefreshToken = refresh, pr_AccessExpires = accessExp,
                   pr_RefreshExpires = refreshExp\<rparr>))"

definition IssuePair ::
  "auth_env \<Rightarrow> Issuer \<Rightarrow> KeyRing \<Rightarrow> issue_rnd \<Rightarrow> string \<Rightarrow> string \<Rightarrow> duration \<Rightarrow> Scope list \<Rightarrow> go_time \<Rightarrow> PairResult result" where
  "IssuePair env i ring rnd sub channel channelTTL scopes now =
     (if channel = [] then Err (Plain ''auth: channel required'')
      else if channelTTL \<le> 0 then Err (Plain ''auth: channelTTL must be positive'')
      else case validateScopes scopes of
        Some e \<Rightarrow> Err e
      | None \<Rightarrow>
          let (refreshTTL, accessTTL) = pair_ttls i channelTTL;
              accessExp = now + accessTTL;
              refreshExp = now + refreshTTL;
              scopesCopy = cloneScopesForClaim scopes
          in case newRefreshIDs (ir_jti rnd) (ir_fid rnd) of
               Err e \<Rightarrow> Err e
             | Ok (jti, fid) \<Rightarrow>
                 (case newTokenID (ir_access rnd) of
                    Err e \<Rightarrow> Err e
                  | Ok accessJTI \<Rightarrow>
                      sign_pair env ring rnd sub [channel] now accessExp refreshExp None scopesCopy accessJTI jti fid))"

definition IssuePairForChannels ::
  "auth_env \<Rightarrow> Issuer \<Rightarrow> KeyRing \<Rightarrow> issue_rnd \<Rightarrow> string \<Rightarrow> string list \<Rightarrow> duration \<Rightarrow> Scope list \<Rightarrow> go_time \<Rightarrow> PairResult result" where
  "IssuePairForChannels env i ring rnd sub chs ttl scopes now =
     (if length chs = 0 then Err (Plain ''auth: at least one channel required'')
      else if ttl \<le> 0 then Err (Plain ''auth: ttl must be positive'')
      else case validateScopes scopes of
        Some e \<Rightarrow> Err e
      | None \<Rightarrow>
          let (refreshTTL, accessTTL) = pair_ttls i ttl;
              accessExp = now + accessTTL;
              refreshExp = now + refreshTTL;
              scopesCopy = cloneScopesForClaim scopes
          in case newRefreshIDs (ir_jti rnd) (ir_fid rnd) of
               Err e \<Rightarrow> Err e
             | Ok (jti, fid) \<Rightarrow>
                 (case newTokenID (ir_access rnd) of
                    Err e \<Rightarrow> Err e
                  | Ok accessJTI \<Rightarrow>
                      sign_pair env ring rnd sub chs now accessExp refreshExp None scopesCopy accessJTI jti fid))"

definition IssueRotatedPair ::
  "auth_env \<Rightarrow> Issuer \<Rightarrow> KeyRing \<Rightarrow> issue_rnd \<Rightarrow> string \<Rightarrow> string \<Rightarrow> string \<Rightarrow> duration \<Rightarrow> Scope list \<Rightarrow> go_time \<Rightarrow> PairResult result" where
  "IssueRotatedPair env i ring rnd sub channel oldFID channelTTL scopes now =
     (if channel = [] then Err (Plain ''auth: channel required'')
      else if oldFID = [] then Err (Plain ''auth: family ID required for rotation'')
      else if channelTTL \<le> 0 then Err (Plain ''auth: channelTTL must be positive'')
      else case validateScopes scopes of
        Some e \<Rightarrow> Err e
      | None \<Rightarrow>
          let (refreshTTL, accessTTL) = pair_ttls i channelTTL;
              accessExp = now + accessTTL;
              refreshExp = now + refreshTTL
          in case newTokenID (ir_jti rnd) of
               Err e \<Rightarrow> Err e
             | Ok jti \<Rightarrow>
                 (case newTokenID (ir_access rnd) of
                    Err e \<Rightarrow> Err e
                  | Ok accessJTI \<Rightarrow>
                      sign_pair env ring rnd sub [channel] now accessExp refreshExp None (cloneScopesForClaim scopes)
                        accessJTI jti oldFID))"

definition IssuePairWithRateLimit ::
  "auth_env \<Rightarrow> Issuer \<Rightarrow> KeyRing \<Rightarrow> issue_rnd \<Rightarrow> string \<Rightarrow> string \<Rightarrow> duration \<Rightarrow> Limit \<Rightarrow> go_time \<Rightarrow> PairResult result" where
  "IssuePairWithRateLimit env i ring rnd sub channel channelTTL override now =
     (if channel = [] then Err (Plain ''auth: channel required'')
      else if channelTTL \<le> 0 then Err (Plain ''auth: channelTTL must be positive'')
      else
        let (refreshTTL, accessTTL) = pair_ttls i channelTTL;
            accessExp = now + accessTTL;
            refreshExp = now + refreshTTL;
            rl = (if \<not> Unlimited override then Some (limit_Normalize override) else None)
        in case newRefreshIDs (ir_jti rnd) (ir_fid rnd) of
             Err e \<Rightarrow> Err e
           | Ok (jti, fid) \<Rightarrow>
               (case newTokenID (ir_access rnd) of
                  Err e \<Rightarrow> Err e
                | Ok accessJTI \<Rightarrow>
                    sign_pair env ring rnd sub [channel] now accessExp refreshExp rl [] accessJTI jti fid))"

definition IssueAccess ::
  "auth_env \<Rightarrow> Issuer \<Rightarrow> KeyRing \<Rightarrow> issue_rnd \<Rightarrow> string \<Rightarrow> string \<Rightarrow> go_time \<Rightarrow> Scope list \<Rightarrow> go_time \<Rightarrow> (string \<times> go_time) result" where
  "IssueAccess env i ring rnd sub channel refreshExp scopes now =
     (case validateScopes scopes of
        Some e \<Rightarrow> Err e
      | None \<Rightarrow>
          let exp = now + i_AccessTTL i;
              exp = (if exp > refreshExp then refreshExp else exp)
          in if \<not> exp > now then Err (Plain ''auth: refresh token has expired'')
             else case newTokenID (ir_access rnd) of
               Err e \<Rightarrow> Err e
             | Ok jti \<Rightarrow>
                 (case sign_env env (ir_sig1 rnd) ring
                    \<lparr>cl_Sub = sub, cl_Typ = TypeAccess, cl_Chs = [channel], cl_Iat = time_Unix now, cl_Exp = time_Unix exp,
                     cl_RateLimitOverride = None, cl_Scopes = cloneScopesForClaim scopes, cl_JTI = jti, cl_FID = []\<rparr> of
                    Err e \<Rightarrow> Err e
                  | Ok tok \<Rightarrow> Ok (tok, exp)))"

definition IssueAccessForChannels ::
  "auth_env \<Rightarrow> Issuer \<Rightarrow> KeyRing \<Rightarrow> issue_rnd \<Rightarrow> string \<Rightarrow> string list \<Rightarrow> go_time \<Rightarrow> go_time \<Rightarrow> (string \<times> go_time) result" where
  "IssueAccessForChannels env i ring rnd sub chs refreshExp now =
     (if length chs = 0 then Err (Plain ''auth: at least one channel required'')
      else
        let exp = now + i_AccessTTL i;
            exp = (if exp > refreshExp then refreshExp else exp)
        in if \<not> exp > now then Err (Plain ''auth: refresh token has expired'')
           else case newTokenID (ir_access rnd) of
             Err e \<Rightarrow> Err e
           | Ok jti \<Rightarrow>
               (case sign_env env (ir_sig1 rnd) ring
                  \<lparr>cl_Sub = sub, cl_Typ = TypeAccess, cl_Chs = chs, cl_Iat = time_Unix now, cl_Exp = time_Unix exp,
                   cl_RateLimitOverride = None, cl_Scopes = [], cl_JTI = jti, cl_FID = []\<rparr> of
                  Err e \<Rightarrow> Err e
                | Ok tok \<Rightarrow> Ok (tok, exp)))"

definition IssueMgmt ::
  "auth_env \<Rightarrow> KeyRing \<Rightarrow> issue_rnd \<Rightarrow> string \<Rightarrow> duration \<Rightarrow> go_time \<Rightarrow> (string \<times> go_time) result" where
  "IssueMgmt env ring rnd sub ttl now =
     (let ttl = (if ttl = 0 then 24 * hour else ttl);
          ttl = (if ttl < hour then hour else ttl);
          ttl = (if ttl > 7 * 24 * hour then 7 * 24 * hour else ttl);
          exp = now + ttl
      in case sign_env env (ir_sig1 rnd) ring
           \<lparr>cl_Sub = sub, cl_Typ = TypeMgmt, cl_Chs = [], cl_Iat = time_Unix now, cl_Exp = time_Unix exp,
            cl_RateLimitOverride = None, cl_Scopes = [], cl_JTI = [], cl_FID = []\<rparr> of
           Err e \<Rightarrow> Err e
         | Ok tok \<Rightarrow> Ok (tok, exp))"

subsection \<open>Lifetimes\<close>

lemma pair_ttls_eq:
  "pair_ttls i ttl =
     (let r = (if 0 < i_MaxRefreshTTL i then min ttl (i_MaxRefreshTTL i) else ttl)
      in (r, max minute (min (i_AccessTTL i) r)))"
  by (auto simp: pair_ttls_def Let_def)

definition env_ok :: "auth_env \<Rightarrow> (privkey \<Rightarrow> bool) \<Rightarrow> bool" where
  "env_ok env good \<longleftrightarrow> crypto_ok (ae_cr env) good \<and> header_codec_ok (ae_kc env) \<and> claims_codec_ok (ae_cc env)"

definition verify_env :: "auth_env \<Rightarrow> KeyRing \<Rightarrow> duration \<Rightarrow> string \<Rightarrow> token_type \<Rightarrow> go_time \<Rightarrow> Claims result" where
  "verify_env env ring leeway tok expected now = verify (ae_cr env) (ae_kc env) (ae_cc env) ring leeway tok expected now"

lemma sign_env_verifies:
  assumes ring: "ring_ok (ae_kc env) good ring" and env: "env_ok env good"
    and ascii: "ascii (kr_active ring)" "claims_ascii c" and tok: "sign_env env rnd ring c = Ok tok"
    and t: "IssuedAt c \<le> t" "t \<le> ExpiresAt c"
  shows "verify_env env ring 0 tok (cl_Typ c) t = Ok (strip_claims c)"
proof -
  obtain k where k: "kr_Active ring = Ok k" using tok by (auto simp: sign_env_def elim!: Sign_Ok)
  then have "map_of (kr_byID ring) (kr_active ring) = Some k"
    by (auto simp: kr_Active_def split: if_splits option.splits)
  with ring_okD(2) [OF ring this] have get: "kr_Get (kr_active ring) ring = Ok k" by (simp add: kr_Get_def)
  have "verify_env env ring 0 tok (cl_Typ c) t =
    (if time_Sub t (cl_Exp c * second) > 0 then Err ErrExpired
     else if time_Sub (cl_Iat c * second) t > 0 then Err ErrNotYetValid
     else if cl_Typ c \<noteq> [] \<and> cl_Typ c \<noteq> cl_Typ c then Err ErrTypeMismatch
     else Ok (strip_claims c))"
    unfolding verify_env_def
    by (rule verify_signed [OF ring _ _ _ ascii _ k get refl refl refl])
      (use env tok in \<open>auto simp: env_ok_def sign_env_def\<close>)
  moreover have "\<not> time_Sub t (cl_Exp c * second) > 0" "\<not> time_Sub (cl_Iat c * second) t > 0"
    using t by (auto simp: ExpiresAt_def IssuedAt_def time_Sub_greater go_simps)
  ultimately show ?thesis by simp
qed

lemma sign_pair_Ok:
  assumes "sign_pair env ring rnd sub chs now accessExp refreshExp rl scopes accessJTI jti fid = Ok pair"
  shows "pr_AccessExpires pair = accessExp" and "pr_RefreshExpires pair = refreshExp"
    and "sign_env env (ir_sig1 rnd) ring
        \<lparr>cl_Sub = sub, cl_Typ = TypeAccess, cl_Chs = chs, cl_Iat = time_Unix now, cl_Exp = time_Unix accessExp,
         cl_RateLimitOverride = rl, cl_Scopes = scopes, cl_JTI = accessJTI, cl_FID = []\<rparr> = Ok (pr_AccessToken pair)"
    and "sign_env env (ir_sig2 rnd) ring
             \<lparr>cl_Sub = sub, cl_Typ = TypeRefresh, cl_Chs = chs, cl_Iat = time_Unix now, cl_Exp = time_Unix refreshExp,
              cl_RateLimitOverride = rl, cl_Scopes = scopes, cl_JTI = jti, cl_FID = fid\<rparr> = Ok (pr_RefreshToken pair)"
  using assms by (auto simp: sign_pair_def split: sum.splits)

lemma ascii_b64 [simp]: "ascii (b64_encode s)"
  using b64_encode_ascii by (auto simp: ascii_def list_all_iff)

lemma ascii_types [simp]: "ascii TypeAccess" "ascii TypeRefresh" "ascii TypeMgmt" "ascii []"
  by (simp_all add: ascii_def go_simps)

lemma newTokenID_ascii: "newTokenID r = Ok x \<Longrightarrow> ascii x"
  by (auto simp: newTokenID_def split: option.splits)

lemma clone_strip:
  "map strip_scope (cloneScopesForClaim ss) = map strip_scope ss"
  "list_all scope_ascii ss \<Longrightarrow> list_all scope_ascii (cloneScopesForClaim ss)"
  by (auto simp: cloneScopesForClaim_def strip_scope_def scope_ascii_def list_all_iff)

text \<open>Both tokens of a signed pair verify for as long as they are valid.\<close>

lemma sign_pair_verifies:
  assumes ring: "ring_ok (ae_kc env) good ring" and env: "env_ok env good"
    and a: "ascii (kr_active ring)" "ascii sub" "list_all ascii chs" "list_all scope_ascii scopes"
      "ascii accessJTI" "ascii jti" "ascii fid"
    and pair: "sign_pair env ring rnd sub chs now accessExp refreshExp rl scopes accessJTI jti fid = Ok pair"
    and t: "now \<le> t"
  shows "t \<le> time_Unix accessExp * second \<Longrightarrow>
      verify_env env ring 0 (pr_AccessToken pair) TypeAccess t = Ok (strip_claims
        \<lparr>cl_Sub = sub, cl_Typ = TypeAccess, cl_Chs = chs, cl_Iat = time_Unix now, cl_Exp = time_Unix accessExp,
         cl_RateLimitOverride = rl, cl_Scopes = scopes, cl_JTI = accessJTI, cl_FID = []\<rparr>)"
    and "t \<le> time_Unix refreshExp * second \<Longrightarrow>
      verify_env env ring 0 (pr_RefreshToken pair) TypeRefresh t = Ok (strip_claims
        \<lparr>cl_Sub = sub, cl_Typ = TypeRefresh, cl_Chs = chs, cl_Iat = time_Unix now, cl_Exp = time_Unix refreshExp,
         cl_RateLimitOverride = rl, cl_Scopes = scopes, cl_JTI = jti, cl_FID = fid\<rparr>)"
proof -
  note signed = sign_pair_Ok(3,4) [OF pair]
  have iat: "time_Unix now * second \<le> t"
    using t div_mult_mod_eq [of now second] pos_mod_sign [of second now] by (simp add: time_Unix_def)
  show "verify_env env ring 0 (pr_AccessToken pair) TypeAccess t = Ok (strip_claims
        \<lparr>cl_Sub = sub, cl_Typ = TypeAccess, cl_Chs = chs, cl_Iat = time_Unix now, cl_Exp = time_Unix accessExp,
         cl_RateLimitOverride = rl, cl_Scopes = scopes, cl_JTI = accessJTI, cl_FID = []\<rparr>)"
    if "t \<le> time_Unix accessExp * second"
    using sign_env_verifies [OF ring env a(1) _ signed(1), of t] a that iat
    by (simp add: claims_ascii_def IssuedAt_def ExpiresAt_def)
  show "verify_env env ring 0 (pr_RefreshToken pair) TypeRefresh t = Ok (strip_claims
        \<lparr>cl_Sub = sub, cl_Typ = TypeRefresh, cl_Chs = chs, cl_Iat = time_Unix now, cl_Exp = time_Unix refreshExp,
         cl_RateLimitOverride = rl, cl_Scopes = scopes, cl_JTI = jti, cl_FID = fid\<rparr>)"
    if "t \<le> time_Unix refreshExp * second"
    using sign_env_verifies [OF ring env a(1) _ signed(2), of t] a that iat
    by (simp add: claims_ascii_def IssuedAt_def ExpiresAt_def)
qed

subsection \<open>Properties\<close>

lemma newRefreshIDs_Ok:
  "newRefreshIDs r1 r2 = Ok (jti, fid) \<longleftrightarrow> newTokenID r1 = Ok jti \<and> newTokenID r2 = Ok fid"
  by (auto simp: newRefreshIDs_def split: sum.splits)

lemma IssuePair_Ok:
  assumes "IssuePair env i ring rnd sub channel channelTTL scopes now = Ok pair"
  obtains jti fid accessJTI where "newTokenID (ir_jti rnd) = Ok jti" "newTokenID (ir_fid rnd) = Ok fid"
    "newTokenID (ir_access rnd) = Ok accessJTI" "channel \<noteq> []" "0 < channelTTL" "validateScopes scopes = None"
    "sign_pair env ring rnd sub [channel] now (now + snd (pair_ttls i channelTTL)) (now + fst (pair_ttls i channelTTL))
       None (cloneScopesForClaim scopes) accessJTI jti fid = Ok pair"
  using assms
  by (auto simp: IssuePair_def Let_def split_beta newRefreshIDs_Ok
      split: if_splits option.splits sum.splits prod.splits)

text \<open>
  Minting a pair for a channel: the refresh token lives for the channel TTL, at most
  \<^verbatim>\<open>MaxRefreshTTL\<close>; the access token for \<^verbatim>\<open>AccessTTL\<close>, at most the refresh lifetime but never
  below one minute.  Both verify, as what they are, from the moment of issue until the second
  they expire in, and carry the subject, exactly the one channel and the given scopes.
\<close>

theorem IssuePair_verifies:
  assumes "(ring_step (ae_kc env) good)\<^sup>*\<^sup>* NewKeyRing ring" and "env_ok env good"
    and "ascii (kr_active ring)" and "ascii sub" and "ascii channel" and "list_all scope_ascii scopes"
    and "IssuePair env i ring rnd sub channel channelTTL scopes now = Ok pair"
  defines "refreshTTL \<equiv> if 0 < i_MaxRefreshTTL i then min channelTTL (i_MaxRefreshTTL i) else channelTTL"
  shows "pr_RefreshExpires pair = now + refreshTTL \<and>
    pr_AccessExpires pair = now + max minute (min (i_AccessTTL i) refreshTTL) \<and>
    (\<forall>t. now \<le> t \<longrightarrow> t \<le> time_Unix (pr_AccessExpires pair) * second \<longrightarrow>
       (\<exists>c. verify_env env ring 0 (pr_AccessToken pair) TypeAccess t = Ok c \<and> cl_Sub c = sub \<and>
          cl_Chs c = [channel] \<and> cl_Scopes c = map strip_scope scopes)) \<and>
    (\<forall>t. now \<le> t \<longrightarrow> t \<le> time_Unix (pr_RefreshExpires pair) * second \<longrightarrow>
       (\<exists>c. verify_env env ring 0 (pr_RefreshToken pair) TypeRefresh t = Ok c \<and> cl_Sub c = sub \<and>
          cl_Chs c = [channel] \<and> cl_Scopes c = map strip_scope scopes \<and>
          newTokenID (ir_jti rnd) = Ok (cl_JTI c) \<and> newTokenID (ir_fid rnd) = Ok (cl_FID c)))"
proof -
  have ring: "ring_ok (ae_kc env) good ring" using assms(1) by (rule ring_ok_reach)
  obtain jti fid accessJTI where ids: "newTokenID (ir_jti rnd) = Ok jti" "newTokenID (ir_fid rnd) = Ok fid"
    "newTokenID (ir_access rnd) = Ok accessJTI"
    and pair: "sign_pair env ring rnd sub [channel] now (now + snd (pair_ttls i channelTTL))
       (now + fst (pair_ttls i channelTTL)) None (cloneScopesForClaim scopes) accessJTI jti fid = Ok pair"
    using IssuePair_Ok [OF assms(7)] by metis
  have a: "ascii jti" "ascii fid" "ascii accessJTI" "list_all ascii [channel]"
    "list_all scope_ascii (cloneScopesForClaim scopes)"
    using ids newTokenID_ascii assms(5,6) clone_strip(2) by auto
  note v = sign_pair_verifies [OF ring assms(2,3,4) a(4,5,3,1,2) pair]
  note exps = sign_pair_Ok(1,2) [OF pair]
  show ?thesis
    unfolding exps by (auto simp: v strip_claims_def clone_strip ids pair_ttls_eq Let_def refreshTTL_def)
qed

text \<open>A codec that knows a list of claims, encoded by their place in it.\<close>

definition list_codec :: "Claims list \<Rightarrow> claims_codec" where
  "list_codec cs = \<lparr>cc_claims = (\<lambda>c. if c \<in> set cs then Ok (replicate (length (takeWhile (\<lambda>x. x \<noteq> c) cs)) CHR ''c'')
       else Err (Plain ''unsupported'')),
     cc_unclaims = (\<lambda>b. if length b < length cs then Ok (strip_claims (cs ! length b)) else Err (Plain ''malformed''))\<rparr>"

lemma takeWhile_first: "c \<in> set cs \<Longrightarrow> length (takeWhile (\<lambda>x. x \<noteq> c) cs) < length cs \<and> cs ! length (takeWhile (\<lambda>x. x \<noteq> c) cs) = c"
  by (induction cs) auto

lemma list_codec_ok: "claims_codec_ok (list_codec cs)"
  using takeWhile_first [of _ cs] by (auto simp: claims_codec_ok_def list_codec_def split: if_splits)

definition toy_env :: "Claims list \<Rightarrow> auth_env" where
  "toy_env cs = \<lparr>ae_cr = toy_crypto, ae_kc = plain_codec, ae_cc = list_codec cs\<rparr>"

lemma toy_env_ok: "env_ok (toy_env cs) good"
  by (simp add: env_ok_def toy_env_def toy_crypto_ok plain_header_ok list_codec_ok)

lemma toy_sign:
  assumes "c \<in> set cs" "type_Valid (cl_Typ c) = None" "0 < cl_Iat c" "cl_Iat c < cl_Exp c"
  obtains tok where "sign_env (toy_env cs) rnd one_key c = Ok tok"
proof -
  have "cc_claims (list_codec cs) c = Ok (replicate (length (takeWhile (\<lambda>x. x \<noteq> c) cs)) CHR ''c'')"
    using assms(1) by (simp add: list_codec_def)
  from one_key_Sign [OF assms(2) _ _ assms(4) this] assms(3,4)
  obtain tok where "Sign toy_crypto (list_codec cs) rnd one_key c = Ok tok" by auto
  then show ?thesis by (intro that [of tok]) (simp add: sign_env_def toy_env_def)
qed

lemma toy_sign_pair:
  assumes "\<lparr>cl_Sub = sub, cl_Typ = TypeAccess, cl_Chs = chs, cl_Iat = time_Unix now, cl_Exp = time_Unix accessExp,
      cl_RateLimitOverride = rl, cl_Scopes = scopes, cl_JTI = accessJTI, cl_FID = []\<rparr> \<in> set cs"
    and "\<lparr>cl_Sub = sub, cl_Typ = TypeRefresh, cl_Chs = chs, cl_Iat = time_Unix now, cl_Exp = time_Unix refreshExp,
      cl_RateLimitOverride = rl, cl_Scopes = scopes, cl_JTI = jti, cl_FID = fid\<rparr> \<in> set cs"
    and "0 < time_Unix now" "time_Unix now < time_Unix accessExp" "time_Unix now < time_Unix refreshExp"
  shows "\<exists>pair. sign_pair (toy_env cs) one_key rnd sub chs now accessExp refreshExp rl scopes accessJTI jti fid = Ok pair"
proof -
  have valid: "type_Valid TypeAccess = None" "type_Valid TypeRefresh = None" by (simp_all add: type_Valid_def)
  show ?thesis
    by (rule toy_sign [OF assms(1), of "ir_sig1 rnd"], use assms valid in \<open>simp_all\<close>)
      (rule toy_sign [OF assms(2), of "ir_sig2 rnd"], use assms valid in \<open>simp_all add: sign_pair_def\<close>)
qed

text \<open>The claims of the sample pair: issued at second 100, for half an hour.\<close>

definition pair_claims :: "token_type \<Rightarrow> int \<Rightarrow> string \<Rightarrow> string \<Rightarrow> Claims" where
  "pair_claims ty exp jti fid = \<lparr>cl_Sub = ''u'', cl_Typ = ty, cl_Chs = [''private:a.b.c''], cl_Iat = 100, cl_Exp = exp,
     cl_RateLimitOverride = None, cl_Scopes = [], cl_JTI = jti, cl_FID = fid\<rparr>"

definition sample_env :: auth_env where
  "sample_env = toy_env
     [pair_claims TypeAccess 400 (b64_encode ''aaa'') [], pair_claims TypeRefresh 1900 (b64_encode ''jjj'') (b64_encode ''fff''),
      pair_claims TypeAccess 160 (b64_encode ''aaa'') [], pair_claims TypeRefresh 110 (b64_encode ''jjj'') (b64_encode ''fff'')]"

definition sample_rnd :: issue_rnd where
  "sample_rnd = \<lparr>ir_jti = Some ''jjj'', ir_fid = Some ''fff'', ir_access = Some ''aaa'', ir_sig1 = [], ir_sig2 = []\<rparr>"

lemma sample_IssuePair:
  assumes "ttl = 30 * minute \<or> ttl = 10 * second"
  obtains pair where "IssuePair sample_env NewIssuer one_key sample_rnd ''u'' ''private:a.b.c'' ttl [] (100 * second) = Ok pair"
proof -
  have ttls: "pair_ttls NewIssuer ttl = (if ttl = 10 * second then (10 * second, minute) else (30 * minute, 5 * minute))"
    using assms by (auto simp: pair_ttls_eq NewIssuer_def Let_def)
  have "\<exists>pair. sign_pair sample_env one_key sample_rnd ''u'' [''private:a.b.c''] (100 * second)
      (100 * second + snd (pair_ttls NewIssuer ttl)) (100 * second + fst (pair_ttls NewIssuer ttl))
      None [] (b64_encode ''aaa'') (b64_encode ''jjj'') (b64_encode ''fff'') = Ok pair"
    unfolding sample_env_def
    by (rule toy_sign_pair) (use assms in \<open>auto simp del: b64_encode.simps simp: ttls pair_claims_def time_Unix_def\<close>)
  then have "\<exists>pair. IssuePair sample_env NewIssuer one_key sample_rnd ''u'' ''private:a.b.c'' ttl [] (100 * second) = Ok pair"
    using assms by (auto simp del: b64_encode.simps simp: IssuePair_def Let_def split_beta newRefreshIDs_def newTokenID_def sample_rnd_def cloneScopesForClaim_def)
  then show ?thesis using that by blast
qed

theorem IssuePair_verifies_witness:
  "\<exists>pair. IssuePair sample_env NewIssuer one_key sample_rnd ''u'' ''private:a.b.c'' (30 * minute) [] (100 * second) = Ok pair \<and>
     pr_RefreshExpires pair = 100 * second + 30 * minute \<and>
     (\<exists>c. verify_env sample_env one_key 0 (pr_AccessToken pair) TypeAccess (200 * second) = Ok c \<and> cl_Sub c = ''u'')"
proof -
  let ?r = "IssuePair sample_env NewIssuer one_key sample_rnd ''u'' ''private:a.b.c'' (30 * minute) [] (100 * second)"
  obtain pair where pair: "?r = Ok pair" by (rule sample_IssuePair [of "30 * minute"]) simp_all
  have run: "(ring_step (ae_kc sample_env) ed_only)\<^sup>*\<^sup>* NewKeyRing one_key"
    using one_key_reach by (simp add: sample_env_def toy_env_def)
  have env: "env_ok sample_env ed_only" by (simp add: sample_env_def toy_env_ok)
  have a: "ascii (kr_active one_key)" "ascii ''u''" "ascii ''private:a.b.c''" "list_all scope_ascii []"
    by (rule one_key_ascii) (simp_all add: ascii_def)
  from IssuePair_verifies [OF run env a pair]
  have exps: "pr_AccessExpires pair = 400 * second" "pr_RefreshExpires pair = 100 * second + 30 * minute"
    and acc: "\<forall>t. 100 * second \<le> t \<longrightarrow> t \<le> time_Unix (pr_AccessExpires pair) * second \<longrightarrow>
       (\<exists>c. verify_env sample_env one_key 0 (pr_AccessToken pair) TypeAccess t = Ok c \<and> cl_Sub c = ''u'' \<and>
          cl_Chs c = [''private:a.b.c''] \<and> cl_Scopes c = map strip_scope [])"
    by (simp_all add: NewIssuer_def)
  from acc [rule_format, of "200 * second"]
  have "\<exists>c. verify_env sample_env one_key 0 (pr_AccessToken pair) TypeAccess (200 * second) = Ok c \<and> cl_Sub c = ''u''"
    by (auto simp: exps time_Unix_def)
  with pair exps(2) show ?thesis by blast
qed

text \<open>
  An access token can outlive its refresh token: whenever a pair is minted for a channel
  whose TTL is below one minute, the access lifetime is raised to one minute after it was cut to
  the refresh lifetime.
\<close>

theorem access_outlives_refresh:
  assumes "IssuePair env i ring rnd sub channel channelTTL scopes now = Ok pair" and "channelTTL < minute"
  shows "pr_RefreshExpires pair < pr_AccessExpires pair"
proof -
  obtain jti fid accessJTI where
    "sign_pair env ring rnd sub [channel] now (now + snd (pair_ttls i channelTTL)) (now + fst (pair_ttls i channelTTL))
       None (cloneScopesForClaim scopes) accessJTI jti fid = Ok pair"
    using IssuePair_Ok [OF assms(1)] by metis
  from sign_pair_Ok(1,2) [OF this] assms(2) show ?thesis by (auto simp: pair_ttls_eq Let_def)
qed

theorem access_outlives_refresh_witness:
  "\<exists>pair. IssuePair sample_env NewIssuer one_key sample_rnd ''u'' ''private:a.b.c'' (10 * second) [] (100 * second) = Ok pair \<and>
     pr_RefreshExpires pair < pr_AccessExpires pair"
proof -
  let ?r = "IssuePair sample_env NewIssuer one_key sample_rnd ''u'' ''private:a.b.c'' (10 * second) [] (100 * second)"
  obtain pair where pair: "?r = Ok pair" by (rule sample_IssuePair [of "10 * second"]) simp_all
  from access_outlives_refresh [OF pair] pair show ?thesis by simp
qed

end
