(* ===== verification/RefreshStore.thy ===== *)
theory RefreshStore
  imports Prelude
begin

text \<open>
  The refresh-rotation store: the interface and the in-memory implementation of
  \<^verbatim>\<open>src/auth/refresh_store.go\<close>.

  A record counts until its expiry.  The locale \<open>refresh_store\<close> is the contract in terms of the
  records that still count at the time of the call; its lemmas follow a record through any later
  calls.  The clock reading of a call is an argument.
\<close>

definition ErrRefreshReused :: go_error where
  "ErrRefreshReused = Plain ''auth: refresh token already redeemed''"

definition ErrFamilyRevoked :: go_error where
  "ErrFamilyRevoked = Plain ''auth: refresh family revoked''"

record 's refresh_ops =
  ro_MarkRedeemed :: "string \<Rightarrow> go_time \<Rightarrow> go_time \<Rightarrow> 's \<Rightarrow> go_error option \<times> 's"
  ro_RevokeFamily :: "string \<Rightarrow> go_time \<Rightarrow> go_time \<Rightarrow> 's \<Rightarrow> go_error option \<times> 's"
  ro_IsFamilyRevoked :: "string \<Rightarrow> go_time \<Rightarrow> 's \<Rightarrow> bool result \<times> 's"

subsection \<open>The in-memory store\<close>

record MemoryRefreshStore =
  rs_redeemed :: "(string, go_time) gomap"
  rs_revoked :: "(string, go_time) gomap"

definition NewMemoryRefreshStore :: MemoryRefreshStore where
  "NewMemoryRefreshStore = \<lparr>rs_redeemed = [], rs_revoked = []\<rparr>"

definition pruneLocked :: "go_time \<Rightarrow> MemoryRefreshStore \<Rightarrow> MemoryRefreshStore" where
  "pruneLocked now s =
     s\<lparr>rs_redeemed := filter (\<lambda>(k, exp). exp > now) (rs_redeemed s),
       rs_revoked := filter (\<lambda>(k, exp). exp > now) (rs_revoked s)\<rparr>"

definition rs_MarkRedeemed :: "string \<Rightarrow> go_time \<Rightarrow> go_time \<Rightarrow> MemoryRefreshStore \<Rightarrow> go_error option \<times> MemoryRefreshStore" where
  "rs_MarkRedeemed jti exp now s =
     (if \<not> exp > now then (None, s)
      else
        let s = pruneLocked now s in
        case map_of (rs_redeemed s) jti of
          Some existing \<Rightarrow>
            if existing > now then (Some ErrRefreshReused, s)
            else (None, s\<lparr>rs_redeemed := AList.update jti exp (rs_redeemed s)\<rparr>)
        | None \<Rightarrow> (None, s\<lparr>rs_redeemed := AList.update jti exp (rs_redeemed s)\<rparr>))"

definition rs_RevokeFamily :: "string \<Rightarrow> go_time \<Rightarrow> go_time \<Rightarrow> MemoryRefreshStore \<Rightarrow> go_error option \<times> MemoryRefreshStore" where
  "rs_RevokeFamily fid exp now s =
     (if \<not> exp > now then (None, s)
      else
        let s = pruneLocked now s in
        case map_of (rs_revoked s) fid of
          Some existing \<Rightarrow>
            if exp > existing then (None, s\<lparr>rs_revoked := AList.update fid exp (rs_revoked s)\<rparr>) else (None, s)
        | None \<Rightarrow> (None, s\<lparr>rs_revoked := AList.update fid exp (rs_revoked s)\<rparr>))"

definition rs_IsFamilyRevoked :: "string \<Rightarrow> go_time \<Rightarrow> MemoryRefreshStore \<Rightarrow> bool result \<times> MemoryRefreshStore" where
  "rs_IsFamilyRevoked fid now s =
     (let s = pruneLocked now s in
      case map_of (rs_revoked s) fid of None \<Rightarrow> (Ok False, s) | Some exp \<Rightarrow> (Ok (exp > now), s))"

definition MemoryRefreshStore_ops :: "MemoryRefreshStore refresh_ops" where
  "MemoryRefreshStore_ops = \<lparr>ro_MarkRedeemed = rs_MarkRedeemed, ro_RevokeFamily = rs_RevokeFamily,
     ro_IsFamilyRevoked = rs_IsFamilyRevoked\<rparr>"

subsection \<open>The contract\<close>

text \<open>The records of a map that still count at a time.\<close>

definition counting :: "go_time \<Rightarrow> (string \<rightharpoonup> go_time) \<Rightarrow> string \<rightharpoonup> go_time" where
  "counting now m k = (case m k of Some e \<Rightarrow> if now < e then Some e else None | None \<Rightarrow> None)"

lemma counting_later: "t \<le> t' \<Longrightarrow> counting t' (counting t m) = counting t' m"
  by (auto simp: counting_def fun_eq_iff split: option.split)

lemma counting_Some: "counting t m k = Some e \<longleftrightarrow> m k = Some e \<and> t < e"
  by (auto simp: counting_def split: option.splits)

lemma counting_None: "counting t m k = None \<longleftrightarrow> (\<forall>e. m k = Some e \<longrightarrow> e \<le> t)"
  by (auto simp: counting_def split: option.splits)

definition later_of :: "go_time option \<Rightarrow> go_time \<Rightarrow> go_time" where
  "later_of o1 e = (case o1 of None \<Rightarrow> e | Some e' \<Rightarrow> max e' e)"

lemma later_of_ge: "e \<le> later_of o1 e"
  by (simp add: later_of_def split: option.split)

locale refresh_store =
  fixes ops :: "'s refresh_ops" and inv :: "'s \<Rightarrow> bool"
    and redeemed :: "'s \<Rightarrow> string \<rightharpoonup> go_time" and revoked :: "'s \<Rightarrow> string \<rightharpoonup> go_time"
  assumes Mark_inv: "inv s \<Longrightarrow> inv (snd (ro_MarkRedeemed ops jti exp now s))"
    and Mark_late: "inv s \<Longrightarrow> exp \<le> now \<Longrightarrow> ro_MarkRedeemed ops jti exp now s = (None, s)"
    and Mark_reused: "inv s \<Longrightarrow> now < exp \<Longrightarrow> counting now (redeemed s) jti \<noteq> None \<Longrightarrow>
      fst (ro_MarkRedeemed ops jti exp now s) = Some ErrRefreshReused \<and>
      counting now (redeemed (snd (ro_MarkRedeemed ops jti exp now s))) = counting now (redeemed s)"
    and Mark_fresh: "inv s \<Longrightarrow> now < exp \<Longrightarrow> counting now (redeemed s) jti = None \<Longrightarrow>
      fst (ro_MarkRedeemed ops jti exp now s) = None \<and>
      counting now (redeemed (snd (ro_MarkRedeemed ops jti exp now s))) = (counting now (redeemed s))(jti \<mapsto> exp)"
    and Mark_revoked: "inv s \<Longrightarrow>
      counting now (revoked (snd (ro_MarkRedeemed ops jti exp now s))) = counting now (revoked s)"
    and Revoke_inv: "inv s \<Longrightarrow> inv (snd (ro_RevokeFamily ops fid exp now s))"
    and Revoke_ok: "inv s \<Longrightarrow> fst (ro_RevokeFamily ops fid exp now s) = None"
    and Revoke: "inv s \<Longrightarrow> counting now (revoked (snd (ro_RevokeFamily ops fid exp now s))) =
      (if now < exp then (counting now (revoked s))(fid \<mapsto> later_of (counting now (revoked s) fid) exp)
       else counting now (revoked s))"
    and Revoke_redeemed: "inv s \<Longrightarrow>
      counting now (redeemed (snd (ro_RevokeFamily ops fid exp now s))) = counting now (redeemed s)"
    and Is_inv: "inv s \<Longrightarrow> inv (snd (ro_IsFamilyRevoked ops fid now s))"
    and Is: "inv s \<Longrightarrow> fst (ro_IsFamilyRevoked ops fid now s) = Ok (counting now (revoked s) fid \<noteq> None)"
    and Is_same: "inv s \<Longrightarrow>
      counting now (redeemed (snd (ro_IsFamilyRevoked ops fid now s))) = counting now (redeemed s) \<and>
      counting now (revoked (snd (ro_IsFamilyRevoked ops fid now s))) = counting now (revoked s)"

text \<open>Any sequence of calls, with the clock not running backwards.\<close>

inductive refresh_step :: "'s refresh_ops \<Rightarrow> go_time \<times> 's \<Rightarrow> go_time \<times> 's \<Rightarrow> bool" for ops where
  mark: "t \<le> t' \<Longrightarrow> refresh_step ops (t, s) (t', snd (ro_MarkRedeemed ops jti exp t' s))"
| revoke: "t \<le> t' \<Longrightarrow> refresh_step ops (t, s) (t', snd (ro_RevokeFamily ops fid exp t' s))"
| is_revoked: "t \<le> t' \<Longrightarrow> refresh_step ops (t, s) (t', snd (ro_IsFamilyRevoked ops fid t' s))"

context refresh_store
begin

lemma counting_keep:
  assumes "t \<le> t'" "counting t m k = Some e" "t' < e" "counting t' m' = counting t' m"
  shows "counting t' m' k = Some e"
  using assms by (simp add: counting_Some fun_eq_iff)

lemma step_keeps_redeemed:
  "refresh_step ops c c' \<Longrightarrow> inv (snd c) \<Longrightarrow> counting (fst c) (redeemed (snd c)) jti = Some e \<Longrightarrow>
     inv (snd c') \<and> fst c \<le> fst c' \<and> (fst c' < e \<longrightarrow> counting (fst c') (redeemed (snd c')) jti = Some e)"
proof (induction rule: refresh_step.induct)
  case (mark t t' s j exp)
  then have now: "t' < e \<Longrightarrow> counting t' (redeemed s) jti = Some e" by (auto simp: counting_Some)
  consider "exp \<le> t'" | "t' < exp" "counting t' (redeemed s) j \<noteq> None" | "t' < exp" "counting t' (redeemed s) j = None"
    by linarith
  then show ?case
  proof cases
    case 1
    then show ?thesis using mark now Mark_late [of s exp t' j] by simp
  next
    case 2
    then show ?thesis using mark now Mark_reused [of s t' exp j] Mark_inv by simp
  next
    case 3
    then show ?thesis using mark now Mark_fresh [of s t' exp j] Mark_inv by (cases "jti = j") auto
  qed
next
  case (revoke t t' s fid exp)
  then show ?case using Revoke_redeemed Revoke_inv by (auto simp: counting_Some)
next
  case (is_revoked t t' s fid)
  then show ?case using Is_same Is_inv by (auto simp: counting_Some)
qed

lemma step_keeps_revoked:
  "refresh_step ops c c' \<Longrightarrow> inv (snd c) \<Longrightarrow> counting (fst c) (revoked (snd c)) fid = Some e \<Longrightarrow>
     inv (snd c') \<and> fst c \<le> fst c' \<and>
     (fst c' < e \<longrightarrow> (\<exists>e' \<ge> e. counting (fst c') (revoked (snd c')) fid = Some e'))"
proof (induction rule: refresh_step.induct)
  case (mark t t' s jti exp)
  then show ?case using Mark_revoked Mark_inv by (auto simp: counting_Some)
next
  case (revoke t t' s f exp)
  then have now: "t' < e \<Longrightarrow> counting t' (revoked s) fid = Some e" by (auto simp: counting_Some)
  show ?case
    using revoke now Revoke [of s t' f exp] Revoke_inv by (cases "f = fid") (auto simp: later_of_def)
next
  case (is_revoked t t' s f)
  then show ?case using Is_same Is_inv by (auto simp: counting_Some)
qed

lemma redeemed_stays:
  assumes "(refresh_step ops)\<^sup>*\<^sup>* c c'" "inv (snd c)" "counting (fst c) (redeemed (snd c)) jti = Some e"
  shows "inv (snd c') \<and> fst c \<le> fst c' \<and> (fst c' < e \<longrightarrow> counting (fst c') (redeemed (snd c')) jti = Some e)"
  using assms
proof (induction rule: rtranclp_induct)
  case (step c' c'')
  show ?case
  proof (cases "fst c' < e")
    case True
    then show ?thesis using step step_keeps_redeemed [OF step.hyps(2), of jti e] by auto
  next
    case False
    have "inv (snd c'') \<and> fst c' \<le> fst c''"
      using step.hyps(2) step.IH step.prems
      by (cases rule: refresh_step.cases) (auto simp: Mark_inv Revoke_inv Is_inv)
    with False step show ?thesis by auto
  qed
qed (auto simp: counting_Some)

lemma revoked_stays:
  assumes "(refresh_step ops)\<^sup>*\<^sup>* c c'" "inv (snd c)" "counting (fst c) (revoked (snd c)) fid = Some e"
  shows "inv (snd c') \<and> fst c \<le> fst c' \<and>
    (fst c' < e \<longrightarrow> (\<exists>e' \<ge> e. counting (fst c') (revoked (snd c')) fid = Some e'))"
  using assms
proof (induction rule: rtranclp_induct)
  case (step c' c'')
  have keep: "inv (snd c'') \<and> fst c' \<le> fst c''"
    using step.hyps(2) step.IH step.prems
    by (cases rule: refresh_step.cases) (auto simp: Mark_inv Revoke_inv Is_inv)
  show ?case
  proof (cases "fst c'' < e")
    case True
    with keep step obtain e' where "e \<le> e'" "counting (fst c') (revoked (snd c')) fid = Some e'" by auto
    with True keep step step_keeps_revoked [OF step.hyps(2), of fid e'] show ?thesis by auto
  next
    case False
    with keep step show ?thesis by auto
  qed
qed (auto simp: counting_Some)

text \<open>A token is redeemed at most once before it expires.\<close>

lemma redeem_once:
  assumes "inv s" "now < exp" "fst (ro_MarkRedeemed ops jti exp now s) = None"
    and "(refresh_step ops)\<^sup>*\<^sup>* (now, snd (ro_MarkRedeemed ops jti exp now s)) (t', s')" "t' \<le> now'" "now' < exp"
  shows "fst (ro_MarkRedeemed ops jti exp now' s') = Some ErrRefreshReused"
proof -
  have "counting now (redeemed s) jti = None"
    using assms(1-3) Mark_reused [of s now exp jti] by (cases "counting now (redeemed s) jti") auto
  with Mark_fresh [OF assms(1,2)] have "counting now (redeemed (snd (ro_MarkRedeemed ops jti exp now s))) jti = Some exp"
    by simp
  with redeemed_stays [OF assms(4)] Mark_inv [OF assms(1)] assms(5,6)
  have "inv s'" "counting t' (redeemed s') jti = Some exp" by auto
  with assms(5,6) show ?thesis using Mark_reused [of s' now' exp jti] by (auto simp: counting_Some)
qed

lemma revoked_until:
  assumes "inv s" "now < exp"
    and "(refresh_step ops)\<^sup>*\<^sup>* (now, snd (ro_RevokeFamily ops fid exp now s)) (t', s')" "t' \<le> now'" "now' < exp"
  shows "fst (ro_IsFamilyRevoked ops fid now' s') = Ok True"
proof -
  define e where "e = later_of (counting now (revoked s) fid) exp"
  have "exp \<le> e" "counting now (revoked (snd (ro_RevokeFamily ops fid exp now s))) fid = Some e"
    using Revoke [OF assms(1), of now fid exp] assms(2) later_of_ge by (simp_all add: e_def)
  with revoked_stays [OF assms(3), of fid e] Revoke_inv [OF assms(1)] assms(4,5)
  obtain e' where "inv s'" "e \<le> e'" "counting t' (revoked s') fid = Some e'" by auto
  with assms(4,5) \<open>exp \<le> e\<close> show ?thesis using Is [of s' fid now'] by (auto simp: counting_Some)
qed

end

subsection \<open>The in-memory store fulfils the contract\<close>

definition rs_inv :: "MemoryRefreshStore \<Rightarrow> bool" where
  "rs_inv s \<longleftrightarrow> map_wf (rs_redeemed s) \<and> map_wf (rs_revoked s)"

lemma map_of_prune: "map_wf m \<Longrightarrow> map_of (filter (\<lambda>(k, exp). exp > now) m) = counting now (map_of m)"
  by (rule ext) (simp add: map_of_filter_wf counting_def split: option.split)

lemma counting_idem [simp]: "counting now (counting now m) = counting now m"
  by (simp add: counting_later)

lemma counting_upd: "now < e \<Longrightarrow> counting now (m(k \<mapsto> e)) = (counting now m)(k \<mapsto> e)"
  by (auto simp: counting_def)

interpretation mem_refresh: refresh_store MemoryRefreshStore_ops rs_inv "\<lambda>s. map_of (rs_redeemed s)" "\<lambda>s. map_of (rs_revoked s)"
proof
  fix s :: MemoryRefreshStore and jti fid :: string and exp now :: go_time
  assume inv: "rs_inv s"
  then have wf: "map_wf (rs_redeemed s)" "map_wf (rs_revoked s)" by (simp_all add: rs_inv_def)
  note prune = map_of_prune [OF wf(1)] map_of_prune [OF wf(2)]
  note facts = MemoryRefreshStore_ops_def rs_MarkRedeemed_def rs_RevokeFamily_def rs_IsFamilyRevoked_def pruneLocked_def
    Let_def prune
  show "rs_inv (snd (ro_MarkRedeemed MemoryRefreshStore_ops jti exp now s))"
    "rs_inv (snd (ro_RevokeFamily MemoryRefreshStore_ops fid exp now s))"
    "rs_inv (snd (ro_IsFamilyRevoked MemoryRefreshStore_ops fid now s))"
    using wf by (auto simp: facts rs_inv_def split: option.split)
  show "exp \<le> now \<Longrightarrow> ro_MarkRedeemed MemoryRefreshStore_ops jti exp now s = (None, s)" by (simp add: facts)
  show "fst (ro_MarkRedeemed MemoryRefreshStore_ops jti exp now s) = Some ErrRefreshReused \<and>
      counting now (map_of (rs_redeemed (snd (ro_MarkRedeemed MemoryRefreshStore_ops jti exp now s)))) =
        counting now (map_of (rs_redeemed s))" if asm: "now < exp" "counting now (map_of (rs_redeemed s)) jti \<noteq> None"
  proof -
    obtain e where e: "counting now (map_of (rs_redeemed s)) jti = Some e" using asm(2) by auto
    then have "now < e" by (simp add: counting_Some)
    with e asm(1) show ?thesis by (simp add: facts)
  qed
  show "now < exp \<Longrightarrow> counting now (map_of (rs_redeemed s)) jti = None \<Longrightarrow>
      fst (ro_MarkRedeemed MemoryRefreshStore_ops jti exp now s) = None \<and>
      counting now (map_of (rs_redeemed (snd (ro_MarkRedeemed MemoryRefreshStore_ops jti exp now s)))) =
        (counting now (map_of (rs_redeemed s)))(jti \<mapsto> exp)"
    by (simp add: facts update_conv' counting_upd)
  show "counting now (map_of (rs_revoked (snd (ro_MarkRedeemed MemoryRefreshStore_ops jti exp now s)))) =
      counting now (map_of (rs_revoked s))"
    by (simp add: facts split: option.split)
  show "fst (ro_RevokeFamily MemoryRefreshStore_ops fid exp now s) = None"
    by (simp add: facts split: option.split)
  show "counting now (map_of (rs_revoked (snd (ro_RevokeFamily MemoryRefreshStore_ops fid exp now s)))) =
      (if now < exp then (counting now (map_of (rs_revoked s)))
         (fid \<mapsto> later_of (counting now (map_of (rs_revoked s)) fid) exp)
       else counting now (map_of (rs_revoked s)))"
    by (auto simp: facts update_conv' counting_upd later_of_def max_def split: option.split)
  show "counting now (map_of (rs_redeemed (snd (ro_RevokeFamily MemoryRefreshStore_ops fid exp now s)))) =
      counting now (map_of (rs_redeemed s))"
    by (simp add: facts split: option.split)
  show "fst (ro_IsFamilyRevoked MemoryRefreshStore_ops fid now s) = Ok (counting now (map_of (rs_revoked s)) fid \<noteq> None)"
  proof (cases "counting now (map_of (rs_revoked s)) fid")
    case None
    then show ?thesis by (simp add: facts)
  next
    case (Some e)
    then have "now < e" by (simp add: counting_Some)
    with Some show ?thesis by (simp add: facts)
  qed
  show "counting now (map_of (rs_redeemed (snd (ro_IsFamilyRevoked MemoryRefreshStore_ops fid now s)))) =
      counting now (map_of (rs_redeemed s)) \<and>
    counting now (map_of (rs_revoked (snd (ro_IsFamilyRevoked MemoryRefreshStore_ops fid now s)))) =
      counting now (map_of (rs_revoked s))"
    by (simp add: facts split: option.split)
qed

subsection \<open>Properties\<close>

text \<open>
  C21. In the in-memory store a refresh token is redeemed at most once: after a successful
  redemption, and any calls in between, presenting the same identifier again before the token's
  expiry is reported as reuse.
\<close>

theorem refresh_redeemed_once:
  assumes "rs_inv s" and "now < exp" and "rs_MarkRedeemed jti exp now s = (None, s1)"
    and "(refresh_step MemoryRefreshStore_ops)\<^sup>*\<^sup>* (now, s1) (t', s')" and "t' \<le> now'" and "now' < exp"
  shows "fst (rs_MarkRedeemed jti exp now' s') = Some ErrRefreshReused"
  using mem_refresh.redeem_once [of s now exp jti t' s' now'] assms by (simp add: MemoryRefreshStore_ops_def)

theorem refresh_redeemed_once_witness:
  "fst (rs_MarkRedeemed ''j'' 100 50 (snd (rs_RevokeFamily ''f'' 90 20
     (snd (rs_MarkRedeemed ''j'' 100 10 NewMemoryRefreshStore))))) = Some ErrRefreshReused"
proof -
  let ?s1 = "snd (rs_MarkRedeemed ''j'' 100 10 NewMemoryRefreshStore)"
  have inv: "rs_inv NewMemoryRefreshStore" by (simp add: rs_inv_def NewMemoryRefreshStore_def)
  have m: "rs_MarkRedeemed ''j'' 100 10 NewMemoryRefreshStore = (None, ?s1)"
    by (simp add: rs_MarkRedeemed_def NewMemoryRefreshStore_def pruneLocked_def)
  have "refresh_step MemoryRefreshStore_ops (10, ?s1) (20, snd (ro_RevokeFamily MemoryRefreshStore_ops ''f'' 90 20 ?s1))"
    by (rule refresh_step.revoke) simp
  then have run: "(refresh_step MemoryRefreshStore_ops)\<^sup>*\<^sup>* (10, ?s1) (20, snd (rs_RevokeFamily ''f'' 90 20 ?s1))"
    by (auto simp: MemoryRefreshStore_ops_def)
  show ?thesis by (rule refresh_redeemed_once [OF inv _ m run]) simp_all
qed

end
