(* ===== verification/FacadeLimits.thy ===== *)
theory FacadeLimits
  imports RateLimit
begin

text \<open>
  Rate limiting at the facade (\<^verbatim>\<open>src/parsec.go\<close>, lines 800 to 1086): resolving the limiter,
  the checks for a bucket, for a publish and for a subscribe, and the subscribe gate of the broker.

  A limiter is a state under the operations of the Go interface; \<^verbatim>\<open>AllowWithLimit\<close> is optional, as
  in the type assertion of the source.  The decisions counter of the metrics is a log of its labels.
\<close>

record 's limiter_ops =
  lo_Allow :: "go_error option \<Rightarrow> string \<Rightarrow> int \<Rightarrow> go_time \<Rightarrow> 's \<Rightarrow> Decision result \<times> 's"
  lo_AllowWithLimit :: "(go_error option \<Rightarrow> string \<Rightarrow> int \<Rightarrow> Limit \<Rightarrow> go_time \<Rightarrow> 's \<Rightarrow> Decision result \<times> 's) option"

definition MemoryLimiter_ops :: "MemoryLimiter limiter_ops" where
  "MemoryLimiter_ops = \<lparr>lo_Allow = ml_Allow, lo_AllowWithLimit = Some ml_AllowWithLimit\<rparr>"

record 's limits =
  pl_limiter :: "'s option"
  pl_rateLimits :: RateLimits
  pl_decisions :: "(string \<times> string) list"

definition widest_step :: "Limit \<Rightarrow> Limit \<Rightarrow> Limit" where
  "widest_step best l =
     (let n = limit_Normalize l in
      if l_Rate n = 0 then best
      else if l_Burst n > l_Burst best \<or> l_Rate best = 0 then n else best)"

definition widestLimit :: "RateLimits \<Rightarrow> Limit" where
  "widestLimit rl =
     foldl widest_step \<lparr>l_Rate = 0, l_Per = 0, l_Burst = 0\<rparr>
       ([rl_Publish rl, rl_Subscribe rl, rl_TokenIssue rl] @ map r_Limit (rl_PerChannelPublish rl) @
        map r_Limit (rl_PerChannelSubscribe rl))"

text \<open>Without a Redis client; an explicit limiter is the caller's own.\<close>

definition resolveLimiter :: "MemoryLimiter option \<Rightarrow> RateLimits \<Rightarrow> MemoryLimiter option \<times> RateLimits" where
  "resolveLimiter explicit rls =
     (let rl = rl_Normalize rls in
      case explicit of
        Some l \<Rightarrow> (Some l, rl)
      | None \<Rightarrow> if rl_Empty rl then (None, rl) else (Some (NewMemoryLimiter (widestLimit rl)), rl))"

definition rateLimitForBucket :: "RateLimits \<Rightarrow> string \<Rightarrow> Limit" where
  "rateLimitForBucket rl bucket =
     (if bucket = BucketPublish then rl_Publish rl
      else if bucket = BucketSubscribe then rl_Subscribe rl
      else if bucket = BucketTokenIssue then rl_TokenIssue rl
      else \<lparr>l_Rate = 0, l_Per = 0, l_Burst = 0\<rparr>)"

text \<open>The call of the limiter that all checks share: by the effective limit when it can.\<close>

definition call_limiter ::
  "'s limiter_ops \<Rightarrow> go_error option \<Rightarrow> string \<Rightarrow> Limit \<Rightarrow> go_time \<Rightarrow> 's \<Rightarrow> Decision result \<times> 's" where
  "call_limiter ops ctx key effective now s =
     (case lo_AllowWithLimit ops of
        Some w \<Rightarrow> w ctx key 1 effective now s
      | None \<Rightarrow> lo_Allow ops ctx key 1 now s)"

definition charge ::
  "'s limiter_ops \<Rightarrow> go_error option \<Rightarrow> string \<Rightarrow> string \<Rightarrow> Limit \<Rightarrow> go_time \<Rightarrow> 's \<Rightarrow> 's limits \<Rightarrow> Decision result \<times> 's limits" where
  "charge ops ctx bucket key effective now s p =
     (case call_limiter ops ctx key effective now s of
        (Err e, s') \<Rightarrow> (Err e, p\<lparr>pl_limiter := Some s'\<rparr>)
      | (Ok dec, s') \<Rightarrow>
          let result = (if \<not> d_Allowed dec then ''denied'' else ''allowed'')
          in (Ok dec, p\<lparr>pl_limiter := Some s', pl_decisions := pl_decisions p @ [(bucket, result)]\<rparr>))"

definition CheckRateLimit ::
  "'s limiter_ops \<Rightarrow> go_error option \<Rightarrow> string \<Rightarrow> string \<Rightarrow> Limit option \<Rightarrow> go_time \<Rightarrow> 's limits \<Rightarrow> Decision result \<times> 's limits" where
  "CheckRateLimit ops ctx bucket subject override now p =
     (case pl_limiter p of
        None \<Rightarrow> (Ok AllowDecisionUnlimited, p)
      | Some s \<Rightarrow>
          let effective = rateLimitForBucket (pl_rateLimits p) bucket;
              effective = (case override of
                  Some ov \<Rightarrow> if \<not> Unlimited ov then limit_Normalize ov else effective
                | None \<Rightarrow> effective)
          in if Unlimited effective then (Ok AllowDecisionUnlimited, p)
             else charge ops ctx bucket (bucket @ '':'' @ subject) effective now s p)"

text \<open>The key of a rule-matched call; the raw text of no rule is empty.\<close>

definition rule_bucket_key :: "string \<Rightarrow> string \<Rightarrow> string \<Rightarrow> string" where
  "rule_bucket_key bucket ruleRaw subject =
     (let keyPrefix = (if ruleRaw \<noteq> [] then bucket @ ''-channel:'' @ ruleRaw else bucket)
      in keyPrefix @ '':'' @ subject)"

definition CheckPublishLimit ::
  "'s limiter_ops \<Rightarrow> go_error option \<Rightarrow> string \<Rightarrow> chan_name \<Rightarrow> Limit option \<Rightarrow> go_time \<Rightarrow> 's limits \<Rightarrow> Decision result \<times> 's limits" where
  "CheckPublishLimit ops ctx subject channel override now p =
     (case pl_limiter p of
        None \<Rightarrow> (Ok AllowDecisionUnlimited, p)
      | Some s \<Rightarrow>
          let (effective, ruleRaw) = MatchPublish (pl_rateLimits p) channel;
              effective = (case override of
                  Some ov \<Rightarrow> if \<not> Unlimited ov then limit_Normalize ov else effective
                | None \<Rightarrow> effective)
          in if Unlimited effective then (Ok AllowDecisionUnlimited, p)
             else charge ops ctx BucketPublish (rule_bucket_key BucketPublish ruleRaw subject) effective now s p)"

definition CheckSubscribeLimit ::
  "'s limiter_ops \<Rightarrow> go_error option \<Rightarrow> string \<Rightarrow> chan_name \<Rightarrow> Limit option \<Rightarrow> go_time \<Rightarrow> 's limits \<Rightarrow> Decision result \<times> 's limits" where
  "CheckSubscribeLimit ops ctx subject channel override now p =
     (case pl_limiter p of
        None \<Rightarrow> (Ok AllowDecisionUnlimited, p)
      | Some s \<Rightarrow>
          let (effective, ruleRaw) = MatchSubscribe (pl_rateLimits p) channel;
              effective = (case override of
                  Some ov \<Rightarrow> if \<not> Unlimited ov then limit_Normalize ov else effective
                | None \<Rightarrow> effective)
          in if Unlimited effective then (Ok AllowDecisionUnlimited, p)
             else charge ops ctx BucketSubscribe (rule_bucket_key BucketSubscribe ruleRaw subject) effective now s p)"

text \<open>The gate, run on the limiter and the limits it was built with; \<open>None\<close> is the nil gate.\<close>

definition run_subscribe_gate ::
  "'s limiter_ops \<Rightarrow> go_error option \<Rightarrow> string \<Rightarrow> chan_name \<Rightarrow> go_time \<Rightarrow> 's \<Rightarrow> 's limits \<Rightarrow> go_error option \<times> 's limits" where
  "run_subscribe_gate ops ctx userID ch now s p =
     (if userID = [] then (None, p)
      else
        let (effective, ruleRaw) = MatchSubscribe (pl_rateLimits p) ch
        in if Unlimited effective then (None, p)
           else
             case charge ops ctx BucketSubscribe (rule_bucket_key BucketSubscribe ruleRaw userID) effective now s p of
               (Err e, p') \<Rightarrow> (Some (err_Wrap Internal ''rate limiter error'' e), p')
             | (Ok dec, p') \<Rightarrow>
                 if \<not> d_Allowed dec then (Some (err_New RateLimited ''subscribe rate limit exceeded''), p') else (None, p'))"

definition buildSubscribeGate ::
  "'s limiter_ops \<Rightarrow> 's limits \<Rightarrow>
   (go_error option \<Rightarrow> string \<Rightarrow> chan_name \<Rightarrow> go_time \<Rightarrow> 's \<Rightarrow> 's limits \<Rightarrow> go_error option \<times> 's limits) option" where
  "buildSubscribeGate ops p =
     (case pl_limiter p of
        None \<Rightarrow> None
      | Some _ \<Rightarrow>
          let defaultUnlimited = Unlimited (rl_Subscribe (pl_rateLimits p));
              anyRule = length (rl_PerChannelSubscribe (pl_rateLimits p)) > 0
          in if defaultUnlimited \<and> \<not> anyRule then None else Some (run_subscribe_gate ops))"

text \<open>Running the gate as the authorizer does: on the limiter of the moment, or not at all.\<close>

definition subscribe_gate ::
  "'s limiter_ops \<Rightarrow> go_error option \<Rightarrow> string \<Rightarrow> chan_name \<Rightarrow> go_time \<Rightarrow> 's limits \<Rightarrow> go_error option \<times> 's limits" where
  "subscribe_gate ops ctx userID ch now p =
     (case (buildSubscribeGate ops p, pl_limiter p) of
        (Some gate, Some s) \<Rightarrow> gate ctx userID ch now s p
      | _ \<Rightarrow> (None, p))"

subsection \<open>The keys of the budgets\<close>

text \<open>
  A budget is named by its bucket, the rule that matched (none for the default) and the subject.
  The key text determines all three: a rule is a parsed pattern and has exactly one colon.
\<close>

lemma one_colon:
  assumes "CHR '':'' \<notin> set a" "CHR '':'' \<notin> set a'" "a @ CHR '':'' # b = a' @ CHR '':'' # b'"
  shows "a = a' \<and> b = b'"
  using assms
proof (induction a arbitrary: a')
  case Nil
  then show ?case by (cases a') auto
next
  case (Cons x a)
  then show ?case by (cases a') auto
qed

definition rule_text :: "string \<Rightarrow> bool" where
  "rule_text raw \<longleftrightarrow> raw = [] \<or> (\<exists>a b. raw = a @ CHR '':'' # b \<and> CHR '':'' \<notin> set a \<and> CHR '':'' \<notin> set b)"

lemma rule_text_append:
  assumes "rule_text r" "rule_text r'" "r \<noteq> []" "r' \<noteq> []" "r @ CHR '':'' # s = r' @ CHR '':'' # s'"
  shows "r = r' \<and> s = s'"
proof -
  obtain a b where r: "r = a @ CHR '':'' # b" "CHR '':'' \<notin> set a" "CHR '':'' \<notin> set b"
    using assms(1,3) by (auto simp: rule_text_def)
  obtain a' b' where r': "r' = a' @ CHR '':'' # b'" "CHR '':'' \<notin> set a'" "CHR '':'' \<notin> set b'"
    using assms(2,4) by (auto simp: rule_text_def)
  have "a = a' \<and> b @ CHR '':'' # s = b' @ CHR '':'' # s'"
    using one_colon [OF r(2) r'(2), of "b @ CHR '':'' # s" "b' @ CHR '':'' # s'"] assms(5) by (simp add: r(1) r'(1))
  with one_colon [OF r(3) r'(3), of s s'] show ?thesis by (simp add: r(1) r'(1))
qed

lemma rule_bucket_key_eq:
  assumes "rule_text r" "rule_text r'" and b: "b \<in> {BucketPublish, BucketSubscribe}" "b' \<in> {BucketPublish, BucketSubscribe}"
  shows "rule_bucket_key b r s = rule_bucket_key b' r' s' \<longleftrightarrow> b = b' \<and> r = r' \<and> s = s'"
proof (cases "r = [] \<longleftrightarrow> r' = []")
  case True
  show ?thesis
  proof (cases "r = []")
    case nil: True
    with True b show ?thesis by (auto simp: rule_bucket_key_def go_simps)
  next
    case False
    with True have ne: "r \<noteq> []" "r' \<noteq> []" by auto
    with b rule_text_append [OF assms(1,2) ne, of s s'] show ?thesis
      by (auto simp: rule_bucket_key_def go_simps)
  qed
next
  case False
  with b show ?thesis by (auto simp: rule_bucket_key_def go_simps)
qed

text \<open>Rules compiled from the configuration carry such texts.\<close>

lemma ParsePattern_rule_text:
  assumes "ParsePattern s = Ok p"
  shows "rule_text s"
proof -
  have colon: "0 < strings_IndexByte s CHR '':''" and rest: "CHR '':'' \<notin> set (drop (nat (strings_IndexByte s CHR '':'' + 1)) s)"
    using assms by (auto simp: ParsePattern_def Let_def split: if_splits)
  then show ?thesis
    using strings_IndexByte_split [of s "CHR '':''"] by (auto simp: rule_text_def nat_add_distrib)
qed

definition rules_ok :: "RateLimits \<Rightarrow> bool" where
  "rules_ok rl \<longleftrightarrow> (\<forall>r \<in> set (rl_PerChannelPublish rl) \<union> set (rl_PerChannelSubscribe rl). rule_text (r_Raw r))"

lemma CompileChannelRules_rule_text:
  assumes "CompileChannelRules raw = Ok rs" and "r \<in> set rs"
  shows "rule_text (r_Raw r)"
proof -
  have "compile_rules raw = Ok out \<Longrightarrow> r \<in> set out \<Longrightarrow> rule_text (r_Raw r)" for out
    by (induction raw arbitrary: out rule: compile_rules.induct)
      (force split: sum.splits dest: ParsePattern_rule_text)+
  with assms show ?thesis by (auto simp: CompileChannelRules_def split: if_splits sum.splits)
qed

lemma match_rules_raw: "snd (match_rules rs d ch) = [] \<or> (\<exists>r \<in> set rs. snd (match_rules rs d ch) = r_Raw r)"
  by (induction rs) auto

lemma Match_rule_text:
  assumes "rules_ok rl"
  shows "rule_text (snd (MatchPublish rl ch))" and "rule_text (snd (MatchSubscribe rl ch))"
  using assms match_rules_raw [of "rl_PerChannelPublish rl" "rl_Publish rl" ch]
    match_rules_raw [of "rl_PerChannelSubscribe rl" "rl_Subscribe rl" ch]
  by (auto simp: rules_ok_def MatchPublish_def MatchSubscribe_def rule_text_def [of "[]"])

subsection \<open>Budgets do not interfere\<close>

lemma ml_local:
  assumes "ml_events m k = ml_events m' k"
  shows "fst (ml_AllowWithLimit ctx k n lim now m) = fst (ml_AllowWithLimit ctx k n lim now m')"
  using assms by (cases ctx) (simp_all add: ml_AllowWithLimit_def Let_def flip: ml_events_def)

lemma ml_other_key:
  assumes "k \<noteq> k'"
  shows "ml_events (snd (ml_AllowWithLimit ctx k' n lim now m)) k = ml_events m k"
  using assms by (cases ctx) (simp_all add: ml_AllowWithLimit_def Let_def ml_events_def update_conv')

lemma charge_memory:
  assumes "ml_events m key = ml_events m' key"
  shows "fst (charge MemoryLimiter_ops ctx bucket key eff now m p) = fst (charge MemoryLimiter_ops ctx bucket key eff now m' p')"
  using ml_local [OF assms, of ctx 1 eff now]
  by (auto simp: charge_def call_limiter_def MemoryLimiter_ops_def Let_def split: prod.split sum.split)

text \<open>A check leaves the limits and every budget but its own as they were.\<close>

definition only_key :: "string \<Rightarrow> MemoryLimiter limits \<Rightarrow> MemoryLimiter limits \<Rightarrow> bool" where
  "only_key key p p' \<longleftrightarrow> pl_rateLimits p' = pl_rateLimits p \<and>
     (case (pl_limiter p, pl_limiter p') of
        (None, None) \<Rightarrow> True
      | (Some m, Some m') \<Rightarrow> \<forall>k. k \<noteq> key \<longrightarrow> ml_events m' k = ml_events m k
      | _ \<Rightarrow> False)"

lemma only_key_refl [simp]: "only_key key p p"
  by (simp add: only_key_def split: option.split)

lemma charge_only_key:
  assumes "pl_limiter p = Some m"
  shows "only_key key p (snd (charge MemoryLimiter_ops ctx bucket key eff now m p))"
proof (cases "ml_AllowWithLimit ctx key 1 eff now m")
  case (Pair r m')
  with assms ml_other_key [of _ key ctx 1 eff now m] show ?thesis
    by (cases r) (auto simp: only_key_def charge_def call_limiter_def MemoryLimiter_ops_def Let_def)
qed

text \<open>The budget a publish or a subscribe is charged to.\<close>

definition publish_key :: "RateLimits \<Rightarrow> string \<Rightarrow> chan_name \<Rightarrow> string" where
  "publish_key rl subject ch = rule_bucket_key BucketPublish (snd (MatchPublish rl ch)) subject"

definition subscribe_key :: "RateLimits \<Rightarrow> string \<Rightarrow> chan_name \<Rightarrow> string" where
  "subscribe_key rl subject ch = rule_bucket_key BucketSubscribe (snd (MatchSubscribe rl ch)) subject"

lemma CheckPublishLimit_only_key:
  "only_key (publish_key (pl_rateLimits p) s ch) p (snd (CheckPublishLimit MemoryLimiter_ops ctx s ch ov now p))"
  by (simp add: CheckPublishLimit_def Let_def split_beta publish_key_def charge_only_key split: option.split)

lemma CheckSubscribeLimit_only_key:
  "only_key (subscribe_key (pl_rateLimits p) s ch) p (snd (CheckSubscribeLimit MemoryLimiter_ops ctx s ch ov now p))"
  by (simp add: CheckSubscribeLimit_def Let_def split_beta subscribe_key_def charge_only_key split: option.split)

lemma CheckPublishLimit_local:
  assumes "only_key key p p'" and "key \<noteq> publish_key (pl_rateLimits p) s ch"
  shows "fst (CheckPublishLimit MemoryLimiter_ops ctx s ch ov now p') = fst (CheckPublishLimit MemoryLimiter_ops ctx s ch ov now p)"
proof (cases "pl_limiter p")
  case None
  with assms(1) show ?thesis by (auto simp: only_key_def CheckPublishLimit_def split: option.splits)
next
  case (Some m)
  with assms obtain m' where m': "pl_limiter p' = Some m'" "pl_rateLimits p' = pl_rateLimits p"
    "ml_events m' (publish_key (pl_rateLimits p) s ch) = ml_events m (publish_key (pl_rateLimits p) s ch)"
    by (auto simp: only_key_def split: option.splits)
  with Some charge_memory [OF m'(3)] show ?thesis
    by (simp add: CheckPublishLimit_def Let_def split_beta publish_key_def)
qed

subsection \<open>Properties\<close>

text \<open>
  C26. A hot channel cannot drain another budget: with rules compiled from the configuration, the
  decision on a publish is not changed by a publish that another rule matched or another subject
  made, nor by any subscribe; the bucket keys of different budgets never coincide.
\<close>

theorem publish_budgets_independent:
  assumes "CompileChannelRules pub = Ok (rl_PerChannelPublish (pl_rateLimits p))"
    and "CompileChannelRules sub = Ok (rl_PerChannelSubscribe (pl_rateLimits p))"
    and "(snd (MatchPublish (pl_rateLimits p) ch), s) \<noteq> (snd (MatchPublish (pl_rateLimits p) ch'), s')"
  shows "fst (CheckPublishLimit MemoryLimiter_ops ctx s ch ov now
      (snd (CheckPublishLimit MemoryLimiter_ops ctx' s' ch' ov' now' p))) =
      fst (CheckPublishLimit MemoryLimiter_ops ctx s ch ov now p) \<and>
    fst (CheckPublishLimit MemoryLimiter_ops ctx s ch ov now
      (snd (CheckSubscribeLimit MemoryLimiter_ops ctx' s'' ch'' ov' now' p))) =
      fst (CheckPublishLimit MemoryLimiter_ops ctx s ch ov now p)"
proof -
  have ok: "rules_ok (pl_rateLimits p)"
    using CompileChannelRules_rule_text [OF assms(1)] CompileChannelRules_rule_text [OF assms(2)]
    by (auto simp: rules_ok_def)
  note txt' = Match_rule_text [OF ok]
  have "publish_key (pl_rateLimits p) s' ch' \<noteq> publish_key (pl_rateLimits p) s ch"
    using assms(3) by (simp add: publish_key_def rule_bucket_key_eq txt') auto
  moreover have "subscribe_key (pl_rateLimits p) s'' ch'' \<noteq> publish_key (pl_rateLimits p) s ch"
    by (simp add: publish_key_def subscribe_key_def rule_bucket_key_eq txt' go_simps)
  ultimately show ?thesis
    by (intro conjI CheckPublishLimit_local [OF CheckPublishLimit_only_key]
        CheckPublishLimit_local [OF CheckSubscribeLimit_only_key])
qed

definition sample_limit :: "int \<Rightarrow> Limit" where
  "sample_limit n = \<lparr>l_Rate = n, l_Per = second, l_Burst = n\<rparr>"

definition sample_rules :: "(string, Limit) gomap" where
  "sample_rules = [(''public:hot.*'', sample_limit 1)]"

definition hot :: chan_name where
  "hot = \<lparr>n_Visibility = VisibilityPublic, n_App = ''hot'', n_Domain = ''x'', n_ID = [], n_Topic = []\<rparr>"

definition cold :: chan_name where
  "cold = \<lparr>n_Visibility = VisibilityPublic, n_App = ''cold'', n_Domain = ''x'', n_ID = [], n_Topic = []\<rparr>"

definition sample_limits :: "MemoryLimiter limits" where
  "sample_limits =
     \<lparr>pl_limiter = Some (NewMemoryLimiter (sample_limit 1)),
      pl_rateLimits = \<lparr>rl_Publish = sample_limit 1, rl_Subscribe = sample_limit 1, rl_TokenIssue = sample_limit 0,
        rl_PerChannelPublish = (case CompileChannelRules sample_rules of Ok rs \<Rightarrow> rs | Err _ \<Rightarrow> []),
        rl_PerChannelSubscribe = []\<rparr>,
      pl_decisions = []\<rparr>"

theorem publish_budgets_independent_witness:
  "fst (CheckPublishLimit MemoryLimiter_ops None ''u'' cold None 0
     (snd (CheckPublishLimit MemoryLimiter_ops None ''u'' hot None 0 sample_limits))) =
   fst (CheckPublishLimit MemoryLimiter_ops None ''u'' cold None 0 sample_limits)"
proof -
  have "\<not> isl (CompileChannelRules sample_rules)" by code_simp
  then have "CompileChannelRules sample_rules = Ok (rl_PerChannelPublish (pl_rateLimits sample_limits))"
    by (cases "CompileChannelRules sample_rules") (simp_all add: sample_limits_def)
  moreover have "CompileChannelRules [] = Ok (rl_PerChannelSubscribe (pl_rateLimits sample_limits))"
    by (simp add: CompileChannelRules_def sample_limits_def)
  moreover have "(snd (MatchPublish (pl_rateLimits sample_limits) cold), ''u'') \<noteq> (snd (MatchPublish (pl_rateLimits sample_limits) hot), ''u'')"
    by code_simp
  ultimately show ?thesis by (rule publish_budgets_independent [THEN conjunct1])
qed

text \<open>
  The subscribe gate of the broker and \<^verbatim>\<open>CheckSubscribeLimit\<close> are the same check: for a known
  user the gate charges the same budget, moves the limiter and the metrics in the same way and
  lets the subscribe pass exactly when the check allows it.
\<close>

theorem subscribe_gate_is_CheckSubscribeLimit:
  assumes "userID \<noteq> []"
  shows "subscribe_gate ops ctx userID ch now p =
    (case CheckSubscribeLimit ops ctx userID ch None now p of
       (Ok dec, p') \<Rightarrow> (if d_Allowed dec then None else Some (err_New RateLimited ''subscribe rate limit exceeded''), p')
     | (Err e, p') \<Rightarrow> (Some (err_Wrap Internal ''rate limiter error'' e), p'))"
proof (cases "pl_limiter p")
  case None
  then show ?thesis
    by (simp add: subscribe_gate_def buildSubscribeGate_def CheckSubscribeLimit_def AllowDecisionUnlimited_def)
next
  case (Some s)
  show ?thesis
  proof (cases "Unlimited (rl_Subscribe (pl_rateLimits p)) \<and> rl_PerChannelSubscribe (pl_rateLimits p) = []")
    case True
    with Some show ?thesis
      by (simp add: subscribe_gate_def buildSubscribeGate_def CheckSubscribeLimit_def AllowDecisionUnlimited_def
          MatchSubscribe_def)
  next
    case False
    then have "buildSubscribeGate ops p = Some (run_subscribe_gate ops)"
      using Some by (auto simp: buildSubscribeGate_def Let_def)
    with Some assms show ?thesis
      by (auto simp: subscribe_gate_def CheckSubscribeLimit_def run_subscribe_gate_def AllowDecisionUnlimited_def Let_def
          split: prod.split sum.split)
  qed
qed

theorem subscribe_gate_is_CheckSubscribeLimit_witness:
  "fst (subscribe_gate MemoryLimiter_ops None ''u'' cold 0 sample_limits) = None"
proof -
  have "(case fst (CheckSubscribeLimit MemoryLimiter_ops None ''u'' cold None 0 sample_limits) of Ok dec \<Rightarrow> d_Allowed dec | Err _ \<Rightarrow> False)"
    by code_simp
  then show ?thesis
    using subscribe_gate_is_CheckSubscribeLimit [of "''u''" MemoryLimiter_ops None cold 0 sample_limits]
    by (auto split: prod.splits sum.splits)
qed

text \<open>
  A per-token override replaces the configured budget altogether: whatever limits are
  configured, tighter or not, the decision is the limiter's on the override alone.
\<close>

theorem override_replaces_limit:
  assumes "pl_limiter p = Some m" and "\<not> Unlimited ov"
  shows "fst (CheckRateLimit MemoryLimiter_ops ctx bucket subject (Some ov) now p) =
    fst (ml_AllowWithLimit ctx (bucket @ '':'' @ subject) 1 ov now m)"
proof -
  have "\<not> Unlimited (limit_Normalize ov)" using assms(2) by (simp add: Unlimited_def Normalize_fields)
  moreover have "ml_AllowWithLimit ctx k 1 (limit_Normalize ov) now m = ml_AllowWithLimit ctx k 1 ov now m" for k
    unfolding ml_AllowWithLimit_def Normalize_idem ..
  ultimately show ?thesis
    using assms by (auto simp: CheckRateLimit_def charge_def call_limiter_def MemoryLimiter_ops_def Let_def
        split: prod.split sum.split)
qed

text \<open>A budget of one event a second, and an override of three: the third event passes.\<close>

theorem override_replaces_limit_witness:
  "fst (CheckRateLimit MemoryLimiter_ops None BucketPublish ''u'' (Some (sample_limit 3)) 0
     (sample_limits\<lparr>pl_limiter := Some \<lparr>ml_limit = sample_limit 1, ml_buckets = [(''publish:u'', [0, 0])]\<rparr>\<rparr>)) =
   Ok \<lparr>d_Allowed = True, d_Remaining = 0, d_Reset = second\<rparr>"
proof -
  have "fst (ml_AllowWithLimit None (BucketPublish @ '':'' @ ''u'') 1 (sample_limit 3) 0
      \<lparr>ml_limit = sample_limit 1, ml_buckets = [(''publish:u'', [0, 0])]\<rparr>) =
    Ok \<lparr>d_Allowed = True, d_Remaining = 0, d_Reset = second\<rparr>"
    by (simp add: ml_AllowWithLimit_def Unlimited_def Normalize_fields sample_limit_def ml_reset_def time_Sub_def go_simps)
  moreover have "\<not> Unlimited (sample_limit 3)" by (simp add: Unlimited_def Normalize_fields sample_limit_def)
  ultimately show ?thesis by (simp add: override_replaces_limit)
qed

end
