(* ===== verification/Revocations.thy ===== *)
theory Revocations
  imports Prelude
begin

text \<open>
  Token revocation: the interface and the in-memory store of \<^verbatim>\<open>src/tokenbroker/broker.go\<close>
  (lines 98 to 248).  The clock reading of a call is an argument; \<open>revocation_store\<close> is the
  contract in terms of the time at which a token or a user was revoked.
\<close>

record revocation =
  rev_UserID :: string
  rev_Reason :: string
  rev_At :: go_time

record 's revocation_ops =
  vo_Revoke :: "string \<Rightarrow> string \<Rightarrow> string \<Rightarrow> go_time \<Rightarrow> 's \<Rightarrow> go_error option \<times> 's"
  vo_IsRevoked :: "string \<Rightarrow> go_time \<Rightarrow> 's \<Rightarrow> bool result"
  vo_RevokeAllForUser :: "string \<Rightarrow> go_time \<Rightarrow> 's \<Rightarrow> go_error option \<times> 's"
  vo_IsUserRevoked :: "string \<Rightarrow> go_time \<Rightarrow> go_time \<Rightarrow> 's \<Rightarrow> bool result"

record MemoryRevocations =
  mr_byToken :: "(string, revocation) gomap"
  mr_byUserAt :: "(string, go_time) gomap"
  mr_maxTTL :: duration

definition NewMemoryRevocations :: MemoryRevocations where
  "NewMemoryRevocations = \<lparr>mr_byToken = [], mr_byUserAt = [], mr_maxTTL = 24 * hour\<rparr>"

definition WithMaxTTL :: "duration \<Rightarrow> MemoryRevocations \<Rightarrow> MemoryRevocations" where
  "WithMaxTTL d m = m\<lparr>mr_maxTTL := (if d \<le> 0 then 24 * hour else d)\<rparr>"

definition mr_Revoke :: "string \<Rightarrow> string \<Rightarrow> string \<Rightarrow> go_time \<Rightarrow> MemoryRevocations \<Rightarrow> go_error option \<times> MemoryRevocations" where
  "mr_Revoke tokenID userID reason now m =
     (if tokenID = [] then (Some (Plain ''tokenbroker: Revoke requires tokenID''), m)
      else (None, m\<lparr>mr_byToken := AList.update tokenID
              \<lparr>rev_UserID = userID, rev_Reason = reason, rev_At = now\<rparr> (mr_byToken m)\<rparr>))"

definition mr_IsRevoked :: "string \<Rightarrow> go_time \<Rightarrow> MemoryRevocations \<Rightarrow> bool result" where
  "mr_IsRevoked tokenID now m =
     (case map_of (mr_byToken m) tokenID of
        None \<Rightarrow> Ok False
      | Some r \<Rightarrow> if time_Sub now (rev_At r) > mr_maxTTL m then Ok False else Ok True)"

definition mr_RevokeAllForUser :: "string \<Rightarrow> go_time \<Rightarrow> MemoryRevocations \<Rightarrow> go_error option \<times> MemoryRevocations" where
  "mr_RevokeAllForUser userID now m =
     (if userID = [] then (Some (Plain ''tokenbroker: RevokeAllForUser requires userID''), m)
      else (None, m\<lparr>mr_byUserAt := AList.update userID now (mr_byUserAt m)\<rparr>))"

definition mr_IsUserRevoked :: "string \<Rightarrow> go_time \<Rightarrow> go_time \<Rightarrow> MemoryRevocations \<Rightarrow> bool result" where
  "mr_IsUserRevoked userID issuedAt now m =
     (case map_of (mr_byUserAt m) userID of
        None \<Rightarrow> Ok False
      | Some cutoff \<Rightarrow>
          if time_Sub now cutoff > mr_maxTTL m then Ok False else Ok (\<not> issuedAt > cutoff))"

definition mr_Prune :: "go_time \<Rightarrow> MemoryRevocations \<Rightarrow> MemoryRevocations" where
  "mr_Prune now m =
     m\<lparr>mr_byToken := filter (\<lambda>(ident, r). \<not> time_Sub now (rev_At r) > mr_maxTTL m) (mr_byToken m),
       mr_byUserAt := filter (\<lambda>(uid, at). \<not> time_Sub now at > mr_maxTTL m) (mr_byUserAt m)\<rparr>"

definition MemoryRevocations_ops :: "MemoryRevocations revocation_ops" where
  "MemoryRevocations_ops = \<lparr>vo_Revoke = mr_Revoke, vo_IsRevoked = mr_IsRevoked,
     vo_RevokeAllForUser = mr_RevokeAllForUser, vo_IsUserRevoked = mr_IsUserRevoked\<rparr>"

subsection \<open>The contract\<close>

definition lapsed :: "duration \<Rightarrow> go_time \<Rightarrow> go_time \<Rightarrow> bool" where
  "lapsed ttl at now \<longleftrightarrow> time_Sub now at > ttl"

locale revocation_store =
  fixes ops :: "'s revocation_ops" and token_at :: "'s \<Rightarrow> string \<rightharpoonup> go_time"
    and user_at :: "'s \<Rightarrow> string \<rightharpoonup> go_time" and ttl :: "'s \<Rightarrow> duration"
  assumes Revoke_empty: "vo_Revoke ops [] u r now s = (Some e, s') \<Longrightarrow> s' = s"
    and Revoke: "ident \<noteq> [] \<Longrightarrow> \<exists>s'. vo_Revoke ops ident u r now s = (None, s') \<and>
      token_at s' = (token_at s)(ident \<mapsto> now) \<and> user_at s' = user_at s \<and> ttl s' = ttl s"
    and RevokeAll: "u \<noteq> [] \<Longrightarrow> \<exists>s'. vo_RevokeAllForUser ops u now s = (None, s') \<and>
      token_at s' = token_at s \<and> user_at s' = (user_at s)(u \<mapsto> now) \<and> ttl s' = ttl s"
    and IsRevoked: "vo_IsRevoked ops ident now s =
      Ok (\<exists>at. token_at s ident = Some at \<and> \<not> lapsed (ttl s) at now)"
    and IsUserRevoked: "vo_IsUserRevoked ops u issued now s =
      Ok (\<exists>at. user_at s u = Some at \<and> \<not> lapsed (ttl s) at now \<and> issued \<le> at)"
begin

text \<open>A revocation holds from the call on, for the time the store keeps it, and touches nothing else.\<close>

lemma revoked_now:
  assumes "ident \<noteq> []" "vo_Revoke ops ident u r now s = (None, s')"
  shows "vo_IsRevoked ops ident' now' s' =
    (if ident' = ident then Ok (\<not> lapsed (ttl s) now now') else vo_IsRevoked ops ident' now' s)"
  using Revoke [OF assms(1), of u r now s] assms(2) by (auto simp: IsRevoked)

lemma user_revoked_now:
  assumes "u \<noteq> []" "vo_RevokeAllForUser ops u now s = (None, s')"
  shows "vo_IsUserRevoked ops u' issued now' s' =
    (if u' = u then Ok (\<not> lapsed (ttl s) now now' \<and> issued \<le> now) else vo_IsUserRevoked ops u' issued now' s)"
  using RevokeAll [OF assms(1), of now s] assms(2) by (auto simp: IsUserRevoked)

end

interpretation mem_rev: revocation_store MemoryRevocations_ops
  "\<lambda>m. map_option rev_At \<circ> map_of (mr_byToken m)" "\<lambda>m. map_of (mr_byUserAt m)" mr_maxTTL
  by unfold_locales
    (auto simp: MemoryRevocations_ops_def mr_Revoke_def mr_RevokeAllForUser_def mr_IsRevoked_def mr_IsUserRevoked_def
      lapsed_def update_conv' fun_eq_iff split: option.split)

text \<open>Pruning changes no answer from then on.\<close>

lemma lapsed_mono: "lapsed ttl at now \<Longrightarrow> now \<le> now' \<Longrightarrow> lapsed ttl at now'"
  using time_Sub_mono [of now now' at] by (simp add: lapsed_def)

lemma mr_Prune_transparent:
  assumes "map_wf (mr_byToken m)" "map_wf (mr_byUserAt m)" "now \<le> now'"
  shows "mr_IsRevoked ident now' (mr_Prune now m) = mr_IsRevoked ident now' m"
    and "mr_IsUserRevoked u issued now' (mr_Prune now m) = mr_IsUserRevoked u issued now' m"
  using lapsed_mono [OF _ assms(3), of "mr_maxTTL m"] assms(1,2)
  by (auto simp: mr_IsRevoked_def mr_IsUserRevoked_def mr_Prune_def map_of_filter_wf lapsed_def split: option.split)

subsection \<open>Properties\<close>

text \<open>
  The in-memory revocation list, with its pruning: a revoked token is reported as revoked
  from the call until the store's retention has passed, and no other token is; a blanket
  revocation of a user covers exactly the tokens issued up to that moment; pruning in between
  changes no answer.
\<close>

theorem revocation_exact:
  assumes "map_wf (mr_byToken m)" and "map_wf (mr_byUserAt m)" and "ident \<noteq> []" and "u \<noteq> []"
    and "mr_Revoke ident w r t m = (None, m1)" and "mr_RevokeAllForUser u t m1 = (None, m2)"
    and "t \<le> p" and "p \<le> now"
  shows "mr_IsRevoked ident' now (mr_Prune p m2) =
      (if ident' = ident then Ok (\<not> time_Sub now t > mr_maxTTL m) else mr_IsRevoked ident' now m) \<and>
    mr_IsUserRevoked u' issued now (mr_Prune p m2) =
      (if u' = u then Ok (\<not> time_Sub now t > mr_maxTTL m \<and> issued \<le> t) else mr_IsUserRevoked u' issued now m)"
proof -
  have m1: "m1 = m\<lparr>mr_byToken := AList.update ident \<lparr>rev_UserID = w, rev_Reason = r, rev_At = t\<rparr> (mr_byToken m)\<rparr>"
    using assms(3,5) by (auto simp: mr_Revoke_def)
  have m2: "m2 = m1\<lparr>mr_byUserAt := AList.update u t (mr_byUserAt m1)\<rparr>"
    using assms(4,6) by (auto simp: mr_RevokeAllForUser_def)
  have wf: "map_wf (mr_byToken m2)" "map_wf (mr_byUserAt m2)" using assms(1,2) by (simp_all add: m1 m2)
  show ?thesis
    unfolding mr_Prune_transparent [OF wf assms(8)]
    by (auto simp: m1 m2 mr_IsRevoked_def mr_IsUserRevoked_def split: option.split)
qed

theorem revocation_exact_witness:
  "mr_IsRevoked ''t1'' (3 * hour) (mr_Prune (2 * hour) (snd (mr_RevokeAllForUser ''u'' hour
     (snd (mr_Revoke ''t1'' ''u'' [] hour NewMemoryRevocations))))) = Ok True"
proof -
  let ?m1 = "snd (mr_Revoke ''t1'' ''u'' [] hour NewMemoryRevocations)"
  have r: "mr_Revoke ''t1'' ''u'' [] hour NewMemoryRevocations = (None, ?m1)"
    "mr_RevokeAllForUser ''u'' hour ?m1 = (None, snd (mr_RevokeAllForUser ''u'' hour ?m1))"
    by (simp_all add: mr_Revoke_def mr_RevokeAllForUser_def)
  have wf: "map_wf (mr_byToken NewMemoryRevocations)" "map_wf (mr_byUserAt NewMemoryRevocations)"
    by (simp_all add: NewMemoryRevocations_def)
  show ?thesis
    using revocation_exact [OF wf _ _ r, of "2 * hour" "3 * hour" "''t1''" "[]" 0]
    by (simp add: time_Sub_def go_simps NewMemoryRevocations_def)
qed

end
