(* ===== verification/TokenBroker.thy ===== *)
theory TokenBroker
  imports Issuer Revocations
begin

text \<open>
  The token broker of \<^verbatim>\<open>src/tokenbroker/broker.go\<close>: issuing, delegating and revoking tokens, and
  the role-based authorizer.

  The authorizer, authenticator and delegate authorizer are functions of the options; the
  revocation store is a state under its operations.  \<open>broker_rnd\<close> holds the randomness and the
  clock readings of one issuing call; the audit log is the list of its entries.
\<close>

record DeniedChannel =
  dc_Channel :: string
  dc_Reason :: string

record AuthDecision =
  ad_Granted :: "string list"
  ad_Denied :: "DeniedChannel list"

record IssueRequest =
  iq_Channels :: "string list"
  iq_TTL :: duration

record IssueResponse =
  is_Token :: string
  is_TokenID :: string
  is_ExpiresAt :: go_time
  is_ChannelsGranted :: "string list"
  is_ChannelsDenied :: "DeniedChannel list"

record DelegateRequest =
  dq_OnBehalfOf :: string
  dq_Channels :: "string list"
  dq_LifetimeSeconds :: int

record RevokeRequest =
  rq_TokenID :: string
  rq_UserID :: string
  rq_Reason :: string

record AuditEntry =
  au_TokenID :: string
  au_IssuedTo :: string
  au_Delegator :: string
  au_Channels :: "string list"
  au_ExpiresAt :: go_time
  au_IssuedAt :: go_time

record Options =
  bo_Issuer :: "Issuer option"
  bo_Authorizer :: "(string \<Rightarrow> string list \<Rightarrow> AuthDecision) option"
  bo_Authenticator :: "(string \<Rightarrow> string result) option"
  bo_DefaultTTL :: duration
  bo_AuditLog :: bool
  bo_DelegateAuthorizer :: "(string \<Rightarrow> string \<Rightarrow> go_error option) option"

record broker_rnd =
  br_pair :: issue_rnd
  br_full :: issue_rnd
  br_tokenID :: bytes
  br_now1 :: go_time
  br_now2 :: go_time
  br_now3 :: go_time

text \<open>The running broker: its options, checked, with the revocation store it was given or the default.\<close>

record 's Broker =
  bk_Issuer :: Issuer
  bk_Authorizer :: "string \<Rightarrow> string list \<Rightarrow> AuthDecision"
  bk_Authenticator :: "string \<Rightarrow> string result"
  bk_Revocations :: 's
  bk_DefaultTTL :: duration
  bk_AuditLog :: "AuditEntry list option"
  bk_DelegateAuthorizer :: "(string \<Rightarrow> string \<Rightarrow> go_error option) option"

definition tb_New :: "Options \<Rightarrow> MemoryRevocations option \<Rightarrow> MemoryRevocations Broker result" where
  "tb_New opts revs =
     (case bo_Issuer opts of
        None \<Rightarrow> Err (Plain ''tokenbroker: Issuer required'')
      | Some i \<Rightarrow>
          (case bo_Authorizer opts of
             None \<Rightarrow> Err (Plain ''tokenbroker: Authorizer required'')
           | Some az \<Rightarrow>
               (case bo_Authenticator opts of
                  None \<Rightarrow> Err (Plain ''tokenbroker: Authenticator required'')
                | Some an \<Rightarrow>
                    Ok \<lparr>bk_Issuer = i, bk_Authorizer = az, bk_Authenticator = an,
                        bk_Revocations = (case revs of None \<Rightarrow> NewMemoryRevocations | Some r \<Rightarrow> r),
                        bk_DefaultTTL = bo_DefaultTTL opts,
                        bk_AuditLog = (if bo_AuditLog opts then Some [] else None),
                        bk_DelegateAuthorizer = bo_DelegateAuthorizer opts\<rparr>)))"

definition tb_newTokenID :: "bytes \<Rightarrow> string" where
  "tb_newTokenID b = hex_encode b"

definition AllowAll :: "string \<Rightarrow> string list \<Rightarrow> AuthDecision" where
  "AllowAll user ch = \<lparr>ad_Granted = ch, ad_Denied = []\<rparr>"

definition issueFor ::
  "auth_env \<Rightarrow> KeyRing \<Rightarrow> broker_rnd \<Rightarrow> string \<Rightarrow> string \<Rightarrow> IssueRequest \<Rightarrow> 's Broker \<Rightarrow> IssueResponse result \<times> 's Broker" where
  "issueFor env ring rnd uid delegator req b =
     (if length (iq_Channels req) = 0 then (Err (Plain ''tokenbroker: at least one channel required''), b)
      else
        let decision = bk_Authorizer b uid (iq_Channels req)
        in if length (ad_Granted decision) = 0 then
             (Ok \<lparr>is_Token = [], is_TokenID = [], is_ExpiresAt = zero_time, is_ChannelsGranted = [],
                 is_ChannelsDenied = ad_Denied decision\<rparr>, b)
           else
             let ttl = iq_TTL req;
                 ttl = (if ttl = 0 then bk_DefaultTTL b else ttl);
                 ttl = (if ttl = 0 then hour else ttl);
                 channel = hd (ad_Granted decision)
             in case IssuePair env (bk_Issuer b) ring (br_pair rnd) uid channel ttl [] (br_now1 rnd) of
                  Err e \<Rightarrow> (Err e, b)
                | Ok pair \<Rightarrow>
                    let pair = (if length (ad_Granted decision) > 1 then
                          (case IssueAccessForChannels env (bk_Issuer b) ring (br_full rnd) uid (ad_Granted decision)
                                  (pr_RefreshExpires pair) (br_now2 rnd) of
                             Ok (fullToken, exp) \<Rightarrow> pair\<lparr>pr_AccessToken := fullToken, pr_AccessExpires := exp\<rparr>
                           | Err _ \<Rightarrow> pair)
                          else pair);
                        tokenID = tb_newTokenID (br_tokenID rnd);
                        entry = \<lparr>au_TokenID = tokenID, au_IssuedTo = uid, au_Delegator = delegator,
                          au_Channels = ad_Granted decision, au_ExpiresAt = pr_AccessExpires pair, au_IssuedAt = br_now3 rnd\<rparr>
                    in (Ok \<lparr>is_Token = pr_AccessToken pair, is_TokenID = tokenID, is_ExpiresAt = pr_AccessExpires pair,
                           is_ChannelsGranted = ad_Granted decision, is_ChannelsDenied = ad_Denied decision\<rparr>,
                        b\<lparr>bk_AuditLog := map_option (\<lambda>log. log @ [entry]) (bk_AuditLog b)\<rparr>))"

definition tb_Issue ::
  "auth_env \<Rightarrow> KeyRing \<Rightarrow> broker_rnd \<Rightarrow> string \<Rightarrow> IssueRequest \<Rightarrow> 's Broker \<Rightarrow> IssueResponse result \<times> 's Broker" where
  "tb_Issue env ring rnd bearer req b =
     (case bk_Authenticator b bearer of
        Err e \<Rightarrow> (Err e, b)
      | Ok uid \<Rightarrow> issueFor env ring rnd uid [] req b)"

definition tb_Delegate ::
  "auth_env \<Rightarrow> KeyRing \<Rightarrow> broker_rnd \<Rightarrow> string \<Rightarrow> DelegateRequest \<Rightarrow> 's Broker \<Rightarrow> IssueResponse result \<times> 's Broker" where
  "tb_Delegate env ring rnd bearer req b =
     (case bk_Authenticator b bearer of
        Err e \<Rightarrow> (Err e, b)
      | Ok svc \<Rightarrow>
          let target = dq_OnBehalfOf req
          in if target = [] then (Err (Plain ''tokenbroker: on_behalf_of required''), b)
             else case (case bk_DelegateAuthorizer b of None \<Rightarrow> None | Some f \<Rightarrow> f svc target) of
                 Some e \<Rightarrow> (Err e, b)
               | None \<Rightarrow>
                   let ttl = wrap64 (dq_LifetimeSeconds req * second)
                   in issueFor env ring rnd target svc \<lparr>iq_Channels = dq_Channels req, iq_TTL = ttl\<rparr> b)"

definition tb_Revoke ::
  "'s revocation_ops \<Rightarrow> string \<Rightarrow> RevokeRequest \<Rightarrow> go_time \<Rightarrow> 's Broker \<Rightarrow> go_error option \<times> 's Broker" where
  "tb_Revoke ops bearer req now b =
     (case bk_Authenticator b bearer of
        Err e \<Rightarrow> (Some e, b)
      | Ok _ \<Rightarrow>
          if rq_TokenID req \<noteq> [] then
            let (e, s) = vo_Revoke ops (rq_TokenID req) (rq_UserID req) (rq_Reason req) now (bk_Revocations b)
            in (e, b\<lparr>bk_Revocations := s\<rparr>)
          else if rq_UserID req \<noteq> [] then
            let (e, s) = vo_RevokeAllForUser ops (rq_UserID req) now (bk_Revocations b)
            in (e, b\<lparr>bk_Revocations := s\<rparr>)
          else (Some (Plain ''tokenbroker: token_id or user_id required''), b))"

text \<open>The check of \<^verbatim>\<open>Broker.IsRevoked\<close>, over the store it reads.\<close>

definition tb_IsRevoked ::
  "'s revocation_ops \<Rightarrow> string \<Rightarrow> string \<Rightarrow> go_time \<Rightarrow> go_time \<Rightarrow> 's \<Rightarrow> bool result" where
  "tb_IsRevoked ops tokenID userID issuedAt now s =
     (case (if tokenID \<noteq> [] then vo_IsRevoked ops tokenID now s else Ok False) of
        Err e \<Rightarrow> Err e
      | Ok True \<Rightarrow> Ok True
      | Ok False \<Rightarrow>
          (case (if userID \<noteq> [] then vo_IsUserRevoked ops userID issuedAt now s else Ok False) of
             Err e \<Rightarrow> Err e
           | Ok urev \<Rightarrow> Ok urev))"

subsection \<open>The role authorizer\<close>

fun split_segs :: "string \<Rightarrow> string \<Rightarrow> string list" where
  "split_segs cur [] = [cur]"
| "split_segs cur (c # s) =
     (if c = CHR ''.'' \<or> c = CHR '':'' then cur # split_segs [] s else split_segs (cur @ [c]) s)"

definition splitChannelSegs :: "string \<Rightarrow> string list" where
  "splitChannelSegs s = split_segs [] s"

fun simple_loop :: "nat \<Rightarrow> string list \<Rightarrow> nat \<Rightarrow> string list \<Rightarrow> bool" where
  "simple_loop i [] plen nSegs \<longleftrightarrow> plen = length nSegs"
| "simple_loop i (ps # pSegs) plen nSegs \<longleftrightarrow>
     (if ps = ''**'' then i \<le> length nSegs
      else if i \<ge> length nSegs then False
      else if ps = ''*'' then simple_loop (i + 1) pSegs plen nSegs
      else if ps \<noteq> nSegs ! i then False
      else simple_loop (i + 1) pSegs plen nSegs)"

definition matchSimple :: "string \<Rightarrow> string \<Rightarrow> bool" where
  "matchSimple pattern name \<longleftrightarrow>
     (if pattern = name then True
      else let pSegs = splitChannelSegs pattern; nSegs = splitChannelSegs name
           in simple_loop 0 pSegs (length pSegs) nSegs)"

record RoleAuthorizer =
  ra_UserRoles :: "string \<Rightarrow> string list"
  ra_RolePatterns :: "(string, string list) gomap"

definition role_patterns :: "RoleAuthorizer \<Rightarrow> string \<Rightarrow> string list" where
  "role_patterns r role = (case map_of (ra_RolePatterns r) role of None \<Rightarrow> [] | Some ps \<Rightarrow> ps)"

definition allow_matching :: "string \<Rightarrow> string list \<Rightarrow> (string, bool) gomap \<Rightarrow> (string, bool) gomap" where
  "allow_matching p channels allowed =
     fold (\<lambda>ch al. if matchSimple p ch then AList.update ch True al else al) channels allowed"

definition role_Authorize :: "RoleAuthorizer \<Rightarrow> string \<Rightarrow> string list \<Rightarrow> AuthDecision" where
  "role_Authorize r user channels =
     (let roles = ra_UserRoles r user;
          allowed = fold (\<lambda>role. fold (\<lambda>p. allow_matching p channels) (role_patterns r role)) roles [];
          ok = (\<lambda>ch. map_of allowed ch = Some True)
      in \<lparr>ad_Granted = filter ok channels,
          ad_Denied = map (\<lambda>ch. \<lparr>dc_Channel = ch, dc_Reason = ''no matching role''\<rparr>) (filter (\<lambda>ch. \<not> ok ch) channels)\<rparr>)"

text \<open>What a pattern covers, segment by segment.\<close>

fun glob_segs :: "string list \<Rightarrow> string list \<Rightarrow> bool" where
  "glob_segs [] ns \<longleftrightarrow> ns = []"
| "glob_segs (p # ps) [] \<longleftrightarrow> p = ''**''"
| "glob_segs (p # ps) (n # ns) \<longleftrightarrow> p = ''**'' \<or> (p = ''*'' \<or> p = n) \<and> glob_segs ps ns"

lemma simple_loop_glob:
  "i \<le> length nSegs \<Longrightarrow> plen = i + length pSegs \<Longrightarrow> simple_loop i pSegs plen nSegs \<longleftrightarrow> glob_segs pSegs (drop i nSegs)"
proof (induction i pSegs plen nSegs rule: simple_loop.induct)
  case (1 i plen nSegs)
  then show ?case by auto
next
  case (2 i ps pSegs plen nSegs)
  show ?case
  proof (cases "i < length nSegs")
    case True
    then have "drop i nSegs = nSegs ! i # drop (i + 1) nSegs" by (simp add: Cons_nth_drop_Suc)
    with True 2 show ?thesis by auto
  next
    case False
    with 2 show ?thesis by auto
  qed
qed

lemma matchSimple_iff: "matchSimple p n \<longleftrightarrow> p = n \<or> glob_segs (splitChannelSegs p) (splitChannelSegs n)"
  using simple_loop_glob [of 0 "splitChannelSegs n" _ "splitChannelSegs p"] by (simp add: matchSimple_def Let_def)

lemma allow_matching_iff:
  "map_of (allow_matching p channels al) ch = Some True \<longleftrightarrow>
     map_of al ch = Some True \<or> ch \<in> set channels \<and> matchSimple p ch"
  unfolding allow_matching_def by (induction channels arbitrary: al) (auto simp: update_conv')

lemma allow_patterns_iff:
  "map_of (fold (\<lambda>p. allow_matching p channels) ps al) ch = Some True \<longleftrightarrow>
     map_of al ch = Some True \<or> ch \<in> set channels \<and> (\<exists>p \<in> set ps. matchSimple p ch)"
  by (induction ps arbitrary: al) (auto simp: allow_matching_iff)

lemma allow_roles_iff:
  "map_of (fold (\<lambda>role. fold (\<lambda>p. allow_matching p channels) (f role)) roles al) ch = Some True \<longleftrightarrow>
     map_of al ch = Some True \<or> ch \<in> set channels \<and> (\<exists>role \<in> set roles. \<exists>p \<in> set (f role). matchSimple p ch)"
  by (induction roles arbitrary: al) (auto simp: allow_patterns_iff)

text \<open>
  The role authorizer grants, in the order of the request, exactly the channels that a
  pattern of one of the user's roles covers (equal to it, or segment by segment with \<^verbatim>\<open>*\<close> for one
  segment and \<^verbatim>\<open>**\<close> for the rest), and denies exactly the others.
\<close>

theorem role_Authorize_exact:
  "ad_Granted (role_Authorize r user channels) =
     filter (\<lambda>ch. \<exists>role \<in> set (ra_UserRoles r user). \<exists>p \<in> set (role_patterns r role).
       p = ch \<or> glob_segs (splitChannelSegs p) (splitChannelSegs ch)) channels \<and>
   map dc_Channel (ad_Denied (role_Authorize r user channels)) =
     filter (\<lambda>ch. \<not> (\<exists>role \<in> set (ra_UserRoles r user). \<exists>p \<in> set (role_patterns r role).
       p = ch \<or> glob_segs (splitChannelSegs p) (splitChannelSegs ch))) channels"
  by (auto simp: role_Authorize_def Let_def allow_roles_iff matchSimple_iff comp_def intro!: filter_cong)

subsection \<open>What an issued token is good for\<close>

lemma IssueAccessForChannels_Ok:
  assumes "IssueAccessForChannels env i ring rnd sub chs refreshExp now = Ok (tok, exp)"
  obtains jti where "newTokenID (ir_access rnd) = Ok jti"
    and "sign_env env (ir_sig1 rnd) ring
        \<lparr>cl_Sub = sub, cl_Typ = TypeAccess, cl_Chs = chs, cl_Iat = time_Unix now, cl_Exp = time_Unix exp,
         cl_RateLimitOverride = None, cl_Scopes = [], cl_JTI = jti, cl_FID = []\<rparr> = Ok tok"
  using assms by (auto simp: IssueAccessForChannels_def Let_def split: if_splits sum.splits)

text \<open>The channels the token of a response carries: the granted ones, or the first alone when the second issue failed.\<close>

definition token_channels :: "auth_env \<Rightarrow> KeyRing \<Rightarrow> broker_rnd \<Rightarrow> string \<Rightarrow> string list \<Rightarrow> go_time \<Rightarrow> 's Broker \<Rightarrow> string list" where
  "token_channels env ring rnd uid granted refreshExp b =
     (if length granted > 1 \<and>
         isl (IssueAccessForChannels env (bk_Issuer b) ring (br_full rnd) uid granted refreshExp (br_now2 rnd))
      then [hd granted] else granted)"

lemma issueFor_Ok:
  assumes "issueFor env ring rnd uid delegator req b = (Ok resp, b')" and "is_ChannelsGranted resp \<noteq> []"
  obtains refreshExp iat rnd' jti where
    "is_ChannelsGranted resp = ad_Granted (bk_Authorizer b uid (iq_Channels req))"
    "is_TokenID resp = tb_newTokenID (br_tokenID rnd)"
    "newTokenID rnd' = Ok jti" "rnd' \<in> {ir_access (br_pair rnd), ir_access (br_full rnd)}"
    "iat \<in> {br_now1 rnd, br_now2 rnd}"
    "\<exists>sig. sign_env env sig ring
        \<lparr>cl_Sub = uid, cl_Typ = TypeAccess, cl_Chs = token_channels env ring rnd uid (is_ChannelsGranted resp) refreshExp b,
         cl_Iat = time_Unix iat, cl_Exp = time_Unix (is_ExpiresAt resp),
         cl_RateLimitOverride = None, cl_Scopes = [], cl_JTI = jti, cl_FID = []\<rparr> = Ok (is_Token resp)"
proof -
  let ?g = "ad_Granted (bk_Authorizer b uid (iq_Channels req))"
  let ?t = "if iq_TTL req = 0 then bk_DefaultTTL b else iq_TTL req"
  let ?ttl = "if ?t = 0 then hour else ?t"
  have ne: "iq_Channels req \<noteq> []" "?g \<noteq> []" using assms by (auto simp: issueFor_def Let_def split: if_splits)
  obtain pair where pair: "IssuePair env (bk_Issuer b) ring (br_pair rnd) uid (hd ?g) ?ttl [] (br_now1 rnd) = Ok pair"
    using assms(1) ne by (cases "IssuePair env (bk_Issuer b) ring (br_pair rnd) uid (hd ?g) ?ttl [] (br_now1 rnd)")
      (simp_all add: issueFor_def Let_def)
  note run = assms(1) [unfolded issueFor_def Let_def, simplified ne pair list.size length_0_conv if_False sum.case,
    THEN arg_cong [of _ _ fst], unfolded fst_conv sum.inject]
  have g: "is_ChannelsGranted resp = ?g" "is_TokenID resp = tb_newTokenID (br_tokenID rnd)"
    and full: "(is_Token resp, is_ExpiresAt resp) =
      (if length ?g > 1 then
        (case IssueAccessForChannels env (bk_Issuer b) ring (br_full rnd) uid ?g (pr_RefreshExpires pair) (br_now2 rnd) of
           Ok (fullToken, exp) \<Rightarrow> (fullToken, exp)
         | Err _ \<Rightarrow> (pr_AccessToken pair, pr_AccessExpires pair))
       else (pr_AccessToken pair, pr_AccessExpires pair))"
    using run [symmetric] by (auto split: sum.split prod.split)
  obtain jti1 where jti1: "newTokenID (ir_access (br_pair rnd)) = Ok jti1"
    and s1: "sign_env env (ir_sig1 (br_pair rnd)) ring
        \<lparr>cl_Sub = uid, cl_Typ = TypeAccess, cl_Chs = [hd ?g], cl_Iat = time_Unix (br_now1 rnd),
         cl_Exp = time_Unix (pr_AccessExpires pair), cl_RateLimitOverride = None, cl_Scopes = [], cl_JTI = jti1, cl_FID = []\<rparr>
        = Ok (pr_AccessToken pair)"
  proof (rule IssuePair_Ok [OF pair])
    fix jti fid accessJTI
    assume jti: "newTokenID (ir_access (br_pair rnd)) = Ok accessJTI" and "sign_pair env ring (br_pair rnd) uid [hd ?g] (br_now1 rnd)
      (br_now1 rnd + snd (pair_ttls (bk_Issuer b) ?ttl)) (br_now1 rnd + fst (pair_ttls (bk_Issuer b) ?ttl))
      None (cloneScopesForClaim []) accessJTI jti fid = Ok pair"
    from sign_pair_Ok(1,3) [OF this(2)] show thesis
      by (intro that [OF jti]) (simp add: cloneScopesForClaim_def)
  qed
  show ?thesis
  proof (cases "length ?g > 1 \<and>
      \<not> isl (IssueAccessForChannels env (bk_Issuer b) ring (br_full rnd) uid ?g (pr_RefreshExpires pair) (br_now2 rnd))")
    case True
    then obtain tok exp where f: "IssueAccessForChannels env (bk_Issuer b) ring (br_full rnd) uid ?g
        (pr_RefreshExpires pair) (br_now2 rnd) = Ok (tok, exp)"
      by (auto simp: isl_def) (metis obj_sumE surj_pair)
    with True full have eq: "is_Token resp = tok" "is_ExpiresAt resp = exp" by auto
    show ?thesis
      using IssueAccessForChannels_Ok [OF f] that [of "ir_access (br_full rnd)" _ "br_now2 rnd" "pr_RefreshExpires pair"] g f eq
      by (auto simp: token_channels_def)
  next
    case False
    then have eq: "is_Token resp = pr_AccessToken pair" "is_ExpiresAt resp = pr_AccessExpires pair"
      using full by (auto split: sum.splits)
    have "token_channels env ring rnd uid ?g (pr_RefreshExpires pair) b = [hd ?g]"
      using False assms(2) unfolding g(1) by (cases ?g) (auto simp: token_channels_def)
    then show ?thesis
      using that [of "ir_access (br_pair rnd)" jti1 "br_now1 rnd" "pr_RefreshExpires pair"] g jti1 s1 eq by auto
  qed
qed

text \<open>Issuing touches the audit log alone.\<close>

lemma issueFor_frame:
  shows "bk_Revocations (snd (issueFor env ring rnd uid delegator req b)) = bk_Revocations b"
    and "bk_Authenticator (snd (issueFor env ring rnd uid delegator req b)) = bk_Authenticator b"
  by (simp_all add: issueFor_def Let_def split: sum.split)

lemma token_channels_subset:
  "granted \<noteq> [] \<Longrightarrow> token_channels env ring rnd uid granted e b \<noteq> [] \<and>
     set (token_channels env ring rnd uid granted e b) \<subseteq> set granted"
  by (auto simp: token_channels_def)

lemma issueFor_verifies:
  assumes run: "(ring_step (ae_kc env) good)\<^sup>*\<^sup>* NewKeyRing ring" and env: "env_ok env good"
    and a: "ascii (kr_active ring)" "ascii uid" "list_all ascii (is_ChannelsGranted resp)"
    and resp: "issueFor env ring rnd uid delegator req b = (Ok resp, b')" "is_ChannelsGranted resp \<noteq> []"
    and t: "br_now1 rnd \<le> t" "br_now2 rnd \<le> t" "t \<le> time_Unix (is_ExpiresAt resp) * second"
  obtains c rnd' where "verify_env env ring 0 (is_Token resp) TypeAccess t = Ok c" "cl_Sub c = uid" "cl_Scopes c = []"
    "cl_Chs c \<noteq> []" "set (cl_Chs c) \<subseteq> set (is_ChannelsGranted resp)"
    "newTokenID rnd' = Ok (cl_JTI c)" "rnd' \<in> {ir_access (br_pair rnd), ir_access (br_full rnd)}"
proof -
  obtain refreshExp iat rnd' jti sig where facts:
    "newTokenID rnd' = Ok jti" "rnd' \<in> {ir_access (br_pair rnd), ir_access (br_full rnd)}"
    and iat: "iat \<in> {br_now1 rnd, br_now2 rnd}"
    and sig: "sign_env env sig ring
        \<lparr>cl_Sub = uid, cl_Typ = TypeAccess, cl_Chs = token_channels env ring rnd uid (is_ChannelsGranted resp) refreshExp b,
         cl_Iat = time_Unix iat, cl_Exp = time_Unix (is_ExpiresAt resp),
         cl_RateLimitOverride = None, cl_Scopes = [], cl_JTI = jti, cl_FID = []\<rparr> = Ok (is_Token resp)"
    using issueFor_Ok [OF resp] by metis
  note chs = token_channels_subset [OF resp(2), of env ring rnd uid refreshExp b]
  have "iat \<le> t" using iat t by auto
  then have "time_Unix iat * second \<le> t"
    using div_mult_mod_eq [of iat second] pos_mod_sign [of second iat] by (simp add: time_Unix_def)
  moreover have "list_all ascii (token_channels env ring rnd uid (is_ChannelsGranted resp) refreshExp b)"
    using chs a(3) by (auto simp: list_all_iff)
  ultimately have "verify_env env ring 0 (is_Token resp) TypeAccess t = Ok (strip_claims
        \<lparr>cl_Sub = uid, cl_Typ = TypeAccess, cl_Chs = token_channels env ring rnd uid (is_ChannelsGranted resp) refreshExp b,
         cl_Iat = time_Unix iat, cl_Exp = time_Unix (is_ExpiresAt resp),
         cl_RateLimitOverride = None, cl_Scopes = [], cl_JTI = jti, cl_FID = []\<rparr>)"
    using sign_env_verifies [OF ring_ok_reach [OF run] env a(1) _ sig, of t] a newTokenID_ascii [OF facts(1)] t(3)
    by (simp add: claims_ascii_def IssuedAt_def ExpiresAt_def)
  then show ?thesis
    by (rule that) (use chs facts in \<open>simp_all add: strip_claims_def\<close>)
qed

lemma Authorizes_no_scopes: "cl_Scopes c = [] \<Longrightarrow> fst (claims_Authorizes ch v c) \<longleftrightarrow> ch \<in> set (cl_Chs c)"
  by (simp add: claims_Authorizes_def)

text \<open>A broker that knows one bearer, and one call of it for two channels.\<close>

definition broker_claims :: "string list \<Rightarrow> int \<Rightarrow> token_type \<Rightarrow> string \<Rightarrow> string \<Rightarrow> Claims" where
  "broker_claims chs exp ty jti fid = \<lparr>cl_Sub = ''u'', cl_Typ = ty, cl_Chs = chs, cl_Iat = 100, cl_Exp = exp,
     cl_RateLimitOverride = None, cl_Scopes = [], cl_JTI = jti, cl_FID = fid\<rparr>"

definition broker_env :: auth_env where
  "broker_env = toy_env
     [broker_claims [''public:a.b'', ''public:a.c''] 400 TypeAccess (b64_encode (replicate 16 CHR ''g'')) [],
      broker_claims [''public:a.b''] 400 TypeAccess (b64_encode (replicate 16 CHR ''a'')) [],
      broker_claims [''public:a.b''] 3700 TypeRefresh (b64_encode ''jjj'') (b64_encode ''fff'')]"

definition sample_broker_rnd :: broker_rnd where
  "sample_broker_rnd =
     \<lparr>br_pair = sample_rnd\<lparr>ir_access := Some (replicate 16 CHR ''a'')\<rparr>,
      br_full = sample_rnd\<lparr>ir_access := Some (replicate 16 CHR ''g'')\<rparr>,
      br_tokenID = replicate 16 CHR ''t'', br_now1 = 100 * second, br_now2 = 100 * second, br_now3 = 100 * second\<rparr>"

definition sample_broker :: "MemoryRevocations Broker" where
  "sample_broker = \<lparr>bk_Issuer = NewIssuer, bk_Authorizer = AllowAll,
     bk_Authenticator = (\<lambda>bearer. if bearer = ''s3cret'' then Ok ''u'' else Err (Plain ''tokenbroker: unauthenticated'')),
     bk_Revocations = NewMemoryRevocations, bk_DefaultTTL = 0, bk_AuditLog = Some [], bk_DelegateAuthorizer = None\<rparr>"

definition two_channels :: IssueRequest where
  "two_channels = \<lparr>iq_Channels = [''public:a.b'', ''public:a.c''], iq_TTL = 0\<rparr>"

lemma sample_broker_facts:
  shows "(ring_step (ae_kc broker_env) ed_only)\<^sup>*\<^sup>* NewKeyRing one_key" and "env_ok broker_env ed_only"
    and "ascii (kr_active one_key)" and "ascii ''u''" and "list_all ascii [''public:a.b'', ''public:a.c'']"
    and "bk_Authenticator sample_broker ''s3cret'' = Ok ''u''"
proof -
  show "(ring_step (ae_kc broker_env) ed_only)\<^sup>*\<^sup>* NewKeyRing one_key"
    using one_key_reach by (simp add: broker_env_def toy_env_def)
  show "env_ok broker_env ed_only" by (simp add: broker_env_def toy_env_ok)
  show "ascii (kr_active one_key)" by (rule one_key_ascii)
  show "ascii ''u''" "list_all ascii [''public:a.b'', ''public:a.c'']" by (simp_all add: ascii_def)
  show "bk_Authenticator sample_broker ''s3cret'' = Ok ''u''" by (simp add: sample_broker_def)
qed

text \<open>What the call answers.\<close>

definition sample_issued :: "IssueResponse result \<times> MemoryRevocations Broker" where
  "sample_issued = tb_Issue broker_env one_key sample_broker_rnd ''s3cret'' two_channels sample_broker"

lemma sample_issued:
  obtains resp where "sample_issued = (Ok resp, snd sample_issued)"
    and "is_ChannelsGranted resp = [''public:a.b'', ''public:a.c'']" and "is_ExpiresAt resp = 400 * second"
proof -
  define cs where "cs = [broker_claims [''public:a.b'', ''public:a.c''] 400 TypeAccess (b64_encode (replicate 16 CHR ''g'')) [],
      broker_claims [''public:a.b''] 400 TypeAccess (b64_encode (replicate 16 CHR ''a'')) [],
      broker_claims [''public:a.b''] 3700 TypeRefresh (b64_encode ''jjj'') (b64_encode ''fff'')]"
  have env: "broker_env = toy_env cs" by (simp only: broker_env_def cs_def)
  have ttls: "pair_ttls NewIssuer hour = (hour, 5 * minute)" by (simp add: pair_ttls_eq NewIssuer_def Let_def)
  have "\<exists>pair. sign_pair (toy_env cs) one_key (br_pair sample_broker_rnd) ''u'' [''public:a.b''] (100 * second)
      (400 * second) (3700 * second) None [] (b64_encode (replicate 16 CHR ''a'')) (b64_encode ''jjj'') (b64_encode ''fff'') = Ok pair"
    by (rule toy_sign_pair) (simp_all only: cs_def broker_claims_def time_Unix_def list.set insert_iff, simp_all)
  then obtain pair where "sign_pair (toy_env cs) one_key (br_pair sample_broker_rnd) ''u'' [''public:a.b''] (100 * second)
      (400 * second) (3700 * second) None [] (b64_encode (replicate 16 CHR ''a'')) (b64_encode ''jjj'') (b64_encode ''fff'') = Ok pair" ..
  note sp = this and exps = sign_pair_Ok(1,2) [OF this]
  have pair: "IssuePair (toy_env cs) NewIssuer one_key (br_pair sample_broker_rnd) ''u'' ''public:a.b'' hour [] (100 * second) = Ok pair"
    using sp by (simp del: b64_encode.simps replicate.simps add: IssuePair_def Let_def ttls [simplified] newRefreshIDs_def
        newTokenID_def sample_broker_rnd_def sample_rnd_def cloneScopesForClaim_def)
  define c where "c = broker_claims [''public:a.b'', ''public:a.c''] 400 TypeAccess (b64_encode (replicate 16 CHR ''g'')) []"
  have "c \<in> set cs" by (simp add: cs_def c_def)
  moreover have "type_Valid (cl_Typ c) = None" "0 < cl_Iat c" "cl_Iat c < cl_Exp c"
    by (simp_all add: c_def broker_claims_def type_Valid_def)
  ultimately obtain tok where "sign_env (toy_env cs) (ir_sig1 (br_full sample_broker_rnd)) one_key c = Ok tok"
    by (rule toy_sign)
  then have full: "IssueAccessForChannels (toy_env cs) NewIssuer one_key (br_full sample_broker_rnd) ''u''
      [''public:a.b'', ''public:a.c''] (3700 * second) (100 * second) = Ok (tok, 400 * second)"
    by (simp del: b64_encode.simps replicate.simps add: IssueAccessForChannels_def Let_def newTokenID_def sample_broker_rnd_def sample_rnd_def
        c_def broker_claims_def NewIssuer_def time_Unix_def)
  let ?resp = "\<lparr>is_Token = tok, is_TokenID = tb_newTokenID (br_tokenID sample_broker_rnd), is_ExpiresAt = 400 * second,
    is_ChannelsGranted = [''public:a.b'', ''public:a.c''], is_ChannelsDenied = []\<rparr>"
  have now: "br_now1 sample_broker_rnd = 100 * second" "br_now2 sample_broker_rnd = 100 * second"
    by (simp_all add: sample_broker_rnd_def)
  have "fst sample_issued = Ok ?resp"
    using pair full unfolding sample_issued_def tb_Issue_def issueFor_def env Let_def
    by (simp add: sample_broker_def two_channels_def AllowAll_def now exps)
  then show ?thesis by (intro that [of ?resp]) (simp_all add: prod_eq_iff)
qed

text \<open>
  C8. A token the broker hands out belongs to the authenticated user and never reaches beyond
  the authorizer's decision: it verifies until it expires, it authorizes at least one channel, and
  every channel it authorizes, for any verb, was granted.
\<close>

theorem broker_token_within_grant:
  assumes "(ring_step (ae_kc env) good)\<^sup>*\<^sup>* NewKeyRing ring" and "env_ok env good"
    and "ascii (kr_active ring)" and "ascii uid" and "list_all ascii (is_ChannelsGranted resp)"
    and "bk_Authenticator b bearer = Ok uid"
    and "tb_Issue env ring rnd bearer req b = (Ok resp, b')" and "is_ChannelsGranted resp \<noteq> []"
    and "br_now1 rnd \<le> t" and "br_now2 rnd \<le> t" and "t \<le> time_Unix (is_ExpiresAt resp) * second"
  shows "is_ChannelsGranted resp = ad_Granted (bk_Authorizer b uid (iq_Channels req)) \<and>
    (\<exists>c. verify_env env ring 0 (is_Token resp) TypeAccess t = Ok c \<and> cl_Sub c = uid \<and>
      (\<exists>ch. \<forall>v. fst (claims_Authorizes ch v c)) \<and>
      (\<forall>ch v. fst (claims_Authorizes ch v c) \<longrightarrow> ch \<in> set (is_ChannelsGranted resp)))"
proof -
  have i: "issueFor env ring rnd uid [] req b = (Ok resp, b')" using assms(6,7) by (simp add: tb_Issue_def)
  obtain c where c: "verify_env env ring 0 (is_Token resp) TypeAccess t = Ok c" "cl_Sub c = uid" "cl_Scopes c = []"
    "cl_Chs c \<noteq> []" "set (cl_Chs c) \<subseteq> set (is_ChannelsGranted resp)"
    using issueFor_verifies [OF assms(1-5) i assms(8-11)] by metis
  have "\<exists>ch. ch \<in> set (cl_Chs c)" using c(4) by (cases "cl_Chs c") auto
  with c have "(\<exists>ch. \<forall>v. fst (claims_Authorizes ch v c)) \<and>
      (\<forall>ch v. fst (claims_Authorizes ch v c) \<longrightarrow> ch \<in> set (is_ChannelsGranted resp))"
    by (auto simp: Authorizes_no_scopes)
  with c issueFor_Ok [OF i assms(8)] show ?thesis by metis
qed

theorem broker_token_within_grant_witness:
  "\<exists>resp b'. tb_Issue broker_env one_key sample_broker_rnd ''s3cret'' two_channels sample_broker = (Ok resp, b') \<and>
     (\<exists>c. verify_env broker_env one_key 0 (is_Token resp) TypeAccess (200 * second) = Ok c \<and> cl_Sub c = ''u'' \<and>
       (\<forall>ch v. fst (claims_Authorizes ch v c) \<longrightarrow> ch \<in> {''public:a.b'', ''public:a.c''}))"
proof -
  obtain resp where resp: "sample_issued = (Ok resp, snd sample_issued)"
    "is_ChannelsGranted resp = [''public:a.b'', ''public:a.c'']" "is_ExpiresAt resp = 400 * second"
    by (rule sample_issued)
  have "list_all ascii (is_ChannelsGranted resp)" "is_ChannelsGranted resp \<noteq> []"
    "br_now1 sample_broker_rnd \<le> 200 * second" "br_now2 sample_broker_rnd \<le> 200 * second"
    "200 * second \<le> time_Unix (is_ExpiresAt resp) * second"
    using sample_broker_facts(5) resp(2,3) by (simp_all add: sample_broker_rnd_def time_Unix_def)
  from broker_token_within_grant [OF sample_broker_facts(1-4) this(1) sample_broker_facts(6)
      resp(1) [unfolded sample_issued_def] this(2-5)] resp
  show ?thesis by (auto simp: sample_issued_def)
qed

text \<open>The identifiers of tokens are not the identifiers in tokens: they differ in length.\<close>

lemma length_b64_encode: "length (b64_encode s) = (4 * length s + 2) div 3"
  by (induction s rule: b64_encode.induct) auto

lemma length_hex_encode: "length (hex_encode s) = 2 * length s"
  by (induction s) auto

lemma tb_IsRevoked_cong:
  assumes "vo_IsRevoked ops ident now s = vo_IsRevoked ops ident now s'"
    and "vo_IsUserRevoked ops u issued now s = vo_IsUserRevoked ops u issued now s'"
  shows "tb_IsRevoked ops ident u issued now s = tb_IsRevoked ops ident u issued now s'"
  unfolding tb_IsRevoked_def assms ..

text \<open>
  Revoking a token by the id the broker returned with it has no effect on the token: the id
  is drawn apart from the \<^verbatim>\<open>jti\<close> claim the token carries, so the revocation check on the token's
  own claims answers after the revocation what it answered before.
\<close>

theorem revoking_token_id_is_ineffective:
  assumes "(ring_step (ae_kc env) good)\<^sup>*\<^sup>* NewKeyRing ring" and "env_ok env good"
    and "ascii (kr_active ring)" and "ascii uid" and "list_all ascii (is_ChannelsGranted resp)"
    and "issueFor env ring rnd uid delegator req b = (Ok resp, b')" and "is_ChannelsGranted resp \<noteq> []"
    and "br_now1 rnd \<le> t" and "br_now2 rnd \<le> t" and "t \<le> time_Unix (is_ExpiresAt resp) * second"
    and "length (br_tokenID rnd) = 16"
    and "map_option length (ir_access (br_pair rnd)) = Some 16" and "map_option length (ir_access (br_full rnd)) = Some 16"
    and "tb_Revoke MemoryRevocations_ops bearer \<lparr>rq_TokenID = is_TokenID resp, rq_UserID = w, rq_Reason = r\<rparr> t' b' = (None, b'')"
  shows "\<exists>c. verify_env env ring 0 (is_Token resp) TypeAccess t = Ok c \<and>
    tb_IsRevoked MemoryRevocations_ops (cl_JTI c) (cl_Sub c) (IssuedAt c) t (bk_Revocations b'') =
    tb_IsRevoked MemoryRevocations_ops (cl_JTI c) (cl_Sub c) (IssuedAt c) t (bk_Revocations b')"
proof -
  obtain c rnd' where c: "verify_env env ring 0 (is_Token resp) TypeAccess t = Ok c"
    and jti: "newTokenID rnd' = Ok (cl_JTI c)" "rnd' \<in> {ir_access (br_pair rnd), ir_access (br_full rnd)}"
    using issueFor_verifies [OF assms(1-10)] by metis
  have ident: "is_TokenID resp = hex_encode (br_tokenID rnd)"
    using issueFor_Ok [OF assms(6,7)] by (metis tb_newTokenID_def)
  obtain x where "rnd' = Some x" "cl_JTI c = b64_encode x"
    using jti(1) by (auto simp: newTokenID_def split: option.splits)
  then have "length (cl_JTI c) = 22" using jti(2) assms(12,13) by (auto simp: length_b64_encode)
  then have ne: "cl_JTI c \<noteq> is_TokenID resp" using assms(11) by (auto simp: ident length_hex_encode)
  have nonempty: "is_TokenID resp \<noteq> []" using assms(11) by (auto simp: ident length_hex_encode simp flip: length_greater_0_conv)
  have rev: "vo_Revoke MemoryRevocations_ops (is_TokenID resp) w r t' (bk_Revocations b') = (None, bk_Revocations b'')"
    using assms(14) nonempty by (auto simp: tb_Revoke_def split: sum.splits prod.splits)
  have "mr_byUserAt (bk_Revocations b'') = mr_byUserAt (bk_Revocations b')"
    "mr_maxTTL (bk_Revocations b'') = mr_maxTTL (bk_Revocations b')"
    using rev [symmetric] nonempty by (simp_all add: MemoryRevocations_ops_def mr_Revoke_def)
  then have "vo_IsUserRevoked MemoryRevocations_ops u i t (bk_Revocations b'') = vo_IsUserRevoked MemoryRevocations_ops u i t (bk_Revocations b')" for u i
    by (simp add: MemoryRevocations_ops_def mr_IsUserRevoked_def split: option.split)
  moreover have "vo_IsRevoked MemoryRevocations_ops (cl_JTI c) t (bk_Revocations b'') =
      vo_IsRevoked MemoryRevocations_ops (cl_JTI c) t (bk_Revocations b')"
    using mem_rev.revoked_now [OF nonempty rev, of "cl_JTI c" t] ne by simp
  ultimately have "tb_IsRevoked MemoryRevocations_ops (cl_JTI c) (cl_Sub c) (IssuedAt c) t (bk_Revocations b'') =
      tb_IsRevoked MemoryRevocations_ops (cl_JTI c) (cl_Sub c) (IssuedAt c) t (bk_Revocations b')"
    by (intro tb_IsRevoked_cong)
  with c show ?thesis by blast
qed

theorem revoking_token_id_is_ineffective_witness:
  "\<exists>resp b' b'' c. issueFor broker_env one_key sample_broker_rnd ''u'' [] two_channels sample_broker = (Ok resp, b') \<and>
     tb_Revoke MemoryRevocations_ops ''s3cret'' \<lparr>rq_TokenID = is_TokenID resp, rq_UserID = [], rq_Reason = []\<rparr> (150 * second) b'
       = (None, b'') \<and>
     verify_env broker_env one_key 0 (is_Token resp) TypeAccess (200 * second) = Ok c \<and>
     tb_IsRevoked MemoryRevocations_ops (cl_JTI c) (cl_Sub c) (IssuedAt c) (200 * second) (bk_Revocations b'') = Ok False"
proof -
  obtain resp where resp: "sample_issued = (Ok resp, snd sample_issued)"
    "is_ChannelsGranted resp = [''public:a.b'', ''public:a.c'']" "is_ExpiresAt resp = 400 * second"
    by (rule sample_issued)
  have i: "issueFor broker_env one_key sample_broker_rnd ''u'' [] two_channels sample_broker = (Ok resp, snd sample_issued)"
    using resp(1) by (simp add: sample_issued_def tb_Issue_def sample_broker_facts(6))
  have pre: "list_all ascii (is_ChannelsGranted resp)" "is_ChannelsGranted resp \<noteq> []"
    "br_now1 sample_broker_rnd \<le> 200 * second" "br_now2 sample_broker_rnd \<le> 200 * second"
    "200 * second \<le> time_Unix (is_ExpiresAt resp) * second" "length (br_tokenID sample_broker_rnd) = 16"
    "map_option length (ir_access (br_pair sample_broker_rnd)) = Some 16"
    "map_option length (ir_access (br_full sample_broker_rnd)) = Some 16"
    using sample_broker_facts(5) resp(2,3) by (simp_all add: sample_broker_rnd_def time_Unix_def)
  let ?rev = "tb_Revoke MemoryRevocations_ops ''s3cret''
    \<lparr>rq_TokenID = is_TokenID resp, rq_UserID = [], rq_Reason = []\<rparr> (150 * second) (snd sample_issued)"
  have b': "bk_Revocations (snd sample_issued) = NewMemoryRevocations"
    "bk_Authenticator (snd sample_issued) = bk_Authenticator sample_broker"
    using issueFor_frame [of broker_env one_key sample_broker_rnd "''u''" "[]" two_channels sample_broker]
    by (simp_all add: i) (simp add: sample_broker_def)
  have "is_TokenID resp \<noteq> []"
    using issueFor_Ok [OF i pre(2)] pre(6) by (metis length_hex_encode length_0_conv mult_is_0 numeral_neq_zero tb_newTokenID_def)
  then have rev: "?rev = (None, snd ?rev)"
    using b' sample_broker_facts(6) by (simp add: tb_Revoke_def MemoryRevocations_ops_def mr_Revoke_def)
  from revoking_token_id_is_ineffective [OF sample_broker_facts(1-4) pre(1) i pre(2-8) rev]
  obtain c where "verify_env broker_env one_key 0 (is_Token resp) TypeAccess (200 * second) = Ok c"
    "tb_IsRevoked MemoryRevocations_ops (cl_JTI c) (cl_Sub c) (IssuedAt c) (200 * second) (bk_Revocations (snd ?rev)) = Ok False"
    by (auto simp: b' tb_IsRevoked_def MemoryRevocations_ops_def mr_IsRevoked_def mr_IsUserRevoked_def NewMemoryRevocations_def)
  with i rev show ?thesis by blast
qed

end
