(* ===== verification/Subscribe.thy ===== *)
theory Subscribe
  imports FacadeLimits ChannelManager TokenBroker
begin

text \<open>
  Who may subscribe: \<^verbatim>\<open>src/auth/subscribe_authorizer.go\<close> and the authorizer that
  \<^verbatim>\<open>parsec.New\<close> installs in the broker (\<^verbatim>\<open>src/parsec.go\<close>, lines 460 to 503).

  The verifier is a function of the token and the clock; the authorizer of the facade reads the
  clock twice, once to verify the token and once to verify it again for the revocation check.
\<close>

definition MapErr :: "go_error \<Rightarrow> go_error" where
  "MapErr err =
     (if err = ErrExpired then err_Wrap AuthExpired ''token expired'' err
      else if err = ErrTypeMismatch \<or> err = ErrChannelMismatch then err_Wrap AuthDenied ''token not authorized'' err
      else err_Wrap AuthDenied ''token verification failed'' err)"

definition mapVerifyError :: "go_error \<Rightarrow> go_error" where
  "mapVerifyError err = MapErr err"

text \<open>A gate moves the state \<open>p\<close> of whatever it charges; the verifier is applied to token and type.\<close>

definition NewSubscribeAuthorizerWithGate ::
  "(string \<Rightarrow> token_type \<Rightarrow> Claims result) \<Rightarrow> (string \<Rightarrow> chan_name \<Rightarrow> 'p \<Rightarrow> go_error option \<times> 'p) option \<Rightarrow>
   string \<Rightarrow> chan_name \<Rightarrow> string \<Rightarrow> 'p \<Rightarrow> go_error option \<times> 'p" where
  "NewSubscribeAuthorizerWithGate v gate userID ch token p =
     (case (case gate of None \<Rightarrow> (None, p) | Some g \<Rightarrow> g userID ch p) of
        (Some err, p) \<Rightarrow> (Some err, p)
      | (None, p) \<Rightarrow>
          if \<not> IsPrivate ch then (None, p)
          else if token = [] then
            (Some (err_New AuthDenied ''private channel subscribe requires an access token''), p)
          else
            case v token TypeAccess of
              Err err \<Rightarrow> (Some (mapVerifyError err), p)
            | Ok claims \<Rightarrow>
                if \<not> fst (claims_Authorizes (name_String ch) VerbSubscribe claims) then
                  (Some (err_New AuthDenied ''token does not authorize this channel''), p)
                else (None, p))"

definition NewSubscribeAuthorizer ::
  "(string \<Rightarrow> token_type \<Rightarrow> Claims result) \<Rightarrow> string \<Rightarrow> chan_name \<Rightarrow> string \<Rightarrow> 'p \<Rightarrow> go_error option \<times> 'p" where
  "NewSubscribeAuthorizer v = NewSubscribeAuthorizerWithGate v None"

definition limiter_gate ::
  "'l limiter_ops \<Rightarrow> go_error option \<Rightarrow> go_time \<Rightarrow> string \<Rightarrow> chan_name \<Rightarrow> 'l \<Rightarrow> go_error option \<times> 'l" where
  "limiter_gate ops ctx now userID ch l =
     (if userID = [] then (None, l)
      else
        let key = BucketSubscribe @ '':'' @ userID in
        case lo_Allow ops ctx key 1 now l of
          (Err err, l) \<Rightarrow> (Some (err_Wrap Internal ''rate limiter error'' err), l)
        | (Ok dec, l) \<Rightarrow>
            if \<not> d_Allowed dec then (Some (err_New RateLimited ''subscribe rate limit exceeded''), l) else (None, l))"

text \<open>Over the limiter, or over nothing when there is none.\<close>

definition NewSubscribeAuthorizerWithLimiter ::
  "'l limiter_ops \<Rightarrow> Limit \<Rightarrow> (string \<Rightarrow> token_type \<Rightarrow> Claims result) \<Rightarrow> go_error option \<Rightarrow> go_time \<Rightarrow>
   string \<Rightarrow> chan_name \<Rightarrow> string \<Rightarrow> 'l option \<Rightarrow> go_error option \<times> 'l option" where
  "NewSubscribeAuthorizerWithLimiter ops defaultLimit v ctx now userID ch token limiter =
     (case limiter of
        None \<Rightarrow> NewSubscribeAuthorizerWithGate v None userID ch token limiter
      | Some l \<Rightarrow>
          if Unlimited defaultLimit then NewSubscribeAuthorizerWithGate v None userID ch token limiter
          else map_prod id Some (NewSubscribeAuthorizerWithGate v (Some (limiter_gate ops ctx now)) userID ch token l))"

subsection \<open>The authorizer of the facade\<close>

definition verifier_at :: "auth_env \<Rightarrow> KeyRing \<Rightarrow> duration \<Rightarrow> go_time \<Rightarrow> string \<Rightarrow> token_type \<Rightarrow> Claims result" where
  "verifier_at env ring leeway now token expected = verify_env env ring leeway token expected now"

text \<open>The revocation check on a token that was just verified.\<close>

definition check_revoked :: "'r revocation_ops \<Rightarrow> Claims \<Rightarrow> go_time \<Rightarrow> 'r \<Rightarrow> go_error option" where
  "check_revoked ops claims now revs =
     (case (if cl_JTI claims \<noteq> [] then vo_IsRevoked ops (cl_JTI claims) now revs else Ok False) of
        Err err \<Rightarrow> Some (err_Wrap Internal ''revocation check error'' err)
      | Ok True \<Rightarrow> Some (err_New AuthDenied ''token has been revoked'')
      | Ok False \<Rightarrow>
          if cl_Sub claims \<noteq> [] then
            let issuedAt = cl_Iat claims * second in
            case vo_IsUserRevoked ops (cl_Sub claims) issuedAt now revs of
              Err err \<Rightarrow> Some (err_Wrap Internal ''revocation check error'' err)
            | Ok True \<Rightarrow> Some (err_New AuthDenied ''user tokens have been revoked'')
            | Ok False \<Rightarrow> None
          else None)"

definition SubscribeAuthorizer ::
  "'s store_ops \<Rightarrow> 'l limiter_ops \<Rightarrow> 'r revocation_ops \<Rightarrow> auth_env \<Rightarrow> KeyRing \<Rightarrow> duration \<Rightarrow> 's manager \<Rightarrow> 'r option \<Rightarrow>
   go_error option \<Rightarrow> go_time \<Rightarrow> go_time \<Rightarrow> string \<Rightarrow> chan_name \<Rightarrow> string \<Rightarrow> 'l limits \<Rightarrow> go_error option \<times> 'l limits" where
  "SubscribeAuthorizer sops lops vops env ring leeway manager revStore ctx now1 now2 userID ch token p =
     (if \<not> mgr_IsOpen sops ch manager then (Some (err_New ChannelClosed ''channel not open''), p)
      else
        case NewSubscribeAuthorizerWithGate (verifier_at env ring leeway now1)
               (Some (\<lambda>uid ch. subscribe_gate lops ctx uid ch now1)) userID ch token p of
          (Some err, p) \<Rightarrow> (Some err, p)
        | (None, p) \<Rightarrow>
            (case revStore of
               None \<Rightarrow> (None, p)
             | Some revs \<Rightarrow>
                 if \<not> IsPrivate ch \<or> token = [] then (None, p)
                 else
                   case verifier_at env ring leeway now2 token TypeAccess of
                     Err err \<Rightarrow> (Some (MapErr err), p)
                   | Ok claims \<Rightarrow> (check_revoked vops claims now2 revs, p)))"

subsection \<open>When a subscribe passes\<close>

lemma gate_authorizer_None:
  "fst (NewSubscribeAuthorizerWithGate v gate userID ch token p) = None \<longleftrightarrow>
     (case gate of None \<Rightarrow> True | Some g \<Rightarrow> fst (g userID ch p) = None) \<and>
     (IsPrivate ch \<longrightarrow> token \<noteq> [] \<and>
       (\<exists>c. v token TypeAccess = Ok c \<and> fst (claims_Authorizes (name_String ch) VerbSubscribe c)))"
  by (auto simp: NewSubscribeAuthorizerWithGate_def split: option.splits prod.splits sum.splits)

lemma check_revoked_None:
  "check_revoked ops c now revs = None \<longleftrightarrow>
     (cl_JTI c \<noteq> [] \<longrightarrow> vo_IsRevoked ops (cl_JTI c) now revs = Ok False) \<and>
     (cl_Sub c \<noteq> [] \<longrightarrow> vo_IsUserRevoked ops (cl_Sub c) (IssuedAt c) now revs = Ok False)"
  by (auto simp: check_revoked_def IssuedAt_def Let_def split: sum.split bool.split)

lemma SubscribeAuthorizer_None:
  "fst (SubscribeAuthorizer sops lops vops env ring leeway manager revStore ctx now1 now2 userID ch token p) = None \<longleftrightarrow>
     mgr_IsOpen sops ch manager \<and> fst (subscribe_gate lops ctx userID ch now1 p) = None \<and>
     (IsPrivate ch \<longrightarrow> token \<noteq> [] \<and>
       (\<exists>c. verify_env env ring leeway token TypeAccess now1 = Ok c \<and>
         fst (claims_Authorizes (name_String ch) VerbSubscribe c)) \<and>
       (\<forall>revs. revStore = Some revs \<longrightarrow>
         (\<exists>c. verify_env env ring leeway token TypeAccess now2 = Ok c \<and> check_revoked vops c now2 revs = None)))"
  using gate_authorizer_None [of "verifier_at env ring leeway now1" "Some (\<lambda>uid ch. subscribe_gate lops ctx uid ch now1)"
      userID ch token p]
  by (auto simp: SubscribeAuthorizer_def verifier_at_def split: option.splits prod.splits sum.splits)


text \<open>
  Revocation reaches the subscribers: once the \<^verbatim>\<open>jti\<close> of a token, or its user, has been
  revoked, no subscribe to a private channel passes with that token for as long as the store keeps
  the revocation, whatever rate limits, channels and scopes there are.
\<close>

theorem revoked_cannot_subscribe:
  assumes "IsPrivate ch" and "verify_env env ring leeway token TypeAccess now2 = Ok c"
    and "cl_JTI c \<noteq> [] \<and> mr_Revoke (cl_JTI c) u why t revs = (None, revs') \<or>
      cl_Sub c \<noteq> [] \<and> IssuedAt c \<le> t \<and> mr_RevokeAllForUser (cl_Sub c) t revs = (None, revs')"
    and "time_Sub now2 t \<le> mr_maxTTL revs"
  shows "fst (SubscribeAuthorizer sops lops MemoryRevocations_ops env ring leeway manager (Some revs') ctx now1 now2 userID ch token p) \<noteq> None"
proof -
  have "check_revoked MemoryRevocations_ops c now2 revs' \<noteq> None"
    using assms(3)
  proof
    assume asm: "cl_JTI c \<noteq> [] \<and> mr_Revoke (cl_JTI c) u why t revs = (None, revs')"
    then have "vo_IsRevoked MemoryRevocations_ops (cl_JTI c) now2 revs' = Ok True"
      using mem_rev.revoked_now [of "cl_JTI c" u why t revs revs' "cl_JTI c" now2] assms(4)
      by (simp add: lapsed_def) (simp add: MemoryRevocations_ops_def)
    with asm show ?thesis by (simp add: check_revoked_None)
  next
    assume asm: "cl_Sub c \<noteq> [] \<and> IssuedAt c \<le> t \<and> mr_RevokeAllForUser (cl_Sub c) t revs = (None, revs')"
    then have "vo_IsUserRevoked MemoryRevocations_ops (cl_Sub c) (IssuedAt c) now2 revs' = Ok True"
      using mem_rev.user_revoked_now [of "cl_Sub c" t revs revs' "cl_Sub c" "IssuedAt c" now2] assms(4)
      by (simp add: lapsed_def) (simp add: MemoryRevocations_ops_def)
    with asm show ?thesis by (simp add: check_revoked_None)
  qed
  with assms(1,2) show ?thesis by (auto simp: SubscribeAuthorizer_None)
qed

lemma sample_access_token:
  obtains tok where "verify_env sample_env one_key 0 tok TypeAccess (200 * second) = Ok (pair_claims TypeAccess 400 (b64_encode ''aaa'') [])"
    "tok \<noteq> []"
proof -
  define c where "c = pair_claims TypeAccess 400 (b64_encode ''aaa'') []"
  have c: "type_Valid (cl_Typ c) = None" "0 < cl_Iat c" "cl_Iat c < cl_Exp c" "claims_ascii c" "cl_Typ c = TypeAccess"
    "IssuedAt c \<le> 200 * second" "200 * second \<le> ExpiresAt c" "strip_claims c = c"
    using ascii_b64 [of "''aaa''"] unfolding c_def
    by (simp_all del: b64_encode.simps add: pair_claims_def type_Valid_def claims_ascii_def IssuedAt_def ExpiresAt_def strip_claims_def)
      (simp add: ascii_def)
  obtain tok where tok: "sign_env sample_env [] one_key c = Ok tok"
    unfolding sample_env_def by (rule toy_sign [OF _ c(1-3)]) (auto simp del: b64_encode.simps simp: c_def)
  have run: "(ring_step (ae_kc sample_env) ed_only)\<^sup>*\<^sup>* NewKeyRing one_key"
    using one_key_reach by (simp add: sample_env_def toy_env_def)
  have "env_ok sample_env ed_only" by (simp add: sample_env_def toy_env_ok)
  from sign_env_verifies [OF ring_ok_reach [OF run] this one_key_ascii c(4) tok c(6,7)] c(5,8)
  have "verify_env sample_env one_key 0 tok TypeAccess (200 * second) = Ok c" by simp
  moreover have "tok \<noteq> []" using tok by (auto simp: sign_env_def elim!: Sign_Ok)
  ultimately show ?thesis by (intro that [of tok]) (simp_all only: c_def not_False_eq_True)
qed

definition sample_private :: chan_name where
  "sample_private = \<lparr>n_Visibility = VisibilityPrivate, n_App = ''a'', n_Domain = ''b'', n_ID = ''c'', n_Topic = []\<rparr>"

theorem revoked_cannot_subscribe_witness:
  "\<exists>token. verify_env sample_env one_key 0 token TypeAccess (200 * second) = Ok (pair_claims TypeAccess 400 (b64_encode ''aaa'') []) \<and>
     fst (SubscribeAuthorizer MemoryStore_ops MemoryLimiter_ops MemoryRevocations_ops sample_env one_key 0
       (snd (mgr_CreatePrivate MemoryStore_ops sample_private hour 0 NewManager))
       (Some (snd (mr_RevokeAllForUser ''u'' (150 * second) NewMemoryRevocations))) None (200 * second) (200 * second)
       ''u'' sample_private token sample_limits) \<noteq> None"
proof -
  obtain tok where tok: "verify_env sample_env one_key 0 tok TypeAccess (200 * second) = Ok (pair_claims TypeAccess 400 (b64_encode ''aaa'') [])"
    by (rule sample_access_token)
  let ?r = "mr_RevokeAllForUser ''u'' (150 * second) NewMemoryRevocations"
  have "IsPrivate sample_private" by (simp add: IsPrivate_def sample_private_def go_simps)
  moreover have "cl_Sub (pair_claims TypeAccess 400 (b64_encode ''aaa'') []) \<noteq> [] \<and>
    IssuedAt (pair_claims TypeAccess 400 (b64_encode ''aaa'') []) \<le> 150 * second \<and>
    mr_RevokeAllForUser (cl_Sub (pair_claims TypeAccess 400 (b64_encode ''aaa'') [])) (150 * second) NewMemoryRevocations = (None, snd ?r)"
    by (simp add: pair_claims_def IssuedAt_def mr_RevokeAllForUser_def)
  moreover have "time_Sub (200 * second) (150 * second) \<le> mr_maxTTL NewMemoryRevocations"
    by (simp add: time_Sub_def NewMemoryRevocations_def go_simps)
  ultimately show ?thesis using revoked_cannot_subscribe [OF _ tok] tok by blast
qed

end
