(* ===== verification/Facade.thy ===== *)
theory Facade
  imports ChannelManager Issuer RefreshStore Subscribe
begin

text \<open>
  The library facade of \<^verbatim>\<open>src/parsec.go\<close>: opening and creating channels, refreshing tokens with
  rotation and reuse detection, publishing.

  The state holds what these operations touch.  \<open>clk\<close> gives the clock readings of one call in
  their order: verifying the token, the three calls of the refresh store, issuing.  The message
  broker wraps a third-party node and is a parameter: a state and its publish and presence calls.
\<close>

record ('s, 'f) parsec =
  ps_manager :: "'s manager"
  ps_ring :: KeyRing
  ps_issuer :: Issuer
  ps_leeway :: duration
  ps_refreshStore :: "'f option"
  ps_refreshes :: "string list"

record Credentials =
  cr_Name :: chan_name
  cr_AccessToken :: string
  cr_RefreshToken :: string
  cr_AccessExpires :: go_time
  cr_RefreshExpires :: go_time

record RefreshResult =
  rr_AccessToken :: string
  rr_AccessExpires :: go_time
  rr_RefreshToken :: string
  rr_RefreshExpires :: go_time
  rr_Rotated :: bool

definition ps_OpenPublic ::
  "'s store_ops \<Rightarrow> string \<Rightarrow> duration \<Rightarrow> go_time \<Rightarrow> ('s, 'f) parsec \<Rightarrow> channel result \<times> ('s, 'f) parsec" where
  "ps_OpenPublic sops name ttl now p =
     (case ParseName name of
        Err err \<Rightarrow> (Err err, p)
      | Ok n \<Rightarrow> (case mgr_OpenPublic sops n ttl now (ps_manager p) of (r, m) \<Rightarrow> (r, p\<lparr>ps_manager := m\<rparr>)))"

definition ps_CreatePrivate ::
  "'s store_ops \<Rightarrow> auth_env \<Rightarrow> issue_rnd \<Rightarrow> string \<Rightarrow> string \<Rightarrow> duration \<Rightarrow> Scope list \<Rightarrow> go_time \<Rightarrow> ('s, 'f) parsec \<Rightarrow>
   Credentials result \<times> ('s, 'f) parsec" where
  "ps_CreatePrivate sops env rnd subjectID name ttl scopes now p =
     (case ParseName name of
        Err err \<Rightarrow> (Err err, p)
      | Ok n \<Rightarrow>
          (case mgr_CreatePrivate sops n ttl now (ps_manager p) of
             (Err err, m) \<Rightarrow> (Err err, p\<lparr>ps_manager := m\<rparr>)
           | (Ok ch, m) \<Rightarrow>
               (case IssuePair env (ps_issuer p) (ps_ring p) rnd subjectID (name_String n) (c_TTL ch) scopes now of
                  Err err \<Rightarrow>
                    (Err (err_Wrap InvalidArgument ''issue token pair with scopes'' err),
                     p\<lparr>ps_manager := snd (mgr_Delete sops n now m)\<rparr>)
                | Ok pair \<Rightarrow>
                    (Ok \<lparr>cr_Name = n, cr_AccessToken = pr_AccessToken pair, cr_RefreshToken = pr_RefreshToken pair,
                        cr_AccessExpires = pr_AccessExpires pair, cr_RefreshExpires = pr_RefreshExpires pair\<rparr>,
                     p\<lparr>ps_manager := m\<rparr>))))"

definition recordRefresh :: "string \<Rightarrow> ('s, 'f) parsec \<Rightarrow> ('s, 'f) parsec" where
  "recordRefresh result p = p\<lparr>ps_refreshes := ps_refreshes p @ [result]\<rparr>"

text \<open>
  The gate of the refresh store: the family first, then the redemption; a reuse revokes the
  family.  \<open>None\<close> lets the refresh pass.
\<close>

definition redeem_gate ::
  "'f refresh_ops \<Rightarrow> (nat \<Rightarrow> go_time) \<Rightarrow> Claims \<Rightarrow> ('s, 'f) parsec \<Rightarrow> go_error option \<times> ('s, 'f) parsec" where
  "redeem_gate rops clk claims p =
     (case ps_refreshStore p of
        None \<Rightarrow> (None, p)
      | Some s \<Rightarrow>
          (case ro_IsFamilyRevoked rops (cl_FID claims) (clk 1) s of
             (Err err, s) \<Rightarrow> (Some (err_Wrap Internal ''refresh store family check'' err), p\<lparr>ps_refreshStore := Some s\<rparr>)
           | (Ok revoked, s) \<Rightarrow>
               if revoked then
                 (Some (err_New AuthDenied ''refresh family revoked''),
                  recordRefresh ''family_revoked'' (p\<lparr>ps_refreshStore := Some s\<rparr>))
               else
                 (case ro_MarkRedeemed rops (cl_JTI claims) (ExpiresAt claims) (clk 2) s of
                    (None, s) \<Rightarrow> (None, p\<lparr>ps_refreshStore := Some s\<rparr>)
                  | (Some err, s) \<Rightarrow>
                      if err = ErrRefreshReused then
                        (case ro_RevokeFamily rops (cl_FID claims) (ExpiresAt claims) (clk 3) s of
                           (Some rerr, s) \<Rightarrow> (Some (err_Wrap Internal ''revoke leaked family'' rerr), p\<lparr>ps_refreshStore := Some s\<rparr>)
                         | (None, s) \<Rightarrow>
                             (Some (err_New AuthDenied ''refresh token already redeemed; family revoked''),
                              recordRefresh ''reused'' (p\<lparr>ps_refreshStore := Some s\<rparr>)))
                      else (Some (err_Wrap Internal ''refresh store redeem'' err), p\<lparr>ps_refreshStore := Some s\<rparr>))))"

definition RefreshAccessCtx ::
  "'s store_ops \<Rightarrow> 'f refresh_ops \<Rightarrow> auth_env \<Rightarrow> issue_rnd \<Rightarrow> (nat \<Rightarrow> go_time) \<Rightarrow> string \<Rightarrow> ('s, 'f) parsec \<Rightarrow>
   RefreshResult result \<times> ('s, 'f) parsec" where
  "RefreshAccessCtx sops rops env rnd clk refreshToken p =
     (case verify_env env (ps_ring p) (ps_leeway p) refreshToken TypeRefresh (clk 0) of
        Err err \<Rightarrow> (Err (MapErr err), p)
      | Ok claims \<Rightarrow>
          if length (cl_Chs claims) \<noteq> 1 then (Err (err_New AuthDenied ''refresh token has no channel scope''), p)
          else case ParseName (cl_Chs claims ! 0) of
            Err err \<Rightarrow> (Err (err_Wrap AuthDenied ''refresh channel invalid'' err), p)
          | Ok name \<Rightarrow>
              (case mgr_Get sops name (ps_manager p) of
                 Err err \<Rightarrow> (Err err, p)
               | Ok ch \<Rightarrow>
                   if c_State ch \<noteq> StateOpen then (Err (err_New ChannelClosed ''channel is not open''), p)
                   else if cl_JTI claims = [] then
                     (case IssueAccess env (ps_issuer p) (ps_ring p) rnd (cl_Sub claims) (cl_Chs claims ! 0)
                             (ExpiresAt claims) (cl_Scopes claims) (clk 4) of
                        Err err \<Rightarrow> (Err (err_Wrap AuthDenied ''issue access from refresh'' err), p)
                      | Ok (access, exp) \<Rightarrow>
                          (Ok \<lparr>rr_AccessToken = access, rr_AccessExpires = exp, rr_RefreshToken = [],
                              rr_RefreshExpires = zero_time, rr_Rotated = False\<rparr>, recordRefresh ''legacy'' p))
                   else
                     (case redeem_gate rops clk claims p of
                        (Some err, p) \<Rightarrow> (Err err, p)
                      | (None, p) \<Rightarrow>
                          (case IssueRotatedPair env (ps_issuer p) (ps_ring p) rnd (cl_Sub claims) (cl_Chs claims ! 0)
                                  (cl_FID claims) (c_TTL ch) (cl_Scopes claims) (clk 4) of
                             Err err \<Rightarrow> (Err (err_Wrap AuthDenied ''issue rotated pair'' err), p)
                           | Ok pair \<Rightarrow>
                               (Ok \<lparr>rr_AccessToken = pr_AccessToken pair, rr_AccessExpires = pr_AccessExpires pair,
                                   rr_RefreshToken = pr_RefreshToken pair, rr_RefreshExpires = pr_RefreshExpires pair,
                                   rr_Rotated = True\<rparr>, recordRefresh ''rotated'' p)))))"

text \<open>\<^verbatim>\<open>RefreshAccess\<close> is the call without a context; the stores modelled here do not read it.\<close>

record 'b broker_ops =
  bo_Publish :: "chan_name \<Rightarrow> bytes \<Rightarrow> bool \<Rightarrow> 'b \<Rightarrow> (int \<times> string) result \<times> 'b"
  bo_Presence :: "chan_name \<Rightarrow> 'b \<Rightarrow> int result"

definition ps_Publish ::
  "'s store_ops \<Rightarrow> 'b broker_ops \<Rightarrow> string \<Rightarrow> bytes \<Rightarrow> go_time \<Rightarrow> ('s, 'f) parsec \<Rightarrow> 'b \<Rightarrow>
   (int \<times> string) result \<times> ('s, 'f) parsec \<times> 'b" where
  "ps_Publish sops bops name data now p b =
     (case ParseName name of
        Err err \<Rightarrow> (Err err, p, b)
      | Ok n \<Rightarrow>
          (case mgr_Get sops n (ps_manager p) of
             Err err \<Rightarrow> (Err err, p, b)
           | Ok ch \<Rightarrow>
               (case bo_Publish bops n data (c_DeltaEnabled ch) b of
                  (Err err, b) \<Rightarrow> (Err err, p, b)
                | (Ok res, b) \<Rightarrow> (Ok res, p\<lparr>ps_manager := snd (mgr_Touch sops n now (ps_manager p))\<rparr>, b))))"

text \<open>A registered sink is a function of recipient and message; the answer says whether it was used.\<close>

definition ps_PublishOrSink ::
  "'s store_ops \<Rightarrow> 'b broker_ops \<Rightarrow> (string \<Rightarrow> ('r \<Rightarrow> 'm \<Rightarrow> go_error option) option) \<Rightarrow> string \<Rightarrow> bytes \<Rightarrow> string \<Rightarrow> 'r \<Rightarrow> 'm \<Rightarrow>
   go_time \<Rightarrow> ('s, 'f) parsec \<Rightarrow> 'b \<Rightarrow> (bool \<times> go_error option) \<times> ('s, 'f) parsec \<times> 'b" where
  "ps_PublishOrSink sops bops sinks name data sinkName to msg now p b =
     (case ParseName name of
        Err err \<Rightarrow> ((False, Some err), p, b)
      | Ok n \<Rightarrow>
          (case bo_Presence bops n b of
             Err err \<Rightarrow> ((False, Some err), p, b)
           | Ok presence \<Rightarrow>
               if presence > 0 then
                 let delta = (case mgr_Get sops n (ps_manager p) of Ok ch \<Rightarrow> c_DeltaEnabled ch | Err _ \<Rightarrow> False) in
                 (case bo_Publish bops n data delta b of
                    (Err err, b) \<Rightarrow> ((False, Some err), p, b)
                  | (Ok res, b) \<Rightarrow> ((False, None), p\<lparr>ps_manager := snd (mgr_Touch sops n now (ps_manager p))\<rparr>, b))
               else
                 (case sinks sinkName of
                    None \<Rightarrow> ((False, Some (err_New SinkConfig (''unknown sink: '' @ sinkName))), p, b)
                  | Some s \<Rightarrow> ((True, s to msg), p, b))))"

subsection \<open>Refreshing\<close>

text \<open>A refresh of a rotating token for an open channel, reduced to the gate and the issuer.\<close>

definition refreshable :: "'s store_ops \<Rightarrow> auth_env \<Rightarrow> ('s, 'f) parsec \<Rightarrow> go_time \<Rightarrow> string \<Rightarrow> Claims \<Rightarrow> channel \<Rightarrow> bool" where
  "refreshable sops env p now tok c chan \<longleftrightarrow>
     verify_env env (ps_ring p) (ps_leeway p) tok TypeRefresh now = Ok c \<and> length (cl_Chs c) = 1 \<and> cl_JTI c \<noteq> [] \<and>
     (\<exists>n. ParseName (cl_Chs c ! 0) = Ok n \<and> mgr_Get sops n (ps_manager p) = Ok chan) \<and> c_State chan = StateOpen"

lemma RefreshAccessCtx_refreshable:
  assumes "refreshable sops env p (clk 0) tok c chan"
  shows "RefreshAccessCtx sops rops env rnd clk tok p =
    (case redeem_gate rops clk c p of
       (Some err, p) \<Rightarrow> (Err err, p)
     | (None, p) \<Rightarrow>
         (case IssueRotatedPair env (ps_issuer p) (ps_ring p) rnd (cl_Sub c) (cl_Chs c ! 0)
                 (cl_FID c) (c_TTL chan) (cl_Scopes c) (clk 4) of
            Err err \<Rightarrow> (Err (err_Wrap AuthDenied ''issue rotated pair'' err), p)
          | Ok pair \<Rightarrow>
              (Ok \<lparr>rr_AccessToken = pr_AccessToken pair, rr_AccessExpires = pr_AccessExpires pair,
                  rr_RefreshToken = pr_RefreshToken pair, rr_RefreshExpires = pr_RefreshExpires pair,
                  rr_Rotated = True\<rparr>, recordRefresh ''rotated'' p)))"
  using assms by (auto simp: RefreshAccessCtx_def refreshable_def)

lemma RefreshAccessCtx_rotated:
  assumes "RefreshAccessCtx sops rops env rnd clk tok p = (Ok res, p')" and "rr_Rotated res"
  obtains c chan where "refreshable sops env p (clk 0) tok c chan"
proof -
  obtain c where c: "verify_env env (ps_ring p) (ps_leeway p) tok TypeRefresh (clk 0) = Ok c"
    using assms(1) by (cases "verify_env env (ps_ring p) (ps_leeway p) tok TypeRefresh (clk 0)") (simp_all add: RefreshAccessCtx_def)
  have one: "length (cl_Chs c) = 1" using assms(1) c by (simp add: RefreshAccessCtx_def split: if_splits)
  obtain n where n: "ParseName (cl_Chs c ! 0) = Ok n"
    using assms(1) c one by (cases "ParseName (cl_Chs c ! 0)") (simp_all add: RefreshAccessCtx_def)
  obtain chan where chan: "mgr_Get sops n (ps_manager p) = Ok chan"
    using assms(1) c one n by (cases "mgr_Get sops n (ps_manager p)") (simp_all add: RefreshAccessCtx_def)
  have "c_State chan = StateOpen" using assms(1) c one n chan by (simp add: RefreshAccessCtx_def split: if_splits)
  moreover have "cl_JTI c \<noteq> []"
    using assms calculation c one n chan by (auto simp: RefreshAccessCtx_def split: sum.splits)
  ultimately have "refreshable sops env p (clk 0) tok c chan" using c one n chan by (simp add: refreshable_def)
  then show ?thesis by (rule that)
qed

context refresh_store
begin

text \<open>The gate over any store that keeps the contract.\<close>

lemma gate_pass:
  assumes "inv s" "ps_refreshStore p = Some s" "redeem_gate ops clk c p = (None, p')" "clk 2 < ExpiresAt c"
  obtains s1 where "ps_refreshStore p' = Some s1" "inv s1" "counting (clk 2) (redeemed s1) (cl_JTI c) = Some (ExpiresAt c)"
proof -
  obtain r s0 where is': "ro_IsFamilyRevoked ops (cl_FID c) (clk 1) s = (Ok r, s0)" and inv0: "inv s0"
    using Is [OF assms(1), of "cl_FID c" "clk 1"] Is_inv [OF assms(1), of "cl_FID c" "clk 1"]
    by (cases "ro_IsFamilyRevoked ops (cl_FID c) (clk 1) s") auto
  obtain e s1 where m: "ro_MarkRedeemed ops (cl_JTI c) (ExpiresAt c) (clk 2) s0 = (e, s1)" by fastforce
  have "e = None" "p' = p\<lparr>ps_refreshStore := Some s1\<rparr>"
    using assms(2,3) is' m by (auto simp: redeem_gate_def split: if_splits option.splits prod.splits)
  moreover from this m have "counting (clk 2) (redeemed s0) (cl_JTI c) = None"
    using Mark_reused [OF inv0 assms(4), of "cl_JTI c"] by (cases "counting (clk 2) (redeemed s0) (cl_JTI c)") auto
  with Mark_fresh [OF inv0 assms(4), of "cl_JTI c"] Mark_inv [OF inv0, of "cl_JTI c" "ExpiresAt c" "clk 2"] m
  have "inv s1" "counting (clk 2) (redeemed s1) (cl_JTI c) = Some (ExpiresAt c)" by auto
  ultimately show ?thesis using that by simp
qed

lemma gate_revoked:
  assumes "inv s" "ps_refreshStore p = Some s" "counting (clk 1) (revoked s) (cl_FID c) = Some e"
  shows "fst (redeem_gate ops clk c p) = Some (err_New AuthDenied ''refresh family revoked'')"
  using Is [OF assms(1), of "cl_FID c" "clk 1"] assms(2,3)
  by (cases "ro_IsFamilyRevoked ops (cl_FID c) (clk 1) s") (simp add: redeem_gate_def)

lemma gate_reused:
  assumes "inv s" "ps_refreshStore p = Some s" "counting (clk 1) (redeemed s) (cl_JTI c) = Some e" "clk 2 < e"
    and "clk 1 \<le> clk 2" "clk 2 \<le> clk 3" "clk 3 < ExpiresAt c"
    and "counting (clk 1) (revoked s) (cl_FID c) = None"
  obtains p' s3 e' where "redeem_gate ops clk c p = (Some (err_New AuthDenied ''refresh token already redeemed; family revoked''), p')"
    and "ps_refreshStore p' = Some s3" "inv s3" "counting (clk 3) (revoked s3) (cl_FID c) = Some e'" "ExpiresAt c \<le> e'"
proof -
  obtain s0 where is': "ro_IsFamilyRevoked ops (cl_FID c) (clk 1) s = (Ok False, s0)" and inv0: "inv s0"
    and same: "counting (clk 1) (redeemed s0) = counting (clk 1) (redeemed s)"
    using Is [OF assms(1), of "cl_FID c" "clk 1"] Is_inv [OF assms(1), of "cl_FID c" "clk 1"]
      Is_same [OF assms(1), of "clk 1" "cl_FID c"] assms(8)
    by (cases "ro_IsFamilyRevoked ops (cl_FID c) (clk 1) s") auto
  have "counting (clk 1) (redeemed s0) (cl_JTI c) = Some e" using same assms(3) by simp
  then have "counting (clk 2) (redeemed s0) (cl_JTI c) \<noteq> None" using assms(4,5) by (auto simp: counting_Some)
  moreover have "clk 2 < ExpiresAt c" using assms(6,7) by simp
  ultimately have "fst (ro_MarkRedeemed ops (cl_JTI c) (ExpiresAt c) (clk 2) s0) = Some ErrRefreshReused"
    using Mark_reused [OF inv0, of "clk 2" "ExpiresAt c" "cl_JTI c"] by blast
  then obtain s1 where m: "ro_MarkRedeemed ops (cl_JTI c) (ExpiresAt c) (clk 2) s0 = (Some ErrRefreshReused, s1)" "inv s1"
    using Mark_inv [OF inv0, of "cl_JTI c" "ExpiresAt c" "clk 2"] by (metis prod.collapse)
  obtain s3 where r: "ro_RevokeFamily ops (cl_FID c) (ExpiresAt c) (clk 3) s1 = (None, s3)" and inv3: "inv s3"
    using Revoke_ok [OF m(2)] Revoke_inv [OF m(2)] by (metis prod.collapse)
  define e' where "e' = later_of (counting (clk 3) (revoked s1) (cl_FID c)) (ExpiresAt c)"
  have "ExpiresAt c \<le> e'" "counting (clk 3) (revoked s3) (cl_FID c) = Some e'"
    using Revoke [OF m(2), of "clk 3" "cl_FID c" "ExpiresAt c"] assms(7) later_of_ge by (simp_all add: e'_def r)
  moreover have "redeem_gate ops clk c p = (Some (err_New AuthDenied ''refresh token already redeemed; family revoked''),
      recordRefresh ''reused'' (p\<lparr>ps_refreshStore := Some s3\<rparr>))"
    using assms(2) is' m r by (simp add: redeem_gate_def)
  ultimately show ?thesis using that inv3 by (simp add: recordRefresh_def)
qed

end

text \<open>Presenting any token of a revoked family, whatever else holds.\<close>

lemma revoked_family_refused:
  assumes "rs_inv s" "ps_refreshStore p = Some s" "counting (clk 1) (map_of (rs_revoked s)) (cl_FID c) = Some e"
    and "verify_env env (ps_ring p) (ps_leeway p) tok TypeRefresh (clk 0) = Ok c" "cl_JTI c \<noteq> []"
  shows "isl (fst (RefreshAccessCtx sops MemoryRefreshStore_ops env rnd clk tok p))"
proof (rule ccontr)
  assume "\<not> ?thesis"
  then obtain res p' where ok: "RefreshAccessCtx sops MemoryRefreshStore_ops env rnd clk tok p = (Ok res, p')"
    by (metis isl_def obj_sumE prod.collapse)
  have "rr_Rotated res" using ok assms(4,5) by (auto simp: RefreshAccessCtx_def split: if_splits sum.splits option.splits prod.splits)
  with ok obtain c' chan where r: "refreshable sops env p (clk 0) tok c' chan" by (rule RefreshAccessCtx_rotated)
  then have "c' = c" using assms(4) by (simp add: refreshable_def)
  with r ok mem_refresh.gate_revoked [OF assms(1,2), of clk c e] assms(3) show False
    by (cases "redeem_gate MemoryRefreshStore_ops clk c p") (simp add: RefreshAccessCtx_refreshable)
qed

text \<open>A refresh touches the store and the metrics alone.\<close>

lemma RefreshAccessCtx_frame:
  "ps_manager (snd (RefreshAccessCtx sops rops env rnd clk tok p)) = ps_manager p"
  "ps_ring (snd (RefreshAccessCtx sops rops env rnd clk tok p)) = ps_ring p"
  "ps_issuer (snd (RefreshAccessCtx sops rops env rnd clk tok p)) = ps_issuer p"
  "ps_leeway (snd (RefreshAccessCtx sops rops env rnd clk tok p)) = ps_leeway p"
proof -
  have gate: "ps_manager (snd (redeem_gate rops clk c p)) = ps_manager p" "ps_ring (snd (redeem_gate rops clk c p)) = ps_ring p"
    "ps_issuer (snd (redeem_gate rops clk c p)) = ps_issuer p" "ps_leeway (snd (redeem_gate rops clk c p)) = ps_leeway p" for c
    by (simp_all add: redeem_gate_def recordRefresh_def split: option.split sum.split prod.split)
  show "ps_manager (snd (RefreshAccessCtx sops rops env rnd clk tok p)) = ps_manager p"
    "ps_ring (snd (RefreshAccessCtx sops rops env rnd clk tok p)) = ps_ring p"
    "ps_issuer (snd (RefreshAccessCtx sops rops env rnd clk tok p)) = ps_issuer p"
    "ps_leeway (snd (RefreshAccessCtx sops rops env rnd clk tok p)) = ps_leeway p"
    using gate by (auto simp: RefreshAccessCtx_def recordRefresh_def split: sum.split option.split prod.split) (metis snd_conv)+
qed

text \<open>
  The traffic of a running facade: refreshes with any token, the pruner of the refresh store, and
  every other operation, which may change all but the refresh store.  The clock does not run back.
\<close>

inductive traffic ::
  "'s store_ops \<Rightarrow> auth_env \<Rightarrow> go_time \<times> ('s, MemoryRefreshStore) parsec \<Rightarrow> go_time \<times> ('s, MemoryRefreshStore) parsec \<Rightarrow> bool"
  for sops env where
  refresh: "mono clk \<Longrightarrow> t \<le> clk 0 \<Longrightarrow>
    traffic sops env (t, p) (clk 4, snd (RefreshAccessCtx sops MemoryRefreshStore_ops env rnd clk tok p))"
| prune: "t \<le> t' \<Longrightarrow> ps_refreshStore p = Some s \<Longrightarrow>
    traffic sops env (t, p) (t', p\<lparr>ps_refreshStore := Some (pruneLocked t' s)\<rparr>)"
| other: "t \<le> t' \<Longrightarrow> ps_refreshStore p' = ps_refreshStore p \<Longrightarrow> traffic sops env (t, p) (t', p')"

text \<open>Each of them is, for the store, a sequence of calls.\<close>

lemma gate_steps:
  assumes "mono clk" "u \<le> clk 1" "ps_refreshStore p = Some s"
  shows "\<exists>u' s'. (refresh_step MemoryRefreshStore_ops)\<^sup>*\<^sup>* (u, s) (u', s') \<and> u' \<le> clk 4 \<and>
    ps_refreshStore (snd (redeem_gate MemoryRefreshStore_ops clk c p)) = Some s'"
proof -
  let ?ops = MemoryRefreshStore_ops
  obtain r s1 where is': "ro_IsFamilyRevoked ?ops (cl_FID c) (clk 1) s = (r, s1)" by fastforce
  obtain e s2 where mark: "ro_MarkRedeemed ?ops (cl_JTI c) (ExpiresAt c) (clk 2) s1 = (e, s2)" by fastforce
  obtain e' s3 where rev: "ro_RevokeFamily ?ops (cl_FID c) (ExpiresAt c) (clk 3) s2 = (e', s3)" by fastforce
  have le: "clk 1 \<le> clk 2" "clk 2 \<le> clk 3" "clk 3 \<le> clk 4" "clk 1 \<le> clk 4" "clk 2 \<le> clk 4"
    by (simp_all add: monoD [OF assms(1)])
  have st1: "refresh_step ?ops (u, s) (clk 1, s1)"
    using refresh_step.is_revoked [OF assms(2), of ?ops s "cl_FID c"] is' by simp
  have st2: "refresh_step ?ops (clk 1, s1) (clk 2, s2)"
    using refresh_step.mark [OF le(1), of ?ops s1 "cl_JTI c" "ExpiresAt c"] mark by simp
  have st3: "refresh_step ?ops (clk 2, s2) (clk 3, s3)"
    using refresh_step.revoke [OF le(2), of ?ops s2 "cl_FID c" "ExpiresAt c"] rev by simp
  have run: "(refresh_step ?ops)\<^sup>*\<^sup>* (u, s) (clk 1, s1)" "(refresh_step ?ops)\<^sup>*\<^sup>* (u, s) (clk 2, s2)"
    "(refresh_step ?ops)\<^sup>*\<^sup>* (u, s) (clk 3, s3)"
    using st1 st2 st3 by (meson r_into_rtranclp rtranclp_trans)+
  have "ps_refreshStore (snd (redeem_gate ?ops clk c p)) \<in> {Some s1, Some s2, Some s3}"
    using assms(3) is' mark rev by (auto simp: redeem_gate_def recordRefresh_def split: sum.split option.split)
  with run le show ?thesis by blast
qed

lemma refresh_steps:
  assumes "mono clk" "u \<le> clk 0" "ps_refreshStore p = Some s"
  shows "\<exists>u' s'. (refresh_step MemoryRefreshStore_ops)\<^sup>*\<^sup>* (u, s) (u', s') \<and> u' \<le> clk 4 \<and>
    ps_refreshStore (snd (RefreshAccessCtx sops MemoryRefreshStore_ops env rnd clk tok p)) = Some s'"
proof -
  let ?p' = "snd (RefreshAccessCtx sops MemoryRefreshStore_ops env rnd clk tok p)"
  have le: "u \<le> clk 1" "u \<le> clk 4"
    using assms(2) monoD [OF assms(1), of 0 1] monoD [OF assms(1), of 0 4] by auto
  have "ps_refreshStore ?p' = Some s \<or> (\<exists>c. ps_refreshStore ?p' = ps_refreshStore (snd (redeem_gate MemoryRefreshStore_ops clk c p)))"
    using assms(3) by (auto simp: RefreshAccessCtx_def recordRefresh_def split: sum.split option.split prod.split) (metis snd_conv)+
  with gate_steps [OF assms(1) le(1) assms(3)] le(2) show ?thesis by auto
qed

lemma prune_step: "\<exists>fid. snd (ro_IsFamilyRevoked MemoryRefreshStore_ops fid t s) = pruneLocked t s"
  by (auto simp: MemoryRefreshStore_ops_def rs_IsFamilyRevoked_def Let_def split: option.split)

lemma traffic_steps:
  assumes "(traffic sops env)\<^sup>*\<^sup>* c c'" "ps_refreshStore (snd c) = Some s" "u \<le> fst c"
  shows "\<exists>u' s'. (refresh_step MemoryRefreshStore_ops)\<^sup>*\<^sup>* (u, s) (u', s') \<and> u' \<le> fst c' \<and> ps_refreshStore (snd c') = Some s'"
  using assms
proof (induction rule: rtranclp_induct)
  case base
  then show ?case by blast
next
  case (step c' c'')
  then obtain u' s' where IH: "(refresh_step MemoryRefreshStore_ops)\<^sup>*\<^sup>* (u, s) (u', s')" "u' \<le> fst c'" "ps_refreshStore (snd c') = Some s'"
    by blast
  from step.hyps(2) show ?case
  proof cases
    case (refresh clk t p rnd tok)
    with IH refresh_steps [of clk u' p s' sops env rnd tok] show ?thesis by (auto intro: rtranclp_trans)
  next
    case (prune t t' p sp)
    from prune_step obtain fid where "snd (ro_IsFamilyRevoked MemoryRefreshStore_ops fid t' s') = pruneLocked t' s'" by blast
    moreover have "u' \<le> t'" "sp = s'" using prune IH by auto
    ultimately have "refresh_step MemoryRefreshStore_ops (u', s') (t', pruneLocked t' s')"
      using refresh_step.is_revoked [of u' t' MemoryRefreshStore_ops s' fid] by simp
    with IH(1) have "(refresh_step MemoryRefreshStore_ops)\<^sup>*\<^sup>* (u, s) (t', pruneLocked t' s')" by (rule rtranclp.rtrancl_into_rtrancl)
    with prune \<open>sp = s'\<close> show ?thesis by auto
  next
    case (other t t' p' p)
    with IH show ?thesis by force
  qed
qed


subsection \<open>A running example\<close>

definition life_claims :: "token_type \<Rightarrow> int \<Rightarrow> int \<Rightarrow> string \<Rightarrow> string \<Rightarrow> Limit option \<Rightarrow> Claims" where
  "life_claims ty iat exp jti fid rl = \<lparr>cl_Sub = ''u'', cl_Typ = ty, cl_Chs = [''private:a.b.c''], cl_Iat = iat, cl_Exp = exp,
     cl_RateLimitOverride = rl, cl_Scopes = [], cl_JTI = jti, cl_FID = fid\<rparr>"

text \<open>A refresh token issued at second 100 for half an hour, and the pair it is rotated to at second \<open>t\<close>.\<close>

definition first_refresh :: "Limit option \<Rightarrow> Claims" where
  "first_refresh rl = life_claims TypeRefresh 100 1900 ''j0'' ''f0'' rl"

definition life_env :: "Limit option \<Rightarrow> int \<Rightarrow> auth_env" where
  "life_env rl t = toy_env [first_refresh rl, life_claims TypeAccess t (t + 300) (b64_encode ''aaa'') [] None,
     life_claims TypeRefresh t (t + 1800) (b64_encode ''jjj'') ''f0'' None]"

definition life_channel :: channel where
  "life_channel = new_channel sample_private (30 * minute) (100 * second)"

definition life_parsec :: "MemoryRefreshStore \<Rightarrow> (MemoryStore, MemoryRefreshStore) parsec" where
  "life_parsec s = \<lparr>ps_manager = NewManagerWithStore \<lparr>ms_channels = [(''private:a.b.c'', life_channel)]\<rparr>,
     ps_ring = one_key, ps_issuer = NewIssuer, ps_leeway = 0, ps_refreshStore = Some s, ps_refreshes = []\<rparr>"

lemma life_name: "ParseName ''private:a.b.c'' = Ok sample_private" "name_String sample_private = ''private:a.b.c''"
  by code_simp+

lemma life_get: "mgr_Get MemoryStore_ops sample_private (ps_manager (life_parsec s)) = Ok life_channel"
  by (simp add: mgr_Get_def MemoryStore_ops_def ms_Get_def life_name(2) life_parsec_def NewManagerWithStore_def life_channel_def
      new_channel_def)

lemma life_env_facts:
  "(ring_step (ae_kc (life_env rl t)) ed_only)\<^sup>*\<^sup>* NewKeyRing one_key" "env_ok (life_env rl t) ed_only"
  using one_key_reach by (simp_all add: life_env_def toy_env_ok) (simp add: toy_env_def)

lemma life_token:
  obtains tok where "\<And>now. 100 * second \<le> now \<Longrightarrow> now \<le> 1900 * second \<Longrightarrow>
    verify_env (life_env rl t) one_key 0 tok TypeRefresh now = Ok (first_refresh rl)"
proof -
  let ?c = "first_refresh rl"
  have c: "type_Valid (cl_Typ ?c) = None" "0 < cl_Iat ?c" "cl_Iat ?c < cl_Exp ?c" "claims_ascii ?c" "cl_Typ ?c = TypeRefresh"
    "IssuedAt ?c = 100 * second" "ExpiresAt ?c = 1900 * second" "strip_claims ?c = ?c"
    by (simp_all add: first_refresh_def life_claims_def type_Valid_def claims_ascii_def IssuedAt_def ExpiresAt_def strip_claims_def)
      (simp add: ascii_def)
  obtain tok where tok: "sign_env (life_env rl t) [] one_key ?c = Ok tok"
    unfolding life_env_def by (rule toy_sign [OF _ c(1-3)]) auto
  show ?thesis
    using sign_env_verifies [OF ring_ok_reach [OF life_env_facts(1)] life_env_facts(2) one_key_ascii c(4) tok] c(5-8)
    by (intro that [of tok]) simp
qed

lemma life_rotates:
  assumes "0 < t"
  obtains pair where "IssueRotatedPair (life_env rl t) NewIssuer one_key sample_rnd ''u'' ''private:a.b.c'' ''f0'' (30 * minute) [] (t * second) = Ok pair"
proof -
  have ttls: "pair_ttls NewIssuer (30 * minute) = (30 * minute, 5 * minute)" by (simp add: pair_ttls_eq NewIssuer_def Let_def)
  have "\<exists>pair. sign_pair (life_env rl t) one_key sample_rnd ''u'' [''private:a.b.c''] (t * second) (t * second + 5 * minute)
      (t * second + 30 * minute) None [] (b64_encode ''aaa'') (b64_encode ''jjj'') ''f0'' = Ok pair"
    unfolding life_env_def
    by (rule toy_sign_pair) (use assms in \<open>simp_all del: b64_encode.simps add: life_claims_def time_Unix_def\<close>)
  then obtain pair where "sign_pair (life_env rl t) one_key sample_rnd ''u'' [''private:a.b.c''] (t * second) (t * second + 5 * minute)
      (t * second + 30 * minute) None [] (b64_encode ''aaa'') (b64_encode ''jjj'') ''f0'' = Ok pair" ..
  then have "IssueRotatedPair (life_env rl t) NewIssuer one_key sample_rnd ''u'' ''private:a.b.c'' ''f0'' (30 * minute) [] (t * second) = Ok pair"
    unfolding IssueRotatedPair_def
    by (simp del: b64_encode.simps add: ttls [simplified] newTokenID_def sample_rnd_def cloneScopesForClaim_def Let_def)
  then show ?thesis by (rule that)
qed


end
