(* ===== verification/Lifecycle.thy ===== *)
theory Lifecycle
  imports Facade
begin

text \<open>
  Properties of the facade that span channels, tokens, the refresh store and the subscribe
  authorizer: what fresh credentials are good for, what a rotation keeps, and how long a revoked
  family stays revoked.
\<close>

subsection \<open>Fresh credentials\<close>

lemma ms_CreatePrivate_Ok:
  assumes "ms_inv (m_store m)" and "mgr_CreatePrivate MemoryStore_ops n ttl now m = (Ok ch, m')"
  shows "ms_inv (m_store m')" "IsPrivate n" "c_State ch = StateOpen" "0 < c_TTL ch" "c_TTL ch \<le> MaxPrivateTTL"
    "ms_abs (m_store m') = (ms_abs (m_store m))(name_String n \<mapsto> ch)" "ms_abs (m_store m) (name_String n) = None"
proof -
  let ?ttl = "if ttl \<le> 0 then 15 * minute else ttl"
  obtain r s where f: "so_CreatePrivate MemoryStore_ops n ?ttl now (m_store m) = (r, s)"
    by (cases "so_CreatePrivate MemoryStore_ops n ?ttl now (m_store m)")
  have le: "?ttl \<le> MaxPrivateTTL" and m': "m_store m' = s" and r: "\<exists>ev. r = Ok (ch, ev)"
    using assms(2) f by (auto simp: mgr_CreatePrivate_def Let_def split: sum.splits if_splits)
  have "reg_CreatePrivate n ?ttl now (ms_abs (m_store m)) = (r, ms_abs s)" "ms_inv s"
    using mem.CreatePrivate [OF assms(1), of n ?ttl now] mem.CreatePrivate_inv [OF assms(1), of n ?ttl now] f by auto
  with le m' r show "ms_inv (m_store m')" "IsPrivate n" "c_State ch = StateOpen" "0 < c_TTL ch" "c_TTL ch \<le> MaxPrivateTTL"
    "ms_abs (m_store m') = (ms_abs (m_store m))(name_String n \<mapsto> ch)" "ms_abs (m_store m) (name_String n) = None"
    by (auto simp: reg_CreatePrivate_def new_channel_def IsPrivate_def split: if_splits)
qed

lemma ps_CreatePrivate_Ok:
  assumes "ps_CreatePrivate sops env rnd sub name ttl scopes now p = (Ok cr, p')"
  obtains n ch pair where "ParseName name = Ok n"
    "mgr_CreatePrivate sops n ttl now (ps_manager p) = (Ok ch, ps_manager p')"
    "IssuePair env (ps_issuer p) (ps_ring p) rnd sub (name_String n) (c_TTL ch) scopes now = Ok pair"
    "cr_Name cr = n" "cr_AccessToken cr = pr_AccessToken pair" "cr_AccessExpires cr = pr_AccessExpires pair"
    "ps_ring p' = ps_ring p"
  using assms that
  by (auto simp: ps_CreatePrivate_def split: sum.splits prod.splits)

lemma IssuePair_access:
  assumes "ring_ok (ae_kc env) good ring" "env_ok env good" "ascii (kr_active ring)" "ascii sub" "ascii channel"
    "list_all scope_ascii scopes" "IssuePair env i ring rnd sub channel ttl scopes now = Ok pair"
    "now \<le> t" "t \<le> time_Unix (pr_AccessExpires pair) * second"
  shows "\<exists>a. verify_env env ring 0 (pr_AccessToken pair) TypeAccess t = Ok a \<and> cl_Chs a = [channel] \<and>
    cl_Scopes a = map strip_scope scopes"
proof -
  obtain jti fid accessJTI where ids: "newTokenID (ir_jti rnd) = Ok jti" "newTokenID (ir_fid rnd) = Ok fid"
    "newTokenID (ir_access rnd) = Ok accessJTI"
    and pair: "sign_pair env ring rnd sub [channel] now (now + snd (pair_ttls i ttl)) (now + fst (pair_ttls i ttl))
       None (cloneScopesForClaim scopes) accessJTI jti fid = Ok pair"
    using IssuePair_Ok [OF assms(7)] by metis
  have a: "ascii jti" "ascii fid" "ascii accessJTI" "list_all ascii [channel]" "list_all scope_ascii (cloneScopesForClaim scopes)"
    using ids newTokenID_ascii assms(5,6) clone_strip(2) by auto
  show ?thesis
    using sign_pair_verifies(1) [OF assms(1-4) a(4,5,3,1,2) pair assms(8)] assms(9)
    by (simp add: sign_pair_Ok(1) [OF pair] strip_claims_def clone_strip)
qed

lemma verify_env_nonempty: "verify_env env ring leeway [] ty t \<noteq> Ok c"
  by (simp add: verify_env_def verify_def splitToken_def)


definition fresh_parsec :: "(MemoryStore, MemoryRefreshStore) parsec" where
  "fresh_parsec = \<lparr>ps_manager = mgr_start, ps_ring = one_key, ps_issuer = NewIssuer, ps_leeway = 0,
     ps_refreshStore = Some NewMemoryRefreshStore, ps_refreshes = []\<rparr>"

definition no_limits :: "MemoryLimiter limits" where
  "no_limits = \<lparr>pl_limiter = None,
     pl_rateLimits = \<lparr>rl_Publish = sample_limit 0, rl_Subscribe = sample_limit 0, rl_TokenIssue = sample_limit 0,
       rl_PerChannelPublish = [], rl_PerChannelSubscribe = []\<rparr>, pl_decisions = []\<rparr>"


subsection \<open>What a rotation keeps\<close>

lemma IssueRotatedPair_Ok:
  assumes "IssueRotatedPair env i ring rnd sub channel fid channelTTL scopes now = Ok pair"
  obtains jti accessJTI where "newTokenID (ir_jti rnd) = Ok jti" "newTokenID (ir_access rnd) = Ok accessJTI"
    "sign_pair env ring rnd sub [channel] now (now + snd (pair_ttls i channelTTL)) (now + fst (pair_ttls i channelTTL))
       None (cloneScopesForClaim scopes) accessJTI jti fid = Ok pair"
  using assms
  by (auto simp: IssueRotatedPair_def Let_def split_beta split: if_splits option.splits sum.splits prod.splits)

lemma redeem_gate_frame:
  "ps_ring (snd (redeem_gate rops clk c p)) = ps_ring p" "ps_issuer (snd (redeem_gate rops clk c p)) = ps_issuer p"
  by (simp_all add: redeem_gate_def recordRefresh_def split: option.split sum.split prod.split)

text \<open>
  A rotation hands the grant on unchanged, except for the rate-limit override: the new access
  and refresh tokens verify from the moment of the rotation until the second they expire in, with
  the subject, the channel and the scopes of the presented token, the refresh token in the same
  family and with an identifier of its own, for the TTL of the channel; but whatever per-token
  rate limit the presented token carried, the new tokens carry none.
\<close>

theorem rotation_keeps_grant:
  assumes "(ring_step (ae_kc env) good)\<^sup>*\<^sup>* NewKeyRing (ps_ring p)" and "env_ok env good"
    and "ascii (kr_active (ps_ring p))" and "claims_ascii c"
    and "refreshable sops env p (clk 0) tok c chan"
    and "RefreshAccessCtx sops rops env rnd clk tok p = (Ok res, p')" and "clk 4 \<le> t"
  shows "rr_Rotated res \<and> rr_RefreshExpires res = clk 4 + fst (pair_ttls (ps_issuer p) (c_TTL chan)) \<and>
    (t \<le> time_Unix (rr_AccessExpires res) * second \<longrightarrow>
      (\<exists>a. verify_env env (ps_ring p) 0 (rr_AccessToken res) TypeAccess t = Ok a \<and> cl_Sub a = cl_Sub c \<and>
        cl_Chs a = cl_Chs c \<and> cl_Scopes a = map strip_scope (cl_Scopes c) \<and> cl_RateLimitOverride a = None)) \<and>
    (t \<le> time_Unix (rr_RefreshExpires res) * second \<longrightarrow>
      (\<exists>r. verify_env env (ps_ring p) 0 (rr_RefreshToken res) TypeRefresh t = Ok r \<and> cl_Sub r = cl_Sub c \<and>
        cl_Chs r = cl_Chs c \<and> cl_Scopes r = map strip_scope (cl_Scopes c) \<and> cl_FID r = cl_FID c \<and>
        Ok (cl_JTI r) = newTokenID (ir_jti rnd) \<and> cl_RateLimitOverride r = None))"
proof -
  obtain pg where g: "redeem_gate rops clk c p = (None, pg)"
    using assms(6) RefreshAccessCtx_refreshable [where clk = clk, OF assms(5)]
    by (cases "redeem_gate rops clk c p"; cases "fst (redeem_gate rops clk c p)") auto
  have pg: "ps_ring pg = ps_ring p" "ps_issuer pg = ps_issuer p" using redeem_gate_frame [of rops clk c p] g by simp_all
  have one: "cl_Chs c = [cl_Chs c ! 0]" using assms(5) by (cases "cl_Chs c") (simp_all add: refreshable_def)
  obtain pair where pair: "IssueRotatedPair env (ps_issuer p) (ps_ring p) rnd (cl_Sub c) (cl_Chs c ! 0)
        (cl_FID c) (c_TTL chan) (cl_Scopes c) (clk 4) = Ok pair"
    and res: "res = \<lparr>rr_AccessToken = pr_AccessToken pair, rr_AccessExpires = pr_AccessExpires pair,
       rr_RefreshToken = pr_RefreshToken pair, rr_RefreshExpires = pr_RefreshExpires pair, rr_Rotated = True\<rparr>"
    using assms(6) RefreshAccessCtx_refreshable [where clk = clk, OF assms(5)] g pg by (auto split: sum.splits)
  obtain jti accessJTI where ids: "newTokenID (ir_jti rnd) = Ok jti" "newTokenID (ir_access rnd) = Ok accessJTI"
    and sp: "sign_pair env (ps_ring p) rnd (cl_Sub c) [cl_Chs c ! 0] (clk 4)
       (clk 4 + snd (pair_ttls (ps_issuer p) (c_TTL chan))) (clk 4 + fst (pair_ttls (ps_issuer p) (c_TTL chan)))
       None (cloneScopesForClaim (cl_Scopes c)) accessJTI jti (cl_FID c) = Ok pair"
    using IssueRotatedPair_Ok [OF pair] by metis
  have a: "ascii (cl_Sub c)" "list_all ascii [cl_Chs c ! 0]" "list_all scope_ascii (cloneScopesForClaim (cl_Scopes c))"
    "ascii accessJTI" "ascii jti" "ascii (cl_FID c)"
    using assms(4) ids newTokenID_ascii clone_strip(2) one by (auto simp: claims_ascii_def)
  note v = sign_pair_verifies [OF ring_ok_reach [OF assms(1)] assms(2,3) a sp assms(7)]
  note exps = sign_pair_Ok(1,2) [OF sp]
  show ?thesis using v one ids by (auto simp: res exps strip_claims_def clone_strip)
qed

text \<open>The running example, refreshed at second 200.\<close>

lemma first_refresh_fields [simp]:
  "cl_Chs (first_refresh rl) = [''private:a.b.c'']" "cl_JTI (first_refresh rl) = ''j0''" "cl_FID (first_refresh rl) = ''f0''"
  "cl_Sub (first_refresh rl) = ''u''" "cl_Scopes (first_refresh rl) = []" "ExpiresAt (first_refresh rl) = 1900 * second"
  by (simp_all add: first_refresh_def life_claims_def ExpiresAt_def)

lemma life_parsec_fields [simp]:
  "ps_ring (life_parsec s) = one_key" "ps_leeway (life_parsec s) = 0" "ps_issuer (life_parsec s) = NewIssuer"
  "ps_refreshStore (life_parsec s) = Some s" "c_State life_channel = StateOpen" "c_TTL life_channel = 30 * minute"
  by (simp_all add: life_parsec_def life_channel_def new_channel_def)

lemma life_refreshable:
  obtains tok where "verify_env (life_env rl 200) one_key 0 tok TypeRefresh (200 * second) = Ok (first_refresh rl)"
    "\<And>s. refreshable MemoryStore_ops (life_env rl 200) (life_parsec s) (200 * second) tok (first_refresh rl) life_channel"
proof -
  obtain tok where tok: "\<And>now. 100 * second \<le> now \<Longrightarrow> now \<le> 1900 * second \<Longrightarrow>
      verify_env (life_env rl 200) one_key 0 tok TypeRefresh now = Ok (first_refresh rl)"
    using life_token [of rl 200] by blast
  have v: "verify_env (life_env rl 200) one_key 0 tok TypeRefresh (200 * second) = Ok (first_refresh rl)" by (rule tok) simp_all
  then show ?thesis by (rule that) (use v in \<open>simp add: refreshable_def life_name(1) life_get\<close>)
qed

theorem rotation_keeps_grant_witness:
  "\<exists>tok res p'. verify_env (life_env (Some (sample_limit 1)) 200) one_key 0 tok TypeRefresh (200 * second) =
        Ok (first_refresh (Some (sample_limit 1))) \<and>
     RefreshAccessCtx MemoryStore_ops MemoryRefreshStore_ops (life_env (Some (sample_limit 1)) 200) sample_rnd (\<lambda>_. 200 * second) tok
       (life_parsec NewMemoryRefreshStore) = (Ok res, p') \<and>
     rr_Rotated res \<and> rr_RefreshExpires res = 200 * second + 30 * minute"
proof -
  let ?rl = "Some (sample_limit 1)" and ?p = "life_parsec NewMemoryRefreshStore"
  let ?env = "life_env ?rl 200" and ?c = "first_refresh ?rl"
  obtain tok where tok: "verify_env ?env one_key 0 tok TypeRefresh (200 * second) = Ok ?c"
    "\<And>s. refreshable MemoryStore_ops ?env (life_parsec s) (200 * second) tok ?c life_channel"
    using life_refreshable [of ?rl] by blast
  have "\<exists>p'. redeem_gate MemoryRefreshStore_ops (\<lambda>_. 200 * second) ?c ?p = (None, p') \<and> ps_ring p' = one_key \<and> ps_issuer p' = NewIssuer"
    by (simp add: redeem_gate_def MemoryRefreshStore_ops_def rs_IsFamilyRevoked_def rs_MarkRedeemed_def pruneLocked_def
        NewMemoryRefreshStore_def)
  moreover obtain pair where "IssueRotatedPair ?env NewIssuer one_key sample_rnd ''u'' ''private:a.b.c'' ''f0'' (30 * minute) [] (200 * second) = Ok pair"
    by (rule life_rotates [of 200]) simp_all
  ultimately obtain res p' where ok: "RefreshAccessCtx MemoryStore_ops MemoryRefreshStore_ops ?env sample_rnd (\<lambda>_. 200 * second) tok ?p = (Ok res, p')"
    using RefreshAccessCtx_refreshable [where clk = "\<lambda>_. 200 * second", OF tok(2)] by fastforce
  have c: "claims_ascii ?c" 
    by (simp add: claims_ascii_def first_refresh_def life_claims_def) (simp add: ascii_def)
  from rotation_keeps_grant [where clk = "\<lambda>_. 200 * second" and t = "200 * second" and p = ?p, OF _ life_env_facts(2) _ c tok(2) ok]
  have "rr_Rotated res \<and> rr_RefreshExpires res = 200 * second + fst (pair_ttls NewIssuer (30 * minute))"
    using life_env_facts(1) [of ?rl 200] one_key_ascii by simp
  then show ?thesis using tok(1) ok by (auto simp: pair_ttls_eq NewIssuer_def Let_def)
qed

subsection \<open>How long a family stays revoked\<close>

lemma counting_stays_None: "counting t m k = None \<Longrightarrow> t \<le> u \<Longrightarrow> counting u m k = None"
  by (fastforce simp: counting_None)

context refresh_store
begin

lemma gate_fresh:
  assumes "inv s" "ps_refreshStore p = Some s" "counting (clk 1) (revoked s) (cl_FID c) = None"
    and "counting (clk 2) (redeemed s) (cl_JTI c) = None" "clk 1 \<le> clk 2"
  obtains s' where "redeem_gate ops clk c p = (None, p\<lparr>ps_refreshStore := Some s'\<rparr>)"
proof -
  obtain s0 where is': "ro_IsFamilyRevoked ops (cl_FID c) (clk 1) s = (Ok False, s0)" and inv0: "inv s0"
    and same: "counting (clk 1) (redeemed s0) = counting (clk 1) (redeemed s)"
    using Is [OF assms(1), of "cl_FID c" "clk 1"] Is_inv [OF assms(1), of "cl_FID c" "clk 1"]
      Is_same [OF assms(1), of "clk 1" "cl_FID c"] assms(3)
    by (cases "ro_IsFamilyRevoked ops (cl_FID c) (clk 1) s") auto
  have "counting (clk 2) (redeemed s0) (cl_JTI c) = None"
    using assms(4,5) same counting_later by metis
  then have "fst (ro_MarkRedeemed ops (cl_JTI c) (ExpiresAt c) (clk 2) s0) = None"
    using Mark_fresh [OF inv0, of "clk 2" "ExpiresAt c" "cl_JTI c"] Mark_late [OF inv0, of "ExpiresAt c" "clk 2" "cl_JTI c"] by force
  then obtain s1 where "ro_MarkRedeemed ops (cl_JTI c) (ExpiresAt c) (clk 2) s0 = (None, s1)" by (metis prod.collapse)
  with is' assms(2) show ?thesis by (intro that [of s1]) (simp add: redeem_gate_def)
qed

lemma revocation_lapses:
  assumes "inv s" "counting t (revoked s) fid = None" "t \<le> u" "exp \<le> u"
  shows "counting u (revoked (snd (ro_RevokeFamily ops fid exp t s))) fid = None"
proof -
  have "counting t (revoked (snd (ro_RevokeFamily ops fid exp t s))) fid = (if t < exp then Some exp else None)"
    using Revoke [OF assms(1), of t fid exp] assms(2) by (simp add: later_of_def)
  with assms(3,4) show ?thesis by (auto simp: counting_def split: option.splits if_splits)
qed

end

text \<open>
  C40. A revoked family comes back: the revocation after a reuse is recorded until the expiry of
  the reused token only, while a descendant of it may live longer.  From that expiry on, a
  descendant that was not redeemed yet is rotated again, as if nothing had happened.
\<close>

theorem revoked_family_comes_back:
  assumes "rs_inv s" and "counting t (map_of (rs_revoked s)) (cl_FID c) = None"
    and "counting t (map_of (rs_redeemed s)) (cl_JTI c) = None"
    and "rs_RevokeFamily (cl_FID c) (ExpiresAt reused) t s = (None, s')" and "ps_refreshStore p = Some s'"
    and "mono clk" and "t \<le> clk 0" and "ExpiresAt reused \<le> clk 1"
    and "refreshable sops env p (clk 0) tok c chan"
    and "IssueRotatedPair env (ps_issuer p) (ps_ring p) rnd (cl_Sub c) (cl_Chs c ! 0) (cl_FID c) (c_TTL chan) (cl_Scopes c)
      (clk 4) = Ok pair"
  shows "\<exists>res p'. RefreshAccessCtx sops MemoryRefreshStore_ops env rnd clk tok p = (Ok res, p') \<and> rr_Rotated res"
proof -
  have s': "s' = snd (ro_RevokeFamily MemoryRefreshStore_ops (cl_FID c) (ExpiresAt reused) t s)"
    using assms(4) by (simp add: MemoryRefreshStore_ops_def)
  have le: "t \<le> clk 1" "t \<le> clk 2" "clk 1 \<le> clk 2"
    using assms(7) monoD [OF assms(6), of 0 1] monoD [OF assms(6), of 0 2] monoD [OF assms(6), of 1 2] by auto
  have "counting (clk 1) (map_of (rs_revoked s')) (cl_FID c) = None"
    unfolding s' using mem_refresh.revocation_lapses [OF assms(1,2) le(1) assms(8)] .
  moreover have "counting (clk 2) (map_of (rs_redeemed s')) (cl_JTI c) = None"
    unfolding s'
    by (rule counting_stays_None [OF _ le(2)]) (simp add: mem_refresh.Revoke_redeemed [OF assms(1)] assms(3))
  moreover have "rs_inv s'" unfolding s' by (rule mem_refresh.Revoke_inv [OF assms(1)])
  ultimately obtain s1 where "redeem_gate MemoryRefreshStore_ops clk c p = (None, p\<lparr>ps_refreshStore := Some s1\<rparr>)"
    using mem_refresh.gate_fresh [OF _ assms(5), of clk c] le(3) by metis
  with assms(10) show ?thesis by (simp add: RefreshAccessCtx_refreshable [where clk = clk, OF assms(9)])
qed

theorem revoked_family_comes_back_witness:
  "\<exists>tok res p'. RefreshAccessCtx MemoryStore_ops MemoryRefreshStore_ops (life_env None 200) sample_rnd (\<lambda>_. 200 * second) tok
       (life_parsec (snd (rs_RevokeFamily ''f0'' (150 * second) (120 * second) NewMemoryRefreshStore))) = (Ok res, p') \<and> rr_Rotated res"
proof -
  let ?c = "first_refresh None" and ?reused = "life_claims TypeRefresh 50 150 ''i0'' ''f0'' None"
  let ?r = "rs_RevokeFamily ''f0'' (150 * second) (120 * second) NewMemoryRefreshStore"
  have inv: "rs_inv NewMemoryRefreshStore" by (simp add: rs_inv_def NewMemoryRefreshStore_def)
  have rev: "rs_RevokeFamily (cl_FID ?c) (ExpiresAt ?reused) (120 * second) NewMemoryRefreshStore = (None, snd ?r)"
    by (simp add: rs_RevokeFamily_def life_claims_def ExpiresAt_def NewMemoryRefreshStore_def pruneLocked_def)
  obtain tok where tok: "\<And>s. refreshable MemoryStore_ops (life_env None 200) (life_parsec s) (200 * second) tok ?c life_channel"
    using life_refreshable [of None] by blast
  obtain pair where "IssueRotatedPair (life_env None 200) NewIssuer one_key sample_rnd ''u'' ''private:a.b.c'' ''f0'' (30 * minute) []
      (200 * second) = Ok pair"
    by (rule life_rotates [of 200]) simp_all
  with revoked_family_comes_back [where clk = "\<lambda>_. 200 * second" and t = "120 * second", OF inv _ _ rev _ _ _ _ tok]
  show ?thesis
    by (intro exI [of _ tok])
      (simp add: counting_def NewMemoryRefreshStore_def mono_def, simp add: ExpiresAt_def life_claims_def)
qed

end
