(* ===== verification/Cache.thy ===== *)
theory Cache
  imports Prelude
begin

text \<open>
  The request cache (\<^verbatim>\<open>src/cache/cache.go\<close>): the in-process LRU cache with its tenant-scoped
  operations and its sweeper, and the disabled cache.

  The cache links a map from keys to list elements with a \<^verbatim>\<open>container/list\<close> of entries.  Elements
  are addresses into a store of entries; \<open>mc_order\<close> lists them from front to back.  The clock
  reading is an argument, the counters are integers that do not wrap around.  What is cached is a
  type parameter.
\<close>

record 'e memEntry =
  me_key :: string
  me_env :: 'e
  me_expires :: go_time

record 'e MemoryCache =
  mc_MaxEntries :: int
  mc_entries :: "(string, nat) gomap"
  mc_order :: "nat list"
  mc_heap :: "(nat, 'e memEntry) gomap"
  mc_fresh :: nat
  mc_hits :: int
  mc_misses :: int
  mc_puts :: int
  mc_evictions :: int

record Stats =
  st_Hits :: int
  st_Misses :: int
  st_Puts :: int
  st_Evictions :: int
  st_SizeEntries :: int

definition scopedKey :: "string \<Rightarrow> string \<Rightarrow> string" where
  "scopedKey tenantID key = tenantID @ '':'' @ key"

definition NewMemoryCache :: "int \<Rightarrow> 'e MemoryCache" where
  "NewMemoryCache maxEntries =
     \<lparr>mc_MaxEntries = (if maxEntries \<le> 0 then 4096 else maxEntries), mc_entries = [], mc_order = [], mc_heap = [], mc_fresh = 0,
      mc_hits = 0, mc_misses = 0, mc_puts = 0, mc_evictions = 0\<rparr>"

definition el_Value :: "'e MemoryCache \<Rightarrow> nat \<Rightarrow> 'e memEntry" where
  "el_Value c el = the (map_of (mc_heap c) el)"

definition entry_expired :: "go_time \<Rightarrow> 'e memEntry \<Rightarrow> bool" where
  "entry_expired now ent \<longleftrightarrow> me_expires ent \<noteq> zero_time \<and> now > me_expires ent"

text \<open>Taking an element out of the list and its key out of the map.\<close>

definition drop_el :: "nat \<Rightarrow> string \<Rightarrow> 'e MemoryCache \<Rightarrow> 'e MemoryCache" where
  "drop_el el key c = c\<lparr>mc_order := remove1 el (mc_order c), mc_entries := AList.delete key (mc_entries c)\<rparr>"

definition MoveToFront :: "nat \<Rightarrow> 'e MemoryCache \<Rightarrow> 'e MemoryCache" where
  "MoveToFront el c = c\<lparr>mc_order := el # remove1 el (mc_order c)\<rparr>"

definition mc_Get :: "string \<Rightarrow> go_time \<Rightarrow> 'e MemoryCache \<Rightarrow> 'e option \<times> 'e MemoryCache" where
  "mc_Get key now c =
     (case map_of (mc_entries c) key of
        None \<Rightarrow> (None, c\<lparr>mc_misses := mc_misses c + 1\<rparr>)
      | Some el \<Rightarrow>
          let ent = el_Value c el in
          if entry_expired now ent then
            (None, (drop_el el key c)\<lparr>mc_evictions := mc_evictions c + 1, mc_misses := mc_misses c + 1\<rparr>)
          else (Some (me_env ent), (MoveToFront el c)\<lparr>mc_hits := mc_hits c + 1\<rparr>))"

text \<open>The loop that drops entries from the back while there are too many.\<close>

function evict :: "'e MemoryCache \<Rightarrow> 'e MemoryCache" where
  "evict c =
     (if int (length (mc_entries c)) > mc_MaxEntries c \<and> mc_order c \<noteq> [] then
        let back = last (mc_order c) in
        evict (c\<lparr>mc_order := butlast (mc_order c), mc_entries := AList.delete (me_key (el_Value c back)) (mc_entries c),
                 mc_evictions := mc_evictions c + 1\<rparr>)
      else c)"
  by auto
termination by (relation "measure (\<lambda>c. length (mc_order c))") auto

declare evict.simps [simp del]

definition mc_Put :: "string \<Rightarrow> 'e \<Rightarrow> duration \<Rightarrow> go_time \<Rightarrow> 'e MemoryCache \<Rightarrow> 'e MemoryCache" where
  "mc_Put key env ttl now c =
     (let c = c\<lparr>mc_puts := mc_puts c + 1\<rparr>;
          exp = (if ttl > 0 then now + ttl else zero_time) in
      case map_of (mc_entries c) key of
        Some el \<Rightarrow>
          MoveToFront el (c\<lparr>mc_heap := AList.update el ((el_Value c el)\<lparr>me_env := env, me_expires := exp\<rparr>) (mc_heap c)\<rparr>)
      | None \<Rightarrow>
          let el = mc_fresh c in
          evict (c\<lparr>mc_heap := AList.update el \<lparr>me_key = key, me_env = env, me_expires = exp\<rparr> (mc_heap c), mc_fresh := el + 1,
                   mc_order := el # mc_order c, mc_entries := AList.update key el (mc_entries c)\<rparr>))"

definition mc_Delete :: "string \<Rightarrow> 'e MemoryCache \<Rightarrow> 'e MemoryCache" where
  "mc_Delete key c = (case map_of (mc_entries c) key of Some el \<Rightarrow> drop_el el key c | None \<Rightarrow> c)"

definition GetForTenant :: "string \<Rightarrow> string \<Rightarrow> go_time \<Rightarrow> 'e MemoryCache \<Rightarrow> 'e option \<times> 'e MemoryCache" where
  "GetForTenant tenantID key now c = mc_Get (scopedKey tenantID key) now c"

definition PutForTenant :: "string \<Rightarrow> string \<Rightarrow> 'e \<Rightarrow> duration \<Rightarrow> go_time \<Rightarrow> 'e MemoryCache \<Rightarrow> 'e MemoryCache" where
  "PutForTenant tenantID key env ttl now c = mc_Put (scopedKey tenantID key) env ttl now c"

definition DeleteForTenant :: "string \<Rightarrow> string \<Rightarrow> 'e MemoryCache \<Rightarrow> 'e MemoryCache" where
  "DeleteForTenant tenantID key c = mc_Delete (scopedKey tenantID key) c"

definition mc_Stats :: "'e MemoryCache \<Rightarrow> Stats" where
  "mc_Stats c = \<lparr>st_Hits = mc_hits c, st_Misses = mc_misses c, st_Puts = mc_puts c, st_Evictions = mc_evictions c,
     st_SizeEntries = int (length (mc_entries c))\<rparr>"

text \<open>The sweep walks from the back to the front.\<close>

fun sweep_walk :: "go_time \<Rightarrow> nat list \<Rightarrow> 'e MemoryCache \<Rightarrow> 'e MemoryCache" where
  "sweep_walk now [] c = c"
| "sweep_walk now (e # es) c =
     (let ent = el_Value c e in
      sweep_walk now es
        (if entry_expired now ent then (drop_el e (me_key ent) c)\<lparr>mc_evictions := mc_evictions c + 1\<rparr> else c))"

definition sweepOnce :: "go_time \<Rightarrow> 'e MemoryCache \<Rightarrow> 'e MemoryCache" where
  "sweepOnce now c = sweep_walk now (rev (mc_order c)) c"

subsection \<open>The specification: a list of entries, most recently used first\<close>

type_synonym 'e lru = "'e memEntry list"

definition without :: "string \<Rightarrow> 'e lru \<Rightarrow> 'e lru" where
  "without key l = filter (\<lambda>e. me_key e \<noteq> key) l"

definition lru_find :: "string \<Rightarrow> 'e lru \<Rightarrow> 'e memEntry option" where
  "lru_find key l = find (\<lambda>e. me_key e = key) l"

definition lru_Get :: "string \<Rightarrow> go_time \<Rightarrow> 'e lru \<Rightarrow> 'e option \<times> 'e lru" where
  "lru_Get key now l =
     (case lru_find key l of
        None \<Rightarrow> (None, l)
      | Some e \<Rightarrow> if entry_expired now e then (None, without key l) else (Some (me_env e), e # without key l))"

definition lru_Put :: "nat \<Rightarrow> string \<Rightarrow> 'e \<Rightarrow> duration \<Rightarrow> go_time \<Rightarrow> 'e lru \<Rightarrow> 'e lru" where
  "lru_Put cap key env ttl now l =
     (let e = \<lparr>me_key = key, me_env = env, me_expires = (if ttl > 0 then now + ttl else zero_time)\<rparr> in
      if lru_find key l = None then take cap (e # l) else e # without key l)"

definition lru_sweep :: "go_time \<Rightarrow> 'e lru \<Rightarrow> 'e lru" where
  "lru_sweep now l = filter (\<lambda>e. \<not> entry_expired now e) l"

subsection \<open>The cache implements it\<close>

definition mc_abs :: "'e MemoryCache \<Rightarrow> 'e lru" where
  "mc_abs c = map (el_Value c) (mc_order c)"

definition mc_inv :: "'e MemoryCache \<Rightarrow> bool" where
  "mc_inv c \<longleftrightarrow> distinct (mc_order c) \<and> map_wf (mc_entries c) \<and>
     set (mc_entries c) = (\<lambda>el. (me_key (el_Value c el), el)) ` set (mc_order c) \<and>
     (\<forall>el \<in> set (mc_order c). el < mc_fresh c)"

lemma mc_inv_new: "mc_inv (NewMemoryCache n)" "mc_abs (NewMemoryCache n) = []"
  by (simp_all add: mc_inv_def NewMemoryCache_def mc_abs_def)

text \<open>Under the invariant the map finds the element of the list with the key.\<close>

lemma mc_keys:
  assumes "mc_inv c"
  shows "distinct (map me_key (mc_abs c))"
    and "map_of (mc_entries c) key = Some el \<longleftrightarrow> el \<in> set (mc_order c) \<and> me_key (el_Value c el) = key"
    and "length (mc_entries c) = length (mc_order c)"
proof -
  let ?f = "\<lambda>el. (me_key (el_Value c el), el)"
  have wf: "map_wf (mc_entries c)" and d: "distinct (mc_order c)" and set: "set (mc_entries c) = ?f ` set (mc_order c)"
    using assms by (auto simp: mc_inv_def)
  show look: "map_of (mc_entries c) key = Some el \<longleftrightarrow> el \<in> set (mc_order c) \<and> me_key (el_Value c el) = key" for key el
    using map_of_eq_Some_iff [OF wf, of key el] set by auto
  have "inj_on (\<lambda>el. me_key (el_Value c el)) (set (mc_order c))"
    by (rule inj_onI) (metis look option.sel)
  then show "distinct (map me_key (mc_abs c))" using d by (simp add: mc_abs_def distinct_map o_def)
  have "length (mc_entries c) = card (set (mc_entries c))" using wf by (simp add: distinct_card distinct_map)
  also have "\<dots> = card (set (mc_order c))" unfolding set by (rule card_image) (simp add: inj_on_def)
  also have "\<dots> = length (mc_order c)" using d by (rule distinct_card)
  finally show "length (mc_entries c) = length (mc_order c)" .
qed

lemma el_Value_heap: "mc_heap c' = mc_heap c \<Longrightarrow> el_Value c' = el_Value c"
  by (simp add: fun_eq_iff el_Value_def)

lemma lru_find_abs:
  assumes "mc_inv c"
  shows "lru_find key (mc_abs c) = map_option (el_Value c) (map_of (mc_entries c) key)"
proof (cases "map_of (mc_entries c) key")
  case None
  then have "\<not> (\<exists>el \<in> set (mc_order c). me_key (el_Value c el) = key)" using mc_keys(2) [OF assms] by (metis option.distinct(1))
  then show ?thesis using None by (auto simp: lru_find_def mc_abs_def find_None_iff)
next
  case (Some el)
  then have el: "el \<in> set (mc_order c)" "me_key (el_Value c el) = key" using mc_keys(2) [OF assms] by auto
  then obtain e where e: "lru_find key (mc_abs c) = Some e"
    by (cases "lru_find key (mc_abs c)") (auto simp: lru_find_def mc_abs_def find_None_iff)
  then have "e \<in> set (mc_abs c)" "me_key e = key" by (auto simp: lru_find_def find_Some_iff)
  with el mc_keys(1) [OF assms] have "e = el_Value c el" by (auto simp: mc_abs_def distinct_map o_def inj_on_def)
  with e Some show ?thesis by simp
qed

lemma without_abs:
  assumes "mc_inv c" "el \<in> set (mc_order c)" "me_key (el_Value c el) = key"
  shows "map (el_Value c) (remove1 el (mc_order c)) = without key (mc_abs c)"
proof -
  have "distinct (mc_order c)" using assms(1) by (simp add: mc_inv_def)
  then have "remove1 el (mc_order c) = filter (\<lambda>x. el \<noteq> x) (mc_order c)"
    by (simp add: distinct_remove1_removeAll removeAll_filter_not_eq)
  also have "\<dots> = filter (\<lambda>x. me_key (el_Value c x) \<noteq> key) (mc_order c)"
    using assms(2,3) mc_keys(1) [OF assms(1)] by (intro filter_cong) (auto simp: mc_abs_def distinct_map o_def inj_on_def)
  finally show ?thesis by (simp add: without_def mc_abs_def filter_map o_def)
qed

lemma drop_el_ok:
  assumes "mc_inv c" "el \<in> set (mc_order c)" "me_key (el_Value c el) = key"
  shows "mc_inv (drop_el el key c)" "mc_abs (drop_el el key c) = without key (mc_abs c)"
proof -
  have v: "el_Value (drop_el el key c) = el_Value c" by (simp add: fun_eq_iff el_Value_def drop_el_def)
  show "mc_abs (drop_el el key c) = without key (mc_abs c)"
    using without_abs [OF assms] by (simp add: mc_abs_def v) (simp add: drop_el_def)
  have "{x \<in> set (mc_entries c). key \<noteq> fst x} = (\<lambda>el. (me_key (el_Value c el), el)) ` (set (mc_order c) - {el})"
    using assms mc_keys(1) [OF assms(1)] by (auto simp: mc_inv_def mc_abs_def distinct_map o_def inj_on_def)
  then have "set (AList.delete key (mc_entries c)) = (\<lambda>el. (me_key (el_Value c el), el)) ` (set (mc_order c) - {el})"
    by (simp add: AList.delete_eq case_prod_beta)
  then show "mc_inv (drop_el el key c)"
    using assms(1) unfolding mc_inv_def v by (auto simp: drop_el_def)
qed

lemma MoveToFront_ok:
  assumes "mc_inv c" "el \<in> set (mc_order c)" "me_key (el_Value c el) = key"
  shows "mc_inv (MoveToFront el c)" "mc_abs (MoveToFront el c) = el_Value c el # without key (mc_abs c)"
proof -
  have v: "el_Value (MoveToFront el c) = el_Value c" by (simp add: fun_eq_iff el_Value_def MoveToFront_def)
  show "mc_abs (MoveToFront el c) = el_Value c el # without key (mc_abs c)"
    using without_abs [OF assms] by (simp add: mc_abs_def v) (simp add: MoveToFront_def)
  show "mc_inv (MoveToFront el c)"
    using assms(1,2) unfolding mc_inv_def v by (auto simp: MoveToFront_def)
qed

lemma counters_irrelevant [simp]:
  "mc_inv (c\<lparr>mc_hits := a\<rparr>) = mc_inv c" "mc_abs (c\<lparr>mc_hits := a\<rparr>) = mc_abs c"
  "mc_inv (c\<lparr>mc_misses := a\<rparr>) = mc_inv c" "mc_abs (c\<lparr>mc_misses := a\<rparr>) = mc_abs c"
  "mc_inv (c\<lparr>mc_puts := a\<rparr>) = mc_inv c" "mc_abs (c\<lparr>mc_puts := a\<rparr>) = mc_abs c"
  "mc_inv (c\<lparr>mc_evictions := a\<rparr>) = mc_inv c" "mc_abs (c\<lparr>mc_evictions := a\<rparr>) = mc_abs c"
  by (simp_all add: mc_inv_def mc_abs_def el_Value_def)

lemma mc_Get_refines:
  assumes "mc_inv c" "mc_Get key now c = (r, c')"
  shows "mc_inv c'" "lru_Get key now (mc_abs c) = (r, mc_abs c')" "mc_MaxEntries c' = mc_MaxEntries c"
proof -
  have "mc_inv c' \<and> lru_Get key now (mc_abs c) = (r, mc_abs c') \<and> mc_MaxEntries c' = mc_MaxEntries c"
  proof (cases "map_of (mc_entries c) key")
    case None
    then show ?thesis using assms by (auto simp: mc_Get_def lru_Get_def lru_find_abs)
  next
    case (Some el)
    then have el: "el \<in> set (mc_order c)" "me_key (el_Value c el) = key" using mc_keys(2) [OF assms(1)] by auto
    show ?thesis
      using assms Some drop_el_ok [OF assms(1) el] MoveToFront_ok [OF assms(1) el]
      by (auto simp: mc_Get_def lru_Get_def lru_find_abs Let_def drop_el_def MoveToFront_def split: if_splits)
  qed
  then show "mc_inv c'" "lru_Get key now (mc_abs c) = (r, mc_abs c')" "mc_MaxEntries c' = mc_MaxEntries c" by auto
qed

lemma mc_Delete_refines:
  assumes "mc_inv c"
  shows "mc_inv (mc_Delete key c)" "mc_abs (mc_Delete key c) = without key (mc_abs c)" "mc_MaxEntries (mc_Delete key c) = mc_MaxEntries c"
proof -
  have "mc_inv (mc_Delete key c) \<and> mc_abs (mc_Delete key c) = without key (mc_abs c)"
  proof (cases "map_of (mc_entries c) key")
    case None
    then have "without key (mc_abs c) = mc_abs c"
      using lru_find_abs [OF assms, of key] by (auto simp: without_def lru_find_def find_None_iff filter_id_conv)
    with None assms show ?thesis by (simp add: mc_Delete_def)
  next
    case (Some el)
    then have "el \<in> set (mc_order c)" "me_key (el_Value c el) = key" using mc_keys(2) [OF assms(1)] by auto
    from drop_el_ok [OF assms this] Some show ?thesis by (simp add: mc_Delete_def)
  qed
  then show "mc_inv (mc_Delete key c)" "mc_abs (mc_Delete key c) = without key (mc_abs c)" by auto
  show "mc_MaxEntries (mc_Delete key c) = mc_MaxEntries c" by (simp add: mc_Delete_def drop_el_def split: option.split)
qed

text \<open>Evicting cuts the list at the bound.\<close>

lemma evict_ok:
  "mc_inv c \<Longrightarrow> mc_inv (evict c) \<and> mc_abs (evict c) = take (nat (mc_MaxEntries c)) (mc_abs c) \<and> mc_MaxEntries (evict c) = mc_MaxEntries c"
proof (induction c rule: evict.induct)
  case (1 c)
  have len: "length (mc_entries c) = length (mc_abs c)" using mc_keys(3) [OF "1.prems"] by (simp add: mc_abs_def)
  show ?case
  proof (cases "int (length (mc_entries c)) > mc_MaxEntries c \<and> mc_order c \<noteq> []")
    case False
    then have "take (nat (mc_MaxEntries c)) (mc_abs c) = mc_abs c" using len by (auto simp: mc_abs_def)
    moreover have "evict c = c" by (rule trans [OF evict.simps if_not_P [OF False]])
    ultimately show ?thesis using "1.prems" by simp
  next
    case True
    let ?b = "last (mc_order c)"
    let ?c = "c\<lparr>mc_order := butlast (mc_order c), mc_entries := AList.delete (me_key (el_Value c ?b)) (mc_entries c), mc_evictions := mc_evictions c + 1\<rparr>"
    have d: "distinct (mc_order c)" and b: "?b \<in> set (mc_order c)" using "1.prems" True by (auto simp: mc_inv_def)
    have "remove1 ?b (mc_order c) = butlast (mc_order c)"
      using True d by (metis append_butlast_last_id distinct_append list.set_intros(1) disjoint_insert(1) list.simps(15) remove1_append
          remove1.simps(2) self_append_conv)
    then have c: "?c = (drop_el ?b (me_key (el_Value c ?b)) c)\<lparr>mc_evictions := mc_evictions c + 1\<rparr>" by (simp add: drop_el_def)
    have "mc_abs ?c = butlast (mc_abs c)" using el_Value_heap [of ?c c] by (simp add: mc_abs_def map_butlast)
    moreover have "mc_inv ?c" unfolding c using drop_el_ok(1) [OF "1.prems" b] by simp
    moreover have "evict c = evict ?c" using True by (subst evict.simps) (simp add: Let_def)
    moreover have "take (nat (mc_MaxEntries c)) (butlast (mc_abs c)) = take (nat (mc_MaxEntries c)) (mc_abs c)"
      using True len by (intro take_butlast, cases "mc_MaxEntries c < 0") (auto simp: mc_abs_def nat_less_iff)
    ultimately show ?thesis using "1.IH" [OF True] by (simp add: Let_def)
  qed
qed

lemma set_update_new: "map_of m k = None \<Longrightarrow> set (AList.update k v m) = insert (k, v) (set m)"
  by (induction m) (auto split: if_splits)

lemma mc_Put_refines:
  assumes "mc_inv c"
  shows "mc_inv (mc_Put key env ttl now c) \<and>
    mc_abs (mc_Put key env ttl now c) = lru_Put (nat (mc_MaxEntries c)) key env ttl now (mc_abs c) \<and>
    mc_MaxEntries (mc_Put key env ttl now c) = mc_MaxEntries c"
proof (cases "map_of (mc_entries c) key")
  case (Some el)
  define exp where "exp = (if ttl > 0 then now + ttl else zero_time)"
  let ?c = "c\<lparr>mc_puts := mc_puts c + 1, mc_heap := AList.update el ((el_Value c el)\<lparr>me_env := env, me_expires := exp\<rparr>) (mc_heap c)\<rparr>"
  have el: "el \<in> set (mc_order c)" "me_key (el_Value c el) = key" using Some mc_keys(2) [OF assms] by auto
  have v: "el_Value ?c x = (if x = el then (el_Value c el)\<lparr>me_env := env, me_expires := exp\<rparr> else el_Value c x)" for x
    by (simp add: el_Value_def)
  have keys: "me_key (el_Value ?c x) = me_key (el_Value c x)" for x by (simp add: v)
  have inv: "mc_inv ?c" using assms unfolding mc_inv_def keys by simp
  have "without key (mc_abs ?c) = without key (mc_abs c)"
    unfolding without_def mc_abs_def filter_map o_def keys by (rule map_cong) (simp, subst v, use el in auto)
  moreover have "el_Value ?c el = \<lparr>me_key = key, me_env = env, me_expires = exp\<rparr>" using el(2) unfolding v by (cases "el_Value c el") simp
  moreover have "mc_Put key env ttl now c = MoveToFront el ?c" using Some by (simp add: mc_Put_def Let_def el_Value_def exp_def)
  ultimately show ?thesis
    using MoveToFront_ok [OF inv _ keys [of el, unfolded el(2)]] el(1) Some
    by (simp add: lru_Put_def Let_def lru_find_abs [OF assms] exp_def) (simp add: MoveToFront_def)
next
  case None
  define e where "e = \<lparr>me_key = key, me_env = env, me_expires = if ttl > 0 then now + ttl else zero_time\<rparr>"
  let ?el = "mc_fresh c"
  let ?c = "c\<lparr>mc_puts := mc_puts c + 1, mc_heap := AList.update ?el e (mc_heap c), mc_fresh := Suc ?el, mc_order := ?el # mc_order c,
    mc_entries := AList.update key ?el (mc_entries c)\<rparr>"
  have new: "?el \<notin> set (mc_order c)" using assms by (auto simp: mc_inv_def)
  have v: "el_Value ?c x = (if x = ?el then e else el_Value c x)" for x by (simp add: el_Value_def)
  have abs: "mc_abs ?c = e # mc_abs c" using new by (simp add: mc_abs_def v)
  have "set (AList.update key ?el (mc_entries c)) = insert (key, ?el) (set (mc_entries c))"
    using None by (rule set_update_new)
  then have "mc_inv ?c" using assms new None unfolding mc_inv_def v by (auto simp: image_iff e_def)
  with evict_ok [of ?c] abs None show ?thesis
    by (simp add: mc_Put_def Let_def lru_Put_def lru_find_abs [OF assms] e_def)
qed

lemma sweep_walk_ok:
  "mc_inv c \<Longrightarrow> distinct es \<Longrightarrow> set es \<subseteq> set (mc_order c) \<Longrightarrow>
     mc_inv (sweep_walk now es c) \<and> mc_MaxEntries (sweep_walk now es c) = mc_MaxEntries c \<and>
     mc_abs (sweep_walk now es c) = map (el_Value c) (filter (\<lambda>el. el \<notin> set es \<or> \<not> entry_expired now (el_Value c el)) (mc_order c))"
proof (induction es arbitrary: c)
  case Nil
  then show ?case by (simp add: mc_abs_def)
next
  case (Cons e es)
  show ?case
  proof (cases "entry_expired now (el_Value c e)")
    case False
    then show ?thesis using Cons by (auto simp: Let_def intro!: arg_cong [where f = "map (el_Value c)"] filter_cong)
  next
    case True
    let ?c = "(drop_el e (me_key (el_Value c e)) c)\<lparr>mc_evictions := mc_evictions c + 1\<rparr>"
    have d: "distinct (mc_order c)" using Cons.prems(1) by (simp add: mc_inv_def)
    have v: "el_Value ?c = el_Value c" by (rule el_Value_heap) (simp add: drop_el_def)
    have ord: "mc_order ?c = filter (\<lambda>x. e \<noteq> x) (mc_order c)"
      using d by (simp add: drop_el_def distinct_remove1_removeAll removeAll_filter_not_eq)
    have "mc_inv ?c" using drop_el_ok(1) [OF Cons.prems(1), of e] Cons.prems(3) by simp
    moreover have "set es \<subseteq> set (mc_order ?c)" using Cons.prems(2,3) ord by auto
    ultimately have IH: "mc_inv (sweep_walk now es ?c) \<and> mc_MaxEntries (sweep_walk now es ?c) = mc_MaxEntries ?c \<and>
      mc_abs (sweep_walk now es ?c) = map (el_Value ?c) (filter (\<lambda>el. el \<notin> set es \<or> \<not> entry_expired now (el_Value ?c el)) (mc_order ?c))"
      using Cons.IH Cons.prems(2) by simp
    have "filter (\<lambda>el. el \<notin> set es \<or> \<not> entry_expired now (el_Value c el)) (mc_order ?c) =
        filter (\<lambda>el. el \<notin> set (e # es) \<or> \<not> entry_expired now (el_Value c el)) (mc_order c)"
      unfolding ord filter_filter using True by (intro filter_cong) auto
    moreover have "sweep_walk now (e # es) c = sweep_walk now es ?c" using True by (simp add: Let_def)
    moreover have "mc_MaxEntries ?c = mc_MaxEntries c" by (simp add: drop_el_def)
    ultimately show ?thesis using IH by (simp only: v)
  qed
qed

lemma sweepOnce_refines:
  assumes "mc_inv c"
  shows "mc_inv (sweepOnce now c) \<and> mc_abs (sweepOnce now c) = lru_sweep now (mc_abs c) \<and> mc_MaxEntries (sweepOnce now c) = mc_MaxEntries c"
proof -
  have "distinct (rev (mc_order c))" using assms by (simp add: mc_inv_def)
  from sweep_walk_ok [OF assms this, of now] have "mc_inv (sweepOnce now c)" "mc_MaxEntries (sweepOnce now c) = mc_MaxEntries c"
    and abs: "mc_abs (sweepOnce now c) = map (el_Value c) (filter (\<lambda>el. el \<notin> set (rev (mc_order c)) \<or> \<not> entry_expired now (el_Value c el)) (mc_order c))"
    by (simp_all add: sweepOnce_def)
  moreover have "filter (\<lambda>el. el \<notin> set (rev (mc_order c)) \<or> \<not> entry_expired now (el_Value c el)) (mc_order c) =
      filter (\<lambda>el. \<not> entry_expired now (el_Value c el)) (mc_order c)"
    by (rule filter_cong) auto
  ultimately show ?thesis by (simp add: lru_sweep_def mc_abs_def filter_map o_def)
qed

subsection \<open>What a caller can rely on\<close>

text \<open>The operations on a running cache, at non-decreasing times, and the keys they touch.\<close>

datatype 'e cache_op = OpGet string go_time | OpPut string 'e duration go_time | OpDelete string | OpSweep go_time

fun cache_step :: "'e cache_op \<Rightarrow> 'e MemoryCache \<Rightarrow> 'e MemoryCache" where
  "cache_step (OpGet key now) c = snd (mc_Get key now c)"
| "cache_step (OpPut key env ttl now) c = mc_Put key env ttl now c"
| "cache_step (OpDelete key) c = mc_Delete key c"
| "cache_step (OpSweep now) c = sweepOnce now c"

fun lru_step :: "nat \<Rightarrow> 'e cache_op \<Rightarrow> 'e lru \<Rightarrow> 'e lru" where
  "lru_step cap (OpGet key now) l = snd (lru_Get key now l)"
| "lru_step cap (OpPut key env ttl now) l = lru_Put cap key env ttl now l"
| "lru_step cap (OpDelete key) l = without key l"
| "lru_step cap (OpSweep now) l = lru_sweep now l"

fun touches :: "'e cache_op \<Rightarrow> string set" where
  "touches (OpGet key now) = {key}"
| "touches (OpPut key env ttl now) = {key}"
| "touches (OpDelete key) = {}"
| "touches (OpSweep now) = {}"

lemma cache_refines:
  "mc_inv c \<Longrightarrow> mc_inv (fold cache_step ops c) \<and> mc_abs (fold cache_step ops c) = fold (lru_step (nat (mc_MaxEntries c))) ops (mc_abs c) \<and>
     mc_MaxEntries (fold cache_step ops c) = mc_MaxEntries c"
proof (induction ops arbitrary: c)
  case (Cons op ops)
  have "mc_inv (cache_step op c) \<and> mc_abs (cache_step op c) = lru_step (nat (mc_MaxEntries c)) op (mc_abs c) \<and>
    mc_MaxEntries (cache_step op c) = mc_MaxEntries c"
  proof (cases op)
    case (OpGet key now)
    obtain r c' where "mc_Get key now c = (r, c')" by fastforce
    with mc_Get_refines [OF Cons.prems this] OpGet show ?thesis by simp
  next
    case (OpPut key env ttl now)
    with mc_Put_refines [OF Cons.prems, of key env ttl now] show ?thesis by simp
  next
    case (OpDelete key)
    with mc_Delete_refines [OF Cons.prems, of key] show ?thesis by simp
  next
    case (OpSweep now)
    with sweepOnce_refines [OF Cons.prems, of now] show ?thesis by simp
  qed
  with Cons.IH [of "cache_step op c"] show ?case by simp
qed simp

text \<open>
  The place of an entry: in front of it stand only keys touched since.  While these are fewer than
  the bound it is not evicted.
\<close>

definition held :: "string \<Rightarrow> 'e memEntry \<Rightarrow> string set \<Rightarrow> 'e lru \<Rightarrow> bool" where
  "held key e T l \<longleftrightarrow> distinct (map me_key l) \<and> me_key e = key \<and>
     (\<exists>pre post. l = pre @ e # post \<and> me_key ` set pre \<subseteq> T)"

lemma held_find:
  assumes "held key e T l"
  shows "lru_find key l = Some e"
proof -
  obtain pre post where l: "l = pre @ e # post" and d: "distinct (map me_key l)" and key: "me_key e = key"
    using assms by (auto simp: held_def)
  have "find (\<lambda>e. me_key e = key) pre = None" using d key unfolding l by (auto simp: find_None_iff) (metis imageI)
  then have "find (\<lambda>e. me_key e = key) (pre @ e # post) = Some e" using key by (induction pre) (auto split: if_splits)
  then show ?thesis by (simp add: lru_find_def l)
qed

lemma held_filter:
  assumes "held key e T l" "P e"
  shows "held key e T (filter P l)"
proof -
  obtain pre post where l: "l = pre @ e # post" and d: "distinct (map me_key l)" and key: "me_key e = key" and T: "me_key ` set pre \<subseteq> T"
    using assms(1) by (auto simp: held_def)
  have "filter P l = filter P pre @ e # filter P post" using assms(2) by (simp add: l)
  moreover have "me_key ` set (filter P pre) \<subseteq> T" using T by auto
  moreover have "distinct (map me_key (filter P l))" using d by (simp add: distinct_map_filter)
  ultimately show ?thesis using key unfolding held_def by blast
qed

lemma held_without: "held key e T l \<Longrightarrow> k \<noteq> key \<Longrightarrow> held key e T (without k l)"
  unfolding without_def by (rule held_filter) (auto simp: held_def)

lemma held_front:
  assumes "held key e T l" "me_key x \<notin> me_key ` set l"
  shows "held key e (insert (me_key x) T) (x # l)"
proof -
  obtain pre post where l: "l = pre @ e # post" and d: "distinct (map me_key l)" and key: "me_key e = key" and T: "me_key ` set pre \<subseteq> T"
    using assms(1) by (auto simp: held_def)
  have "x # l = (x # pre) @ e # post" "me_key ` set (x # pre) \<subseteq> insert (me_key x) T" using T by (auto simp: l)
  moreover have "distinct (map me_key (x # l))" using d assms(2) by auto
  ultimately show ?thesis using key unfolding held_def by blast
qed

lemma held_take:
  assumes "held key e T l" "finite T" "card T < n"
  shows "held key e T (take n l)"
proof -
  obtain pre post where l: "l = pre @ e # post" and d: "distinct (map me_key l)" and key: "me_key e = key" and T: "me_key ` set pre \<subseteq> T"
    using assms(1) by (auto simp: held_def)
  have "length pre = card (me_key ` set pre)" using d by (simp add: l distinct_map distinct_card card_image)
  also have "\<dots> \<le> card T" using T assms(2) by (rule card_mono [rotated])
  finally have "take n l = pre @ e # take (n - length pre - 1) post" using assms(3) by (simp add: l take_Cons' )
  moreover have "distinct (map me_key (take n l))" using d by (simp add: distinct_map) (meson inj_on_subset set_take_subset)
  ultimately show ?thesis using key T unfolding held_def by blast
qed

lemma held_mono: "held key e T l \<Longrightarrow> T \<subseteq> T' \<Longrightarrow> held key e T' l"
  unfolding held_def by blast

text \<open>An operation that neither overwrites nor deletes the entry and happens before it expires.\<close>

fun spares :: "string \<Rightarrow> go_time \<Rightarrow> 'e cache_op \<Rightarrow> bool" where
  "spares key now (OpGet k t) = (t \<le> now)"
| "spares key now (OpPut k env ttl t) = (k \<noteq> key)"
| "spares key now (OpDelete k) = (k \<noteq> key)"
| "spares key now (OpSweep t) = (t \<le> now)"

lemma held_step:
  assumes "held key e T l" "spares key now op" "\<not> entry_expired now e" "finite T" "card (T \<union> (touches op - {key})) < cap"
  shows "held key e (T \<union> (touches op - {key})) (lru_step cap op l)"
proof -
  have fresh: "t \<le> now \<Longrightarrow> \<not> entry_expired t e" for t using assms(3) by (auto simp: entry_expired_def)
  have gone: "me_key x \<notin> me_key ` set (without (me_key x) l)" for x by (auto simp: without_def)
  show ?thesis
  proof (cases op)
    case (OpGet k t)
    show ?thesis
    proof (cases "k = key")
      case True
      have "without key l = filter (\<lambda>x. me_key x \<noteq> key) l" "distinct (map me_key l)" "me_key e = key"
        using assms(1) by (auto simp: without_def held_def)
      then have "held key e T (e # without key l)" unfolding held_def
        by (intro conjI exI [of _ "[]"] exI [of _ "without key l"]) (auto simp: distinct_map_filter)
      then show ?thesis using OpGet True assms(2) held_find [OF assms(1)] fresh by (simp add: lru_Get_def)
    next
      case False
      have "held key e T (without k l)" using held_without [OF assms(1) False] .
      moreover have "me_key x = k" if "lru_find k l = Some x" for x using that by (auto simp: lru_find_def find_Some_iff)
      moreover from this have "held key e (insert k T) (x # without k l)" if "lru_find k l = Some x" for x
        using held_front [OF calculation(1), of x] gone [of x] that by simp
      ultimately show ?thesis using OpGet False assms(1)
        by (auto simp: lru_Get_def split: option.split intro: held_mono)
    qed
  next
    case (OpPut k env ttl t)
    then have k: "k \<noteq> key" using assms(2) by simp
    define x where "x = \<lparr>me_key = k, me_env = env, me_expires = if 0 < ttl then t + ttl else zero_time\<rparr>"
    have x: "me_key x = k" by (simp add: x_def)
    show ?thesis
    proof (cases "lru_find k l")
      case None
      then have "me_key x \<notin> me_key ` set l" by (auto simp: x lru_find_def find_None_iff)
      from held_front [OF assms(1) this] have "held key e (insert k T) (x # l)" by (simp add: x)
      then have "held key e (insert k T) (take cap (x # l))" using assms(4,5) OpPut k by (intro held_take) auto
      then show ?thesis using None OpPut k by (simp add: lru_Put_def Let_def x_def)
    next
      case (Some y)
      have "held key e (insert k T) (x # without k l)" using held_front [OF held_without [OF assms(1) k], of x] gone [of x] by (simp add: x)
      then show ?thesis using Some OpPut k by (simp add: lru_Put_def Let_def x_def)
    qed
  next
    case (OpDelete k)
    then show ?thesis using assms(1,2) held_without by simp
  next
    case (OpSweep t)
    then show ?thesis using held_filter [OF assms(1), of "\<lambda>e. \<not> entry_expired t e"] assms(2) fresh by (simp add: lru_sweep_def)
  qed
qed

lemma held_run:
  "held key e T l \<Longrightarrow> list_all (spares key now) ops \<Longrightarrow> \<not> entry_expired now e \<Longrightarrow> finite T \<Longrightarrow>
     card (T \<union> (\<Union> (touches ` set ops) - {key})) < cap \<Longrightarrow>
     held key e (T \<union> (\<Union> (touches ` set ops) - {key})) (fold (lru_step cap) ops l)"
proof (induction ops arbitrary: T l)
  case (Cons op ops)
  let ?T = "T \<union> (touches op - {key})"
  have fin: "finite (touches x)" for x :: "'a cache_op" by (cases x) simp_all
  have un: "T \<union> (\<Union> (touches ` set (op # ops)) - {key}) = ?T \<union> (\<Union> (touches ` set ops) - {key})" by auto
  have "card ?T \<le> card (?T \<union> (\<Union> (touches ` set ops) - {key}))" using Cons.prems(4) fin by (intro card_mono) auto
  with Cons.prems(5) have "card ?T < cap" unfolding un by simp
  then have "held key e ?T (lru_step cap op l)" using held_step [of key e T l now op cap] Cons.prems by simp
  with Cons.IH [of ?T "lru_step cap op l"] Cons.prems fin show ?case unfolding un by simp
qed simp

lemma lru_length: "length l \<le> cap \<Longrightarrow> length (fold (lru_step cap) ops l) \<le> cap"
proof (induction ops arbitrary: l)
  case (Cons op ops)
  have out: "length (without k l) < length l" if "lru_find k l \<noteq> None" for k
    using that by (auto simp: without_def lru_find_def find_None_iff intro!: length_filter_less)
  have "length (without k l) \<le> cap" for k using Cons.prems by (simp add: without_def) (meson length_filter_le order_trans)
  then have "length (lru_step cap op l) \<le> cap"
    using Cons.prems out
    by (cases op) (force simp: lru_Get_def lru_Put_def lru_sweep_def Let_def split: option.split intro: order_trans [OF length_filter_le])+
  with Cons.IH show ?case by simp
qed simp

text \<open>
  C33. The cache is an LRU list: whatever operations came before, what \<^verbatim>\<open>Get\<close> answers is what the
  list of entries, most recently used first and cut at the bound, answers; and the number of
  entries reported never exceeds the bound.
\<close>

theorem cache_is_lru:
  "let c = fold cache_step ops (NewMemoryCache n); cap = nat (if n \<le> 0 then 4096 else n) in
   fst (mc_Get key now c) = fst (lru_Get key now (fold (lru_step cap) ops [])) \<and>
   st_SizeEntries (mc_Stats c) = int (length (fold (lru_step cap) ops [])) \<and> st_SizeEntries (mc_Stats c) \<le> int cap"
proof -
  define c cap where "c = fold cache_step ops (NewMemoryCache n)" and "cap = nat (if n \<le> 0 then 4096 else n)"
  have cap: "nat (mc_MaxEntries (NewMemoryCache n :: 'a MemoryCache)) = cap" by (simp add: NewMemoryCache_def cap_def)
  have inv: "mc_inv c" and abs: "mc_abs c = fold (lru_step cap) ops []"
    using cache_refines [OF mc_inv_new(1), of ops n] cap by (simp_all add: c_def mc_inv_new(2))
  obtain r c' where g: "mc_Get key now c = (r, c')" by fastforce
  have "st_SizeEntries (mc_Stats c) = int (length (mc_abs c))" using mc_keys(3) [OF inv] by (simp add: mc_Stats_def mc_abs_def)
  moreover have "length (mc_abs c) \<le> cap" unfolding abs by (rule lru_length) simp
  ultimately show ?thesis using mc_Get_refines(2) [OF inv g] g abs unfolding Let_def c_def [symmetric] cap_def [symmetric] by simp
qed

lemma cache_keeps:
  fixes ops0 :: "'e cache_op list"
  assumes "c = fold cache_step ops0 (NewMemoryCache n)"
    and "list_all (spares key now) ops" and "int (card (\<Union> (touches ` set ops) - {key})) < mc_MaxEntries c"
    and "ttl > 0 \<Longrightarrow> now \<le> t + ttl"
  shows "fst (mc_Get key now (fold cache_step ops (mc_Put key env ttl t c))) = Some env"
proof -
  let ?cap = "nat (mc_MaxEntries c)" and ?c = "mc_Put key env ttl t c"
  define e where "e = \<lparr>me_key = key, me_env = env, me_expires = if ttl > 0 then t + ttl else zero_time\<rparr>"
  have inv: "mc_inv c" using cache_refines [OF mc_inv_new(1), of ops0 n] assms(1) by simp
  note put = mc_Put_refines [OF inv, of key env ttl t]
  have cap: "0 < ?cap" "card (\<Union> (touches ` set ops) - {key}) < ?cap" using assms(3) by auto
  have "distinct (map me_key (mc_abs ?c))" using mc_keys(1) put by blast
  moreover have "\<exists>post. mc_abs ?c = e # post"
    using put cap(1) by (cases ?cap) (auto simp: lru_Put_def Let_def e_def)
  ultimately have "held key e {} (mc_abs ?c)" by (force simp: held_def e_def)
  moreover have alive: "\<not> entry_expired now e" using assms(4) by (auto simp: entry_expired_def e_def)
  ultimately have "held key e (\<Union> (touches ` set ops) - {key}) (mc_abs (fold cache_step ops ?c))"
    using held_run [of key e "{}" "mc_abs ?c" now ops ?cap] assms(2) cap(2) cache_refines [of ?c ops] put by simp
  from held_find [OF this] have find: "lru_find key (mc_abs (fold cache_step ops ?c)) = Some e" .
  have inv': "mc_inv (fold cache_step ops ?c)" using cache_refines [of ?c ops] put by blast
  obtain r c' where g: "mc_Get key now (fold cache_step ops ?c) = (r, c')" by fastforce
  from mc_Get_refines(2) [OF inv' g] find alive g show ?thesis by (simp add: lru_Get_def) (simp add: e_def)
qed

text \<open>
  C34. What was put is found again: after any history, a value stays retrievable until it
  expires, as long as it is neither overwritten nor deleted and fewer other keys than the bound
  are read or written in the meantime.
\<close>

theorem cache_keeps_recent:
  fixes ops0 :: "'e cache_op list"
  assumes "c = fold cache_step ops0 (NewMemoryCache n)"
    and "list_all (spares key now) ops" and "int (card (\<Union> (touches ` set ops) - {key})) < mc_MaxEntries c"
    and "ttl > 0 \<Longrightarrow> now \<le> t + ttl"
  shows "fst (mc_Get key now (fold cache_step ops (mc_Put key env ttl t c))) = Some env"
  using assms by (rule cache_keeps)

theorem cache_keeps_recent_witness:
  "fst (mc_Get ''a'' 5 (fold cache_step [OpPut ''b'' (2 :: nat) 0 1, OpGet ''b'' 2, OpSweep 3] (mc_Put ''a'' 1 10 0 (NewMemoryCache 2)))) = Some 1"
proof -
  have "card (\<Union> (touches ` set [OpPut ''b'' (2 :: nat) 0 1, OpGet ''b'' 2, OpSweep 3]) - {''a''}) = 1" by simp
  then show ?thesis
    using cache_keeps_recent [of "NewMemoryCache 2" "[]" 2 "''a''" 5 "[OpPut ''b'' (2 :: nat) 0 1, OpGet ''b'' 2, OpSweep 3]" 10 0 1]
    by (simp add: NewMemoryCache_def)
qed

text \<open>
  Tenants are not isolated when a tenant id may contain a colon: what tenant \<^verbatim>\<open>t:x\<close> stores
  under \<^verbatim>\<open>k\<close>, tenant \<^verbatim>\<open>t\<close> reads under \<^verbatim>\<open>x:k\<close>.
\<close>

theorem tenants_collide:
  "fst (GetForTenant tenant (x @ '':'' @ k) now
     (PutForTenant (tenant @ '':'' @ x) k env 0 now (fold cache_step ops (NewMemoryCache n)))) = Some env"
proof -
  have "mc_MaxEntries (fold cache_step ops (NewMemoryCache n)) > 0"
    using cache_refines [OF mc_inv_new(1), of ops n] by (simp add: NewMemoryCache_def)
  then have "fst (mc_Get key now (fold cache_step [] (mc_Put key env 0 now (fold cache_step ops (NewMemoryCache n))))) = Some env" for key
    by (intro cache_keeps) simp_all
  then show ?thesis by (simp add: GetForTenant_def PutForTenant_def scopedKey_def)
qed

end
