(* ===== verification/Envelope.thy ===== *)
theory Envelope
  imports Token "HOL-Library.Word"
begin

text \<open>
  The wire envelope (\<^verbatim>\<open>src/envelope/envelope.go\<close>): validation, encoding with its size ceiling,
  the sequence numbers of a publisher and the gap detection of a subscriber.

  Sequence numbers are int64 words, compared signed, with the wrap-around of the machine.  The
  JSON codec of the fields and the time formats are a parameter; \<^verbatim>\<open>MarshalJSON\<close> and
  \<^verbatim>\<open>UnmarshalJSON\<close> are the code between them.
\<close>

type_synonym int64 = "64 word"

record Producer =
  pd_ID :: string
  pd_Kind :: string

record Causation =
  ca_ParentChannel :: string
  ca_ParentSequence :: int64

record Envelope =
  en_Channel :: string
  en_Sequence :: int64
  en_ProducedAt :: go_time
  en_Producer :: Producer
  en_Aspect :: string
  en_SchemaRef :: string
  en_Causation :: Causation
  en_Payload :: bytes

definition MaxEnvelopeSize :: nat where
  "MaxEnvelopeSize = 64 * 1024"

definition kind_Valid :: "string \<Rightarrow> bool" where
  "kind_Valid k \<longleftrightarrow> k = ''user'' \<or> k = ''agent'' \<or> k = ''service''"

definition IsRoot :: "Causation \<Rightarrow> bool" where
  "IsRoot c \<longleftrightarrow> ca_ParentChannel c = [] \<and> ca_ParentSequence c = 0"

definition ErrChannelRequired :: go_error where "ErrChannelRequired = Plain ''envelope: channel required''"
definition ErrAspectRequired :: go_error where "ErrAspectRequired = Plain ''envelope: aspect required''"
definition ErrProducerRequired :: go_error where "ErrProducerRequired = Plain ''envelope: producer required''"
definition ErrProducerKindUnknown :: go_error where "ErrProducerKindUnknown = Plain ''envelope: unknown producer kind''"
definition ErrSequenceNonPositive :: go_error where "ErrSequenceNonPositive = Plain ''envelope: sequence must be positive''"
definition ErrProducedAtZero :: go_error where "ErrProducedAtZero = Plain ''envelope: produced_at must be set''"
definition ErrTooLarge :: go_error where "ErrTooLarge = Plain ''envelope: encoded size exceeds MaxEnvelopeSize''"

definition env_Validate :: "Envelope \<Rightarrow> go_error option" where
  "env_Validate e =
     (if en_Channel e = [] then Some ErrChannelRequired
      else if en_Aspect e = [] then Some ErrAspectRequired
      else if pd_ID (en_Producer e) = [] then Some ErrProducerRequired
      else if \<not> kind_Valid (pd_Kind (en_Producer e)) then Some ErrProducerKindUnknown
      else if sint (en_Sequence e) \<le> 0 then Some ErrSequenceNonPositive
      else if en_ProducedAt e = zero_time then Some ErrProducedAtZero
      else None)"

text \<open>
  The fields on the wire are those of the envelope with the time as text; \<open>ec_format\<close> and
  \<open>ec_parse\<close> are the millisecond layout, \<open>ec_parseNano\<close> is RFC 3339 with nanoseconds.
\<close>

record env_codec =
  ec_Marshal :: "Envelope \<Rightarrow> string \<Rightarrow> bytes result"
  ec_Unmarshal :: "bytes \<Rightarrow> (Envelope \<times> string) result"
  ec_format :: "go_time \<Rightarrow> string"
  ec_parse :: "string \<Rightarrow> go_time option"
  ec_parseNano :: "string \<Rightarrow> go_time option"

definition MarshalJSON :: "env_codec \<Rightarrow> Envelope \<Rightarrow> bytes result" where
  "MarshalJSON ec e = ec_Marshal ec e (ec_format ec (en_ProducedAt e))"

definition UnmarshalJSON :: "env_codec \<Rightarrow> bytes \<Rightarrow> Envelope result" where
  "UnmarshalJSON ec b =
     (case ec_Unmarshal ec b of
        Err err \<Rightarrow> Err err
      | Ok (e, producedAt) \<Rightarrow>
          if producedAt = [] then Ok (e\<lparr>en_ProducedAt := zero_time\<rparr>)
          else case (case ec_parse ec producedAt of None \<Rightarrow> ec_parseNano ec producedAt | Some t \<Rightarrow> Some t) of
            None \<Rightarrow> Err (Plain ''envelope: invalid produced_at %q: %w'')
          | Some t \<Rightarrow> Ok (e\<lparr>en_ProducedAt := t\<rparr>))"

definition env_Encode :: "env_codec \<Rightarrow> Envelope \<Rightarrow> bytes result" where
  "env_Encode ec e =
     (case MarshalJSON ec e of
        Err err \<Rightarrow> Err err
      | Ok b \<Rightarrow> if length b > MaxEnvelopeSize then Err ErrTooLarge else Ok b)"

definition env_Decode :: "env_codec \<Rightarrow> bytes \<Rightarrow> Envelope result" where
  "env_Decode ec b = UnmarshalJSON ec b"

subsection \<open>Sequence numbers\<close>

text \<open>
  The tracker maps a channel to the address of its counter.  \<^verbatim>\<open>Next\<close> is two steps that other
  goroutines can interleave: finding or creating the counter under the lock, and the atomic
  increment.
\<close>

record SequenceTracker =
  sq_state :: "(string, nat) gomap"
  sq_heap :: "(nat, int64) gomap"
  sq_fresh :: nat

definition NewSequenceTracker :: SequenceTracker where
  "NewSequenceTracker = \<lparr>sq_state = [], sq_heap = [], sq_fresh = 0\<rparr>"

definition counter :: "SequenceTracker \<Rightarrow> nat \<Rightarrow> int64" where
  "counter t p = the (map_of (sq_heap t) p)"

definition next_lookup :: "string \<Rightarrow> SequenceTracker \<Rightarrow> nat \<times> SequenceTracker" where
  "next_lookup channel t =
     (case map_of (sq_state t) channel of
        Some p \<Rightarrow> (p, t)
      | None \<Rightarrow>
          let p = sq_fresh t in
          (p, t\<lparr>sq_fresh := p + 1, sq_heap := AList.update p 0 (sq_heap t), sq_state := AList.update channel p (sq_state t)\<rparr>))"

definition next_add :: "nat \<Rightarrow> SequenceTracker \<Rightarrow> int64 \<times> SequenceTracker" where
  "next_add p t = (counter t p + 1, t\<lparr>sq_heap := AList.update p (counter t p + 1) (sq_heap t)\<rparr>)"

definition sq_Next :: "string \<Rightarrow> SequenceTracker \<Rightarrow> int64 \<times> SequenceTracker" where
  "sq_Next channel t = (case next_lookup channel t of (p, t) \<Rightarrow> next_add p t)"

definition sq_Peek :: "string \<Rightarrow> SequenceTracker \<Rightarrow> int64" where
  "sq_Peek channel t = (case map_of (sq_state t) channel of Some p \<Rightarrow> counter t p | None \<Rightarrow> 0)"

definition sq_Snapshot :: "SequenceTracker \<Rightarrow> (string, int64) gomap" where
  "sq_Snapshot t = map (\<lambda>(k, p). (k, counter t p)) (sq_state t)"

definition restore_one :: "string \<times> int64 \<Rightarrow> SequenceTracker \<Rightarrow> SequenceTracker" where
  "restore_one = (\<lambda>(k, v) t. t\<lparr>sq_fresh := sq_fresh t + 1, sq_heap := AList.update (sq_fresh t) v (sq_heap t),
     sq_state := AList.update k (sq_fresh t) (sq_state t)\<rparr>)"

definition sq_Restore :: "(string, int64) gomap \<Rightarrow> SequenceTracker \<Rightarrow> SequenceTracker" where
  "sq_Restore state t = fold restore_one state (t\<lparr>sq_state := []\<rparr>)"

subsection \<open>Gaps\<close>

record GapResult =
  gr_Gap :: int64
  gr_Duplicate :: bool
  gr_First :: bool

type_synonym GapDetector = "(string \<times> string, int64) gomap"

definition NewGapDetector :: GapDetector where
  "NewGapDetector = []"

definition Observe :: "string \<Rightarrow> string \<Rightarrow> int64 \<Rightarrow> GapDetector \<Rightarrow> GapResult \<times> GapDetector" where
  "Observe channel producer sequence d =
     (case map_of d (channel, producer) of
        None \<Rightarrow> (\<lparr>gr_Gap = 0, gr_Duplicate = False, gr_First = True\<rparr>, AList.update (channel, producer) sequence d)
      | Some prev \<Rightarrow>
          if sint sequence \<le> sint prev then (\<lparr>gr_Gap = 0, gr_Duplicate = True, gr_First = False\<rparr>, d)
          else
            (\<lparr>gr_Gap = sequence - prev - 1, gr_Duplicate = False, gr_First = False\<rparr>, AList.update (channel, producer) sequence d))"

definition HighWater :: "string \<Rightarrow> string \<Rightarrow> GapDetector \<Rightarrow> int64" where
  "HighWater channel producer d = (case map_of d (channel, producer) of Some v \<Rightarrow> v | None \<Rightarrow> 0)"

subsection \<open>Publishers in parallel\<close>

text \<open>
  Goroutines calling \<^verbatim>\<open>Next\<close>: the pending calls that found their counter, and the numbers handed
  out so far, in order.
\<close>

inductive seq_step ::
  "SequenceTracker \<times> (string \<times> nat) list \<times> (string \<times> int64) list \<Rightarrow> SequenceTracker \<times> (string \<times> nat) list \<times> (string \<times> int64) list \<Rightarrow> bool"
  where
  find: "next_lookup channel t = (p, t') \<Longrightarrow> seq_step (t, pending, issued) (t', (channel, p) # pending, issued)"
| add: "(channel, p) \<in> set pending \<Longrightarrow> next_add p t = (v, t') \<Longrightarrow>
    seq_step (t, pending, issued) (t', remove1 (channel, p) pending, issued @ [(channel, v)])"

definition issued_for :: "string \<Rightarrow> (string \<times> int64) list \<Rightarrow> int64 list" where
  "issued_for channel issued = map snd (filter (\<lambda>x. fst x = channel) issued)"

definition numbered :: "int64 list \<Rightarrow> bool" where
  "numbered vs = (vs = map (\<lambda>i. word_of_nat (Suc i)) [0..<length vs])"

lemma numbered_snoc: "numbered vs \<Longrightarrow> numbered (vs @ [word_of_nat (Suc (length vs))])"
  unfolding numbered_def by (metis (no_types, lifting) length_append_singleton list.simps(8,9) map_append upt_Suc_append zero_le)

lemma numbered_distinct: "numbered vs \<Longrightarrow> length vs < 2 ^ 64 \<Longrightarrow> distinct vs"
proof -
  assume n: "numbered vs" and l: "length vs < 2 ^ 64"
  have "distinct (map (\<lambda>i. word_of_nat (Suc i) :: int64) [0..<length vs])"
    unfolding distinct_map inj_on_def using l
    by (auto simp: word_of_nat_eq_iff take_bit_nat_eq_self simp del: of_nat_Suc)
  then show ?thesis using n unfolding numbered_def by metis
qed

definition seq_inv :: "SequenceTracker \<times> (string \<times> nat) list \<times> (string \<times> int64) list \<Rightarrow> bool" where
  "seq_inv = (\<lambda>(t, pending, issued).
     (\<forall>c p. map_of (sq_state t) c = Some p \<longrightarrow> p < sq_fresh t \<and>
        counter t p = word_of_nat (length (issued_for c issued)) \<and> (\<forall>c'. map_of (sq_state t) c' = Some p \<longrightarrow> c' = c)) \<and>
     (\<forall>c p. (c, p) \<in> set pending \<longrightarrow> map_of (sq_state t) c = Some p) \<and>
     (\<forall>c. map_of (sq_state t) c = None \<longrightarrow> issued_for c issued = []) \<and>
     (\<forall>c. numbered (issued_for c issued)))"

lemma issued_for_snoc:
  "issued_for c (issued @ [(channel, v)]) = issued_for c issued @ (if c = channel then [v] else [])"
  by (simp add: issued_for_def)

lemma seq_invD:
  assumes "seq_inv (t, pending, issued)"
  shows "map_of (sq_state t) c = Some p \<Longrightarrow> p < sq_fresh t"
    and "map_of (sq_state t) c = Some p \<Longrightarrow> counter t p = word_of_nat (length (issued_for c issued))"
    and "map_of (sq_state t) c = Some p \<Longrightarrow> map_of (sq_state t) c' = Some p \<Longrightarrow> c' = c"
    and "(c, p) \<in> set pending \<Longrightarrow> map_of (sq_state t) c = Some p"
    and "map_of (sq_state t) c = None \<Longrightarrow> issued_for c issued = []"
    and "numbered (issued_for c issued)"
  using assms unfolding seq_inv_def by blast+

lemma seq_inv_step: "seq_step s s' \<Longrightarrow> seq_inv s \<Longrightarrow> seq_inv s'"
proof (induction rule: seq_step.induct)
  case (find channel t p t' pending issued)
  note D = seq_invD [OF find(2)]
  show ?case
  proof (cases "map_of (sq_state t) channel")
    case (Some q)
    then have "p = q" "t' = t" using find(1) by (simp_all add: next_lookup_def)
    then show ?thesis using find(2) Some unfolding seq_inv_def by auto
  next
    case None
    then have p: "p = sq_fresh t" and t': "t' = t\<lparr>sq_fresh := p + 1, sq_heap := AList.update p 0 (sq_heap t), sq_state := AList.update channel p (sq_state t)\<rparr>"
      using find(1) by (auto simp: next_lookup_def Let_def)
    have look: "map_of (sq_state t') c = (if c = channel then Some p else map_of (sq_state t) c)" for c by (simp add: t')
    have cnt: "counter t' q = (if q = p then 0 else counter t q)" for q by (simp add: t' counter_def)
    show ?thesis unfolding seq_inv_def prod.case
    proof (intro conjI allI impI)
      fix c q assume q: "map_of (sq_state t') c = Some q"
      show "q < sq_fresh t'" using q D(1) [of c q] by (auto simp: look t' p split: if_splits)
      show "counter t' q = word_of_nat (length (issued_for c issued))"
        using q D(1) [of c q] D(2) [of c q] D(5) [of c] None by (auto simp: look cnt p split: if_splits)
      show "c' = c" if "map_of (sq_state t') c' = Some q" for c'
        using q that D(1) [of c q] D(1) [of c' q] D(3) [of c q c'] by (auto simp: look p split: if_splits)
    next
      show "map_of (sq_state t') c = Some q" if "(c, q) \<in> set ((channel, p) # pending)" for c q
        using that D(4) [of c q] None by (auto simp: look)
      show "issued_for c issued = []" if "map_of (sq_state t') c = None" for c
        using that D(5) [of c] by (auto simp: look split: if_splits)
      show "numbered (issued_for c issued)" for c by (rule D(6))
    qed
  qed
next
  case (add channel p pending t v t' issued)
  note D = seq_invD [OF add(3)]
  have here: "map_of (sq_state t) channel = Some p" using D(4) add(1) by blast
  have v: "v = counter t p + 1" and t': "t' = t\<lparr>sq_heap := AList.update p v (sq_heap t)\<rparr>" using add(2) by (auto simp: next_add_def)
  have cnt: "counter t' q = (if q = p then v else counter t q)" for q by (simp add: t' counter_def)
  have vn: "v = word_of_nat (Suc (length (issued_for channel issued)))" using v D(2) [OF here] by simp
  show ?case unfolding seq_inv_def prod.case
  proof (intro conjI allI impI)
    fix c q assume "map_of (sq_state t') c = Some q"
    then have q: "map_of (sq_state t) c = Some q" by (simp add: t')
    show "q < sq_fresh t'" using D(1) [OF q] by (simp add: t')
    show "counter t' q = word_of_nat (length (issued_for c (issued @ [(channel, v)])))"
      using D(2) [OF q] D(3) [OF here, of c] q vn here by (auto simp: cnt issued_for_snoc)
    show "c' = c" if "map_of (sq_state t') c' = Some q" for c' using that D(3) [OF q] by (simp add: t')
  next
    show "map_of (sq_state t') c = Some q" if "(c, q) \<in> set (remove1 (channel, p) pending)" for c q
      using that D(4) [of c q] by (auto simp: t' dest: notin_set_remove1)
    show "issued_for c (issued @ [(channel, v)]) = []" if "map_of (sq_state t') c = None" for c
      using that D(5) [of c] here by (auto simp: t' issued_for_snoc)
    show "numbered (issued_for c (issued @ [(channel, v)]))" for c
      using D(6) [of c] numbered_snoc [OF D(6) [of channel]] vn by (auto simp: issued_for_snoc)
  qed
qed



subsection \<open>Restart\<close>

lemma peek_restore_one:
  "sq_Peek c (restore_one (k, v) t) = (if c = k then v else sq_Peek c t)"
  if "\<And>c p. map_of (sq_state t) c = Some p \<Longrightarrow> p < sq_fresh t"
  using that [of c] by (auto simp: sq_Peek_def restore_one_def counter_def split: option.splits)

lemma peek_restore:
  "map_wf st \<Longrightarrow> (\<And>c p. map_of (sq_state t) c = Some p \<Longrightarrow> p < sq_fresh t) \<Longrightarrow>
   sq_Peek c (fold restore_one st t) = (case map_of st c of Some v \<Rightarrow> v | None \<Rightarrow> sq_Peek c t)"
proof (induction st arbitrary: t)
  case (Cons x st)
  obtain k v where x: "x = (k, v)" by fastforce
  have wf: "map_wf st" and k: "map_of st k = None" using Cons.prems(1) by (auto simp: x map_of_eq_None_iff)
  have b: "q < sq_fresh (restore_one x t)" if "map_of (sq_state (restore_one x t)) c = Some q" for c q
    using that Cons.prems(2) [of c q] by (auto simp: x restore_one_def split: if_splits)
  show ?case using Cons.IH [OF wf b] peek_restore_one [of t c k v, OF Cons.prems(2)] k
    by (auto simp: x split: option.splits)
qed simp

text \<open>
  Saving the tracker before a restart and restoring it afterwards continues every channel
  where it stopped: the restored tracker tells the same last number on every channel, and the
  next publish gets the number after it.
\<close>

theorem restore_continues:
  assumes "map_wf (sq_state t)"
  shows "sq_Peek channel (sq_Restore (sq_Snapshot t) t') = sq_Peek channel t \<and>
    fst (sq_Next channel (sq_Restore (sq_Snapshot t) t')) = sq_Peek channel t + 1"
proof -
  have wf: "map_wf (sq_Snapshot t)" using assms by (simp add: sq_Snapshot_def comp_def case_prod_beta)
  have "map_of (sq_Snapshot t) c = map_option (counter t) (map_of (sq_state t) c)" for c
    by (simp add: sq_Snapshot_def map_of_map)
  then have p: "sq_Peek channel (sq_Restore (sq_Snapshot t) t') = sq_Peek channel t"
    unfolding sq_Restore_def using peek_restore [OF wf, of "t'\<lparr>sq_state := []\<rparr>" channel]
    by (simp add: sq_Peek_def split: option.splits)
  have "fst (sq_Next channel r) = sq_Peek channel r + 1" for r
    by (auto simp: sq_Next_def next_lookup_def next_add_def sq_Peek_def counter_def Let_def split: option.splits)
  with p show ?thesis by simp
qed

theorem restore_continues_witness:
  "fst (sq_Next ''orders'' (sq_Restore (sq_Snapshot (snd (sq_Next ''orders'' NewSequenceTracker))) NewSequenceTracker)) = 2"
proof -
  have "map_wf (sq_state (snd (sq_Next ''orders'' NewSequenceTracker)))"
    by (simp add: sq_Next_def next_lookup_def next_add_def NewSequenceTracker_def)
  from restore_continues [OF this, of "''orders''" NewSequenceTracker] show ?thesis
    by (simp add: sq_Next_def next_lookup_def next_add_def NewSequenceTracker_def sq_Peek_def counter_def)
qed

subsection \<open>Gap accounting\<close>

text \<open>What the consumer does with the sequence numbers of one producer on one channel.\<close>

fun observe_all :: "string \<Rightarrow> string \<Rightarrow> int64 list \<Rightarrow> GapDetector \<Rightarrow> GapResult list \<times> GapDetector" where
  "observe_all channel producer [] d = ([], d)"
| "observe_all channel producer (s # ss) d =
     (let (r, d') = Observe channel producer s d; (rs, d'') = observe_all channel producer ss d' in (r # rs, d''))"

definition missed :: "GapResult list \<Rightarrow> int" where
  "missed rs = (\<Sum>r\<leftarrow>rs. sint (gr_Gap r))"

definition accepted :: "GapResult list \<Rightarrow> int" where
  "accepted rs = int (length (filter (\<lambda>r. \<not> gr_Duplicate r) rs))"

lemma missed_accepted_simps [simp]:
  "missed [] = 0" "missed (r # rs) = sint (gr_Gap r) + missed rs"
  "accepted [] = 0" "accepted (r # rs) = (if gr_Duplicate r then 0 else 1) + accepted rs"
  by (simp_all add: missed_def accepted_def)

lemma sint_gap:
  fixes a b :: int64
  assumes "0 < sint b" "sint b < sint a"
  shows "sint (a - b - 1) = sint a - sint b - 1"
proof -
  have "sint a < 2 ^ 63" using sint_lt [of a] by simp
  then have "sint (a - b) = sint a - sint b" using assms by (simp add: sint_word_ariths signed_take_bit_int_eq_self)
  then show ?thesis using assms \<open>sint a < 2 ^ 63\<close> by (simp add: sint_word_ariths(2) [of "a - b"] signed_take_bit_int_eq_self)
qed

lemma observe_all_account:
  "map_of d (channel, producer) = Some prev \<Longrightarrow> 0 < sint prev \<Longrightarrow> \<forall>s\<in>set ss. 0 < sint s \<Longrightarrow>
   observe_all channel producer ss d = (rs, d') \<Longrightarrow>
   sint (HighWater channel producer d') = Max (sint ` set (prev # ss)) \<and>
   missed rs + accepted rs = sint (HighWater channel producer d') - sint prev \<and> (\<forall>r\<in>set rs. 0 \<le> sint (gr_Gap r))"
proof (induction ss arbitrary: d prev rs)
  case (Cons s ss)
  obtain r d1 where o: "Observe channel producer s d = (r, d1)" by fastforce
  obtain rs1 where oa: "observe_all channel producer ss d1 = (rs1, d')" and rs: "rs = r # rs1"
    using Cons.prems(4) o by (auto split: prod.splits)
  show ?case
  proof (cases "sint s \<le> sint prev")
    case True
    then have r: "r = \<lparr>gr_Gap = 0, gr_Duplicate = True, gr_First = False\<rparr>" "d1 = d" using o Cons.prems(1) by (auto simp: Observe_def)
    have "Max (sint ` set (prev # s # ss)) = Max (sint ` set (prev # ss))"
      using True by (cases "ss = []") (simp_all add: max_def)
    then show ?thesis using Cons.IH [OF Cons.prems(1,2) _ oa [unfolded r(2)]] Cons.prems(3) by (simp add: rs r)
  next
    case False
    then have r: "r = \<lparr>gr_Gap = s - prev - 1, gr_Duplicate = False, gr_First = False\<rparr>" and d1: "d1 = AList.update (channel, producer) s d"
      using o Cons.prems(1) by (auto simp: Observe_def)
    have "Max (sint ` set (prev # s # ss)) = Max (sint ` set (s # ss))"
      using False by (cases "ss = []") (simp_all add: max_def)
    moreover have "map_of d1 (channel, producer) = Some s" by (simp add: d1)
    ultimately show ?thesis using Cons.IH [OF _ _ _ oa, of s] Cons.prems(2,3) False sint_gap [of prev s]
      by (simp add: rs r)
  qed
qed (simp add: HighWater_def)

text \<open>
  The gap detector loses no message and counts none twice: after any positive sequence
  numbers of a producer, in any order and with repeats, the high-water mark is the largest of
  them, no reported gap is negative, and the messages reported missing plus those accepted as new
  are exactly the numbers from the first one seen up to the high-water mark.
\<close>

theorem gap_accounting:
  assumes "ss \<noteq> []" "\<forall>s\<in>set ss. 0 < sint s"
  shows "let (rs, d) = observe_all channel producer ss NewGapDetector in
    sint (HighWater channel producer d) = Max (sint ` set ss) \<and> (\<forall>r\<in>set rs. 0 \<le> sint (gr_Gap r)) \<and>
    missed rs + accepted rs = sint (HighWater channel producer d) - sint (hd ss) + 1"
proof -
  obtain s ss' where ss: "ss = s # ss'" using assms(1) by (cases ss) auto
  obtain rs d where oa: "observe_all channel producer ss' [((channel, producer), s)] = (rs, d)" by fastforce
  have "Observe channel producer s NewGapDetector = (\<lparr>gr_Gap = 0, gr_Duplicate = False, gr_First = True\<rparr>, [((channel, producer), s)])"
    by (simp add: Observe_def NewGapDetector_def)
  moreover note observe_all_account [OF _ _ _ oa, of s]
  ultimately show ?thesis using assms(2) oa by (simp add: ss)
qed

theorem gap_accounting_witness:
  "let (rs, d) = observe_all ''orders'' ''billing'' [3, 5, 4, 9] NewGapDetector in
   sint (HighWater ''orders'' ''billing'' d) = 9 \<and> missed rs + accepted rs = 7"
  using gap_accounting [of "[3, 5, 4, 9]" "''orders''" "''billing''"] by (simp add: case_prod_beta Let_def)

end
