(* ===== verification/JsonSchema.thy ===== *)
theory JsonSchema
  imports Prelude Complex_Main
begin

text \<open>
  The payload schemas (\<^verbatim>\<open>src/schema/jsonschema.go\<close>).

  A decoded JSON value is a \<open>json\<close>: a number is the rational the \<^verbatim>\<open>float64\<close> stands for (a JSON
  text never decodes to an infinity or a NaN), an object is a Go map, whose order here is the
  order a \<^verbatim>\<open>range\<close> visits it in.  The literals of an enumeration come from a decoded schema, so
  they are such values too.  Errors keep their format strings, without the path; whether a
  value is accepted does not depend on it.  Converting a number outside the range of
  \<^verbatim>\<open>int64\<close> is left to the platform by the language: what converting it and back gives is the
  argument \<open>oob\<close>.
\<close>

datatype json =
    JNull
  | JBool bool
  | JNum rat
  | JStr string
  | JArr "json list"
  | JObj "(string \<times> json) list"

datatype JSONSchema = JSONSchema
  (sc_Type: string)
  (sc_Required: "string list")
  (sc_Properties: "(string \<times> JSONSchema option) list")
  (sc_Items: "JSONSchema option")
  (sc_AdditionalProperties: "bool option")
  (sc_Enum: "json list")
  (sc_Description: string)

lemma zip_size [termination_simp]: "(a, b) \<in> set (zip vs ws) \<Longrightarrow> size a < Suc (size_list size vs)"
  by (auto simp: less_Suc_eq_le dest!: set_zip_leftD intro: size_list_estimation')

text \<open>\<^verbatim>\<open>reflect.DeepEqual\<close> on decoded values: maps are compared key by key.\<close>

fun DeepEqual :: "json \<Rightarrow> json \<Rightarrow> bool" where
  "DeepEqual JNull w \<longleftrightarrow> w = JNull"
| "DeepEqual (JBool b) w \<longleftrightarrow> w = JBool b"
| "DeepEqual (JNum x) w \<longleftrightarrow> w = JNum x"
| "DeepEqual (JStr s) w \<longleftrightarrow> w = JStr s"
| "DeepEqual (JArr vs) w \<longleftrightarrow>
     (case w of JArr ws \<Rightarrow> length vs = length ws \<and> list_all (\<lambda>(v, w). DeepEqual v w) (zip vs ws) | _ \<Rightarrow> False)"
| "DeepEqual (JObj m) w \<longleftrightarrow>
     (case w of
        JObj n \<Rightarrow> length m = length n \<and>
          list_all (\<lambda>(k, v). case map_of n k of None \<Rightarrow> False | Some w \<Rightarrow> DeepEqual v w) m
      | _ \<Rightarrow> False)"

text \<open>\<^verbatim>\<open>float64(int64(f))\<close>.\<close>

definition via_int64 :: "(rat \<Rightarrow> rat) \<Rightarrow> rat \<Rightarrow> rat" where
  "via_int64 oob f =
     (if - (2 ^ 63) \<le> f \<and> f < 2 ^ 63 then of_int (if 0 \<le> f then \<lfloor>f\<rfloor> else \<lceil>f\<rceil>) else oob f)"

definition checkType :: "(rat \<Rightarrow> rat) \<Rightarrow> string \<Rightarrow> json \<Rightarrow> go_error option" where
  "checkType oob typ v =
     (if typ = ''string'' then (case v of JStr _ \<Rightarrow> None | _ \<Rightarrow> Some (Plain ''schema: %s expected string''))
      else if typ = ''number'' then (case v of JNum _ \<Rightarrow> None | _ \<Rightarrow> Some (Plain ''schema: %s expected number''))
      else if typ = ''integer'' then
        (case v of
           JNum f \<Rightarrow> if f \<noteq> via_int64 oob f then Some (Plain ''schema: %s expected integer'') else None
         | _ \<Rightarrow> Some (Plain ''schema: %s expected integer''))
      else if typ = ''boolean'' then (case v of JBool _ \<Rightarrow> None | _ \<Rightarrow> Some (Plain ''schema: %s expected boolean''))
      else if typ = ''object'' then
        (case v of JNull \<Rightarrow> None | JObj _ \<Rightarrow> None | _ \<Rightarrow> Some (Plain ''schema: %s expected object''))
      else if typ = ''array'' then
        (case v of JNull \<Rightarrow> None | JArr _ \<Rightarrow> None | _ \<Rightarrow> Some (Plain ''schema: %s expected array''))
      else if typ = ''null'' then (if v \<noteq> JNull then Some (Plain ''schema: %s expected null'') else None)
      else None)"

text \<open>A loop that returns the first error.\<close>

fun first_err :: "go_error option list \<Rightarrow> go_error option" where
  "first_err [] = None"
| "first_err (Some e # es) = Some e"
| "first_err (None # es) = first_err es"

text \<open>The fields and the elements of a value; those of nil, and of a value of another type, are none.\<close>

fun obj_fields :: "json \<Rightarrow> (string \<times> json) list" where
  "obj_fields (JObj m) = m"
| "obj_fields _ = []"

fun arr_elems :: "json \<Rightarrow> json list" where
  "arr_elems (JArr vs) = vs"
| "arr_elems _ = []"

definition is_obj :: "json \<Rightarrow> bool" where "is_obj v \<longleftrightarrow> (case v of JObj _ \<Rightarrow> True | _ \<Rightarrow> False)"
definition is_arr :: "json \<Rightarrow> bool" where "is_arr v \<longleftrightarrow> (case v of JArr _ \<Rightarrow> True | _ \<Rightarrow> False)"

lemma obj_fields_size [termination_simp]: "(k, x) \<in> set (obj_fields v) \<Longrightarrow> size x < size v"
proof (cases v)
  case (JObj m)
  assume "(k, x) \<in> set (obj_fields v)"
  then have "(k, x) \<in> set m" by (simp add: JObj)
  then have "size x < size_list (size_prod (\<lambda>_. 0) size) m"
    by (induction m) (auto simp: less_Suc_eq trans_less_add2)
  then show ?thesis by (simp add: JObj)
qed simp_all

lemma arr_elems_size [termination_simp]: "x \<in> set (arr_elems v) \<Longrightarrow> size x < size v"
  by (cases v) (auto simp: less_Suc_eq_le size_list_estimation')

fun validateValue :: "(rat \<Rightarrow> rat) \<Rightarrow> JSONSchema option \<Rightarrow> json \<Rightarrow> go_error option" where
  "validateValue oob None v = None"
| "validateValue oob (Some s) v =
     (case (if sc_Type s \<noteq> [] then checkType oob (sc_Type s) v else None) of
        Some err \<Rightarrow> Some err
      | None \<Rightarrow>
          if sc_Enum s \<noteq> [] \<and> \<not> list_ex (\<lambda>allowed. DeepEqual allowed v) (sc_Enum s) then Some (Plain ''schema: %s not in enum'')
          else if sc_Type s = ''object'' then
            (if \<not> is_obj v \<and> v \<noteq> JNull then Some (Plain ''schema: %s expected object'')
             else case first_err (map (\<lambda>k. if map_of (obj_fields v) k = None then Some (Plain ''schema: missing required field %s.%s'') else None) (sc_Required s)) of
               Some err \<Rightarrow> Some err
             | None \<Rightarrow>
                 first_err (map (\<lambda>(k, val).
                   case map_of (sc_Properties s) k of
                     None \<Rightarrow> if sc_AdditionalProperties s = Some False then Some (Plain ''schema: unexpected field %s.%s'') else None
                   | Some sub \<Rightarrow> validateValue oob sub val) (obj_fields v)))
          else if sc_Type s = ''array'' then
            (if \<not> is_arr v \<and> v \<noteq> JNull then Some (Plain ''schema: %s expected array'')
             else case sc_Items s of
               None \<Rightarrow> None
             | Some items \<Rightarrow> first_err (map (\<lambda>e. validateValue oob (Some items) e) (arr_elems v)))
          else None)"

declare validateValue.simps(2) [simp del]

definition sc_Validate :: "(rat \<Rightarrow> rat) \<Rightarrow> JSONSchema option \<Rightarrow> json \<Rightarrow> go_error option" where
  "sc_Validate oob s v = (case s of None \<Rightarrow> None | Some s' \<Rightarrow> validateValue oob (Some s') v)"

text \<open>\<open>unmarshal\<close> is \<^verbatim>\<open>json.Unmarshal\<close> into an empty interface.\<close>

definition ValidateBytes :: "(rat \<Rightarrow> rat) \<Rightarrow> (string \<Rightarrow> json result) \<Rightarrow> JSONSchema option \<Rightarrow> string \<Rightarrow> go_error option" where
  "ValidateBytes oob unmarshal s raw =
     (case s of
        None \<Rightarrow> None
      | Some s' \<Rightarrow>
          if raw = [] then validateValue oob (Some s') JNull
          else case unmarshal raw of
            Err err \<Rightarrow> Some (Plain ''schema: payload is not JSON: %w'')
          | Ok v \<Rightarrow> validateValue oob (Some s') v)"

subsection \<open>Acceptance does not depend on map order\<close>

text \<open>A decoded value: the keys of every object are distinct.\<close>

fun json_wf :: "json \<Rightarrow> bool" where
  "json_wf (JArr vs) \<longleftrightarrow> list_all json_wf vs"
| "json_wf (JObj m) \<longleftrightarrow> map_wf m \<and> list_all (\<lambda>(_, v). json_wf v) m"
| "json_wf _ \<longleftrightarrow> True"

lemma first_err_None: "first_err es = None \<longleftrightarrow> (\<forall>e\<in>set es. e = None)"
  by (induction es rule: first_err.induct) auto

lemma first_err_map: "first_err (map f xs) = None \<longleftrightarrow> (\<forall>x\<in>set xs. f x = None)"
  by (simp add: first_err_None)

lemma json_wf_fields: "json_wf v \<Longrightarrow> map_of (obj_fields v) k = Some x \<Longrightarrow> json_wf x"
  by (cases v) (auto simp: list_all_iff dest!: map_of_SomeD)

lemma json_wf_elems: "json_wf v \<Longrightarrow> x \<in> set (arr_elems v) \<Longrightarrow> json_wf x"
  by (cases v) (auto simp: list_all_iff)

lemma same_keys:
  assumes "map_wf m" "map_wf n" "length m = length n" "fst ` set m \<subseteq> fst ` set n"
  shows "fst ` set m = fst ` set n"
proof (rule card_subset_eq [OF _ assms(4)])
  have "card (fst ` set l) = length l" if "map_wf l" for l :: "('a \<times> 'c) list"
    using that by (metis distinct_card length_map list.set_map)
  moreover have "card (fst ` set l) = length l" if "map_wf l" for l :: "('a \<times> 'b) list"
    using that by (metis distinct_card length_map list.set_map)
  ultimately show "card (fst ` set m) = card (fst ` set n)" using assms by simp
qed simp

lemma DeepEqual_objD:
  assumes "DeepEqual (JObj m) (JObj n)" "map_wf m" "map_wf n"
  shows "rel_option DeepEqual (map_of m k) (map_of n k)"
proof -
  have le: "fst ` set m \<subseteq> fst ` set n"
    using assms(1) by (force simp: list_all_iff map_of_eq_None_iff split: option.splits)
  have eq: "fst ` set m = fst ` set n" using same_keys [OF assms(2,3) _ le] assms(1) by simp
  show ?thesis
  proof (cases "map_of m k")
    case None
    then have "map_of n k = None" using eq by (metis map_of_eq_None_iff)
    with None show ?thesis by simp
  next
    case (Some x)
    then have "(k, x) \<in> set m" by (rule map_of_SomeD)
    with assms(1) Some show ?thesis by (force simp: list_all_iff split: option.splits)
  qed
qed

lemma DeepEqual_trans: "DeepEqual a b \<Longrightarrow> DeepEqual b c \<Longrightarrow> DeepEqual a c"
proof (induction a b arbitrary: c rule: DeepEqual.induct)
  case (5 vs w)
  then obtain ws us where w: "w = JArr ws" "c = JArr us" by (auto split: json.splits)
  have l: "length vs = length ws" "length ws = length us" using 5 by (simp_all add: w)
  have "DeepEqual (vs ! i) (us ! i)" if "i < length vs" for i
  proof -
    have z: "(vs ! i, ws ! i) \<in> set (zip vs ws)" "(ws ! i, us ! i) \<in> set (zip ws us)" using that l by (auto simp: set_zip)
    have e: "DeepEqual (vs ! i) (ws ! i)" "DeepEqual (ws ! i) (us ! i)"
      using 5(2,3) bspec [OF _ z(1)] bspec [OF _ z(2)] by (auto simp: w list_all_iff)
    show ?thesis by (rule 5(1) [OF w(1) z(1) refl e])
  qed
  then show ?case using l by (auto simp: w list_all_iff set_zip)
next
  case (6 m w)
  then obtain n p where w: "w = JObj n" "c = JObj p" by (auto split: json.splits)
  have "case map_of p k of None \<Rightarrow> False | Some z \<Rightarrow> DeepEqual x z" if kx: "(k, x) \<in> set m" for k x
  proof -
    obtain y where y: "map_of n k = Some y" "DeepEqual x y" using 6(2) kx by (force simp: w list_all_iff split: option.splits)
    then obtain z where z: "map_of p k = Some z" "DeepEqual y z"
      using 6(3) map_of_SomeD [OF y(1)] by (force simp: w list_all_iff split: option.splits)
    show ?thesis using 6(1) [OF w(1) kx refl y(1) y(2) z(2)] z(1) by simp
  qed
  then show ?case using 6(2,3) by (auto simp: w list_all_iff)
qed auto

lemma DeepEqual_sym: "json_wf a \<Longrightarrow> json_wf b \<Longrightarrow> DeepEqual a b \<Longrightarrow> DeepEqual b a"
proof (induction a b rule: DeepEqual.induct)
  case (5 vs w)
  then obtain ws where w: "w = JArr ws" by (auto split: json.splits)
  have l: "length vs = length ws" using 5 by (simp add: w)
  have "DeepEqual (ws ! i) (vs ! i)" if "i < length vs" for i
    using 5(1) [OF w, of "(vs ! i, ws ! i)" "vs ! i" "ws ! i"] 5(2-4) that l
    by (force simp: w list_all_iff set_zip)
  then show ?case using l by (auto simp: w list_all_iff set_zip)
next
  case (6 m w)
  then obtain n where w: "w = JObj n" by (auto split: json.splits)
  have wf: "map_wf m" "map_wf n" using 6 by (simp_all add: w)
  have "case map_of m k of None \<Rightarrow> False | Some x \<Rightarrow> DeepEqual y x" if "(k, y) \<in> set n" for k y
  proof -
    have y: "map_of n k = Some y" using that wf(2) by simp
    then obtain x where x: "map_of m k = Some x" "DeepEqual x y"
      using DeepEqual_objD [OF _ wf, of k] 6(4) by (auto simp: w option_rel_Some2)
    have "json_wf x" "json_wf y"
      using 6(2,3) json_wf_fields [of "JObj m" k x] json_wf_fields [of "JObj n" k y] x(1) y by (auto simp: w)
    then show ?thesis using 6(1) [OF w map_of_SomeD [OF x(1)] refl y] x by simp
  qed
  then show ?case using 6(4) by (auto simp: w list_all_iff)
qed auto

text \<open>What a value shows to the validator, apart from its fields and elements, agrees on equal values.\<close>

lemma DeepEqual_shape:
  assumes "DeepEqual v w"
  shows "checkType oob typ v = checkType oob typ w" "is_obj v = is_obj w" "is_arr v = is_arr w" "v = JNull \<longleftrightarrow> w = JNull"
proof -
  consider "v = w" | (arr) vs ws where "v = JArr vs" "w = JArr ws" | (obj) m n where "v = JObj m" "w = JObj n"
    using assms by (cases v) (auto split: json.splits)
  then have "checkType oob typ v = checkType oob typ w \<and> is_obj v = is_obj w \<and> is_arr v = is_arr w \<and> (v = JNull \<longleftrightarrow> w = JNull)"
    by cases (simp_all only: checkType_def is_obj_def is_arr_def json.case json.distinct simp_thms)
  then show "checkType oob typ v = checkType oob typ w" "is_obj v = is_obj w" "is_arr v = is_arr w" "v = JNull \<longleftrightarrow> w = JNull"
    by blast+
qed

lemma DeepEqual_fields:
  assumes "json_wf v" "json_wf w" "DeepEqual v w"
  shows "rel_option DeepEqual (map_of (obj_fields v) k) (map_of (obj_fields w) k)"
proof (cases "\<exists>m n. v = JObj m \<and> w = JObj n")
  case True
  then show ?thesis using assms DeepEqual_objD by force
next
  case False
  then have "obj_fields v = []" "obj_fields w = []" using assms(3) by (cases v; cases w; simp)+
  then show ?thesis by simp
qed

lemma DeepEqual_elems:
  assumes "DeepEqual v w" "y \<in> set (arr_elems w)"
  shows "\<exists>x\<in>set (arr_elems v). DeepEqual x y"
proof -
  obtain vs ws where v: "v = JArr vs" "w = JArr ws" using assms by (cases v; cases w) auto
  then obtain i where i: "i < length ws" "y = ws ! i" using assms(2) by (auto simp: in_set_conv_nth)
  have l: "length vs = length ws" and eq: "\<forall>p\<in>set (zip vs ws). DeepEqual (fst p) (snd p)"
    using assms(1) by (auto simp: v list_all_iff)
  have "(vs ! i, ws ! i) \<in> set (zip vs ws)" using i l by (auto simp: set_zip)
  then have "DeepEqual (vs ! i) (ws ! i)" using eq by fastforce
  then show ?thesis using i l by (auto simp: v)
qed

definition field_ok :: "(rat \<Rightarrow> rat) \<Rightarrow> JSONSchema \<Rightarrow> string \<Rightarrow> json \<Rightarrow> bool" where
  "field_ok oob s k x \<longleftrightarrow>
     (case map_of (sc_Properties s) k of
        None \<Rightarrow> sc_AdditionalProperties s \<noteq> Some False
      | Some sub \<Rightarrow> validateValue oob sub x = None)"

lemma field_err_None:
  "(case map_of (sc_Properties s) k of
      None \<Rightarrow> if sc_AdditionalProperties s = Some False then Some e else None
    | Some sub \<Rightarrow> validateValue oob sub x) = None \<longleftrightarrow> field_ok oob s k x"
  by (simp add: field_ok_def split: option.splits)

text \<open>When a value is accepted, read off the code.\<close>

lemma err_None:
  "(case x of None \<Rightarrow> y | Some e \<Rightarrow> Some e) = None \<longleftrightarrow> x = None \<and> y = None"
  "(if b then Some e else y) = None \<longleftrightarrow> \<not> b \<and> y = None"
  "(if b then y else None) = None \<longleftrightarrow> (b \<longrightarrow> y = None)"
  by (simp_all split: option.split)

lemma accepts_iff:
  "validateValue oob (Some s) v = None \<longleftrightarrow>
     (sc_Type s \<noteq> [] \<longrightarrow> checkType oob (sc_Type s) v = None) \<and>
     (sc_Enum s = [] \<or> (\<exists>a\<in>set (sc_Enum s). DeepEqual a v)) \<and>
     (sc_Type s = ''object'' \<longrightarrow> (is_obj v \<or> v = JNull) \<and>
        (\<forall>k\<in>set (sc_Required s). map_of (obj_fields v) k \<noteq> None) \<and> (\<forall>(k, x)\<in>set (obj_fields v). field_ok oob s k x)) \<and>
     (sc_Type s = ''array'' \<longrightarrow> (is_arr v \<or> v = JNull) \<and>
        (\<forall>items x. sc_Items s = Some items \<longrightarrow> x \<in> set (arr_elems v) \<longrightarrow> validateValue oob (Some items) x = None))"
proof -
  let ?fields = "first_err (map (\<lambda>(k, x). case map_of (sc_Properties s) k of
      None \<Rightarrow> if sc_AdditionalProperties s = Some False then Some (Plain ''schema: unexpected field %s.%s'') else None
    | Some sub \<Rightarrow> validateValue oob sub x) (obj_fields v))"
  have flds: "?fields = None \<longleftrightarrow> (\<forall>(k, x)\<in>set (obj_fields v). field_ok oob s k x)"
    by (simp add: first_err_map case_prod_beta field_err_None)
  have items: "(case sc_Items s of None \<Rightarrow> None | Some items \<Rightarrow> first_err (map (\<lambda>e. validateValue oob (Some items) e) (arr_elems v))) = None \<longleftrightarrow>
      (\<forall>items x. sc_Items s = Some items \<longrightarrow> x \<in> set (arr_elems v) \<longrightarrow> validateValue oob (Some items) x = None)"
    by (cases "sc_Items s") (simp_all add: first_err_map Ball_def)
  have req: "first_err (map (\<lambda>k. if map_of (obj_fields v) k = None then Some (Plain ''schema: missing required field %s.%s'') else None) (sc_Required s)) = None \<longleftrightarrow>
      (\<forall>k\<in>set (sc_Required s). map_of (obj_fields v) k \<noteq> None)"
    by (simp add: first_err_map err_None)
  have body: "(if c then a else if d then b else None) = None \<longleftrightarrow> (c \<longrightarrow> a = None) \<and> (\<not> c \<longrightarrow> d \<longrightarrow> b = None)" for c d and a b :: "go_error option"
    by simp
  have other: "sc_Type s = ''array'' \<longrightarrow> sc_Type s \<noteq> ''object''" by simp
  show ?thesis
    by (subst validateValue.simps(2)) (simp only: err_None body flds items req list_ex_iff, use other in blast)
qed

lemma validate_accepts_equal:
  "json_wf v \<Longrightarrow> json_wf w \<Longrightarrow> DeepEqual v w \<Longrightarrow> validateValue oob s v = None \<Longrightarrow> validateValue oob s w = None"
proof (induction "size v" arbitrary: s v w rule: less_induct)
  case less
  show ?case
  proof (cases s)
    case (Some t)
    note shape = DeepEqual_shape [OF less.prems(3)]
    note acc = less.prems(4) [unfolded Some, THEN accepts_iff [THEN iffD1]]
    have sub: "validateValue oob u y = None"
      if "validateValue oob u x = None" "DeepEqual x y" "size x < size v" "json_wf x" "json_wf y" for u x y
      using less.hyps [OF that(3-5,2,1)] .
    have "\<exists>a\<in>set (sc_Enum t). DeepEqual a w" if "sc_Enum t \<noteq> []"
      using acc that DeepEqual_trans [OF _ less.prems(3)] by blast
    moreover have "\<forall>k\<in>set (sc_Required t). map_of (obj_fields w) k \<noteq> None" if "sc_Type t = ''object''"
      using acc that DeepEqual_fields [OF less.prems(1-3)] by (metis option.rel_distinct(2) option.exhaust)
    moreover have "field_ok oob t k y" if o: "sc_Type t = ''object''" and y: "(k, y) \<in> set (obj_fields w)" for k y
    proof -
      have wy: "map_of (obj_fields w) k = Some y" using y less.prems(2) by (cases w) auto
      then obtain x where x: "map_of (obj_fields v) k = Some x" "DeepEqual x y"
        using DeepEqual_fields [OF less.prems(1-3), of k] by (auto simp: option_rel_Some2)
      then have "field_ok oob t k x" using acc o map_of_SomeD [OF x(1)] by blast
      moreover have "size x < size v" using obj_fields_size map_of_SomeD [OF x(1)] by blast
      ultimately show ?thesis
        using sub [OF _ x(2)] json_wf_fields [OF less.prems(1) x(1)] json_wf_fields [OF less.prems(2) wy]
        by (auto simp: field_ok_def split: option.splits)
    qed
    moreover have "validateValue oob (Some items) y = None"
      if a: "sc_Type t = ''array''" "sc_Items t = Some items" and y: "y \<in> set (arr_elems w)" for items y
    proof -
      obtain x where x: "x \<in> set (arr_elems v)" "DeepEqual x y" using DeepEqual_elems [OF less.prems(3) y] by blast
      then show ?thesis using sub [OF _ x(2) arr_elems_size [OF x(1)]] acc a json_wf_elems less.prems(1,2) y by blast
    qed
    moreover have "(sc_Type t \<noteq> [] \<longrightarrow> checkType oob (sc_Type t) w = None) \<and>
        (sc_Type t = ''object'' \<longrightarrow> is_obj w \<or> w = JNull) \<and> (sc_Type t = ''array'' \<longrightarrow> is_arr w \<or> w = JNull)"
      using acc unfolding shape by blast
    ultimately show ?thesis unfolding Some accepts_iff [of oob t w] by blast
  qed simp
qed

text \<open>
  Within the range of \<^verbatim>\<open>int64\<close> the type integer means integer; beyond it, the same document is
  accepted on one platform and rejected on another.
\<close>

lemma integer_exact_in_range:
  "- (2 ^ 63) \<le> f \<Longrightarrow> f < 2 ^ 63 \<Longrightarrow> checkType oob ''integer'' (JNum f) = None \<longleftrightarrow> f \<in> \<int>"
proof -
  assume "- (2 ^ 63) \<le> f" "f < 2 ^ 63"
  then have "checkType oob ''integer'' (JNum f) = None \<longleftrightarrow> f = of_int (if 0 \<le> f then \<lfloor>f\<rfloor> else \<lceil>f\<rceil>)"
    by (simp add: checkType_def via_int64_def)
  also have "\<dots> \<longleftrightarrow> f \<in> \<int>"
  proof
    assume "f = of_int (if 0 \<le> f then \<lfloor>f\<rfloor> else \<lceil>f\<rceil>)"
    then show "f \<in> \<int>" by (rule ssubst) (rule Ints_of_int)
  qed (auto elim!: Ints_cases)
  finally show ?thesis .
qed

lemma integer_beyond_range:
  "2 ^ 63 \<le> f \<Longrightarrow> checkType oob ''integer'' (JNum f) = None \<longleftrightarrow> oob f = f"
  by (auto simp: checkType_def via_int64_def)

text \<open>
  C32. Whether a payload is accepted does not depend on the order Go's maps are visited in: two
  decodings of the same document, equal up to the order of the fields of any object in them, are
  both accepted or both rejected by every schema.
\<close>

theorem validate_order_independent:
  assumes "json_wf v" "json_wf w" "DeepEqual v w"
  shows "sc_Validate oob s v = None \<longleftrightarrow> sc_Validate oob s w = None"
proof -
  have "validateValue oob s v = None \<longleftrightarrow> validateValue oob s w = None"
    using validate_accepts_equal [OF assms] validate_accepts_equal [OF assms(2,1) DeepEqual_sym [OF assms]] by blast
  then show ?thesis by (cases s) (simp_all add: sc_Validate_def)
qed

definition order_schema :: JSONSchema where
  "order_schema = JSONSchema ''object'' [''id''] [(''id'', Some (JSONSchema ''integer'' [] [] None None [] []))] None (Some False) [] []"

theorem validate_order_independent_witness:
  "let v = JObj [(''id'', JNum 7), (''x'', JNull)]; w = JObj [(''x'', JNull), (''id'', JNum 7)] in
   sc_Validate id (Some order_schema) v = None \<longleftrightarrow> sc_Validate id (Some order_schema) w = None"
  unfolding Let_def by (rule validate_order_independent) simp_all

end
