(* ===== verification/Schema.thy ===== *)
theory Schema
  imports Envelope JsonSchema "HOL-Library.Product_Lexorder"
begin

text \<open>
  The schema registry (\<^verbatim>\<open>src/schema/pattern.go\<close>, \<^verbatim>\<open>registry.go\<close>, \<^verbatim>\<open>validate.go\<close> and
  \<^verbatim>\<open>broadcast.go\<close>): patterns over channel names, their registrations with history and change
  notifications, the validator that subscribers run, and the publisher that forwards changes.

  Each subscriber of the registry has a buffered channel; here it is the list of changes sent and
  not yet received.  Log lines are not modelled.
\<close>

subsection \<open>Patterns (pattern.go)\<close>

datatype tokenKind = tokLiteral | tokSingle | tokDouble | tokVar

record patternToken =
  pt_kind :: tokenKind
  pt_text :: string

record schema_Pattern =
  sp_tokens :: "patternToken list"
  sp_raw :: string

text \<open>The loop of \<^verbatim>\<open>splitPatternSegments\<close>, with the segment under way as its first argument.\<close>

fun split_loop :: "string \<Rightarrow> string \<Rightarrow> string list" where
  "split_loop seg [] = [seg]"
| "split_loop seg (c # s) =
     (if c = CHR ''.'' \<or> c = CHR '':'' then seg # split_loop [] s else split_loop (seg @ [c]) s)"

definition splitPatternSegments :: "string \<Rightarrow> string list" where
  "splitPatternSegments s = split_loop [] s"

fun parse_loop :: "string list \<Rightarrow> patternToken list result" where
  "parse_loop [] = Ok []"
| "parse_loop (s # segs) =
     (let more = (\<lambda>tok. case parse_loop segs of Err e \<Rightarrow> Err e | Ok toks \<Rightarrow> Ok (tok # toks)) in
      if s = ''**'' then
        (if segs \<noteq> [] then Err (Plain ''schema: ** must be the trailing segment in %q'')
         else more \<lparr>pt_kind = tokDouble, pt_text = []\<rparr>)
      else if s = ''*'' then more \<lparr>pt_kind = tokSingle, pt_text = []\<rparr>
      else if s \<noteq> [] \<and> hd s = CHR ''{'' \<and> last s = CHR ''}'' \<and> length s > 2 then
        more \<lparr>pt_kind = tokVar, pt_text = butlast (tl s)\<rparr>
      else if CHR ''{'' \<in> set s \<or> CHR ''}'' \<in> set s \<or> CHR ''*'' \<in> set s then
        Err (Plain ''schema: segment %q mixes literal and wildcard in %q'')
      else more \<lparr>pt_kind = tokLiteral, pt_text = s\<rparr>)"

definition sp_ParsePattern :: "string \<Rightarrow> schema_Pattern result" where
  "sp_ParsePattern src =
     (if src = [] then Err (Plain ''schema: empty pattern'')
      else case parse_loop (splitPatternSegments src) of
        Err e \<Rightarrow> Err e
      | Ok tokens \<Rightarrow> Ok \<lparr>sp_tokens = tokens, sp_raw = src\<rparr>)"

text \<open>The loop of \<^verbatim>\<open>Match\<close>; the index \<^verbatim>\<open>si\<close> is kept.\<close>

fun sp_match_loop :: "string list \<Rightarrow> nat \<Rightarrow> (string, string) gomap \<Rightarrow> patternToken list \<Rightarrow> (string, string) gomap option" where
  "sp_match_loop segs si bindings [] = (if si \<noteq> length segs then None else Some bindings)"
| "sp_match_loop segs si bindings (tok # toks) =
     (if pt_kind tok = tokDouble then (if si \<ge> length segs then None else Some bindings)
      else if si \<ge> length segs then None
      else if pt_kind tok = tokLiteral then
        (if segs ! si \<noteq> pt_text tok then None else sp_match_loop segs (si + 1) bindings toks)
      else if pt_kind tok = tokSingle then sp_match_loop segs (si + 1) bindings toks
      else sp_match_loop segs (si + 1) (AList.update (pt_text tok) (segs ! si) bindings) toks)"

definition sp_Match :: "schema_Pattern \<Rightarrow> string \<Rightarrow> (string, string) gomap option" where
  "sp_Match p channel = sp_match_loop (splitPatternSegments channel) 0 [] (sp_tokens p)"

subsection \<open>The registry (registry.go)\<close>

record Aspect =
  as_Name :: string
  as_Description :: string
  as_PayloadSchema :: "JSONSchema option"
  as_Required :: bool

record ACLPolicy =
  acl_PublishRoles :: "string list"
  acl_SubscribeRoles :: "string list"
  acl_Notes :: string

record schema_ChannelPattern =
  cp_Pattern :: string
  cp_Description :: string
  cp_Version :: int
  cp_Aspects :: "(string, Aspect) gomap"
  cp_ACL :: ACLPolicy
  cp_compiled :: schema_Pattern

definition ErrPatternConflict :: go_error where "ErrPatternConflict = Plain ''schema: pattern conflicts with existing registration''"
definition ErrPatternNotFound :: go_error where "ErrPatternNotFound = Plain ''schema: pattern not found''"
definition ErrNoMatch :: go_error where "ErrNoMatch = Plain ''schema: no pattern matches channel''"
definition ErrAspectNotFound :: go_error where "ErrAspectNotFound = Plain ''schema: aspect not registered for pattern''"
definition ErrUnsupportedAspect :: go_error where "ErrUnsupportedAspect = Plain ''schema: unsupported aspect''"

datatype ChangeKind = ChangeRegistered | ChangeUpdated | ChangeDeregistered

record Change =
  ch_Kind :: ChangeKind
  ch_Pattern :: string
  ch_Schema :: "schema_ChannelPattern option"
  ch_At :: go_time

text \<open>
  \<open>rg_chans\<close> holds the buffers of all channels handed out, also of those whose subscription was
  cancelled, which keep what was sent to them.
\<close>

record MemoryRegistry =
  rg_patterns :: "(string, schema_ChannelPattern) gomap"
  rg_versions :: "(string, schema_ChannelPattern list) gomap"
  rg_subscribers :: "nat list"
  rg_nextSub :: nat
  rg_chans :: "(nat, Change list) gomap"

definition NewMemoryRegistry :: MemoryRegistry where
  "NewMemoryRegistry = \<lparr>rg_patterns = [], rg_versions = [], rg_subscribers = [], rg_nextSub = 0, rg_chans = []\<rparr>"

definition rg_Subscribe :: "MemoryRegistry \<Rightarrow> nat \<times> MemoryRegistry" where
  "rg_Subscribe r =
     (let sub = rg_nextSub r in
      (sub, r\<lparr>rg_nextSub := sub + 1, rg_subscribers := rg_subscribers r @ [sub], rg_chans := AList.update sub [] (rg_chans r)\<rparr>))"

definition rg_cancel :: "nat \<Rightarrow> MemoryRegistry \<Rightarrow> MemoryRegistry" where
  "rg_cancel sub r = r\<lparr>rg_subscribers := filter (\<lambda>i. i \<noteq> sub) (rg_subscribers r)\<rparr>"

definition sub_buffer :: nat where
  "sub_buffer = 64"

definition chan_buf :: "nat \<Rightarrow> MemoryRegistry \<Rightarrow> Change list" where
  "chan_buf sub r = (case map_of (rg_chans r) sub of Some b \<Rightarrow> b | None \<Rightarrow> [])"

text \<open>A send that finds the buffer full is dropped.\<close>

definition rg_try_send :: "Change \<Rightarrow> nat \<Rightarrow> MemoryRegistry \<Rightarrow> MemoryRegistry" where
  "rg_try_send c sub r =
     (if length (chan_buf sub r) < sub_buffer then r\<lparr>rg_chans := AList.update sub (chan_buf sub r @ [c]) (rg_chans r)\<rparr> else r)"

definition rg_broadcast :: "Change \<Rightarrow> MemoryRegistry \<Rightarrow> MemoryRegistry" where
  "rg_broadcast c r = fold (rg_try_send c) (rg_subscribers r) r"

text \<open>
  The channels are collected under the lock and written to after it is released; a channel whose
  subscription was cancelled in between is closed, and the write panics.
\<close>

definition send_pending :: "Change \<Rightarrow> nat \<Rightarrow> MemoryRegistry \<Rightarrow> MemoryRegistry result" where
  "send_pending c sub r =
     (if sub \<notin> set (rg_subscribers r) then Err (go_panic ''send on closed channel'') else Ok (rg_try_send c sub r))"

definition rg_Register :: "schema_ChannelPattern \<Rightarrow> go_time \<Rightarrow> MemoryRegistry \<Rightarrow> go_error option \<times> MemoryRegistry" where
  "rg_Register p now r =
     (case sp_ParsePattern (cp_Pattern p) of
        Err err \<Rightarrow> (Some err, r)
      | Ok cp \<Rightarrow>
          let p = p\<lparr>cp_compiled := cp\<rparr>;
              p = (if cp_Version p = 0 then p\<lparr>cp_Version := 1\<rparr> else p) in
          if map_of (rg_patterns r) (cp_Pattern p) \<noteq> None then (Some ErrPatternConflict, r)
          else
            let r = r\<lparr>rg_patterns := AList.update (cp_Pattern p) p (rg_patterns r),
                      rg_versions := AList.update (cp_Pattern p) [p] (rg_versions r)\<rparr>
            in (None, rg_broadcast \<lparr>ch_Kind = ChangeRegistered, ch_Pattern = cp_Pattern p, ch_Schema = Some p, ch_At = now\<rparr> r))"

definition rg_Update :: "schema_ChannelPattern \<Rightarrow> go_time \<Rightarrow> MemoryRegistry \<Rightarrow> go_error option \<times> MemoryRegistry" where
  "rg_Update p now r =
     (case sp_ParsePattern (cp_Pattern p) of
        Err err \<Rightarrow> (Some err, r)
      | Ok cp \<Rightarrow>
          let p = p\<lparr>cp_compiled := cp\<rparr> in
          (case map_of (rg_patterns r) (cp_Pattern p) of
             None \<Rightarrow> (Some ErrPatternNotFound, r)
           | Some prev \<Rightarrow>
               let p = (if cp_Version p = 0 then p\<lparr>cp_Version := wrap64 (cp_Version prev + 1)\<rparr> else p);
                   hist = (case map_of (rg_versions r) (cp_Pattern p) of Some h \<Rightarrow> h | None \<Rightarrow> []);
                   r = r\<lparr>rg_patterns := AList.update (cp_Pattern p) p (rg_patterns r),
                         rg_versions := AList.update (cp_Pattern p) (hist @ [p]) (rg_versions r)\<rparr>
               in (None, rg_broadcast \<lparr>ch_Kind = ChangeUpdated, ch_Pattern = cp_Pattern p, ch_Schema = Some p, ch_At = now\<rparr> r)))"

definition rg_Deregister :: "string \<Rightarrow> go_time \<Rightarrow> MemoryRegistry \<Rightarrow> go_error option \<times> MemoryRegistry" where
  "rg_Deregister pattern now r =
     (if map_of (rg_patterns r) pattern = None then (Some ErrPatternNotFound, r)
      else
        let r = r\<lparr>rg_patterns := AList.delete pattern (rg_patterns r), rg_versions := AList.delete pattern (rg_versions r)\<rparr>
        in (None, rg_broadcast \<lparr>ch_Kind = ChangeDeregistered, ch_Pattern = pattern, ch_Schema = None, ch_At = now\<rparr> r))"

definition token_score :: "patternToken \<Rightarrow> int" where
  "token_score t = (case pt_kind t of tokLiteral \<Rightarrow> 4 | tokVar \<Rightarrow> 2 | tokSingle \<Rightarrow> 1 | tokDouble \<Rightarrow> 0)"

definition patternSpecificity :: "schema_Pattern \<Rightarrow> int" where
  "patternSpecificity p = (\<Sum>t\<leftarrow>sp_tokens p. token_score t)"

text \<open>
  The candidates, sorted by descending specificity and then by the pattern's text; the sort is
  stable.
\<close>

definition candidates :: "string \<Rightarrow> schema_ChannelPattern list \<Rightarrow> (schema_ChannelPattern \<times> (string, string) gomap) list" where
  "candidates channel ps = List.map_filter (\<lambda>p. map_option (Pair p) (sp_Match (cp_compiled p) channel)) ps"

definition cand_key :: "schema_ChannelPattern \<times> (string, string) gomap \<Rightarrow> int \<times> string" where
  "cand_key = (\<lambda>(p, _). (- patternSpecificity (cp_compiled p), cp_Pattern p))"

definition rg_Resolve :: "string \<Rightarrow> MemoryRegistry \<Rightarrow> (schema_ChannelPattern \<times> (string, string) gomap) result" where
  "rg_Resolve channel r =
     (let matches = candidates channel (map snd (rg_patterns r)) in
      if matches = [] then Err ErrNoMatch else Ok (hd (sort_key cand_key matches)))"

definition rg_Get :: "string \<Rightarrow> MemoryRegistry \<Rightarrow> schema_ChannelPattern result" where
  "rg_Get pattern r = (case map_of (rg_patterns r) pattern of None \<Rightarrow> Err ErrPatternNotFound | Some p \<Rightarrow> Ok p)"

definition rg_History :: "string \<Rightarrow> MemoryRegistry \<Rightarrow> schema_ChannelPattern list result" where
  "rg_History pattern r = (case map_of (rg_versions r) pattern of None \<Rightarrow> Err ErrPatternNotFound | Some h \<Rightarrow> Ok h)"

definition rg_List :: "MemoryRegistry \<Rightarrow> schema_ChannelPattern list" where
  "rg_List r = sort_key cp_Pattern (map snd (rg_patterns r))"

definition ResolveAspect ::
  "(string \<Rightarrow> (schema_ChannelPattern \<times> (string, string) gomap) result) \<Rightarrow> string \<Rightarrow> string \<Rightarrow>
   (JSONSchema option \<times> schema_ChannelPattern \<times> (string, string) gomap) result" where
  "ResolveAspect resolve channel aspect =
     (case resolve channel of
        Err err \<Rightarrow> Err err
      | Ok (p, b) \<Rightarrow>
          (case map_of (cp_Aspects p) aspect of
             None \<Rightarrow> Err ErrAspectNotFound
           | Some a \<Rightarrow> Ok (as_PayloadSchema a, p, b)))"

text \<open>
  \<^verbatim>\<open>LoadSnapshot\<close>; the argument is what \<^verbatim>\<open>json.Unmarshal\<close> makes of the bytes.  A pattern that does
  not compile ends the loop with the registry as far as it was filled.
\<close>

fun load_patterns :: "schema_ChannelPattern list \<Rightarrow> MemoryRegistry \<Rightarrow> go_error option \<times> MemoryRegistry" where
  "load_patterns [] r = (None, r)"
| "load_patterns (p # ps) r =
     (case sp_ParsePattern (cp_Pattern p) of
        Err err \<Rightarrow> (Some err, r)
      | Ok cp \<Rightarrow>
          let p = p\<lparr>cp_compiled := cp\<rparr>;
              p = (if cp_Version p = 0 then p\<lparr>cp_Version := 1\<rparr> else p)
          in load_patterns ps (r\<lparr>rg_patterns := AList.update (cp_Pattern p) p (rg_patterns r),
               rg_versions := AList.update (cp_Pattern p) [p] (rg_versions r)\<rparr>))"

definition rg_LoadSnapshot :: "schema_ChannelPattern list result \<Rightarrow> MemoryRegistry \<Rightarrow> go_error option \<times> MemoryRegistry" where
  "rg_LoadSnapshot decoded r =
     (case decoded of
        Err err \<Rightarrow> (Some err, r)
      | Ok ps \<Rightarrow> load_patterns ps (r\<lparr>rg_patterns := [], rg_versions := []\<rparr>))"

subsection \<open>The validator (validate.go)\<close>

definition ModeStrict :: string where "ModeStrict = ''strict''"
definition ModeWarn :: string where "ModeWarn = ''warn''"
definition ModeOff :: string where "ModeOff = ''off''"

record Validator =
  va_Registry :: "(string \<Rightarrow> (schema_ChannelPattern \<times> (string, string) gomap) result) option"
  va_Mode :: string

definition ErrPayloadInvalid :: go_error where "ErrPayloadInvalid = Plain ''schema: payload does not conform''"

definition va_Check :: "(rat \<Rightarrow> rat) \<Rightarrow> (string \<Rightarrow> json result) \<Rightarrow> Envelope \<Rightarrow> Validator option \<Rightarrow> go_error option" where
  "va_Check oob unmarshal env validator =
     (case validator of
        None \<Rightarrow> None
      | Some v \<Rightarrow>
          if va_Mode v = [] \<or> va_Mode v = ModeOff then None
          else case va_Registry v of
            None \<Rightarrow> None
          | Some resolve \<Rightarrow>
              (case resolve (en_Channel env) of
                 Err _ \<Rightarrow> None
               | Ok (p, _) \<Rightarrow>
                   (case map_of (cp_Aspects p) (en_Aspect env) of
                      None \<Rightarrow> if va_Mode v = ModeStrict then Some ErrUnsupportedAspect else None
                    | Some a \<Rightarrow>
                        (case as_PayloadSchema a of
                           None \<Rightarrow> None
                         | Some s \<Rightarrow>
                             (case ValidateBytes oob unmarshal (Some s) (en_Payload env) of
                                None \<Rightarrow> None
                              | Some err \<Rightarrow> if va_Mode v = ModeStrict then Some ErrPayloadInvalid else None)))))"

subsection \<open>The publisher (broadcast.go)\<close>

text \<open>
  What the loop of \<^verbatim>\<open>Run\<close> meets: the context is done, with its error, or the subscription gave a
  change, or it was closed.  \<open>publish\<close> is the broker's primitive on its state.
\<close>

datatype pub_event = CtxDone go_error | GotChange Change | SubClosed

definition ctx_Canceled :: go_error where "ctx_Canceled = Plain ''context canceled''"

definition ChangeChannel :: string where "ChangeChannel = ''public:parsec.registry.schemas''"

fun pub_run ::
  "(Change \<Rightarrow> bytes result) \<Rightarrow> (string \<Rightarrow> bytes \<Rightarrow> 'w \<Rightarrow> go_error option \<times> 'w) \<Rightarrow> string \<Rightarrow> pub_event list \<Rightarrow> 'w \<Rightarrow>
   (go_error option \<times> 'w) option" where
  "pub_run marshal publish channel [] w = None"
| "pub_run marshal publish channel (CtxDone err # es) w = Some (if err = ctx_Canceled then None else Some err, w)"
| "pub_run marshal publish channel (SubClosed # es) w = Some (None, w)"
| "pub_run marshal publish channel (GotChange c # es) w =
     (case marshal c of
        Err _ \<Rightarrow> pub_run marshal publish channel es w
      | Ok bdy \<Rightarrow> pub_run marshal publish channel es (snd (publish channel bdy w)))"

definition pub_Run ::
  "(string \<Rightarrow> go_error option) option \<Rightarrow> (Change \<Rightarrow> bytes result) \<Rightarrow> (string \<Rightarrow> bytes \<Rightarrow> 'w \<Rightarrow> go_error option \<times> 'w) \<Rightarrow>
   string \<Rightarrow> pub_event list \<Rightarrow> 'w \<Rightarrow> (go_error option \<times> 'w) option" where
  "pub_Run ensure marshal publish channel es w =
     (case (case ensure of None \<Rightarrow> None | Some f \<Rightarrow> f channel) of
        Some err \<Rightarrow> Some (Some err, w)
      | None \<Rightarrow> pub_run marshal publish channel es w)"

definition pub_channel :: "string \<Rightarrow> string" where
  "pub_channel optsChannel = (if optsChannel = [] then ChangeChannel else optsChannel)"

subsection \<open>What a pattern matches\<close>

definition tok_fits :: "patternToken \<Rightarrow> string \<Rightarrow> bool" where
  "tok_fits t s \<longleftrightarrow> (pt_kind t = tokLiteral \<longrightarrow> s = pt_text t)"

text \<open>Token by token, a trailing \<^verbatim>\<open>**\<close> standing for one or more segments.\<close>

definition fits :: "patternToken list \<Rightarrow> string list \<Rightarrow> bool" where
  "fits ts segs \<longleftrightarrow>
     (if ts \<noteq> [] \<and> pt_kind (last ts) = tokDouble
      then length ts \<le> length segs \<and> list_all2 tok_fits (butlast ts) (take (length ts - 1) segs)
      else list_all2 tok_fits ts segs)"

text \<open>The placeholders with the segments they stand for; of two of the same name, the later one counts.\<close>

definition var_segs :: "patternToken list \<Rightarrow> string list \<Rightarrow> (string \<times> string) list" where
  "var_segs ts segs = map (\<lambda>(t, s). (pt_text t, s)) (filter (\<lambda>(t, s). pt_kind t = tokVar) (zip ts segs))"

definition tokens_ok :: "patternToken list \<Rightarrow> bool" where
  "tokens_ok ts \<longleftrightarrow> ts \<noteq> [] \<and> (\<forall>t\<in>set (butlast ts). pt_kind t \<noteq> tokDouble)"

lemma parse_loop_tokens: "parse_loop segs = Ok ts \<Longrightarrow> length ts = length segs \<and> (\<forall>t\<in>set (butlast ts). pt_kind t \<noteq> tokDouble)"
proof (induction segs arbitrary: ts)
  case (Cons s segs)
  then obtain t ts' where ts: "ts = t # ts'" and p: "parse_loop segs = Ok ts'" and d: "pt_kind t = tokDouble \<longrightarrow> segs = []"
    by (auto simp: Let_def split: if_splits sum.splits)
  show ?case using Cons.IH [OF p] d by (auto simp: ts split: if_splits)
qed simp

lemma split_loop_nonempty [simp]: "split_loop seg s \<noteq> []"
  by (induction seg s rule: split_loop.induct) auto

lemma ParsePattern_tokens: "sp_ParsePattern src = Ok p \<Longrightarrow> tokens_ok (sp_tokens p)"
  using parse_loop_tokens [of "splitPatternSegments src"]
  by (auto simp: sp_ParsePattern_def tokens_ok_def splitPatternSegments_def split: if_splits sum.splits)

lemma fits_Cons:
  "tokens_ok (t # ts) \<Longrightarrow> fits (t # ts) segs \<longleftrightarrow>
     (if pt_kind t = tokDouble then segs \<noteq> []
      else segs \<noteq> [] \<and> tok_fits t (hd segs) \<and> (if ts = [] then tl segs = [] else fits ts (tl segs)))"
  by (cases segs; cases ts) (auto simp: fits_def tokens_ok_def take_Cons' neq_Nil_conv list_all2_Cons1)

lemma var_segs_Cons: "var_segs (t # ts) (s # segs) = (if pt_kind t = tokVar then [(pt_text t, s)] else []) @ var_segs ts segs"
  by (simp add: var_segs_def)

lemma var_segs_Nil [simp]: "var_segs [] segs = []" "var_segs ts [] = []"
  by (simp_all add: var_segs_def)

lemma tokens_ok_Cons: "tokens_ok (t # ts) \<Longrightarrow> pt_kind t \<noteq> tokDouble \<Longrightarrow> ts \<noteq> [] \<Longrightarrow> tokens_ok ts"
  by (simp add: tokens_ok_def)

lemma tokens_ok_double: "tokens_ok (t # ts) \<Longrightarrow> pt_kind t = tokDouble \<Longrightarrow> ts = []"
  by (auto simp: tokens_ok_def split: if_splits)

lemma match_loop_fits:
  "tokens_ok ts \<Longrightarrow> si \<le> length segs \<Longrightarrow> sp_match_loop segs si b ts \<noteq> None \<longleftrightarrow> fits ts (drop si segs)"
proof (induction ts arbitrary: si b)
  case (Cons t ts)
  show ?case
  proof (cases "pt_kind t = tokDouble \<or> si \<ge> length segs")
    case True
    then show ?thesis using fits_Cons [OF Cons.prems(1), of "drop si segs"] by auto
  next
    case False
    then have d: "drop si segs = segs ! si # drop (Suc si) segs" by (simp add: Cons_nth_drop_Suc)
    have "sp_match_loop segs (Suc si) b' ts \<noteq> None \<longleftrightarrow> (if ts = [] then drop (Suc si) segs = [] else fits ts (drop (Suc si) segs))" for b'
      using Cons.IH [of "Suc si" b'] tokens_ok_Cons [OF Cons.prems(1)] False by auto
    then show ?thesis using fits_Cons [OF Cons.prems(1), of "drop si segs"] False
      by (cases "pt_kind t") (simp_all add: d tok_fits_def del: not_None_eq)
  qed
qed (simp add: tokens_ok_def)

lemma match_loop_binds:
  "tokens_ok ts \<or> ts = [] \<Longrightarrow> sp_match_loop segs si b ts = Some b' \<Longrightarrow>
   map_of b' = map_of b ++ map_of (rev (var_segs ts (drop si segs)))"
proof (induction ts arbitrary: si b)
  case (Cons t ts)
  then have ok: "tokens_ok (t # ts)" by simp
  show ?case
  proof (cases "pt_kind t = tokDouble")
    case True
    then show ?thesis using Cons.prems(2) tokens_ok_double [OF ok True]
      by (cases "drop si segs") (auto simp: var_segs_Cons split: if_splits)
  next
    case False
    with Cons.prems(2) have lt: "si < length segs" by (auto split: if_splits)
    then have d: "drop si segs = segs ! si # drop (Suc si) segs" by (simp add: Cons_nth_drop_Suc)
    have ok': "tokens_ok ts \<or> ts = []" using tokens_ok_Cons [OF ok False] by blast
    show ?thesis
    proof (cases "pt_kind t = tokVar")
      case True
      then have "sp_match_loop segs (Suc si) (AList.update (pt_text t) (segs ! si) b) ts = Some b'"
        using Cons.prems(2) lt by simp
      from Cons.IH [OF ok' this] show ?thesis using True by (simp add: d var_segs_Cons update_conv' fun_eq_iff map_add_def split: option.splits)
    next
      case no: False
      then have "sp_match_loop segs (Suc si) b ts = Some b'"
        using Cons.prems(2) lt False by (cases "pt_kind t") (simp_all split: if_splits)
      from Cons.IH [OF ok' this] show ?thesis using no by (simp add: d var_segs_Cons)
    qed
  qed
qed (simp split: if_splits)

text \<open>
  What a schema pattern matches: a compiled pattern matches a channel exactly when the
  segments fit its tokens one by one, a trailing \<^verbatim>\<open>**\<close> standing for one or more segments; and the
  bindings returned are exactly the segments its placeholders stand for.
\<close>

theorem schema_match_exact:
  assumes "sp_ParsePattern src = Ok p"
  shows "(sp_Match p channel \<noteq> None \<longleftrightarrow> fits (sp_tokens p) (splitPatternSegments channel)) \<and>
    (\<forall>b. sp_Match p channel = Some b \<longrightarrow> map_of b = map_of (rev (var_segs (sp_tokens p) (splitPatternSegments channel))))"
  using match_loop_fits [OF ParsePattern_tokens [OF assms], of 0] match_loop_binds [of "sp_tokens p" _ 0 "[]"] ParsePattern_tokens [OF assms]
  by (auto simp: sp_Match_def)

theorem schema_match_exact_witness:
  "\<exists>p. sp_ParsePattern ''sessions:{id}.**'' = Ok p \<and> sp_Match p ''sessions:42.a.b'' \<noteq> None \<and> sp_Match p ''sessions:42'' = None"
proof -
  obtain p where p: "sp_ParsePattern ''sessions:{id}.**'' = Ok p"
    and t: "sp_tokens p = [\<lparr>pt_kind = tokLiteral, pt_text = ''sessions''\<rparr>, \<lparr>pt_kind = tokVar, pt_text = ''id''\<rparr>, \<lparr>pt_kind = tokDouble, pt_text = []\<rparr>]"
    by (simp add: sp_ParsePattern_def splitPatternSegments_def)
  show ?thesis using p schema_match_exact [OF p, of "''sessions:42.a.b''"] schema_match_exact [OF p, of "''sessions:42''"]
    by (auto simp: t fits_def tok_fits_def splitPatternSegments_def)
qed

subsection \<open>The registry's invariant\<close>

definition rg_inv :: "MemoryRegistry \<Rightarrow> bool" where
  "rg_inv r \<longleftrightarrow> map_wf (rg_patterns r) \<and>
     (\<forall>k. map_of (rg_patterns r) k = None \<longrightarrow> map_of (rg_versions r) k = None) \<and>
     (\<forall>k p. map_of (rg_patterns r) k = Some p \<longrightarrow>
        cp_Pattern p = k \<and> sp_ParsePattern k = Ok (cp_compiled p) \<and>
        (\<exists>h. map_of (rg_versions r) k = Some (h @ [p]) \<and> (\<forall>q\<in>set h. cp_Pattern q = k)))"

inductive rg_step :: "MemoryRegistry \<Rightarrow> MemoryRegistry \<Rightarrow> bool" where
  register: "rg_Register p now r = (e, r') \<Longrightarrow> rg_step r r'"
| update: "rg_Update p now r = (e, r') \<Longrightarrow> rg_step r r'"
| deregister: "rg_Deregister k now r = (e, r') \<Longrightarrow> rg_step r r'"
| load: "rg_LoadSnapshot ps r = (e, r') \<Longrightarrow> rg_step r r'"
| subscribe: "rg_Subscribe r = (sub, r') \<Longrightarrow> rg_step r r'"
| cancel: "rg_step r (rg_cancel sub r)"
| receive: "chan_buf sub r = c # cs \<Longrightarrow> rg_step r (r\<lparr>rg_chans := AList.update sub cs (rg_chans r)\<rparr>)"

lemma broadcast_keeps [simp]:
  "rg_patterns (rg_broadcast c r) = rg_patterns r" "rg_versions (rg_broadcast c r) = rg_versions r"
proof -
  have "rg_patterns (fold (rg_try_send c) subs r) = rg_patterns r \<and> rg_versions (fold (rg_try_send c) subs r) = rg_versions r" for subs
    by (induction subs arbitrary: r) (auto simp: rg_try_send_def)
  then show "rg_patterns (rg_broadcast c r) = rg_patterns r" "rg_versions (rg_broadcast c r) = rg_versions r"
    by (simp_all add: rg_broadcast_def)
qed

lemma rg_inv_cong: "rg_patterns r = rg_patterns r' \<Longrightarrow> rg_versions r = rg_versions r' \<Longrightarrow> rg_inv r = rg_inv r'"
  by (simp add: rg_inv_def)

lemma rg_inv_put:
  assumes "rg_inv r" "sp_ParsePattern k = Ok (cp_compiled p)" "cp_Pattern p = k" "\<forall>q\<in>set h. cp_Pattern q = k"
    and "rg_patterns r' = AList.update k p (rg_patterns r)" "rg_versions r' = AList.update k (h @ [p]) (rg_versions r)"
  shows "rg_inv r'"
  using assms unfolding rg_inv_def by auto

lemma load_patterns_inv: "rg_inv r \<Longrightarrow> rg_inv (snd (load_patterns ps r))"
proof (induction ps arbitrary: r)
  case (Cons p ps)
  show ?case
  proof (cases "sp_ParsePattern (cp_Pattern p)")
    case (Inr cp)
    define q where "q = (let p = p\<lparr>cp_compiled := cp\<rparr> in if cp_Version p = 0 then p\<lparr>cp_Version := 1\<rparr> else p)"
    have q: "cp_Pattern q = cp_Pattern p" "cp_compiled q = cp" by (simp_all add: q_def Let_def)
    have "load_patterns (p # ps) r =
        load_patterns ps (r\<lparr>rg_patterns := AList.update (cp_Pattern q) q (rg_patterns r), rg_versions := AList.update (cp_Pattern q) [q] (rg_versions r)\<rparr>)"
      by (simp add: Inr q_def Let_def)
    then show ?thesis
      using Cons.IH [OF rg_inv_put [OF Cons.prems, of "cp_Pattern q" q "[]"]] Inr q by simp
  qed (use Cons.prems in simp)
qed simp

lemma Register_inv:
  assumes "rg_inv r" shows "rg_inv (snd (rg_Register p now r))"
proof (cases "sp_ParsePattern (cp_Pattern p)")
  case (Inr cp)
  define q where "q = (let p = p\<lparr>cp_compiled := cp\<rparr> in if cp_Version p = 0 then p\<lparr>cp_Version := 1\<rparr> else p)"
  have q: "cp_Pattern q = cp_Pattern p" "cp_compiled q = cp" by (simp_all add: q_def Let_def)
  let ?r = "r\<lparr>rg_patterns := AList.update (cp_Pattern q) q (rg_patterns r), rg_versions := AList.update (cp_Pattern q) [q] (rg_versions r)\<rparr>"
  have e: "rg_Register p now r =
      (if map_of (rg_patterns r) (cp_Pattern q) \<noteq> None then (Some ErrPatternConflict, r)
       else (None, rg_broadcast \<lparr>ch_Kind = ChangeRegistered, ch_Pattern = cp_Pattern q, ch_Schema = Some q, ch_At = now\<rparr> ?r))"
    by (simp add: rg_Register_def Inr q_def Let_def)
  have "rg_inv ?r" by (rule rg_inv_put [OF assms, of "cp_Pattern q" q "[]"]) (simp_all add: Inr q)
  then show ?thesis using assms rg_inv_cong [OF broadcast_keeps, of _ ?r] by (simp add: e)
qed (use assms in \<open>simp add: rg_Register_def\<close>)

lemma Update_inv:
  assumes "rg_inv r" shows "rg_inv (snd (rg_Update p now r))"
proof (cases "sp_ParsePattern (cp_Pattern p)")
  case (Inr cp)
  show ?thesis
  proof (cases "map_of (rg_patterns r) (cp_Pattern p)")
    case (Some prev)
    define q where "q = (let p = p\<lparr>cp_compiled := cp\<rparr> in if cp_Version p = 0 then p\<lparr>cp_Version := wrap64 (cp_Version prev + 1)\<rparr> else p)"
    have q: "cp_Pattern q = cp_Pattern p" "cp_compiled q = cp" by (simp_all add: q_def Let_def)
    obtain h where h: "map_of (rg_versions r) (cp_Pattern p) = Some (h @ [prev])" "\<forall>q\<in>set h. cp_Pattern q = cp_Pattern p"
      and prev: "cp_Pattern prev = cp_Pattern p"
      using assms Some unfolding rg_inv_def by blast
    let ?r = "r\<lparr>rg_patterns := AList.update (cp_Pattern q) q (rg_patterns r), rg_versions := AList.update (cp_Pattern q) ((h @ [prev]) @ [q]) (rg_versions r)\<rparr>"
    have e: "rg_Update p now r = (None, rg_broadcast \<lparr>ch_Kind = ChangeUpdated, ch_Pattern = cp_Pattern q, ch_Schema = Some q, ch_At = now\<rparr> ?r)"
      by (simp add: rg_Update_def Inr Some h q_def Let_def)
    have "rg_inv ?r" by (rule rg_inv_put [OF assms, of "cp_Pattern q" q "h @ [prev]"]) (use h prev in \<open>auto simp: Inr q\<close>)
    then show ?thesis using rg_inv_cong [OF broadcast_keeps, of _ ?r] by (simp add: e)
  qed (use assms Inr in \<open>simp add: rg_Update_def\<close>)
qed (use assms in \<open>simp add: rg_Update_def\<close>)

lemma Deregister_inv: "rg_inv r \<Longrightarrow> rg_inv (snd (rg_Deregister k now r))"
  unfolding rg_inv_def by (auto simp: rg_Deregister_def Let_def simp del: map_of_eq_Some_iff split: if_splits)

lemma rg_step_inv: "rg_step r r' \<Longrightarrow> rg_inv r \<Longrightarrow> rg_inv r'"
proof (induction rule: rg_step.induct)
  case (register p now r e r')
  then show ?case using Register_inv [of r p now] by simp
next
  case (update p now r e r')
  then show ?case using Update_inv [of r p now] by simp
next
  case (deregister k now r e r')
  then show ?case using Deregister_inv [of r k now] by simp
next
  case (load ps r e r')
  have "rg_inv (r\<lparr>rg_patterns := [], rg_versions := []\<rparr>)" by (simp add: rg_inv_def)
  then show ?case using load load_patterns_inv [of "r\<lparr>rg_patterns := [], rg_versions := []\<rparr>"]
    by (auto simp: rg_LoadSnapshot_def split: sum.splits) (metis snd_conv)+
next
  case (subscribe r sub r')
  then show ?case using rg_inv_cong [of r r'] by (auto simp: rg_Subscribe_def Let_def)
next
  case (cancel r sub)
  then show ?case using rg_inv_cong [of r "rg_cancel sub r"] by (simp add: rg_cancel_def)
next
  case (receive sub r c cs)
  then show ?case using rg_inv_cong [of r "r\<lparr>rg_chans := AList.update sub cs (rg_chans r)\<rparr>"] by simp
qed

lemma reachable_rg_inv: "rg_step\<^sup>*\<^sup>* NewMemoryRegistry r \<Longrightarrow> rg_inv r"
proof (induction rule: rtranclp_induct)
  case base
  show ?case by (simp add: NewMemoryRegistry_def rg_inv_def)
qed (rule rg_step_inv)

text \<open>
  C31. In every reachable state of the registry, whatever was registered, updated, removed or
  loaded: each registration is filed under its own pattern, compiled from it, and is the newest
  entry of its history; a pattern that is not registered has no history.
\<close>

theorem registry_invariant:
  assumes "rg_step\<^sup>*\<^sup>* NewMemoryRegistry r"
  shows "case rg_Get pattern r of
      Err _ \<Rightarrow> rg_History pattern r = Err ErrPatternNotFound
    | Ok p \<Rightarrow> cp_Pattern p = pattern \<and> sp_ParsePattern pattern = Ok (cp_compiled p) \<and>
        (\<exists>h. rg_History pattern r = Ok (h @ [p]) \<and> (\<forall>q\<in>set h. cp_Pattern q = pattern))"
  using reachable_rg_inv [OF assms] unfolding rg_inv_def rg_Get_def rg_History_def
  by (cases "map_of (rg_patterns r) pattern") (force simp del: map_of_eq_Some_iff)+

definition sample_cp :: "string \<Rightarrow> schema_ChannelPattern" where
  "sample_cp s = \<lparr>cp_Pattern = s, cp_Description = [], cp_Version = 0, cp_Aspects = [],
     cp_ACL = \<lparr>acl_PublishRoles = [], acl_SubscribeRoles = [], acl_Notes = []\<rparr>, cp_compiled = \<lparr>sp_tokens = [], sp_raw = []\<rparr>\<rparr>"

theorem registry_invariant_witness:
  "let r = snd (rg_Register (sample_cp ''a.*'') 0 NewMemoryRegistry) in \<exists>p. rg_Get ''a.*'' r = Ok p \<and> cp_Pattern p = ''a.*''"
proof -
  let ?r = "snd (rg_Register (sample_cp ''a.*'') 0 NewMemoryRegistry)"
  have "rg_step\<^sup>*\<^sup>* NewMemoryRegistry ?r" by (metis prod.collapse r_into_rtranclp rg_step.register)
  from registry_invariant [OF this, of "''a.*''"] have "(\<exists>p. rg_Get ''a.*'' ?r = Ok p) \<Longrightarrow> \<exists>p. rg_Get ''a.*'' ?r = Ok p \<and> cp_Pattern p = ''a.*''"
    by auto
  moreover have "\<exists>p. rg_Get ''a.*'' ?r = Ok p"
    by (simp add: rg_Register_def sample_cp_def sp_ParsePattern_def splitPatternSegments_def NewMemoryRegistry_def rg_Get_def Let_def)
  ultimately show ?thesis by simp
qed

subsection \<open>Resolving a channel\<close>

lemma candidates_set:
  "(p, b) \<in> set (candidates channel ps) \<longleftrightarrow> p \<in> set ps \<and> sp_Match (cp_compiled p) channel = Some b"
  by (auto simp: candidates_def List.map_filter_def image_iff)

lemma candidates_perm: "mset ps = mset ps' \<Longrightarrow> mset (candidates channel ps) = mset (candidates channel ps')"
  by (simp add: candidates_def List.map_filter_def)

lemma cand_key_inj:
  assumes "rg_inv r" shows "inj_on cand_key (set (candidates channel (map snd (rg_patterns r))))"
proof (rule inj_onI)
  fix x y
  assume x: "x \<in> set (candidates channel (map snd (rg_patterns r)))" and y: "y \<in> set (candidates channel (map snd (rg_patterns r)))"
    and k: "cand_key x = cand_key y"
  obtain p b q c where xy: "x = (p, b)" "y = (q, c)" by (metis surj_pair)
  have "\<exists>k. map_of (rg_patterns r) k = Some a" if "a \<in> snd ` set (rg_patterns r)" for a
    using that assms by (auto simp: rg_inv_def)
  then obtain kp kq where "map_of (rg_patterns r) kp = Some p" "map_of (rg_patterns r) kq = Some q"
    using x y by (metis candidates_set list.set_map xy)
  moreover then have "kp = cp_Pattern p" "kq = cp_Pattern q" using assms unfolding rg_inv_def by blast+
  moreover have "cp_Pattern p = cp_Pattern q" using k by (simp add: cand_key_def xy)
  ultimately have "p = q" by simp
  then show "x = y" using x y by (simp add: xy candidates_set)
qed

lemma hd_sort_key_min:
  assumes "xs \<noteq> []" shows "hd (sort_key f xs) \<in> set xs \<and> (\<forall>x\<in>set xs. f (hd (sort_key f xs)) \<le> f x)"
proof -
  obtain y ys where s: "sort_key f xs = y # ys" using assms by (metis length_0_conv length_sort list.exhaust)
  then have "sorted (map f (y # ys))" "set xs = set (y # ys)" by (metis sorted_sort_key) (metis s set_sort)
  then show ?thesis by (auto simp: s)
qed

text \<open>
  Resolution is exact and deterministic: in every reachable registry a channel resolves to a
  registered pattern that matches it, with the bindings of that match, of the greatest
  specificity among all that match and, among equals, with the least text; it fails exactly when
  no registered pattern matches; and the result does not depend on the order the map of patterns
  is visited in.
\<close>

theorem resolve_most_specific:
  assumes "rg_step\<^sup>*\<^sup>* NewMemoryRegistry r"
  shows "(case rg_Resolve channel r of
      Err e \<Rightarrow> e = ErrNoMatch \<and> (\<forall>k q. rg_Get k r = Ok q \<longrightarrow> sp_Match (cp_compiled q) channel = None)
    | Ok (p, b) \<Rightarrow> rg_Get (cp_Pattern p) r = Ok p \<and> sp_Match (cp_compiled p) channel = Some b \<and>
        (\<forall>k q. rg_Get k r = Ok q \<longrightarrow> sp_Match (cp_compiled q) channel \<noteq> None \<longrightarrow>
           patternSpecificity (cp_compiled q) < patternSpecificity (cp_compiled p) \<or>
           patternSpecificity (cp_compiled q) = patternSpecificity (cp_compiled p) \<and> cp_Pattern p \<le> cp_Pattern q)) \<and>
    (\<forall>m. mset m = mset (rg_patterns r) \<longrightarrow> rg_Resolve channel (r\<lparr>rg_patterns := m\<rparr>) = rg_Resolve channel r)"
proof -
  note inv = reachable_rg_inv [OF assms]
  let ?c = "candidates channel (map snd (rg_patterns r))"
  have get: "rg_Get k r = Ok q \<longleftrightarrow> map_of (rg_patterns r) k = Some q" for k q
    by (simp add: rg_Get_def split: option.splits)
  have key: "rg_Get k r = Ok q \<Longrightarrow> q \<in> snd ` set (rg_patterns r)" for k q
    by (auto simp: get dest!: map_of_SomeD intro: rev_image_eqI)
  have own: "rg_Get (cp_Pattern q) r = Ok q" if "q \<in> snd ` set (rg_patterns r)" for q
  proof -
    from that inv obtain k where k: "map_of (rg_patterns r) k = Some q" by (auto simp: rg_inv_def)
    with inv have "cp_Pattern q = k" unfolding rg_inv_def by blast
    with k show ?thesis by (simp only: get)
  qed
  have perm: "rg_Resolve channel (r\<lparr>rg_patterns := m\<rparr>) = rg_Resolve channel r" if "mset m = mset (rg_patterns r)" for m
  proof -
    have "mset (candidates channel (map snd m)) = mset ?c" by (rule candidates_perm) (metis that mset_map)
    then have "sort_key cand_key ?c = sort_key cand_key (candidates channel (map snd m))" "candidates channel (map snd m) = [] \<longleftrightarrow> ?c = []"
      using cand_key_inj [OF inv] by (auto intro!: sort_key_inj_key_eq simp flip: mset_zero_iff)
    then show ?thesis by (simp add: rg_Resolve_def Let_def)
  qed
  show ?thesis
  proof (cases "?c = []")
    case True
    have "sp_Match (cp_compiled q) channel = None" if "rg_Get k r = Ok q" for k q
      using key [OF that] True candidates_set [of q _ channel "map snd (rg_patterns r)"] by (cases "sp_Match (cp_compiled q) channel") auto
    then show ?thesis using perm True by (simp add: rg_Resolve_def)
  next
    case False
    obtain p b where pb: "hd (sort_key cand_key ?c) = (p, b)" by fastforce
    have m: "(p, b) \<in> set ?c" and least: "\<And>x. x \<in> set ?c \<Longrightarrow> cand_key (p, b) \<le> cand_key x"
      using hd_sort_key_min [OF False, of cand_key] pb by auto
    have "patternSpecificity (cp_compiled q) < patternSpecificity (cp_compiled p) \<or>
        patternSpecificity (cp_compiled q) = patternSpecificity (cp_compiled p) \<and> cp_Pattern p \<le> cp_Pattern q"
      if g: "rg_Get k r = Ok q" and s: "sp_Match (cp_compiled q) channel \<noteq> None" for k q
    proof -
      obtain c where "(q, c) \<in> set ?c" using s key [OF g] by (auto simp: candidates_set)
      from least [OF this] show ?thesis by (auto simp: cand_key_def)
    qed
    then show ?thesis using perm m own False pb by (auto simp: rg_Resolve_def candidates_set)
  qed
qed

theorem resolve_most_specific_witness:
  "let r = snd (rg_Register (sample_cp ''a.*'') 0 (snd (rg_Register (sample_cp ''a.b'') 0 NewMemoryRegistry))) in
   \<exists>p b. rg_Resolve ''a.b'' r = Ok (p, b) \<and> sp_Match (cp_compiled p) ''a.b'' = Some b"
proof -
  let ?r1 = "snd (rg_Register (sample_cp ''a.b'') 0 NewMemoryRegistry)"
  let ?r = "snd (rg_Register (sample_cp ''a.*'') 0 ?r1)"
  have "rg_step NewMemoryRegistry ?r1" "rg_step ?r1 ?r" by (metis prod.collapse rg_step.register)+
  then have "rg_step\<^sup>*\<^sup>* NewMemoryRegistry ?r" by auto
  note res = resolve_most_specific [OF this, of "''a.b''"]
  have "rg_Get ''a.b'' ?r = Ok ((sample_cp ''a.b'')\<lparr>cp_Version := 1, cp_compiled := \<lparr>sp_tokens = [\<lparr>pt_kind = tokLiteral, pt_text = ''a''\<rparr>, \<lparr>pt_kind = tokLiteral, pt_text = ''b''\<rparr>], sp_raw = ''a.b''\<rparr>\<rparr>)"
    by (simp add: rg_Register_def sample_cp_def sp_ParsePattern_def splitPatternSegments_def NewMemoryRegistry_def rg_Get_def Let_def rg_broadcast_def)
  then have "\<exists>q. rg_Get ''a.b'' ?r = Ok q \<and> sp_Match (cp_compiled q) ''a.b'' \<noteq> None"
    by (auto simp: sp_Match_def splitPatternSegments_def)
  with res show ?thesis by (auto split: sum.splits)
qed

text \<open>
  The specificity is a weighted sum over all tokens, so a pattern with no literal can win over
  one with a literal.
\<close>

lemma fewer_literals_win:
  "\<exists>p q. sp_ParsePattern ''{a}.{b}.{c}.{d}'' = Ok p \<and> sp_ParsePattern ''lit.*.*.*'' = Ok q \<and>
     sp_Match p ''lit.x.y.z'' \<noteq> None \<and> sp_Match q ''lit.x.y.z'' \<noteq> None \<and> patternSpecificity q < patternSpecificity p"
  by (simp add: sp_ParsePattern_def splitPatternSegments_def sp_Match_def patternSpecificity_def token_score_def)

text \<open>
  Without a cancellation in between the writes are those of \<open>rg_broadcast\<close>; one cancellation at the
  wrong moment ends the process.
\<close>

lemma send_pending_all:
  "set subs \<subseteq> set (rg_subscribers r) \<Longrightarrow>
   fold (\<lambda>sub res. case res of Err e \<Rightarrow> Err e | Ok r \<Rightarrow> send_pending c sub r) subs (Ok r) = Ok (fold (rg_try_send c) subs r)"
proof (induction subs arbitrary: r)
  case (Cons sub subs)
  moreover have "rg_subscribers (rg_try_send c sub r) = rg_subscribers r" by (simp add: rg_try_send_def)
  ultimately show ?case by (simp add: send_pending_def)
qed simp

lemma cancel_during_broadcast_panics:
  "sub \<in> set (rg_subscribers r) \<Longrightarrow> send_pending c sub (rg_cancel sub r) = Err (go_panic ''send on closed channel'')"
  by (simp add: send_pending_def rg_cancel_def)

end
