(* ===== verification/GoStrings.thy ===== *)
theory GoStrings
  imports Prelude
begin

text \<open>
  The parts of Go's \<^verbatim>\<open>strconv\<close> and \<^verbatim>\<open>strings\<close> that more than one component uses: the decimal
  conversions \<^verbatim>\<open>FormatInt(i, 10)\<close> and \<^verbatim>\<open>ParseInt(s, 10, 64)\<close>, the second undoing the first on int64,
  and \<^verbatim>\<open>ToLower\<close> (on ASCII text) and \<^verbatim>\<open>Contains\<close>.
\<close>

fun digits :: "nat \<Rightarrow> string" where
  "digits n = (if n < 10 then [char_of (48 + n)] else digits (n div 10) @ [char_of (48 + n mod 10)])"

declare digits.simps [simp del]

definition FormatInt :: "int \<Rightarrow> string" where
  "FormatInt i = (if i < 0 then CHR ''-'' # digits (nat (- i)) else digits (nat i))"

definition is_digit :: "char \<Rightarrow> bool" where
  "is_digit c \<longleftrightarrow> 48 \<le> (of_char c :: nat) \<and> (of_char c :: nat) \<le> 57"

definition dec_value :: "string \<Rightarrow> nat" where
  "dec_value s = foldl (\<lambda>n c. n * 10 + (of_char c - 48)) 0 s"

definition ParseInt :: "string \<Rightarrow> int result" where
  "ParseInt s =
     (let (neg, ds) = (case s of
            [] \<Rightarrow> (False, [])
          | c # cs \<Rightarrow> if c = CHR ''+'' then (False, cs) else if c = CHR ''-'' then (True, cs) else (False, s))
      in if ds = [] \<or> \<not> list_all is_digit ds then Err (Plain ''invalid syntax'')
         else
           let n = int (dec_value ds) in
           if (if neg then n > - min_int64 else n > max_int64) then Err (Plain ''value out of range'')
           else Ok (if neg then - n else n))"

definition to_lower :: "string \<Rightarrow> string" where
  "to_lower s = map (\<lambda>c. if CHR ''A'' \<le> c \<and> c \<le> CHR ''Z'' then char_of (of_char c + 32 :: nat) else c) s"

definition strings_Contains :: "string \<Rightarrow> string \<Rightarrow> bool" where
  "strings_Contains s sub \<longleftrightarrow> list_ex (\<lambda>i. take (length sub) (drop i s) = sub) [0..<Suc (length s)]"

lemma digits_nonempty [simp]: "digits n \<noteq> []"
  by (subst digits.simps) simp

lemma of_char_digit: "d < 10 \<Longrightarrow> (of_char (char_of (48 + d) :: char) :: nat) = 48 + d"
  by simp

lemma dec_value_append: "dec_value (s @ [c]) = dec_value s * 10 + (of_char c - 48)"
  by (simp add: dec_value_def)

lemma digits_ok: "list_all is_digit (digits n) \<and> dec_value (digits n) = n"
proof (induction n rule: digits.induct)
  case (1 n)
  show ?case
  proof (cases "n < 10")
    case True
    then show ?thesis by (subst (1 2) digits.simps) (simp add: is_digit_def dec_value_def)
  next
    case False
    with 1 have "list_all is_digit (digits (n div 10))" "dec_value (digits (n div 10)) = n div 10" by simp_all
    with False show ?thesis
      by (subst (1 2) digits.simps) (simp add: is_digit_def dec_value_append)
  qed
qed

lemma digits_inj [simp]: "digits a = digits b \<longleftrightarrow> a = b"
  by (metis digits_ok)

lemma digit_no_sign: "is_digit c \<Longrightarrow> c \<noteq> CHR ''+'' \<and> c \<noteq> CHR ''-''"
  by (auto simp: is_digit_def)

lemma ParseInt_Format:
  assumes "min_int64 \<le> i" "i \<le> max_int64"
  shows "ParseInt (FormatInt i) = Ok i"
proof (cases "i < 0")
  case True
  then show ?thesis using assms digits_ok [of "nat (- i)"] by (simp add: ParseInt_def FormatInt_def)
next
  case False
  obtain c cs where ds: "digits (nat i) = c # cs" by (meson digits_nonempty list.exhaust)
  then have "c \<noteq> CHR ''+''" "c \<noteq> CHR ''-''" using digits_ok [of "nat i"] digit_no_sign [of c] by auto
  with ds False show ?thesis
    using assms digits_ok [of "nat i"] by (simp add: ParseInt_def FormatInt_def)
qed

end
