(* ===== verification/Sinks.thy ===== *)
theory Sinks
  imports Encoding GoStrings Complex_Main
begin

text \<open>
  Out-of-band delivery (\<^verbatim>\<open>src/sinks\<close>): the classification of errors, the retry loop with its
  backoff, the in-memory dead-letter queue, the registry of sinks and the factories.

  A sink, a dead-letter queue and a context act on a state \<open>'w\<close> of their own, which stands for the
  world outside; a recipient is a value of a type \<open>'r\<close>.  The arithmetic of \<^verbatim>\<open>float64\<close> is exact
  rational arithmetic followed by the rounding \<open>fl\<close>, an argument of the definitions.
\<close>

subsection \<open>Errors and their classification (classify.go)\<close>

datatype errno = ECONNREFUSED | ECONNRESET | EPIPE | ETIMEDOUT | EOTHER bool

text \<open>
  The errors the classifier tells apart, each with its text where the text is not fixed:
  \<open>SWrap\<close> is a plain wrapper, \<open>SHint\<close> is \<^verbatim>\<open>transientErr\<close>, \<open>SOp\<close> and \<open>SUrl\<close> are
  \<^verbatim>\<open>*net.OpError\<close> and \<^verbatim>\<open>*url.Error\<close>, \<open>SNet\<close> is any other \<^verbatim>\<open>net.Error\<close> with what its
  \<^verbatim>\<open>Timeout\<close> says, \<open>EOTHER\<close> any other errno with the same.
\<close>

datatype serr =
    SPlain string
  | SCoded code string "serr option"
  | SCanceled
  | SDeadline
  | SHint bool "serr option"
  | SOp string serr
  | SUrl string serr
  | SErrno errno string
  | SNet bool string
  | SWrap string serr

fun serr_Error :: "serr \<Rightarrow> string" where
  "serr_Error (SPlain s) = s"
| "serr_Error (SCoded c msg None) = code_string c @ '': '' @ msg"
| "serr_Error (SCoded c msg (Some cause)) = code_string c @ '': '' @ msg @ '': '' @ serr_Error cause"
| "serr_Error SCanceled = ''context canceled''"
| "serr_Error SDeadline = ''context deadline exceeded''"
| "serr_Error (SHint _ None) = []"
| "serr_Error (SHint _ (Some cause)) = serr_Error cause"
| "serr_Error (SOp s _) = s"
| "serr_Error (SUrl s _) = s"
| "serr_Error (SErrno _ s) = s"
| "serr_Error (SNet _ s) = s"
| "serr_Error (SWrap s _) = s"

text \<open>The errors reached by \<^verbatim>\<open>errors.Unwrap\<close>, outermost first.\<close>

fun err_chain :: "serr \<Rightarrow> serr list" where
  "err_chain (SCoded c msg (Some cause)) = SCoded c msg (Some cause) # err_chain cause"
| "err_chain (SHint b (Some cause)) = SHint b (Some cause) # err_chain cause"
| "err_chain (SOp s e) = SOp s e # err_chain e"
| "err_chain (SUrl s e) = SUrl s e # err_chain e"
| "err_chain (SWrap s e) = SWrap s e # err_chain e"
| "err_chain e = [e]"

definition serr_As :: "(serr \<Rightarrow> 'a option) \<Rightarrow> serr \<Rightarrow> 'a option" where
  "serr_As f e = (case List.map_filter f (err_chain e) of [] \<Rightarrow> None | x # _ \<Rightarrow> Some x)"

definition serr_Is :: "serr \<Rightarrow> serr \<Rightarrow> bool" where
  "serr_Is e target \<longleftrightarrow> target \<in> set (err_chain e)"

fun as_hint :: "serr \<Rightarrow> bool option" where
  "as_hint (SHint b _) = Some b"
| "as_hint _ = None"

text \<open>The first \<^verbatim>\<open>net.Error\<close>; for the two wrappers the answer to \<^verbatim>\<open>Timeout\<close> does not matter.\<close>

fun as_netTimeout :: "serr \<Rightarrow> bool option" where
  "as_netTimeout (SNet b _) = Some b"
| "as_netTimeout (SErrno ETIMEDOUT _) = Some True"
| "as_netTimeout (SErrno (EOTHER b) _) = Some b"
| "as_netTimeout (SErrno _ _) = Some False"
| "as_netTimeout (SOp _ _) = Some False"
| "as_netTimeout (SUrl _ _) = Some False"
| "as_netTimeout SDeadline = Some True"
| "as_netTimeout _ = None"

fun as_op :: "serr \<Rightarrow> unit option" where
  "as_op (SOp _ _) = Some ()"
| "as_op _ = None"

fun as_url :: "serr \<Rightarrow> unit option" where
  "as_url (SUrl _ _) = Some ()"
| "as_url _ = None"

fun as_errno :: "serr \<Rightarrow> errno option" where
  "as_errno (SErrno n _) = Some n"
| "as_errno _ = None"

fun as_coded :: "serr \<Rightarrow> (code \<times> string \<times> serr option) option" where
  "as_coded (SCoded c m x) = Some (c, m, x)"
| "as_coded _ = None"

definition classifyHTTPSMTPMessage :: "string \<Rightarrow> bool" where
  "classifyHTTPSMTPMessage msg =
     (let low = to_lower msg in
      list_ex (strings_Contains low)
        ['' 429 '', '' 500 '', '' 501 '', '' 502 '', '' 503 '', '' 504 '', '' 505 '',
         ''internal server error'', ''bad gateway'', ''service unavailable'', ''gateway timeout'', ''too many requests''] \<or>
      list_ex (strings_Contains low) [''4.'', ''421 '', ''450 '', ''451 '', ''452 '', ''454 ''])"

definition serr_Transient :: "serr option \<Rightarrow> serr option" where
  "serr_Transient err = map_option (\<lambda>e. SHint True (Some e)) err"

definition serr_Terminal :: "serr option \<Rightarrow> serr option" where
  "serr_Terminal err = map_option (\<lambda>e. SHint False (Some e)) err"

lemma map_filter_Cons_mem: "List.map_filter f xs = y # ys \<Longrightarrow> \<exists>x\<in>set xs. f x = Some y"
  by (induction xs) (auto simp: map_filter_simps split: option.splits)

lemma err_chain_size: "x \<in> set (err_chain e) \<Longrightarrow> size x \<le> size e"
  by (induction e rule: err_chain.induct) auto

lemma as_coded_size [termination_simp]:
  "serr_As as_coded e = Some (c, m, Some x) \<Longrightarrow> size x < size e"
proof -
  assume "serr_As as_coded e = Some (c, m, Some x)"
  then obtain ys where "List.map_filter as_coded (err_chain e) = (c, m, Some x) # ys" by (auto simp: serr_As_def split: list.splits)
  then obtain y where y: "y \<in> set (err_chain e)" "as_coded y = Some (c, m, Some x)" using map_filter_Cons_mem by fast
  then show ?thesis using err_chain_size [OF y(1)] by (cases y rule: serr.exhaust) auto
qed

fun IsTransient :: "serr option \<Rightarrow> bool" where
  "IsTransient None = False"
| "IsTransient (Some err) =
     (if serr_Is err SDeadline \<or> serr_Is err SCanceled then False
      else case serr_As as_hint err of
        Some b \<Rightarrow> b
      | None \<Rightarrow>
          if serr_As as_netTimeout err = Some True then True
          else if serr_As as_op err \<noteq> None then True
          else if serr_As as_url err \<noteq> None then True
          else if serr_As as_errno err \<in> {Some ECONNREFUSED, Some ECONNRESET, Some EPIPE, Some ETIMEDOUT} then True
          else case serr_As as_coded err of
            Some (c, m, cause) \<Rightarrow>
              if c = SinkUnavailable \<and> classifyHTTPSMTPMessage m then True
              else (case cause of Some x \<Rightarrow> IsTransient (Some x) | None \<Rightarrow> False)
          | None \<Rightarrow> False)"

subsection \<open>Sinks and dead-letter queues (sink.go, dlq.go)\<close>

record Message =
  ms_Subject :: string
  ms_Body :: string
  ms_Metadata :: "(string, string) gomap"

record ('r, 'w) Sink =
  sk_Name :: string
  sk_IsRetrier :: bool
  sk_Send :: "'r \<Rightarrow> Message \<Rightarrow> 'w \<Rightarrow> serr option \<times> 'w"

record 'r DLQItem =
  di_ID :: string
  di_Sink :: string
  di_At :: go_time
  di_Recipient :: 'r
  di_Message :: Message
  di_Attempts :: int
  di_LastError :: string

record ('r, 'w) DLQ =
  dq_Push :: "'r DLQItem \<Rightarrow> 'w \<Rightarrow> serr option \<times> 'w"
  dq_Items :: "string \<Rightarrow> int \<Rightarrow> 'w \<Rightarrow> 'r DLQItem list"
  dq_Count :: "string \<Rightarrow> 'w \<Rightarrow> int"
  dq_Discard :: "string \<Rightarrow> 'w \<Rightarrow> serr option \<times> 'w"

text \<open>
  The context and the clock: the error of the context, if it is done; whether a wait ran to its
  end; the time.
\<close>

record 'w ctx =
  cx_Err :: "'w \<Rightarrow> serr option"
  cx_wait :: "duration \<Rightarrow> 'w \<Rightarrow> bool \<times> 'w"
  cx_now :: "'w \<Rightarrow> go_time"

subsection \<open>The retry loop (retry.go)\<close>

record RetryConfig =
  rc_MaxAttempts :: int
  rc_BaseBackoff :: duration
  rc_MaxBackoff :: duration
  rc_JitterFraction :: rat

definition rc_Normalize :: "RetryConfig \<Rightarrow> RetryConfig" where
  "rc_Normalize c =
     (let c = (if rc_MaxAttempts c \<le> 0 then c\<lparr>rc_MaxAttempts := 5\<rparr> else c);
          c = (if rc_BaseBackoff c \<le> 0 then c\<lparr>rc_BaseBackoff := second\<rparr> else c);
          c = (if rc_MaxBackoff c \<le> 0 then c\<lparr>rc_MaxBackoff := 30 * second\<rparr> else c);
          c = (if rc_MaxBackoff c < rc_BaseBackoff c then c\<lparr>rc_MaxBackoff := rc_BaseBackoff c\<rparr> else c);
          c = (if rc_JitterFraction c < 0 then c\<lparr>rc_JitterFraction := 0\<rparr> else c);
          c = (if rc_JitterFraction c > 1 then c\<lparr>rc_JitterFraction := 1\<rparr> else c);
          c = (if rc_JitterFraction c = 0 then c\<lparr>rc_JitterFraction := 2 / 10\<rparr> else c)
      in c)"

text \<open>\<^verbatim>\<open>time.Duration(f)\<close>; outside the range of \<^verbatim>\<open>int64\<close> the platform decides.\<close>

definition float_Duration :: "(rat \<Rightarrow> duration) \<Rightarrow> rat \<Rightarrow> duration" where
  "float_Duration oob f = (if - (2 ^ 63) \<le> f \<and> f < 2 ^ 63 then (if 0 \<le> f then \<lfloor>f\<rfloor> else \<lceil>f\<rceil>) else oob f)"

text \<open>\<^verbatim>\<open>randFloat\<close>: the 53 high bits of eight random bytes, if the source gave any.\<close>

definition randFloat :: "nat option \<Rightarrow> rat" where
  "randFloat v = (case v of None \<Rightarrow> 1 / 2 | Some n \<Rightarrow> of_nat (n div 2 ^ 11 mod 2 ^ 53) / 2 ^ 53)"

definition BackoffFor :: "(rat \<Rightarrow> rat) \<Rightarrow> (rat \<Rightarrow> duration) \<Rightarrow> nat option \<Rightarrow> int \<Rightarrow> RetryConfig \<Rightarrow> duration" where
  "BackoffFor fl oob rnd attempt c =
     (if attempt \<le> 1 then 0
      else
        let c = rc_Normalize c;
            e = attempt - 2;
            e = (if e > 30 then 30 else e);
            grown = fl (fl (of_int (rc_BaseBackoff c)) * 2 ^ nat e);
            grown = (if grown > fl (of_int (rc_MaxBackoff c)) then fl (of_int (rc_MaxBackoff c)) else grown);
            jitter = fl (1 + fl (fl (fl (randFloat rnd * 2) - 1) * rc_JitterFraction c))
        in float_Duration oob (fl (grown * jitter)))"

record ('r, 'w) Retrier =
  rt_Inner :: "('r, 'w) Sink"
  rt_Cfg :: RetryConfig
  rt_DLQ :: "('r, 'w) DLQ option"
  rt_IsTransientFn :: "(serr \<Rightarrow> bool) option"

definition NewRetrier :: "('r, 'w) Sink \<Rightarrow> RetryConfig \<Rightarrow> ('r, 'w) DLQ option \<Rightarrow> ('r, 'w) Retrier" where
  "NewRetrier inner cfg dlq = \<lparr>rt_Inner = inner, rt_Cfg = rc_Normalize cfg, rt_DLQ = dlq, rt_IsTransientFn = None\<rparr>"

definition recordFailure ::
  "'w ctx \<Rightarrow> 'r \<Rightarrow> Message \<Rightarrow> int \<Rightarrow> serr option \<Rightarrow> ('r, 'w) Retrier \<Rightarrow> 'w \<Rightarrow> serr option \<times> 'w" where
  "recordFailure cx to msg attempts lastErr r w =
     (case rt_DLQ r of
        None \<Rightarrow>
          (case lastErr of
             None \<Rightarrow> (Some (SCoded SinkUnavailable ''sink retry exhausted with no recorded error'' None), w)
           | Some e \<Rightarrow> (Some e, w))
      | Some dlq \<Rightarrow>
          let item = \<lparr>di_ID = [], di_Sink = sk_Name (rt_Inner r), di_At = cx_now cx w, di_Recipient = to, di_Message = msg,
                      di_Attempts = attempts, di_LastError = (case lastErr of None \<Rightarrow> [] | Some e \<Rightarrow> serr_Error e)\<rparr>
          in (case dq_Push dlq item w of
                (Some err, w) \<Rightarrow> (Some (SCoded SinkDLQOverflow ''dlq push'' (Some err)), w)
              | (None, w) \<Rightarrow> (None, w)))"

definition rt_classify :: "('r, 'w) Retrier \<Rightarrow> serr \<Rightarrow> bool" where
  "rt_classify r e = (case rt_IsTransientFn r of None \<Rightarrow> IsTransient (Some e) | Some f \<Rightarrow> f e)"

text \<open>
  The loop of \<^verbatim>\<open>Send\<close> from an attempt on; \<open>wait_for\<close> is \<^verbatim>\<open>BackoffFor\<close> with the randomness
  each attempt draws.
\<close>

function send_loop ::
  "'w ctx \<Rightarrow> (int \<Rightarrow> duration) \<Rightarrow> int \<Rightarrow> 'r \<Rightarrow> Message \<Rightarrow> ('r, 'w) Retrier \<Rightarrow> int \<Rightarrow> serr option \<Rightarrow> 'w \<Rightarrow> serr option \<times> 'w" where
  "send_loop cx wait_for maxAttempts to msg r attempt lastErr w =
     (if attempt > maxAttempts then recordFailure cx to msg (attempt - 1) lastErr r w
      else
        (case (if attempt > 1 \<and> wait_for attempt > 0 then cx_wait cx (wait_for attempt) w else (True, w)) of
           (False, w) \<Rightarrow> recordFailure cx to msg (attempt - 1) (cx_Err cx w) r w
         | (True, w) \<Rightarrow>
             (case sk_Send (rt_Inner r) to msg w of
                (None, w) \<Rightarrow> (None, w)
              | (Some err, w) \<Rightarrow>
                  if cx_Err cx w \<noteq> None then recordFailure cx to msg attempt (cx_Err cx w) r w
                  else if \<not> rt_classify r err then recordFailure cx to msg (attempt - 1) (Some err) r w
                  else send_loop cx wait_for maxAttempts to msg r (attempt + 1) (Some err) w)))"
  by pat_completeness auto
termination by (relation "measure (\<lambda>(cx, wf, m, to, msg, r, a, l, w). nat (m + 1 - a))") auto

definition rt_Send ::
  "(rat \<Rightarrow> rat) \<Rightarrow> (rat \<Rightarrow> duration) \<Rightarrow> (int \<Rightarrow> nat option) \<Rightarrow> 'w ctx \<Rightarrow> ('r, 'w) Retrier \<Rightarrow> 'r \<Rightarrow> Message \<Rightarrow> 'w \<Rightarrow> serr option \<times> 'w" where
  "rt_Send fl oob rnd cx r to msg w =
     (let cfg = rc_Normalize (rt_Cfg r) in
      send_loop cx (\<lambda>a. BackoffFor fl oob (rnd a) a cfg) (rc_MaxAttempts cfg) to msg r 1 None w)"

definition Retrier_Sink ::
  "(rat \<Rightarrow> rat) \<Rightarrow> (rat \<Rightarrow> duration) \<Rightarrow> (int \<Rightarrow> nat option) \<Rightarrow> 'w ctx \<Rightarrow> ('r, 'w) Retrier \<Rightarrow> ('r, 'w) Sink" where
  "Retrier_Sink fl oob rnd cx r = \<lparr>sk_Name = sk_Name (rt_Inner r), sk_IsRetrier = True, sk_Send = rt_Send fl oob rnd cx r\<rparr>"

definition WrapSink ::
  "(rat \<Rightarrow> rat) \<Rightarrow> (rat \<Rightarrow> duration) \<Rightarrow> (int \<Rightarrow> nat option) \<Rightarrow> 'w ctx \<Rightarrow> RetryConfig \<Rightarrow> ('r, 'w) DLQ option \<Rightarrow> ('r, 'w) Sink option \<Rightarrow> ('r, 'w) Sink option" where
  "WrapSink fl oob rnd cx cfg dlq inner =
     (case inner of
        None \<Rightarrow> None
      | Some s \<Rightarrow>
          if sk_IsRetrier s then Some s
          else
            let norm = rc_Normalize cfg in
            if rc_MaxAttempts norm \<le> 1 \<and> Option.is_none dlq then Some s
            else Some (Retrier_Sink fl oob rnd cx (NewRetrier s norm dlq)))"

subsection \<open>The in-memory queue (dlq\_memory.go)\<close>

type_synonym 'r MemoryDLQ = "'r DLQItem list"

definition NewMemoryDLQ :: "'r MemoryDLQ" where
  "NewMemoryDLQ = []"

text \<open>The random bytes are an argument, \<open>None\<close> when the source failed.\<close>

definition newDLQID :: "bytes option \<Rightarrow> string" where
  "newDLQID b = (case b of None \<Rightarrow> ''00000000deadbeef'' | Some b \<Rightarrow> hex_encode b)"

definition md_Push :: "bytes option \<Rightarrow> 'r DLQItem \<Rightarrow> 'r MemoryDLQ \<Rightarrow> 'r MemoryDLQ" where
  "md_Push b item m =
     (let item = (if di_ID item = [] then item\<lparr>di_ID := newDLQID b\<rparr> else item) in m @ [item])"

text \<open>The sort is newest first.\<close>

definition md_Items :: "string \<Rightarrow> int \<Rightarrow> 'r MemoryDLQ \<Rightarrow> 'r DLQItem list" where
  "md_Items sink limit m =
     (let out = filter (\<lambda>it. sink = [] \<or> di_Sink it = sink) m;
          out = sort_key (\<lambda>it. - di_At it) out
      in if limit > 0 \<and> int (length out) > limit then take (nat limit) out else out)"

definition md_Count :: "string \<Rightarrow> 'r MemoryDLQ \<Rightarrow> int" where
  "md_Count sink m =
     (if sink = [] then int (length m) else int (length (filter (\<lambda>it. di_Sink it = sink) m)))"

fun md_Discard :: "string \<Rightarrow> 'r MemoryDLQ \<Rightarrow> 'r MemoryDLQ" where
  "md_Discard ident [] = []"
| "md_Discard ident (it # m) = (if di_ID it = ident then m else it # md_Discard ident m)"

text \<open>The item with the id, if any, sent again through the sink it came from.\<close>

definition md_Replay ::
  "(string \<Rightarrow> ('r, 'w) Sink option) option \<Rightarrow> string \<Rightarrow> 'r MemoryDLQ \<Rightarrow> 'w \<Rightarrow> serr option \<times> 'w" where
  "md_Replay lookup ident m w =
     (case find (\<lambda>it. di_ID it = ident) m of
        None \<Rightarrow> (Some (SCoded InvalidArgument (''dlq item not found: '' @ ident) None), w)
      | Some found \<Rightarrow>
          (case lookup of
             None \<Rightarrow> (Some (SCoded SinkConfig ''dlq has no registry lookup configured'' None), w)
           | Some look \<Rightarrow>
               (case look (di_Sink found) of
                  None \<Rightarrow> (Some (SCoded SinkConfig (''dlq replay: sink not registered: '' @ di_Sink found) None), w)
                | Some s \<Rightarrow> sk_Send s (di_Recipient found) (di_Message found) w)))"

subsection \<open>Registry and factories (sink.go, factory.go)\<close>

type_synonym ('r, 'w) Registry = "(string, ('r, 'w) Sink) gomap"

definition NewRegistry :: "('r, 'w) Registry" where
  "NewRegistry = []"

definition reg_Register :: "('r, 'w) Sink \<Rightarrow> ('r, 'w) Registry \<Rightarrow> ('r, 'w) Registry" where
  "reg_Register s r = AList.update (sk_Name s) s r"

definition reg_Get :: "string \<Rightarrow> ('r, 'w) Registry \<Rightarrow> ('r, 'w) Sink option" where
  "reg_Get name r = map_of r name"

definition reg_Names :: "('r, 'w) Registry \<Rightarrow> string list" where
  "reg_Names r = map fst r"

type_synonym ('c, 's) factories = "(string, string \<Rightarrow> 'c \<Rightarrow> serr + 's option) gomap"

definition RegisterFactory :: "string \<Rightarrow> (string \<Rightarrow> 'c \<Rightarrow> serr + 's option) \<Rightarrow> ('c, 's) factories \<Rightarrow> ('c, 's) factories" where
  "RegisterFactory kind f fs = AList.update kind f fs"

definition LookupFactory :: "string \<Rightarrow> ('c, 's) factories \<Rightarrow> (string \<Rightarrow> 'c \<Rightarrow> serr + 's option) option" where
  "LookupFactory kind fs = map_of fs kind"

definition FactoryKinds :: "('c, 's) factories \<Rightarrow> string list" where
  "FactoryKinds fs = map fst fs"

definition BuildSink :: "string \<Rightarrow> string \<Rightarrow> 'c \<Rightarrow> ('c, 's) factories \<Rightarrow> serr + 's" where
  "BuildSink kind name raw fs =
     (case LookupFactory kind fs of
        None \<Rightarrow> Inl (SPlain ''sinks: unknown kind %q (registered: %v)'')
      | Some f \<Rightarrow>
          (case f name raw of
             Inl err \<Rightarrow> Inl (SWrap ''sinks: build %q (kind=%s): %w'' err)
           | Inr None \<Rightarrow> Inl (SPlain ''sinks: factory for kind %q returned nil sink'')
           | Inr (Some s) \<Rightarrow> Inr s))"

declare send_loop.simps [simp del]

subsection \<open>What a send does\<close>

text \<open>
  Every send and every push of a run, in order, next to the state: the operations with a trace.
\<close>

record ('r, 'w) traced =
  tr_w :: 'w
  tr_sends :: "serr option list"
  tr_pushes :: "('r DLQItem \<times> serr option) list"

definition tr_Sink :: "('r, 'w) Sink \<Rightarrow> ('r, ('r, 'w) traced) Sink" where
  "tr_Sink s = \<lparr>sk_Name = sk_Name s, sk_IsRetrier = sk_IsRetrier s,
     sk_Send = (\<lambda>to msg t. case sk_Send s to msg (tr_w t) of (e, w) \<Rightarrow> (e, t\<lparr>tr_w := w, tr_sends := tr_sends t @ [e]\<rparr>))\<rparr>"

definition tr_DLQ :: "('r, 'w) DLQ \<Rightarrow> ('r, ('r, 'w) traced) DLQ" where
  "tr_DLQ d = \<lparr>dq_Push = (\<lambda>item t. case dq_Push d item (tr_w t) of (e, w) \<Rightarrow> (e, t\<lparr>tr_w := w, tr_pushes := tr_pushes t @ [(item, e)]\<rparr>)),
     dq_Items = (\<lambda>s l t. dq_Items d s l (tr_w t)), dq_Count = (\<lambda>s t. dq_Count d s (tr_w t)),
     dq_Discard = (\<lambda>i t. case dq_Discard d i (tr_w t) of (e, w) \<Rightarrow> (e, t\<lparr>tr_w := w\<rparr>))\<rparr>"

definition tr_ctx :: "'w ctx \<Rightarrow> ('r, 'w) traced ctx" where
  "tr_ctx cx = \<lparr>cx_Err = (\<lambda>t. cx_Err cx (tr_w t)),
     cx_wait = (\<lambda>d t. case cx_wait cx d (tr_w t) of (b, w) \<Rightarrow> (b, t\<lparr>tr_w := w\<rparr>)), cx_now = (\<lambda>t. cx_now cx (tr_w t))\<rparr>"

definition tr_Retrier :: "('r, 'w) Retrier \<Rightarrow> ('r, ('r, 'w) traced) Retrier" where
  "tr_Retrier r = \<lparr>rt_Inner = tr_Sink (rt_Inner r), rt_Cfg = rt_Cfg r, rt_DLQ = map_option tr_DLQ (rt_DLQ r), rt_IsTransientFn = rt_IsTransientFn r\<rparr>"

text \<open>How a run ends: nothing was pushed and an error is returned, or one item was.\<close>

definition recorded :: "('r, 'w) Retrier \<Rightarrow> 'r \<Rightarrow> Message \<Rightarrow> int \<Rightarrow> serr option \<Rightarrow> ('r DLQItem \<times> serr option) list \<Rightarrow> bool" where
  "recorded r to msg attempts e pushes \<longleftrightarrow>
     (case rt_DLQ r of
        None \<Rightarrow> pushes = [] \<and> e \<noteq> None
      | Some _ \<Rightarrow> \<exists>item pe. pushes = [(item, pe)] \<and> di_Sink item = sk_Name (rt_Inner r) \<and> di_Recipient item = to \<and>
          di_Message item = msg \<and> di_Attempts item = attempts \<and> (e = None \<longleftrightarrow> pe = None))"

definition send_result :: "('r, 'w) Retrier \<Rightarrow> 'r \<Rightarrow> Message \<Rightarrow> serr option \<Rightarrow> ('r, 'w) traced \<Rightarrow> bool" where
  "send_result r to msg e t \<longleftrightarrow> tr_sends t \<noteq> [] \<and>
     (\<forall>s\<in>set (butlast (tr_sends t)). \<exists>err. s = Some err \<and> rt_classify r err) \<and>
     (case last (tr_sends t) of
        None \<Rightarrow> e = None \<and> tr_pushes t = []
      | Some err \<Rightarrow>
          recorded r to msg (int (length (tr_sends t))) e (tr_pushes t) \<or>
          \<not> rt_classify r err \<and> recorded r to msg (int (length (tr_sends t)) - 1) e (tr_pushes t))"

lemma recordFailure_recorded:
  assumes "recordFailure (tr_ctx cx) to msg n l (tr_Retrier r) t = (e, t')" "tr_pushes t = []"
  shows "tr_sends t' = tr_sends t \<and> recorded r to msg n e (tr_pushes t')"
proof (cases "rt_DLQ r")
  case None
  then show ?thesis using assms by (auto simp: recordFailure_def tr_Retrier_def recorded_def split: option.splits)
next
  case (Some d)
  then show ?thesis using assms
    by (auto simp: recordFailure_def tr_Retrier_def recorded_def tr_DLQ_def tr_Sink_def Let_def split: prod.splits option.splits)
qed

lemma rt_classify_traced [simp]: "rt_classify (tr_Retrier r) = rt_classify r"
  by (simp add: rt_classify_def fun_eq_iff tr_Retrier_def)

lemma send_result_failed:
  assumes "recordFailure (tr_ctx cx) to msg n l (tr_Retrier r) t = (e, t')" "tr_pushes t = []"
    and "\<forall>s\<in>set (butlast (tr_sends t)). \<exists>err. s = Some err \<and> rt_classify r err"
    and "tr_sends t \<noteq> []" "last (tr_sends t) = Some err"
    and "n = int (length (tr_sends t)) \<or> \<not> rt_classify r err \<and> n = int (length (tr_sends t)) - 1"
  shows "send_result r to msg e t' \<and> tr_sends t' = tr_sends t"
  using recordFailure_recorded [OF assms(1,2)] assms(3-6) by (auto simp: send_result_def)

lemma tr_Send:
  "sk_Send (rt_Inner (tr_Retrier r)) to msg t =
     (fst (sk_Send (rt_Inner r) to msg (tr_w t)),
      t\<lparr>tr_w := snd (sk_Send (rt_Inner r) to msg (tr_w t)), tr_sends := tr_sends t @ [fst (sk_Send (rt_Inner r) to msg (tr_w t))]\<rparr>)"
  by (simp add: tr_Retrier_def tr_Sink_def case_prod_beta)

lemma tr_wait:
  assumes "(if b then cx_wait (tr_ctx cx) d t else (True, t)) = (ok, t1)"
  shows "tr_sends t1 = tr_sends t \<and> tr_pushes t1 = tr_pushes t \<and> (ok \<or> b)"
  using assms by (auto simp: tr_ctx_def split: if_splits prod.splits)

lemma send_loop_result:
  assumes "send_loop (tr_ctx cx) wt m to msg (tr_Retrier r) a l t = (e, t')"
    and "tr_pushes t = []" "int (length (tr_sends t)) = a - 1" "1 \<le> a" "a \<le> m + 1" "1 \<le> m"
    and "\<forall>s\<in>set (tr_sends t). \<exists>err. s = Some err \<and> rt_classify r err"
  shows "send_result r to msg e t' \<and> int (length (tr_sends t')) \<le> m"
  using assms
proof (induction "nat (m + 1 - a)" arbitrary: a l t rule: less_induct)
  case less
  note step = send_loop.simps [of "tr_ctx cx" wt m to msg "tr_Retrier r" a l t]
  have stop: "send_result r to msg e t' \<and> int (length (tr_sends t')) \<le> m"
    if rec: "recordFailure (tr_ctx cx) to msg (a - 1) l' (tr_Retrier r) t1 = (e, t')" "tr_pushes t1 = []" "tr_sends t1 = tr_sends t" and "a > 1" for l' t1
  proof -
    have ne: "tr_sends t \<noteq> []" using that less.prems(3) by auto
    then obtain err where "last (tr_sends t) = Some err" using less.prems(7) by (metis last_in_set)
    moreover have "\<forall>s\<in>set (butlast (tr_sends t1)). \<exists>err. s = Some err \<and> rt_classify r err"
      using less.prems(7) rec(3) by (metis in_set_butlastD)
    ultimately have "send_result r to msg e t' \<and> tr_sends t' = tr_sends t1"
      using send_result_failed [OF rec(1,2)] rec(3) ne less.prems(3) by simp
    then show ?thesis using rec(3) less.prems(3,5) by simp
  qed
  show ?case
  proof (cases "a > m")
    case True
    then show ?thesis using stop [of l t] less.prems step by simp
  next
    case False
    obtain ok t1 where w: "(if a > 1 \<and> wt a > 0 then cx_wait (tr_ctx cx) (wt a) t else (True, t)) = (ok, t1)" by fastforce
    note t1 = tr_wait [OF w]
    define x where "x = fst (sk_Send (rt_Inner r) to msg (tr_w t1))"
    define t2 where "t2 = t1\<lparr>tr_w := snd (sk_Send (rt_Inner r) to msg (tr_w t1)), tr_sends := tr_sends t1 @ [x]\<rparr>"
    have t2: "tr_sends t2 = tr_sends t @ [x]" "tr_pushes t2 = []" using t1 less.prems(2) by (simp_all add: t2_def)
    have sent: "sk_Send (rt_Inner (tr_Retrier r)) to msg t1 = (x, t2)" by (simp add: tr_Send x_def t2_def)
    have body: "(if \<not> ok then recordFailure (tr_ctx cx) to msg (a - 1) (cx_Err (tr_ctx cx) t1) (tr_Retrier r) t1
        else case x of None \<Rightarrow> (None, t2)
         | Some err \<Rightarrow>
             if cx_Err (tr_ctx cx) t2 \<noteq> None then recordFailure (tr_ctx cx) to msg a (cx_Err (tr_ctx cx) t2) (tr_Retrier r) t2
             else if \<not> rt_classify r err then recordFailure (tr_ctx cx) to msg (a - 1) (Some err) (tr_Retrier r) t2
             else send_loop (tr_ctx cx) wt m to msg (tr_Retrier r) (a + 1) (Some err) t2) = (e, t')"
      using less.prems(1) False unfolding step w by (cases ok; cases x) (simp_all add: sent split: if_splits)
    have failed: "send_result r to msg e t' \<and> int (length (tr_sends t')) \<le> m"
      if "recordFailure (tr_ctx cx) to msg n l' (tr_Retrier r) t2 = (e, t')" "x = Some err" "n = a \<or> \<not> rt_classify r err \<and> n = a - 1" for n l' err
      using send_result_failed [OF that(1) t2(2)] that(2,3) less.prems(3,7) False by (simp add: t2(1))
    show ?thesis
    proof (cases ok)
      case no: False
      then show ?thesis using stop [of _ t1] body t1 less.prems(2) by auto
    next
      case ok: True
      show ?thesis
      proof (cases x)
        case None
        then have t': "t' = t2" "e = None" using body ok by simp_all
        show ?thesis unfolding t' using None less.prems(3,7) False by (simp add: send_result_def t2)
      next
        case (Some err)
        show ?thesis
        proof (cases "cx_Err (tr_ctx cx) t2 \<noteq> None \<or> \<not> rt_classify r err")
          case True
          then show ?thesis using failed [OF _ Some] body ok Some by (auto split: if_splits)
        next
          case go: False
          then have "send_loop (tr_ctx cx) wt m to msg (tr_Retrier r) (a + 1) (Some err) t2 = (e, t')" using body ok Some by simp
          then show ?thesis using less.hyps [of "a + 1" "Some err" t2] False less.prems(3-7) go Some by (auto simp: t2)
        qed
      qed
    qed
  qed
qed

text \<open>Tracing changes nothing else.\<close>

lemma recordFailure_traced:
  "map_prod id tr_w (recordFailure (tr_ctx cx) to msg n l (tr_Retrier r) t) = recordFailure cx to msg n l r (tr_w t)"
  by (auto simp: recordFailure_def tr_Retrier_def tr_DLQ_def tr_Sink_def tr_ctx_def Let_def split: option.splits prod.splits)

lemma send_loop_traced:
  "map_prod id tr_w (send_loop (tr_ctx cx) wt m to msg (tr_Retrier r) a l t) = send_loop cx wt m to msg r a l (tr_w t)"
proof (induction "nat (m + 1 - a)" arbitrary: a l t rule: less_induct)
  case less
  have IH: "\<not> m < a \<Longrightarrow> map_prod id tr_w (send_loop (tr_ctx cx) wt m to msg (tr_Retrier r) (a + 1) l' t') = send_loop cx wt m to msg r (a + 1) l' (tr_w t')" for l' t'
    by (rule less.hyps) simp
  have c: "cx_Err (tr_ctx cx) t' = cx_Err cx (tr_w t')" for t' :: "('b, 'a) traced" by (simp add: tr_ctx_def)
  obtain ok w1 where w: "(if a > 1 \<and> wt a > 0 then cx_wait cx (wt a) (tr_w t) else (True, tr_w t)) = (ok, w1)" by fastforce
  then have w': "(if a > 1 \<and> wt a > 0 then cx_wait (tr_ctx cx) (wt a) t else (True, t)) = (ok, t\<lparr>tr_w := w1\<rparr>)"
    by (auto simp: tr_ctx_def split: if_splits)
  obtain x w2 where x: "sk_Send (rt_Inner r) to msg w1 = (x, w2)" by fastforce
  show ?case
    unfolding send_loop.simps [of _ wt m to msg _ a] w w'
    by (cases "m < a"; cases ok; cases x) (simp_all add: tr_Send x c IH recordFailure_traced)
qed

lemma Normalize_attempts: "1 \<le> rc_MaxAttempts (rc_Normalize c)"
  by (simp add: rc_Normalize_def Let_def)

text \<open>
  C15. The retry loop ends, and accounts for every message: whatever the sink, the queue, the
  context and the waits do, a send calls the sink at least once and at most \<^verbatim>\<open>MaxAttempts\<close> times,
  and again only after a transient error; if the last call succeeded nothing is recorded and nil
  is returned; otherwise either there is no queue and an error is returned, or exactly one item
  with the recipient and the message was pushed, and the result is nil exactly if that push
  succeeded.  The number of attempts recorded is the number of calls, or, after a terminal
  error, one less.
\<close>

theorem send_accounts:
  "let (e, t) = rt_Send fl oob rnd (tr_ctx cx) (tr_Retrier r) to msg \<lparr>tr_w = w, tr_sends = [], tr_pushes = []\<rparr> in
   rt_Send fl oob rnd cx r to msg w = (e, tr_w t) \<and> send_result r to msg e t \<and>
   int (length (tr_sends t)) \<le> rc_MaxAttempts (rc_Normalize (rt_Cfg r))"
proof -
  let ?t0 = "\<lparr>tr_w = w, tr_sends = [], tr_pushes = []\<rparr>"
  obtain e t where s: "rt_Send fl oob rnd (tr_ctx cx) (tr_Retrier r) to msg ?t0 = (e, t)" by fastforce
  have c: "rt_Cfg (tr_Retrier r) = rt_Cfg r" by (simp add: tr_Retrier_def)
  have "rt_Send fl oob rnd cx r to msg w = map_prod id tr_w (rt_Send fl oob rnd (tr_ctx cx) (tr_Retrier r) to msg ?t0)"
    unfolding rt_Send_def Let_def c by (simp add: send_loop_traced)
  then have "rt_Send fl oob rnd cx r to msg w = (e, tr_w t)" by (simp add: s)
  then show ?thesis using send_loop_result [OF s [unfolded rt_Send_def Let_def]] Normalize_attempts [of "rt_Cfg r"] s c by simp
qed

text \<open>The number of attempts on record is wrong after a terminal error: none, although the sink was called.\<close>

lemma terminal_attempts_zero:
  assumes "sk_Send (rt_Inner r) to msg w = (Some err, w')" "cx_Err cx w' = None" "\<not> rt_classify r err" "rt_DLQ r = Some d"
  shows "\<exists>item. fst (rt_Send fl oob rnd cx r to msg w) = map_option (\<lambda>e. SCoded SinkDLQOverflow ''dlq push'' (Some e)) (fst (dq_Push d item w')) \<and>
    di_Attempts item = 0 \<and> di_Message item = msg"
proof -
  have "rt_Send fl oob rnd cx r to msg w = recordFailure cx to msg 0 (Some err) r w'"
    using Normalize_attempts [of "rt_Cfg r"] assms(1-3) unfolding rt_Send_def Let_def by (subst send_loop.simps) simp
  then show ?thesis
    by (auto simp: recordFailure_def assms(4) Let_def split: prod.splits option.splits intro!: exI [of _ "\<lparr>di_ID = [], di_Sink = sk_Name (rt_Inner r), di_At = cx_now cx w', di_Recipient = to, di_Message = msg,
                      di_Attempts = 0, di_LastError = serr_Error err\<rparr>"])
qed

subsection \<open>Waiting\<close>

text \<open>
  What is used of \<^verbatim>\<open>float64\<close> rounding: it is monotone, and exact on the integers up to \<open>2 ^ 54\<close>
  that are even or at most \<open>2 ^ 53\<close>.
\<close>

definition rounding :: "(rat \<Rightarrow> rat) \<Rightarrow> bool" where
  "rounding fl \<longleftrightarrow> mono fl \<and> (\<forall>n :: int. \<bar>n\<bar> \<le> 2 ^ 53 \<longrightarrow> fl (of_int n) = of_int n \<and> fl (of_int (2 * n)) = of_int (2 * n))"

lemma Normalize_bounds:
  "0 < rc_BaseBackoff (rc_Normalize c)" "rc_BaseBackoff (rc_Normalize c) \<le> rc_MaxBackoff (rc_Normalize c)"
  "0 < rc_JitterFraction (rc_Normalize c)" "rc_JitterFraction (rc_Normalize c) \<le> 1"
  by (auto simp: rc_Normalize_def Let_def)

lemma randFloat_bounds: "0 \<le> randFloat v" "randFloat v \<le> 1"
proof -
  have "(of_nat (n mod 2 ^ 53) :: rat) \<le> 2 ^ 53" for n
    by (metis less_imp_le mod_less_divisor of_nat_le_iff of_nat_numeral of_nat_power pos2 zero_less_power)
  then show "0 \<le> randFloat v" "randFloat v \<le> 1" by (auto simp: randFloat_def split: option.splits)
qed

lemma fl_between: "rounding fl \<Longrightarrow> of_int a \<le> x \<Longrightarrow> x \<le> of_int b \<Longrightarrow> \<bar>a\<bar> \<le> 2 ^ 53 \<Longrightarrow> \<bar>b\<bar> \<le> 2 ^ 53 \<Longrightarrow> of_int a \<le> fl x \<and> fl x \<le> of_int b"
  unfolding rounding_def mono_def by metis

text \<open>
  A wait is never negative and at most twice the configured maximum, whatever randomness is
  drawn, for every configuration whose maximum is up to \<open>2 ^ 53\<close> nanoseconds, over a hundred days.
\<close>

theorem backoff_bounds:
  assumes "rounding fl" "rc_MaxBackoff (rc_Normalize c) \<le> 2 ^ 53"
  shows "0 \<le> BackoffFor fl oob rnd attempt c \<and> BackoffFor fl oob rnd attempt c \<le> 2 * rc_MaxBackoff (rc_Normalize c)"
proof (cases "attempt \<le> 1")
  case False
  define n where "n = rc_Normalize c"
  note nb = Normalize_bounds [of c, folded n_def]
  have max: "rc_MaxBackoff n \<le> 2 ^ 53" using assms(2) by (simp add: n_def)
  have flmax: "fl (of_int (rc_MaxBackoff n)) = of_int (rc_MaxBackoff n)" using assms(1) max nb by (simp add: rounding_def)
  define u where "u = fl (fl (randFloat rnd * 2) - 1)"
  have "0 \<le> fl (randFloat rnd * 2) \<and> fl (randFloat rnd * 2) \<le> 2"
    using fl_between [OF assms(1), of 0 "randFloat rnd * 2" 2] randFloat_bounds [of rnd] by simp
  then have u: "-1 \<le> u \<and> u \<le> 1" using fl_between [OF assms(1), of "-1" "fl (randFloat rnd * 2) - 1" 1] by (simp add: u_def)
  have "\<bar>u * rc_JitterFraction n\<bar> \<le> 1 * 1" unfolding abs_mult using u nb by (intro mult_mono) auto
  then have "-1 \<le> fl (u * rc_JitterFraction n) \<and> fl (u * rc_JitterFraction n) \<le> 1"
    using fl_between [OF assms(1), of "-1" "u * rc_JitterFraction n" 1] by simp
  then have j: "0 \<le> fl (1 + fl (u * rc_JitterFraction n)) \<and> fl (1 + fl (u * rc_JitterFraction n)) \<le> 2"
    using fl_between [OF assms(1), of 0 "1 + fl (u * rc_JitterFraction n)" 2] by simp
  have fl0: "0 \<le> fl x" if "0 \<le> x" for x using assms(1) that unfolding rounding_def mono_def by (metis abs_zero of_int_0 zero_le_numeral zero_le_power)
  define e where "e = (if attempt - 2 > 30 then 30 else attempt - 2)"
  define g where "g = fl (fl (of_int (rc_BaseBackoff n)) * 2 ^ nat e)"
  define g' where "g' = (if g > fl (of_int (rc_MaxBackoff n)) then fl (of_int (rc_MaxBackoff n)) else g)"
  have "0 \<le> g" unfolding g_def using nb by (intro fl0 mult_nonneg_nonneg) auto
  then have g': "0 \<le> g' \<and> g' \<le> of_int (rc_MaxBackoff n)" using nb by (auto simp: g'_def flmax)
  define p where "p = fl (g' * fl (1 + fl (u * rc_JitterFraction n)))"
  have "g' * fl (1 + fl (u * rc_JitterFraction n)) \<le> of_int (rc_MaxBackoff n) * 2"
    using g' j nb by (intro mult_mono) auto
  moreover have "0 \<le> g' * fl (1 + fl (u * rc_JitterFraction n))" using g' j by simp
  moreover have "fl (of_int (2 * rc_MaxBackoff n)) = of_int (2 * rc_MaxBackoff n)"
    using assms(1) max nb unfolding rounding_def by (simp only: abs_of_pos)
  ultimately have p: "0 \<le> p \<and> p \<le> of_int (2 * rc_MaxBackoff n)"
    using assms(1) fl0 unfolding p_def rounding_def mono_def by (metis mult.commute of_int_mult of_int_numeral)
  have "BackoffFor fl oob rnd attempt c = float_Duration oob p"
    using False unfolding BackoffFor_def Let_def p_def g'_def g_def e_def u_def n_def by simp
  moreover have "p < 2 ^ 63"
  proof -
    have "p \<le> of_int (2 * rc_MaxBackoff n)" using p by blast
    also have "\<dots> \<le> of_int (2 * 2 ^ 53)" using max by (subst of_int_le_iff) linarith
    also have "\<dots> < 2 ^ 63" by simp
    finally show ?thesis .
  qed
  ultimately have "BackoffFor fl oob rnd attempt c = \<lfloor>p\<rfloor>" using p by (simp add: float_Duration_def)
  then show ?thesis using p by (simp add: n_def floor_le_iff le_floor_iff)
qed (use Normalize_bounds [of c] in \<open>simp add: BackoffFor_def\<close>)

theorem backoff_bounds_witness:
  "let c = \<lparr>rc_MaxAttempts = 0, rc_BaseBackoff = 0, rc_MaxBackoff = 0, rc_JitterFraction = 0\<rparr> in
   rounding id \<and> rc_MaxBackoff (rc_Normalize c) = 30 * second \<and> BackoffFor id (\<lambda>_. 0) (Some 7) 4 c \<le> 60 * second"
proof -
  let ?c = "\<lparr>rc_MaxAttempts = 0, rc_BaseBackoff = 0, rc_MaxBackoff = 0, rc_JitterFraction = 0\<rparr>"
  have r: "rounding id" by (simp add: rounding_def mono_def)
  have m: "rc_MaxBackoff (rc_Normalize ?c) = 30 * second" by (simp add: rc_Normalize_def)
  show ?thesis using backoff_bounds [OF r, of ?c "\<lambda>_. 0" "Some 7" 4] r m by (simp add: Let_def)
qed

subsection \<open>The in-memory queue keeps what it was given\<close>

text \<open>The contract of a queue towards the retry loop: what was pushed successfully can be listed.\<close>

locale dlq =
  fixes push :: "'r DLQItem \<Rightarrow> 'm \<Rightarrow> serr option \<times> 'm"
    and items :: "string \<Rightarrow> int \<Rightarrow> 'm \<Rightarrow> 'r DLQItem list"
    and count :: "string \<Rightarrow> 'm \<Rightarrow> int"
  assumes push_items: "push it m = (None, m') \<Longrightarrow> \<exists>i. mset (items (di_Sink it) 0 m') = mset (items (di_Sink it) 0 m) + {#it\<lparr>di_ID := i\<rparr>#}"
    and push_others: "push it m = (None, m') \<Longrightarrow> s \<noteq> [] \<Longrightarrow> s \<noteq> di_Sink it \<Longrightarrow> items s 0 m' = items s 0 m"
    and count_items: "count s m = int (length (items s 0 m))"
    and newest_first: "sorted (map (\<lambda>it. - di_At it) (items s n m))"
begin

lemma push_counted:
  assumes "push it m = (None, m')"
  shows "count (di_Sink it) m' = count (di_Sink it) m + 1"
proof -
  obtain i where "mset (items (di_Sink it) 0 m') = mset (items (di_Sink it) 0 m) + {#it\<lparr>di_ID := i\<rparr>#}" using push_items [OF assms] by blast
  then have "length (items (di_Sink it) 0 m') = length (items (di_Sink it) 0 m) + 1"
    by (metis size_mset size_union size_single)
  then show ?thesis by (simp add: count_items)
qed

end

interpretation mdlq: dlq "\<lambda>it m. (None, md_Push b it m)" md_Items md_Count
proof
  fix it :: "'a DLQItem" and m m' :: "'a MemoryDLQ" and s n
  show "\<exists>i. mset (md_Items (di_Sink it) 0 m') = mset (md_Items (di_Sink it) 0 m) + {#it\<lparr>di_ID := i\<rparr>#}" if "(None, md_Push b it m) = (None, m')"
    using that by (intro exI [of _ "if di_ID it = [] then newDLQID b else di_ID it"]) (auto simp: md_Push_def md_Items_def Let_def)
  show "md_Items s 0 m' = md_Items s 0 m" if "(None, md_Push b it m) = (None, m')" "s \<noteq> []" "s \<noteq> di_Sink it"
    using that by (auto simp: md_Push_def md_Items_def Let_def)
  show "md_Count s m = int (length (md_Items s 0 m))" by (simp add: md_Count_def md_Items_def)
  show "sorted (map (\<lambda>it. - di_At it) (md_Items s n m))"
    by (simp add: md_Items_def Let_def sorted_sort_key sorted_wrt_take take_map [symmetric])
qed

text \<open>
  A sink and a context that act on their own part of the state, next to an in-memory queue;
  \<open>ids\<close> gives the random bytes for the next identifier.
\<close>

definition lift_Sink :: "('r, 'x) Sink \<Rightarrow> ('r, 'x \<times> 'r MemoryDLQ) Sink" where
  "lift_Sink s = \<lparr>sk_Name = sk_Name s, sk_IsRetrier = sk_IsRetrier s,
     sk_Send = (\<lambda>to msg (x, m). case sk_Send s to msg x of (e, x) \<Rightarrow> (e, (x, m)))\<rparr>"

definition lift_ctx :: "'x ctx \<Rightarrow> ('x \<times> 'r MemoryDLQ) ctx" where
  "lift_ctx cx = \<lparr>cx_Err = (\<lambda>(x, m). cx_Err cx x), cx_wait = (\<lambda>d (x, m). case cx_wait cx d x of (b, x) \<Rightarrow> (b, (x, m))), cx_now = (\<lambda>(x, m). cx_now cx x)\<rparr>"

definition memory_DLQ :: "(nat \<Rightarrow> bytes option) \<Rightarrow> ('r, 'x \<times> 'r MemoryDLQ) DLQ" where
  "memory_DLQ ids = \<lparr>dq_Push = (\<lambda>it (x, m). (None, (x, md_Push (ids (length m)) it m))),
     dq_Items = (\<lambda>s n (x, m). md_Items s n m), dq_Count = (\<lambda>s (x, m). md_Count s m),
     dq_Discard = (\<lambda>i (x, m). (None, (x, md_Discard i m)))\<rparr>"

definition queued :: "('r, 'x) Sink \<Rightarrow> (nat \<Rightarrow> bytes option) \<Rightarrow> 'r \<Rightarrow> Message \<Rightarrow> 'r MemoryDLQ \<Rightarrow> 'r MemoryDLQ \<Rightarrow> bool" where
  "queued s ids to msg m m' \<longleftrightarrow>
     (\<exists>it. m' = md_Push (ids (length m)) it m \<and> di_Sink it = sk_Name s \<and> di_Recipient it = to \<and> di_Message it = msg)"

lemma recordFailure_queued:
  assumes "rt_DLQ r = Some (memory_DLQ ids)" "rt_Inner r = lift_Sink s"
    and "recordFailure cx to msg n l r (x, m) = (e, (x', m'))"
  shows "e = None \<and> queued s ids to msg m m'"
  using assms(3) by (auto simp: recordFailure_def assms(1,2) memory_DLQ_def queued_def lift_Sink_def Let_def)

lemma send_loop_queued:
  assumes "rt_DLQ r = Some (memory_DLQ ids)" "rt_Inner r = lift_Sink s"
    and "send_loop (lift_ctx cx) wt mx to msg r a l (x, m) = (e, (x', m'))"
  shows "e = None \<and> (m' = m \<and> (\<exists>x1. sk_Send s to msg x1 = (None, x')) \<or> queued s ids to msg m m')"
  using assms(3)
proof (induction "nat (mx + 1 - a)" arbitrary: a l x rule: less_induct)
  case less
  note rec = recordFailure_queued [OF assms(1,2)]
  have "\<exists>b z. cx_wait (lift_ctx cx) (wt a) (x, m) = (b, (z, m))" by (simp add: lift_ctx_def split: prod.split)
  then obtain ok x1 where w: "(if a > 1 \<and> wt a > 0 then cx_wait (lift_ctx cx) (wt a) (x, m) else (True, (x, m))) = (ok, (x1, m))"
    by (cases "a > 1 \<and> wt a > 0") auto
  obtain y x2 where y: "sk_Send s to msg x1 = (y, x2)" by fastforce
  then have y': "sk_Send (rt_Inner r) to msg (x1, m) = (y, (x2, m))" by (simp add: assms(2) lift_Sink_def)
  note body = less.prems [unfolded send_loop.simps [of _ wt mx to msg _ a] w]
  have IH: "send_loop (lift_ctx cx) wt mx to msg r (a + 1) l' (x2, m) = (e, (x', m')) \<Longrightarrow> \<not> mx < a \<Longrightarrow> ?case" for l'
    by (rule less.hyps [of "a + 1"]) auto
  show ?case
  proof (cases "mx < a \<or> \<not> ok")
    case True
    then have "\<exists>n l' z. recordFailure (lift_ctx cx) to msg n l' r (z, m) = (e, (x', m'))" using body by (auto split: if_splits)
    then show ?thesis using rec by blast
  next
    case False
    show ?thesis
    proof (cases y)
      case None
      then show ?thesis using body False y y' by auto
    next
      case (Some err)
      then have "(\<exists>n l' z. recordFailure (lift_ctx cx) to msg n l' r (z, m) = (e, (x', m'))) \<or>
          send_loop (lift_ctx cx) wt mx to msg r (a + 1) (Some err) (x2, m) = (e, (x', m'))"
        using body False y' by (simp split: if_splits) blast+
      then show ?thesis using rec IH False by blast
    qed
  qed
qed

text \<open>
  C30. A message is delivered or kept: behind a retry loop with an in-memory queue a send never
  fails, and when it returns either the sink accepted the message and the queue is as it was, or
  the message is in the queue, listed under the sink's name, and the count went up by one.
\<close>

theorem delivered_or_queued:
  assumes "rt_Send fl oob rnd (lift_ctx cx) (NewRetrier (lift_Sink s) cfg (Some (memory_DLQ ids))) to msg (x, m) = (e, (x', m'))"
  shows "e = None \<and>
    (m' = m \<and> (\<exists>x1. sk_Send s to msg x1 = (None, x')) \<or>
     md_Count (sk_Name s) m' = md_Count (sk_Name s) m + 1 \<and>
     (\<exists>it\<in>set (md_Items (sk_Name s) 0 m'). di_Recipient it = to \<and> di_Message it = msg))"
proof -
  let ?r = "NewRetrier (lift_Sink s) cfg (Some (memory_DLQ ids))"
  have "e = None \<and> (m' = m \<and> (\<exists>x1. sk_Send s to msg x1 = (None, x')) \<or> queued s ids to msg m m')"
    by (rule send_loop_queued [of ?r, OF _ _ assms [unfolded rt_Send_def Let_def]]) (simp_all add: NewRetrier_def)
  moreover have "md_Count (sk_Name s) m' = md_Count (sk_Name s) m + 1 \<and> (\<exists>it\<in>set (md_Items (sk_Name s) 0 m'). di_Recipient it = to \<and> di_Message it = msg)"
    if q: "queued s ids to msg m m'"
  proof -
    obtain it where it: "m' = md_Push (ids (length m)) it m" "di_Sink it = sk_Name s" "di_Recipient it = to" "di_Message it = msg"
      using q by (auto simp: queued_def)
    have p: "(None, md_Push (ids (length m)) it m) = (None, m')" by (simp add: it(1))
    obtain i where i: "mset (md_Items (di_Sink it) 0 m') = mset (md_Items (di_Sink it) 0 m) + {#it\<lparr>di_ID := i\<rparr>#}"
      using mdlq.push_items [OF p] by blast
    have "it\<lparr>di_ID := i\<rparr> \<in># mset (md_Items (di_Sink it) 0 m')" unfolding i by simp
    then have "it\<lparr>di_ID := i\<rparr> \<in> set (md_Items (sk_Name s) 0 m')" by (simp add: it(2))
    then show ?thesis using mdlq.push_counted [OF p] it by (auto intro!: bexI [of _ "it\<lparr>di_ID := i\<rparr>"])
  qed
  ultimately show ?thesis by blast
qed

definition dead_sink :: "(unit, unit) Sink" where
  "dead_sink = \<lparr>sk_Name = ''hook'', sk_IsRetrier = False, sk_Send = (\<lambda>to msg w. (Some (SPlain ''no route''), w))\<rparr>"

definition calm :: "unit ctx" where
  "calm = \<lparr>cx_Err = (\<lambda>w. None), cx_wait = (\<lambda>d w. (True, w)), cx_now = (\<lambda>w. 0)\<rparr>"

theorem delivered_or_queued_witness:
  "let c = \<lparr>rc_MaxAttempts = 2, rc_BaseBackoff = 0, rc_MaxBackoff = 0, rc_JitterFraction = 0\<rparr>; msg = \<lparr>ms_Subject = [], ms_Body = ''hi'', ms_Metadata = []\<rparr>;
       (e, (x, m)) = rt_Send id (\<lambda>_. 0) (\<lambda>_. None) (lift_ctx calm) (NewRetrier (lift_Sink dead_sink) c (Some (memory_DLQ (\<lambda>_. None)))) () msg ((), [])
   in e = None \<and> md_Count ''hook'' m = 1"
proof -
  define c where "c = \<lparr>rc_MaxAttempts = 2, rc_BaseBackoff = 0, rc_MaxBackoff = 0, rc_JitterFraction = 0\<rparr>"
  define msg where "msg = \<lparr>ms_Subject = [], ms_Body = ''hi'', ms_Metadata = []\<rparr>"
  obtain e x m where r: "rt_Send id (\<lambda>_. 0) (\<lambda>_. None) (lift_ctx calm) (NewRetrier (lift_Sink dead_sink) c (Some (memory_DLQ (\<lambda>_. None)))) () msg ((), []) = (e, (x, m))"
    by (metis surj_pair)
  have "\<not> (\<exists>x1. sk_Send dead_sink () msg x1 = (None, x))" by (simp add: dead_sink_def)
  then have "e = None \<and> md_Count ''hook'' m = 1"
    using delivered_or_queued [OF r] by (auto simp: dead_sink_def md_Count_def)
  then show ?thesis unfolding Let_def c_def [symmetric] msg_def [symmetric] r by simp
qed

end
