(* ===== verification/SinkKinds.thy ===== *)
theory SinkKinds
  imports Sinks JsonSchema
begin

text \<open>
  The three sinks that come with the repository: \<^verbatim>\<open>src/sinks/webhook\<close>, \<^verbatim>\<open>slack\<close> and
  \<^verbatim>\<open>email\<close>.  The JSON text of a payload, the parsing of a URL, the HTTP client and the SMTP
  client are arguments; a configuration comes as a decoded map.
\<close>

datatype recipient = RNil | REmail string | RWebhook string | RSlack | ROther

record http_request =
  rq_URL :: string
  rq_Header :: "(string, string) gomap"
  rq_Body :: bytes

text \<open>
  What the sinks use of \<^verbatim>\<open>net/http\<close>: whether \<^verbatim>\<open>NewRequestWithContext\<close> accepts a URL, and \<^verbatim>\<open>Do\<close>
  with the status code and the status line it returns.
\<close>

record ('p, 'w) http =
  ht_Marshal :: "'p \<Rightarrow> serr + bytes"
  ht_NewRequest :: "string \<Rightarrow> serr option"
  ht_Do :: "http_request \<Rightarrow> 'w \<Rightarrow> (serr + int \<times> string) \<times> 'w"

subsection \<open>Header keys\<close>

definition is_upper :: "char \<Rightarrow> bool" where "is_upper c \<longleftrightarrow> CHR ''A'' \<le> c \<and> c \<le> CHR ''Z''"
definition is_lower :: "char \<Rightarrow> bool" where "is_lower c \<longleftrightarrow> CHR ''a'' \<le> c \<and> c \<le> CHR ''z''"

definition header_byte :: "char \<Rightarrow> bool" where
  "header_byte c \<longleftrightarrow> is_upper c \<or> is_lower c \<or> (CHR ''0'' \<le> c \<and> c \<le> CHR ''9'') \<or> c \<in> set ''!#$%&*+-.^_|~'' \<or> c = CHR 0x27 \<or> c = CHR 0x60"

fun canon_key :: "bool \<Rightarrow> string \<Rightarrow> string" where
  "canon_key up [] = []"
| "canon_key up (c # s) =
     (if up \<and> is_lower c then char_of (of_char c - 32 :: nat) else if \<not> up \<and> is_upper c then char_of (of_char c + 32 :: nat) else c)
       # canon_key (c = CHR ''-'') s"

definition CanonicalHeaderKey :: "string \<Rightarrow> string" where
  "CanonicalHeaderKey s = (if list_all header_byte s then canon_key True s else s)"

definition header_Set :: "string \<Rightarrow> string \<Rightarrow> (string, string) gomap \<Rightarrow> (string, string) gomap" where
  "header_Set k v h = AList.update (CanonicalHeaderKey k) v h"

subsection \<open>Webhook (webhook.go)\<close>

definition isTransientHTTP :: "int \<Rightarrow> bool" where
  "isTransientHTTP status = (if status = 429 then True else status \<ge> 500 \<and> status \<le> 599)"

record webhook_Config =
  wh_URL :: string
  wh_Headers :: "(string, string) gomap"

record webhook_Sink =
  wh_cfg :: webhook_Config
  wh_name :: string

record webhookPayload =
  wp_Subject :: string
  wp_Body :: string
  wp_Metadata :: "(string, string) gomap"

definition webhook_New :: "webhook_Config \<Rightarrow> serr + webhook_Sink" where
  "webhook_New cfg =
     (if wh_URL cfg = [] then Inl (SCoded SinkConfig ''webhook sink requires URL'' None)
      else Inr \<lparr>wh_cfg = cfg, wh_name = ''webhook''\<rparr>)"

definition webhook_NewNamed :: "string \<Rightarrow> webhook_Config \<Rightarrow> serr + webhook_Sink" where
  "webhook_NewNamed name cfg = (case webhook_New cfg of Inl e \<Rightarrow> Inl e | Inr s \<Rightarrow> Inr (s\<lparr>wh_name := name\<rparr>))"

definition any_string :: "json option \<Rightarrow> string" where
  "any_string v = (case v of Some (JStr s) \<Rightarrow> s | _ \<Rightarrow> [])"

definition webhook_factory :: "string \<Rightarrow> (string, json) gomap \<Rightarrow> serr + webhook_Sink" where
  "webhook_factory name raw =
     (let url = any_string (map_of raw ''url'');
          headers = (case map_of raw ''headers'' of
              Some (JObj h) \<Rightarrow> fold (\<lambda>(k, v) acc. case v of JStr s \<Rightarrow> AList.update k s acc | _ \<Rightarrow> acc) h []
            | _ \<Rightarrow> [])
      in webhook_NewNamed name \<lparr>wh_URL = url, wh_Headers = headers\<rparr>)"

definition webhook_Name :: "webhook_Sink \<Rightarrow> string" where
  "webhook_Name s = (if wh_name s = [] then ''webhook'' else wh_name s)"

definition post_result :: "string \<Rightarrow> string \<Rightarrow> serr + int \<times> string \<Rightarrow> serr option" where
  "post_result what returned resp =
     (case resp of
        Inl err \<Rightarrow> serr_Transient (Some (SCoded SinkUnavailable what (Some err)))
      | Inr (code, status) \<Rightarrow>
          if code \<ge> 300 then
            (let wrapped = SCoded SinkUnavailable (returned @ status) None in
             if isTransientHTTP code then serr_Transient (Some wrapped) else serr_Terminal (Some wrapped))
          else None)"

definition webhook_Send ::
  "(webhookPayload, 'w) http \<Rightarrow> webhook_Sink \<Rightarrow> recipient \<Rightarrow> Message \<Rightarrow> 'w \<Rightarrow> serr option \<times> 'w" where
  "webhook_Send ht s to m w =
     (let url = (case to of RWebhook u \<Rightarrow> if u \<noteq> [] then u else wh_URL (wh_cfg s) | _ \<Rightarrow> wh_URL (wh_cfg s)) in
      case ht_Marshal ht \<lparr>wp_Subject = ms_Subject m, wp_Body = ms_Body m, wp_Metadata = ms_Metadata m\<rparr> of
        Inl err \<Rightarrow> (Some (SCoded Internal ''marshal webhook payload'' (Some err)), w)
      | Inr bdy \<Rightarrow>
          (case ht_NewRequest ht url of
             Some err \<Rightarrow> (Some (SCoded Internal ''webhook request'' (Some err)), w)
           | None \<Rightarrow>
               let h = header_Set ''Content-Type'' ''application/json'' [];
                   h = fold (\<lambda>(k, v). header_Set k v) (wh_Headers (wh_cfg s)) h
               in (case ht_Do ht \<lparr>rq_URL = url, rq_Header = h, rq_Body = bdy\<rparr> w of
                     (resp, w) \<Rightarrow> (post_result ''webhook post'' ''webhook returned '' resp, w))))"

subsection \<open>Slack (slack.go)\<close>

record slack_Sink =
  sl_WebhookURL :: string
  sl_name :: string

record slackPayload =
  sy_Text :: string
  sy_Metadata :: "(string, string) gomap"

definition slack_New :: "string \<Rightarrow> serr + slack_Sink" where
  "slack_New url =
     (if url = [] then Inl (SCoded SinkConfig ''slack sink requires WebhookURL'' None)
      else Inr \<lparr>sl_WebhookURL = url, sl_name = ''slack''\<rparr>)"

definition slack_NewNamed :: "string \<Rightarrow> string \<Rightarrow> serr + slack_Sink" where
  "slack_NewNamed name url = (case slack_New url of Inl e \<Rightarrow> Inl e | Inr s \<Rightarrow> Inr (s\<lparr>sl_name := name\<rparr>))"

definition slack_factory :: "string \<Rightarrow> (string, json) gomap \<Rightarrow> serr + slack_Sink" where
  "slack_factory name raw = slack_NewNamed name (any_string (map_of raw ''webhook_url''))"

definition slack_Name :: "slack_Sink \<Rightarrow> string" where
  "slack_Name s = (if sl_name s = [] then ''slack'' else sl_name s)"

definition slack_Send :: "(slackPayload, 'w) http \<Rightarrow> slack_Sink \<Rightarrow> recipient \<Rightarrow> Message \<Rightarrow> 'w \<Rightarrow> serr option \<times> 'w" where
  "slack_Send ht s to m w =
     (let payload = \<lparr>sy_Text = ms_Body m, sy_Metadata = ms_Metadata m\<rparr>;
          payload = (if ms_Subject m \<noteq> [] then payload\<lparr>sy_Text := ''*'' @ ms_Subject m @ ''*'' @ [CHR 0x0A] @ ms_Body m\<rparr> else payload)
      in case ht_Marshal ht payload of
        Inl err \<Rightarrow> (Some (SCoded Internal ''marshal slack payload'' (Some err)), w)
      | Inr bdy \<Rightarrow>
          (case ht_NewRequest ht (sl_WebhookURL s) of
             Some err \<Rightarrow> (Some (SCoded Internal ''slack request'' (Some err)), w)
           | None \<Rightarrow>
               (case ht_Do ht \<lparr>rq_URL = sl_WebhookURL s, rq_Header = header_Set ''Content-Type'' ''application/json'' [], rq_Body = bdy\<rparr> w of
                  (resp, w) \<Rightarrow> (post_result ''slack post'' ''slack webhook returned '' resp, w))))"

subsection \<open>Email (email.go)\<close>

record email_Config =
  em_Addr :: string
  em_From :: string
  em_Username :: string
  em_Password :: string

record email_Sink =
  em_cfg :: email_Config
  em_name :: string

definition email_New :: "email_Config \<Rightarrow> serr + email_Sink" where
  "email_New cfg =
     (if em_Addr cfg = [] \<or> em_From cfg = [] then Inl (SCoded SinkConfig ''email sink requires Addr and From'' None)
      else Inr \<lparr>em_cfg = cfg, em_name = ''email''\<rparr>)"

definition email_NewNamed :: "string \<Rightarrow> email_Config \<Rightarrow> serr + email_Sink" where
  "email_NewNamed name cfg = (case email_New cfg of Inl e \<Rightarrow> Inl e | Inr s \<Rightarrow> Inr (s\<lparr>em_name := name\<rparr>))"

definition email_factory :: "string \<Rightarrow> (string, json) gomap \<Rightarrow> serr + email_Sink" where
  "email_factory name raw =
     email_NewNamed name \<lparr>em_Addr = any_string (map_of raw ''smtp_addr''), em_From = any_string (map_of raw ''from''),
       em_Username = any_string (map_of raw ''auth_user''), em_Password = any_string (map_of raw ''auth_pass'')\<rparr>"

definition email_Name :: "email_Sink \<Rightarrow> string" where
  "email_Name s = (if em_name s = [] then ''email'' else em_name s)"

abbreviation crlf :: string where "crlf \<equiv> [CHR 0x0D, CHR 0x0A]"

definition email_body :: "string \<Rightarrow> string \<Rightarrow> Message \<Rightarrow> string" where
  "email_body from addr m =
     ''From: '' @ from @ crlf @ ''To: '' @ addr @ crlf @ ''Subject: '' @ ms_Subject m @ crlf @ crlf @ ms_Body m"

definition classifySMTP :: "serr \<Rightarrow> bool" where
  "classifySMTP err \<longleftrightarrow>
     list_ex (strings_Contains (serr_Error err)) [''421 '', ''450 '', ''451 '', ''452 '', ''454 ''] \<or> IsTransient (Some err)"

text \<open>\<open>sendMail\<close> is \<^verbatim>\<open>smtp.SendMail\<close>: the server, the credentials, the sender, the receivers and the text.\<close>

definition email_Send ::
  "(string \<Rightarrow> (string \<times> string \<times> string) option \<Rightarrow> string \<Rightarrow> string list \<Rightarrow> bytes \<Rightarrow> 'w \<Rightarrow> serr option \<times> 'w) \<Rightarrow>
   email_Sink \<Rightarrow> recipient \<Rightarrow> Message \<Rightarrow> 'w \<Rightarrow> serr option \<times> 'w" where
  "email_Send sendMail s to m w =
     (case to of
        REmail addr \<Rightarrow>
          if addr = [] then (Some (SCoded InvalidArgument ''email recipient address is empty'' None), w)
          else
            let cfg = em_cfg s;
                idx = strings_IndexByte (em_Addr cfg) CHR '':'';
                host = (if idx > 0 then take (nat idx) (em_Addr cfg) else em_Addr cfg);
                auth = (if em_Username cfg \<noteq> [] then Some (em_Username cfg, em_Password cfg, host) else None)
            in (case sendMail (em_Addr cfg) auth (em_From cfg) [addr] (email_body (em_From cfg) addr m) w of
                  (None, w) \<Rightarrow> (None, w)
                | (Some err, w) \<Rightarrow>
                    let wrapped = SCoded SinkUnavailable ''smtp send'' (Some err) in
                    if classifySMTP err then (serr_Transient (Some wrapped), w) else (serr_Terminal (Some wrapped), w))
      | _ \<Rightarrow> (Some (SCoded InvalidArgument ''email sink expects sinks/email.Recipient'' None), w))"

subsection \<open>Which failures are retried\<close>

lemma IsTransient_hint:
  "IsTransient (Some (SHint b (Some e))) \<longleftrightarrow> b \<and> SDeadline \<notin> set (err_chain e) \<and> SCanceled \<notin> set (err_chain e)"
  by (auto simp: serr_Is_def serr_As_def map_filter_simps)

lemma post_result_cases:
  "post_result what returned resp = None \<longleftrightarrow> (\<exists>code status. resp = Inr (code, status) \<and> code < 300)"
  "resp = Inr (code, status) \<Longrightarrow> 300 \<le> code \<Longrightarrow> IsTransient (post_result what returned resp) \<longleftrightarrow> code = 429 \<or> 500 \<le> code \<and> code \<le> 599"
  "resp = Inl err \<Longrightarrow> IsTransient (post_result what returned resp) \<longleftrightarrow> SDeadline \<notin> set (err_chain err) \<and> SCanceled \<notin> set (err_chain err)"
  by (auto simp: post_result_def serr_Transient_def serr_Terminal_def Let_def isTransientHTTP_def IsTransient_hint simp del: IsTransient.simps
      split: sum.splits)

text \<open>
  Which deliveries are tried again: once the request is built, a webhook delivery succeeds
  exactly on a status below 300; a status of 429 or 5xx, and a transport failure that is not the
  context's own end, are classified as transient, every other status as terminal.
\<close>

theorem webhook_retry_decision:
  assumes "ht_Marshal ht \<lparr>wp_Subject = ms_Subject m, wp_Body = ms_Body m, wp_Metadata = ms_Metadata m\<rparr> = Inr bdy"
    and "\<forall>u. ht_NewRequest ht u = None"
  shows "\<exists>rq. rq_Body rq = bdy \<and>
    (let (e, w') = webhook_Send ht s to m w in
     w' = snd (ht_Do ht rq w) \<and>
     (case fst (ht_Do ht rq w) of
        Inl err \<Rightarrow> e \<noteq> None \<and> (IsTransient e \<longleftrightarrow> SDeadline \<notin> set (err_chain err) \<and> SCanceled \<notin> set (err_chain err))
      | Inr (status, _) \<Rightarrow> (e = None \<longleftrightarrow> status < 300) \<and> (300 \<le> status \<longrightarrow> (IsTransient e \<longleftrightarrow> status = 429 \<or> 500 \<le> status \<and> status \<le> 599))))"
proof -
  define url where "url = (case to of RWebhook u \<Rightarrow> if u \<noteq> [] then u else wh_URL (wh_cfg s) | _ \<Rightarrow> wh_URL (wh_cfg s))"
  define rq where "rq = \<lparr>rq_URL = url, rq_Header = fold (\<lambda>(k, v). header_Set k v) (wh_Headers (wh_cfg s)) (header_Set ''Content-Type'' ''application/json'' []), rq_Body = bdy\<rparr>"
  obtain resp w' where d: "ht_Do ht rq w = (resp, w')" by fastforce
  have nr: "ht_NewRequest ht url = None" using assms(2) by blast
  have send: "webhook_Send ht s to m w = (post_result ''webhook post'' ''webhook returned '' resp, w')"
    unfolding webhook_Send_def Let_def assms(1) url_def [symmetric] sum.case nr option.case rq_def [symmetric] d by simp
  have "rq_Body rq = bdy" by (simp add: rq_def)
  then show ?thesis
    by (intro exI [of _ rq]) (auto simp: send d post_result_cases simp del: IsTransient.simps split: sum.splits)
qed

theorem webhook_retry_decision_witness:
  "let ht = \<lparr>ht_Marshal = (\<lambda>_. Inr ''{}''), ht_NewRequest = (\<lambda>_. None), ht_Do = (\<lambda>_ w. (Inr (503, ''503 Service Unavailable''), w))\<rparr> in
   IsTransient (fst (webhook_Send ht \<lparr>wh_cfg = \<lparr>wh_URL = ''http://h'', wh_Headers = []\<rparr>, wh_name = []\<rparr> RNil \<lparr>ms_Subject = [], ms_Body = [], ms_Metadata = []\<rparr> ()))"
proof -
  define ht where "ht = (\<lparr>ht_Marshal = (\<lambda>_. Inr ''{}''), ht_NewRequest = (\<lambda>_. None), ht_Do = (\<lambda>_ w. (Inr (503, ''503 Service Unavailable''), w))\<rparr> :: (webhookPayload, unit) http)"
  have a: "ht_Marshal ht p = Inr ''{}''" "\<forall>u. ht_NewRequest ht u = None" "fst (ht_Do ht rq w) = Inr (503, ''503 Service Unavailable'')" for p rq w
    by (simp_all add: ht_def)
  show ?thesis
    using webhook_retry_decision [OF a(1,2), of "\<lparr>wh_cfg = \<lparr>wh_URL = ''http://h'', wh_Headers = []\<rparr>, wh_name = []\<rparr>" RNil]
    unfolding Let_def ht_def [symmetric] a(3) by (auto simp: case_prod_beta simp del: IsTransient.simps)
qed

text \<open>A line break in the subject starts a header of its own.\<close>

lemma email_header_injection:
  "email_body from addr (m\<lparr>ms_Subject := s @ crlf @ ''Bcc: '' @ victim\<rparr>) =
   ''From: '' @ from @ crlf @ ''To: '' @ addr @ crlf @ ''Subject: '' @ s @ crlf @ ''Bcc: '' @ victim @ crlf @ crlf @ ms_Body m"
  by (simp add: email_body_def)

text \<open>The marker \<^verbatim>\<open>4.\<close> for a transient SMTP failure also occurs in addresses and versions.\<close>

lemma terminal_text_taken_for_transient:
  "classifyHTTPSMTPMessage ''10.4.0.1 no''"
  by code_simp

end
