(* ===== verification/RedisKV.thy ===== *)
theory RedisKV
  imports Prelude
begin

text \<open>
  What the stores on Redis strings rely on.  Redis and its client are a parameter, \<open>redis_kv\<close>:
  the commands \<^verbatim>\<open>SET\<close>, \<^verbatim>\<open>SET NX\<close>, \<^verbatim>\<open>DEL\<close>, \<^verbatim>\<open>EXISTS\<close> and \<^verbatim>\<open>GET\<close> on a state \<open>'r\<close>.  The \<open>go_time\<close> of a
  call is the moment it takes effect; the TTL sent is relative, so only that node and server
  clocks advance together matters.  \<open>kv_ok\<close> states the documented behaviour of the commands in
  terms of the keys' values and expiries: each command is atomic, an expiry has millisecond
  resolution, and a command that failed for the caller may or may not have taken effect.
\<close>

record 'r redis_kv =
  rv_SetNX :: "string \<Rightarrow> string \<Rightarrow> duration \<Rightarrow> go_time \<Rightarrow> 'r \<Rightarrow> bool result \<times> 'r"
  rv_Set :: "string \<Rightarrow> string \<Rightarrow> duration \<Rightarrow> go_time \<Rightarrow> 'r \<Rightarrow> go_error option \<times> 'r"
  rv_Del :: "string \<Rightarrow> go_time \<Rightarrow> 'r \<Rightarrow> go_error option \<times> 'r"
  rv_Exists :: "string \<Rightarrow> go_time \<Rightarrow> 'r \<Rightarrow> int result"
  rv_Get :: "string \<Rightarrow> go_time \<Rightarrow> 'r \<Rightarrow> string option result"

type_synonym kv = "string \<Rightarrow> (string \<times> go_time option) option"

abbreviation millisecond :: duration where "millisecond \<equiv> 1000000"

definition alive :: "go_time \<Rightarrow> kv \<Rightarrow> string \<Rightarrow> string option" where
  "alive now d k =
     (case d k of None \<Rightarrow> None
      | Some (v, None) \<Rightarrow> Some v
      | Some (v, Some e) \<Rightarrow> if now < e then Some v else None)"

definition expiry_ok :: "go_time \<Rightarrow> duration \<Rightarrow> go_time option \<Rightarrow> bool" where
  "expiry_ok now ttl e \<longleftrightarrow>
     (case e of None \<Rightarrow> ttl = 0
      | Some x \<Rightarrow> 0 < ttl \<and> now + ttl - millisecond < x \<and> x \<le> now + max ttl millisecond)"

definition written :: "string \<Rightarrow> string \<Rightarrow> duration \<Rightarrow> go_time \<Rightarrow> kv \<Rightarrow> kv \<Rightarrow> bool" where
  "written k v ttl now d d' \<longleftrightarrow> (\<exists>e. expiry_ok now ttl e \<and> d' = d(k \<mapsto> (v, e)))"

definition setnx_ok :: "'r redis_kv \<Rightarrow> ('r \<Rightarrow> kv) \<Rightarrow> bool" where
  "setnx_ok rv view \<longleftrightarrow> (\<forall>k v ttl now r a r'. 0 \<le> ttl \<longrightarrow> rv_SetNX rv k v ttl now r = (a, r') \<longrightarrow>
     (case a of
        Ok True \<Rightarrow> alive now (view r) k = None \<and> written k v ttl now (view r) (view r')
      | Ok False \<Rightarrow> alive now (view r) k \<noteq> None \<and> view r' = view r
      | Err _ \<Rightarrow> view r' = view r \<or> alive now (view r) k = None \<and> written k v ttl now (view r) (view r')))"

definition set_ok :: "'r redis_kv \<Rightarrow> ('r \<Rightarrow> kv) \<Rightarrow> bool" where
  "set_ok rv view \<longleftrightarrow> (\<forall>k v ttl now r a r'. 0 \<le> ttl \<longrightarrow> rv_Set rv k v ttl now r = (a, r') \<longrightarrow>
     written k v ttl now (view r) (view r') \<or> a \<noteq> None \<and> view r' = view r)"

definition del_ok :: "'r redis_kv \<Rightarrow> ('r \<Rightarrow> kv) \<Rightarrow> bool" where
  "del_ok rv view \<longleftrightarrow> (\<forall>k now r a r'. rv_Del rv k now r = (a, r') \<longrightarrow>
     view r' = (view r)(k := None) \<or> a \<noteq> None \<and> view r' = view r)"

definition reads_ok :: "'r redis_kv \<Rightarrow> ('r \<Rightarrow> kv) \<Rightarrow> bool" where
  "reads_ok rv view \<longleftrightarrow>
     (\<forall>k now r n. rv_Exists rv k now r = Ok n \<longrightarrow> n = (if alive now (view r) k = None then 0 else 1)) \<and>
     (\<forall>k now r v. rv_Get rv k now r = Ok v \<longrightarrow> v = alive now (view r) k)"

definition kv_ok :: "'r redis_kv \<Rightarrow> ('r \<Rightarrow> kv) \<Rightarrow> bool" where
  "kv_ok rv view \<longleftrightarrow> setnx_ok rv view \<and> set_ok rv view \<and> del_ok rv view \<and> reads_ok rv view"

lemma setnx_okD:
  "setnx_ok rv view \<Longrightarrow> 0 \<le> ttl \<Longrightarrow> rv_SetNX rv k v ttl now r = (a, r') \<Longrightarrow>
     (case a of
        Ok True \<Rightarrow> alive now (view r) k = None \<and> written k v ttl now (view r) (view r')
      | Ok False \<Rightarrow> alive now (view r) k \<noteq> None \<and> view r' = view r
      | Err _ \<Rightarrow> view r' = view r \<or> alive now (view r) k = None \<and> written k v ttl now (view r) (view r'))"
  unfolding setnx_ok_def by blast

lemma kv_SetNX_Ok:
  "kv_ok rv view \<Longrightarrow> 0 \<le> ttl \<Longrightarrow> rv_SetNX rv k v ttl now r = (Ok b, r') \<Longrightarrow>
     (if b then alive now (view r) k = None \<and> written k v ttl now (view r) (view r')
      else alive now (view r) k \<noteq> None \<and> view r' = view r)"
  using setnx_okD [of rv view ttl k v now r "Ok b" r'] by (simp add: kv_ok_def split: bool.splits)

lemma kv_SetNX:
  "kv_ok rv view \<Longrightarrow> 0 \<le> ttl \<Longrightarrow> rv_SetNX rv k v ttl now r = (a, r') \<Longrightarrow>
     view r' = view r \<or> alive now (view r) k = None \<and> written k v ttl now (view r) (view r')"
  using setnx_okD [of rv view ttl k v now r a r'] by (auto simp: kv_ok_def split: sum.splits bool.splits)

lemma kv_Set:
  "kv_ok rv view \<Longrightarrow> 0 \<le> ttl \<Longrightarrow> rv_Set rv k v ttl now r = (a, r') \<Longrightarrow>
     written k v ttl now (view r) (view r') \<or> a \<noteq> None \<and> view r' = view r"
  unfolding kv_ok_def set_ok_def by blast

lemma kv_Del:
  "kv_ok rv view \<Longrightarrow> rv_Del rv k now r = (a, r') \<Longrightarrow> view r' = (view r)(k := None) \<or> a \<noteq> None \<and> view r' = view r"
  unfolding kv_ok_def del_ok_def by blast

lemma kv_Exists:
  assumes "kv_ok rv view" "rv_Exists rv k now r = Ok n"
  shows "n > 0 \<longleftrightarrow> alive now (view r) k \<noteq> None"
proof -
  have "n = (if alive now (view r) k = None then 0 else 1)"
    using assms unfolding kv_ok_def reads_ok_def by blast
  then show ?thesis by simp
qed

lemma kv_Get: "kv_ok rv view \<Longrightarrow> rv_Get rv k now r = Ok v \<Longrightarrow> v = alive now (view r) k"
  unfolding kv_ok_def reads_ok_def by blast

text \<open>A key that lives at least until a moment, with a value from a set.\<close>

definition lives :: "kv \<Rightarrow> string \<Rightarrow> go_time \<Rightarrow> (string \<Rightarrow> bool) \<Rightarrow> bool" where
  "lives d k t P \<longleftrightarrow> 
     (case d k of None \<Rightarrow> False
      | Some (v, e) \<Rightarrow> P v \<and> (case e of None \<Rightarrow> True | Some x \<Rightarrow> t \<le> x))"

lemma lives_alive: "lives d k t P \<Longrightarrow> now < t \<Longrightarrow> \<exists>v. alive now d k = Some v \<and> P v"
  by (auto simp: lives_def alive_def split: option.splits)

lemma lives_written: "written k v ttl now d d' \<Longrightarrow> P v \<Longrightarrow> t \<le> now + ttl - millisecond + 1 \<Longrightarrow> 0 < ttl \<Longrightarrow> lives d' k t P"
  by (auto simp: written_def expiry_ok_def lives_def split: option.splits)

lemma lives_other: "written k' v ttl now d d' \<Longrightarrow> k' \<noteq> k \<Longrightarrow> lives d' k t P \<longleftrightarrow> lives d k t P"
  by (auto simp: written_def lives_def)

subsection \<open>A Redis that never fails\<close>

text \<open>An instance of the hypotheses: a map, with expiries cut to the millisecond of the duration.\<close>

definition mem_alive :: "go_time \<Rightarrow> (string, string \<times> go_time option) gomap \<Rightarrow> string \<Rightarrow> string option" where
  "mem_alive now m k = alive now (map_of m) k"

definition mem_expiry :: "go_time \<Rightarrow> duration \<Rightarrow> go_time option" where
  "mem_expiry now ttl =
     (if ttl = 0 then None else Some (now + (if ttl < millisecond then millisecond else ttl div millisecond * millisecond)))"

definition mem_kv :: "(string, string \<times> go_time option) gomap redis_kv" where
  "mem_kv = \<lparr>
     rv_SetNX = (\<lambda>k v ttl now m. if mem_alive now m k = None then (Ok True, AList.update k (v, mem_expiry now ttl) m) else (Ok False, m)),
     rv_Set = (\<lambda>k v ttl now m. (None, AList.update k (v, mem_expiry now ttl) m)),
     rv_Del = (\<lambda>k now m. (None, AList.delete k m)),
     rv_Exists = (\<lambda>k now m. Ok (if mem_alive now m k = None then 0 else 1)),
     rv_Get = (\<lambda>k now m. Ok (mem_alive now m k))\<rparr>"

lemma mem_expiry_ok: "0 \<le> ttl \<Longrightarrow> expiry_ok now ttl (mem_expiry now ttl)"
proof (cases "ttl < millisecond")
  case False
  have "ttl = ttl div millisecond * millisecond + ttl mod millisecond" by simp
  moreover have "0 \<le> ttl mod millisecond" "ttl mod millisecond < millisecond" by simp_all
  ultimately have "ttl - millisecond < ttl div millisecond * millisecond \<and> ttl div millisecond * millisecond \<le> ttl"
    by linarith
  with False show ?thesis by (simp add: expiry_ok_def mem_expiry_def)
qed (auto simp: expiry_ok_def mem_expiry_def)

lemma mem_written: "0 \<le> ttl \<Longrightarrow> written k v ttl now (map_of m) (map_of (AList.update k (v, mem_expiry now ttl) m))"
  using mem_expiry_ok [of ttl now] by (auto simp: written_def update_conv')

lemma mem_kv_ok: "kv_ok mem_kv map_of"
  unfolding kv_ok_def
proof (intro conjI)
  show "setnx_ok mem_kv map_of"
    using mem_written by (auto simp: setnx_ok_def mem_kv_def mem_alive_def split: if_splits)
  show "set_ok mem_kv map_of" using mem_written by (auto simp: set_ok_def mem_kv_def)
  show "del_ok mem_kv map_of" by (simp add: del_ok_def mem_kv_def delete_conv')
  show "reads_ok mem_kv map_of" by (auto simp: reads_ok_def mem_kv_def mem_alive_def)
qed

end
