(* ===== verification/RedisTokens.thy ===== *)
theory RedisTokens
  imports Subscribe Facade RedisKV GoStrings
begin

text \<open>
  The refresh store and the revocation list on Redis (\<^verbatim>\<open>src/auth/refresh_store_redis.go\<close>,
  \<^verbatim>\<open>src/tokenbroker/redis_revocations.go\<close>).

  Several nodes share one Redis.  Each operation of these stores is one command, so a run of the
  system is a sequence of operations of any nodes, with anything at all happening to the keys
  outside the store's namespace in between: \<open>refresh_run\<close> and \<open>revoke_run\<close>.  The properties follow a
  redemption or a revocation made at one node to a later check at another.
\<close>

subsection \<open>The refresh store\<close>

record 'r RedisRefreshStore =
  rf_client :: 'r
  rf_keyPrefix :: string

definition NewRedisRefreshStore :: "'r \<Rightarrow> 'r RedisRefreshStore" where
  "NewRedisRefreshStore client = \<lparr>rf_client = client, rf_keyPrefix = ''parsec''\<rparr>"

definition rf_WithKeyPrefix :: "string \<Rightarrow> 'r RedisRefreshStore \<Rightarrow> 'r RedisRefreshStore" where
  "rf_WithKeyPrefix p s = s\<lparr>rf_keyPrefix := (if p = [] then ''parsec'' else p)\<rparr>"

definition jtiKey :: "string \<Rightarrow> string \<Rightarrow> string" where
  "jtiKey prefix jti = prefix @ '':refresh:jti:'' @ jti"

definition fidKey :: "string \<Rightarrow> string \<Rightarrow> string" where
  "fidKey prefix fid = prefix @ '':refresh:fid:'' @ fid"

definition rf_MarkRedeemed ::
  "'r redis_kv \<Rightarrow> string \<Rightarrow> go_time \<Rightarrow> go_time \<Rightarrow> 'r RedisRefreshStore \<Rightarrow> go_error option \<times> 'r RedisRefreshStore" where
  "rf_MarkRedeemed rv jti exp now s =
     (let ttl = time_Sub exp now in
      if ttl \<le> 0 then (None, s)
      else case rv_SetNX rv (jtiKey (rf_keyPrefix s) jti) ''1'' ttl now (rf_client s) of
        (Err _, c) \<Rightarrow> (Some (Plain ''redis SETNX jti: %w''), s\<lparr>rf_client := c\<rparr>)
      | (Ok ok, c) \<Rightarrow>
          if \<not> ok then (Some ErrRefreshReused, s\<lparr>rf_client := c\<rparr>) else (None, s\<lparr>rf_client := c\<rparr>))"

definition rf_RevokeFamily ::
  "'r redis_kv \<Rightarrow> string \<Rightarrow> go_time \<Rightarrow> go_time \<Rightarrow> 'r RedisRefreshStore \<Rightarrow> go_error option \<times> 'r RedisRefreshStore" where
  "rf_RevokeFamily rv fid exp now s =
     (let ttl = time_Sub exp now in
      if ttl \<le> 0 then (None, s)
      else case rv_Set rv (fidKey (rf_keyPrefix s) fid) ''1'' ttl now (rf_client s) of
        (Some _, c) \<Rightarrow> (Some (Plain ''redis SET fid: %w''), s\<lparr>rf_client := c\<rparr>)
      | (None, c) \<Rightarrow> (None, s\<lparr>rf_client := c\<rparr>))"

text \<open>\<^verbatim>\<open>EXISTS\<close> never answers \<^verbatim>\<open>redis.Nil\<close>, so the branch for it is not a case here.\<close>

definition rf_IsFamilyRevoked ::
  "'r redis_kv \<Rightarrow> string \<Rightarrow> go_time \<Rightarrow> 'r RedisRefreshStore \<Rightarrow> bool result \<times> 'r RedisRefreshStore" where
  "rf_IsFamilyRevoked rv fid now s =
     (case rv_Exists rv (fidKey (rf_keyPrefix s) fid) now (rf_client s) of
        Err _ \<Rightarrow> (Err (Plain ''redis EXISTS fid: %w''), s)
      | Ok n \<Rightarrow> (Ok (n > 0), s))"

definition RedisRefreshStore_ops :: "'r redis_kv \<Rightarrow> 'r RedisRefreshStore refresh_ops" where
  "RedisRefreshStore_ops rv = \<lparr>ro_MarkRedeemed = rf_MarkRedeemed rv, ro_RevokeFamily = rf_RevokeFamily rv,
     ro_IsFamilyRevoked = rf_IsFamilyRevoked rv\<rparr>"

subsection \<open>The revocation list\<close>

record 'r RedisRevocations =
  rr_client :: 'r
  rr_keyPrefix :: string
  rr_maxTTL :: duration

definition NewRedisRevocations :: "'r \<Rightarrow> 'r RedisRevocations" where
  "NewRedisRevocations client = \<lparr>rr_client = client, rr_keyPrefix = ''parsec'', rr_maxTTL = 24 * hour\<rparr>"

definition rr_WithKeyPrefix :: "string \<Rightarrow> 'r RedisRevocations \<Rightarrow> 'r RedisRevocations" where
  "rr_WithKeyPrefix p s = s\<lparr>rr_keyPrefix := (if p = [] then ''parsec'' else p)\<rparr>"

definition rr_WithMaxTTL :: "duration \<Rightarrow> 'r RedisRevocations \<Rightarrow> 'r RedisRevocations" where
  "rr_WithMaxTTL d s = s\<lparr>rr_maxTTL := (if d \<le> 0 then 24 * hour else d)\<rparr>"

definition tokenKey :: "string \<Rightarrow> string \<Rightarrow> string" where
  "tokenKey prefix ident = prefix @ '':tb:revoked:'' @ ident"

definition userKey :: "string \<Rightarrow> string \<Rightarrow> string" where
  "userKey prefix uid = prefix @ '':tb:user_revoked_at:'' @ uid"

definition rr_Revoke ::
  "'r redis_kv \<Rightarrow> string \<Rightarrow> string \<Rightarrow> string \<Rightarrow> go_time \<Rightarrow> 'r RedisRevocations \<Rightarrow> go_error option \<times> 'r RedisRevocations" where
  "rr_Revoke rv tokenID userID reason now s =
     (if tokenID = [] then (Some (Plain ''tokenbroker: Revoke requires tokenID''), s)
      else
        let val = (if reason = [] then ''revoked'' else reason) in
        case rv_Set rv (tokenKey (rr_keyPrefix s) tokenID) val (rr_maxTTL s) now (rr_client s) of
          (Some _, c) \<Rightarrow> (Some (Plain ''redis SET revoked: %w''), s\<lparr>rr_client := c\<rparr>)
        | (None, c) \<Rightarrow> (None, s\<lparr>rr_client := c\<rparr>))"

definition rr_IsRevoked :: "'r redis_kv \<Rightarrow> string \<Rightarrow> go_time \<Rightarrow> 'r RedisRevocations \<Rightarrow> bool result" where
  "rr_IsRevoked rv tokenID now s =
     (if tokenID = [] then Ok False
      else case rv_Exists rv (tokenKey (rr_keyPrefix s) tokenID) now (rr_client s) of
        Err _ \<Rightarrow> Err (Plain ''redis EXISTS revoked: %w'')
      | Ok n \<Rightarrow> Ok (n > 0))"

definition rr_RevokeAllForUser ::
  "'r redis_kv \<Rightarrow> string \<Rightarrow> go_time \<Rightarrow> 'r RedisRevocations \<Rightarrow> go_error option \<times> 'r RedisRevocations" where
  "rr_RevokeAllForUser rv userID now s =
     (if userID = [] then (Some (Plain ''tokenbroker: RevokeAllForUser requires userID''), s)
      else
        let val = FormatInt (wrap64 now) in
        case rv_Set rv (userKey (rr_keyPrefix s) userID) val (rr_maxTTL s) now (rr_client s) of
          (Some _, c) \<Rightarrow> (Some (Plain ''redis SET user_revoked_at: %w''), s\<lparr>rr_client := c\<rparr>)
        | (None, c) \<Rightarrow> (None, s\<lparr>rr_client := c\<rparr>))"

definition rr_IsUserRevoked :: "'r redis_kv \<Rightarrow> string \<Rightarrow> go_time \<Rightarrow> go_time \<Rightarrow> 'r RedisRevocations \<Rightarrow> bool result" where
  "rr_IsUserRevoked rv userID issuedAt now s =
     (if userID = [] then Ok False
      else case rv_Get rv (userKey (rr_keyPrefix s) userID) now (rr_client s) of
        Err _ \<Rightarrow> Err (Plain ''redis GET user_revoked_at: %w'')
      | Ok None \<Rightarrow> Ok False
      | Ok (Some raw) \<Rightarrow>
          (case ParseInt raw of
             Err _ \<Rightarrow> Ok True
           | Ok cutoff \<Rightarrow> Ok (\<not> issuedAt > cutoff)))"

definition RedisRevocations_ops :: "'r redis_kv \<Rightarrow> 'r RedisRevocations revocation_ops" where
  "RedisRevocations_ops rv = \<lparr>vo_Revoke = rr_Revoke rv, vo_IsRevoked = rr_IsRevoked rv,
     vo_RevokeAllForUser = rr_RevokeAllForUser rv, vo_IsUserRevoked = rr_IsUserRevoked rv\<rparr>"

subsection \<open>Keys of different kinds never coincide\<close>

lemma jtiKey_eq [simp]: "jtiKey p a = jtiKey p b \<longleftrightarrow> a = b" by (simp add: jtiKey_def)
lemma fidKey_eq [simp]: "fidKey p a = fidKey p b \<longleftrightarrow> a = b" by (simp add: fidKey_def)
lemma tokenKey_eq [simp]: "tokenKey p a = tokenKey p b \<longleftrightarrow> a = b" by (simp add: tokenKey_def)
lemma userKey_eq [simp]: "userKey p a = userKey p b \<longleftrightarrow> a = b" by (simp add: userKey_def)
lemma jti_fid [simp]: "jtiKey p a \<noteq> fidKey p b" "fidKey p a \<noteq> jtiKey p b" by (simp_all add: jtiKey_def fidKey_def)
lemma token_user [simp]: "tokenKey p a \<noteq> userKey p b" "userKey p a \<noteq> tokenKey p b" by (simp_all add: tokenKey_def userKey_def)

subsection \<open>Runs\<close>

text \<open>
  The operations of the nodes that share a prefix \<open>p\<close>, in order, each at its time; \<open>ok\<close> restricts
  which families are revoked with which expiry.  A step may also change any other keys.
\<close>

inductive refresh_op :: "'r redis_kv \<Rightarrow> ('r \<Rightarrow> kv) \<Rightarrow> string \<Rightarrow> (string \<Rightarrow> go_time \<Rightarrow> bool) \<Rightarrow> go_time \<times> 'r \<Rightarrow> go_time \<times> 'r \<Rightarrow> bool"
  for rv view p ok where
  mark_redeemed: "t \<le> t' \<Longrightarrow>
    refresh_op rv view p ok (t, c) (t', rf_client (snd (rf_MarkRedeemed rv jti exp t' \<lparr>rf_client = c, rf_keyPrefix = p\<rparr>)))"
| revoke_family: "t \<le> t' \<Longrightarrow> ok fid exp \<Longrightarrow>
    refresh_op rv view p ok (t, c) (t', rf_client (snd (rf_RevokeFamily rv fid exp t' \<lparr>rf_client = c, rf_keyPrefix = p\<rparr>)))"
| other_keys: "t \<le> t' \<Longrightarrow> (\<And>x. view c' (jtiKey p x) = view c (jtiKey p x)) \<Longrightarrow> (\<And>x. view c' (fidKey p x) = view c (fidKey p x)) \<Longrightarrow>
    refresh_op rv view p ok (t, c) (t', c')"

inductive revoke_op :: "'r redis_kv \<Rightarrow> ('r \<Rightarrow> kv) \<Rightarrow> string \<Rightarrow> duration \<Rightarrow> go_time \<times> 'r \<Rightarrow> go_time \<times> 'r \<Rightarrow> bool"
  for rv view p ttl where
  revoke_token: "t \<le> t' \<Longrightarrow>
    revoke_op rv view p ttl (t, c) (t', rr_client (snd (rr_Revoke rv ident u why t' \<lparr>rr_client = c, rr_keyPrefix = p, rr_maxTTL = ttl\<rparr>)))"
| revoke_user: "t \<le> t' \<Longrightarrow> t' \<le> max_int64 \<Longrightarrow>
    revoke_op rv view p ttl (t, c) (t', rr_client (snd (rr_RevokeAllForUser rv u t' \<lparr>rr_client = c, rr_keyPrefix = p, rr_maxTTL = ttl\<rparr>)))"
| other_keys: "t \<le> t' \<Longrightarrow> (\<And>x. view c' (tokenKey p x) = view c (tokenKey p x)) \<Longrightarrow> (\<And>x. view c' (userKey p x) = view c (userKey p x)) \<Longrightarrow>
    revoke_op rv view p ttl (t, c) (t', c')"

lemma run_time:
  "(refresh_op rv view p ok)\<^sup>*\<^sup>* a b \<Longrightarrow> fst a \<le> fst b"
  "(revoke_op rv view p ttl)\<^sup>*\<^sup>* a b \<Longrightarrow> fst a \<le> fst b"
  by (induction rule: rtranclp_induct; auto elim!: refresh_op.cases revoke_op.cases)+

lemma rf_Mark_effect:
  assumes "kv_ok rv view" "rf_MarkRedeemed rv jti exp now s = (a, s')"
  shows "view (rf_client s') = view (rf_client s) \<or>
    0 < time_Sub exp now \<and> alive now (view (rf_client s)) (jtiKey (rf_keyPrefix s) jti) = None \<and>
    written (jtiKey (rf_keyPrefix s) jti) ''1'' (time_Sub exp now) now (view (rf_client s)) (view (rf_client s'))"
  using assms(2) kv_SetNX [OF assms(1), of "time_Sub exp now" "jtiKey (rf_keyPrefix s) jti" "''1''" now "rf_client s"]
  by (auto simp: rf_MarkRedeemed_def Let_def split: if_splits prod.splits sum.splits)

lemma rf_Revoke_effect:
  assumes "kv_ok rv view" "rf_RevokeFamily rv fid exp now s = (a, s')"
  shows "view (rf_client s') = view (rf_client s) \<and> (a \<noteq> None \<or> time_Sub exp now \<le> 0) \<or>
    0 < time_Sub exp now \<and>
    written (fidKey (rf_keyPrefix s) fid) ''1'' (time_Sub exp now) now (view (rf_client s)) (view (rf_client s'))"
  using assms(2) kv_Set [OF assms(1), of "time_Sub exp now" "fidKey (rf_keyPrefix s) fid" "''1''" now "rf_client s"]
  by (auto simp: rf_RevokeFamily_def Let_def split: if_splits prod.splits option.splits)

lemma lives_cong: "d' k = d k \<Longrightarrow> lives d' k t P \<longleftrightarrow> lives d k t P"
  by (simp add: lives_def)

lemma refresh_op_keeps_jti:
  assumes "kv_ok rv view" "refresh_op rv view p ok x y" "lives (view (snd x)) (jtiKey p jti) T P" "fst y < T"
  shows "lives (view (snd y)) (jtiKey p jti) T P"
  using assms(2-)
proof (cases rule: refresh_op.cases)
  case (mark_redeemed t t' c j exp)
  let ?s = "\<lparr>rf_client = c, rf_keyPrefix = p\<rparr>"
  obtain a s' where run: "rf_MarkRedeemed rv j exp t' ?s = (a, s')" by fastforce
  from rf_Mark_effect [OF assms(1) run] mark_redeemed run assms(3,4) show ?thesis
    using lives_alive [of "view c" "jtiKey p jti" T P t'] lives_other [of "jtiKey p j" "''1''" "time_Sub exp t'" t' "view c" _ "jtiKey p jti"]
    by (cases "j = jti") auto
next
  case (revoke_family t t' fid exp c)
  let ?s = "\<lparr>rf_client = c, rf_keyPrefix = p\<rparr>"
  obtain a s' where run: "rf_RevokeFamily rv fid exp t' ?s = (a, s')" by fastforce
  from rf_Revoke_effect [OF assms(1) run] revoke_family run assms(3) show ?thesis
    using lives_other [of "fidKey p fid" "''1''" "time_Sub exp t'" t' "view c" _ "jtiKey p jti"] by auto
next
  case (other_keys t t' c' c)
  then show ?thesis using assms(3) lives_cong [of "view c'" "jtiKey p jti" "view c"] by simp
qed

lemma refresh_op_keeps_fid:
  assumes "kv_ok rv view" "refresh_op rv view p (\<lambda>f e. f = fid \<longrightarrow> exp \<le> e) x y" "lives (view (snd x)) (fidKey p fid) T P"
    and "T \<le> exp - millisecond + 1" "exp \<le> fst x + max_int64" "P ''1''"
  shows "lives (view (snd y)) (fidKey p fid) T P"
  using assms(2-)
proof (cases rule: refresh_op.cases)
  case (mark_redeemed t t' c j exp')
  let ?s = "\<lparr>rf_client = c, rf_keyPrefix = p\<rparr>"
  obtain a s' where run: "rf_MarkRedeemed rv j exp' t' ?s = (a, s')" by fastforce
  from rf_Mark_effect [OF assms(1) run] mark_redeemed run assms(3) show ?thesis
    using lives_other [of "jtiKey p j" "''1''" "time_Sub exp' t'" t' "view c" _ "fidKey p fid"] by auto
next
  case (revoke_family t t' f exp' c)
  let ?s = "\<lparr>rf_client = c, rf_keyPrefix = p\<rparr>"
  obtain a s' where run: "rf_RevokeFamily rv f exp' t' ?s = (a, s')" by fastforce
  have long: "T \<le> t' + time_Sub exp' t' - millisecond + 1" if "f = fid"
    using that revoke_family assms(4,5) by (auto simp: time_Sub_def)
  from rf_Revoke_effect [OF assms(1) run] revoke_family run assms(3,6) long show ?thesis
    using lives_other [of "fidKey p f" "''1''" "time_Sub exp' t'" t' "view c" _ "fidKey p fid"]
      lives_written [of "fidKey p f" "''1''" "time_Sub exp' t'" t' "view c" _ P T] by (cases "f = fid") auto
next
  case (other_keys t t' c' c)
  then show ?thesis using assms(3) lives_cong [of "view c'" "fidKey p fid" "view c"] by simp
qed

lemma refresh_run_keeps_jti:
  assumes "kv_ok rv view" "(refresh_op rv view p ok)\<^sup>*\<^sup>* x y" "lives (view (snd x)) (jtiKey p jti) T P" "fst y < T"
  shows "lives (view (snd y)) (jtiKey p jti) T P"
  using assms(2-)
proof (induction rule: rtranclp_induct)
  case (step y z)
  moreover have "fst y \<le> fst z" using step.hyps(2) by (auto elim: refresh_op.cases)
  ultimately show ?case using refresh_op_keeps_jti [OF assms(1) step.hyps(2)] by simp
qed simp

lemma refresh_run_keeps_fid:
  assumes "kv_ok rv view" "(refresh_op rv view p (\<lambda>f e. f = fid \<longrightarrow> exp \<le> e))\<^sup>*\<^sup>* x y"
    and "lives (view (snd x)) (fidKey p fid) T P" "T \<le> exp - millisecond + 1" "exp \<le> fst x + max_int64" "P ''1''"
  shows "lives (view (snd y)) (fidKey p fid) T P"
  using assms(2-)
proof (induction rule: rtranclp_induct)
  case (step y z)
  then show ?case
    using refresh_op_keeps_fid [OF assms(1) step.hyps(2)] run_time(1) [OF step.hyps(1)] by simp
qed simp

text \<open>The same for the revocation list.\<close>

lemma rr_Revoke_effect:
  assumes "kv_ok rv view" "rr_Revoke rv ident u why now s = (a, s')" "0 \<le> rr_maxTTL s"
  shows "view (rr_client s') = view (rr_client s) \<and> a \<noteq> None \<or>
    (\<exists>v. written (tokenKey (rr_keyPrefix s) ident) v (rr_maxTTL s) now (view (rr_client s)) (view (rr_client s')))"
  using assms(2,3) kv_Set [OF assms(1), of "rr_maxTTL s" "tokenKey (rr_keyPrefix s) ident" "if why = [] then ''revoked'' else why" now "rr_client s"]
  by (auto simp: rr_Revoke_def Let_def split: if_splits prod.splits option.splits)

lemma rr_User_effect:
  assumes "kv_ok rv view" "rr_RevokeAllForUser rv u now s = (a, s')" "0 \<le> rr_maxTTL s"
  shows "view (rr_client s') = view (rr_client s) \<and> a \<noteq> None \<or>
    written (userKey (rr_keyPrefix s) u) (FormatInt (wrap64 now)) (rr_maxTTL s) now (view (rr_client s)) (view (rr_client s'))"
  using assms(2,3) kv_Set [OF assms(1), of "rr_maxTTL s" "userKey (rr_keyPrefix s) u" "FormatInt (wrap64 now)" now "rr_client s"]
  by (auto simp: rr_RevokeAllForUser_def Let_def split: if_splits prod.splits option.splits)

text \<open>What the store keeps of a revocation of a token, and of a user at \<open>at\<close>.\<close>

definition revoked_after :: "go_time \<Rightarrow> string \<Rightarrow> bool" where
  "revoked_after at v \<longleftrightarrow> (\<exists>n. ParseInt v = Ok n \<and> at \<le> n)"

lemma revoked_after_now: "at \<le> now \<Longrightarrow> min_int64 \<le> at \<Longrightarrow> now \<le> max_int64 \<Longrightarrow> revoked_after at (FormatInt (wrap64 now))"
  by (simp add: revoked_after_def wrap64_id ParseInt_Format)

lemma revoke_op_keeps:
  assumes "kv_ok rv view" "revoke_op rv view p ttl x y" "0 < ttl" "T \<le> fst x + ttl - millisecond + 1" "min_int64 \<le> at" "at \<le> fst x"
  shows "lives (view (snd x)) (tokenKey p ident) T (\<lambda>_. True) \<Longrightarrow> lives (view (snd y)) (tokenKey p ident) T (\<lambda>_. True)"
    and "lives (view (snd x)) (userKey p u) T (revoked_after at) \<Longrightarrow> lives (view (snd y)) (userKey p u) T (revoked_after at)"
proof -
  have "(lives (view (snd x)) (tokenKey p ident) T (\<lambda>_. True) \<longrightarrow> lives (view (snd y)) (tokenKey p ident) T (\<lambda>_. True)) \<and>
    (lives (view (snd x)) (userKey p u) T (revoked_after at) \<longrightarrow> lives (view (snd y)) (userKey p u) T (revoked_after at))"
    using assms(2)
  proof (cases rule: revoke_op.cases)
    case (revoke_token t t' c i w why)
    let ?s = "\<lparr>rr_client = c, rr_keyPrefix = p, rr_maxTTL = ttl\<rparr>"
    obtain a s' where run: "rr_Revoke rv i w why t' ?s = (a, s')" by fastforce
    from rr_Revoke_effect [OF assms(1) run] revoke_token run assms(3,4) show ?thesis
      using lives_other [of "tokenKey p i" _ ttl t' "view c"] lives_written [of "tokenKey p i" _ ttl t' "view c" _ _ T]
      by (cases "i = ident") auto
  next
    case (revoke_user t t' c w)
    let ?s = "\<lparr>rr_client = c, rr_keyPrefix = p, rr_maxTTL = ttl\<rparr>"
    obtain a s' where run: "rr_RevokeAllForUser rv w t' ?s = (a, s')" by fastforce
    have "revoked_after at (FormatInt (wrap64 t'))"
      using revoke_user assms(5,6) by (intro revoked_after_now) auto
    with rr_User_effect [OF assms(1) run] revoke_user run assms(3,4) show ?thesis
      using lives_other [of "userKey p w" _ ttl t' "view c"] lives_written [of "userKey p w" _ ttl t' "view c" _ _ T]
      by (cases "w = u") auto
  next
    case (other_keys t t' c' c)
    then show ?thesis
      using lives_cong [of "view c'" "tokenKey p ident" "view c"] lives_cong [of "view c'" "userKey p u" "view c"] by simp
  qed
  then show "lives (view (snd x)) (tokenKey p ident) T (\<lambda>_. True) \<Longrightarrow> lives (view (snd y)) (tokenKey p ident) T (\<lambda>_. True)"
    and "lives (view (snd x)) (userKey p u) T (revoked_after at) \<Longrightarrow> lives (view (snd y)) (userKey p u) T (revoked_after at)"
    by blast+
qed

lemma revoke_run_keeps:
  assumes "kv_ok rv view" "(revoke_op rv view p ttl)\<^sup>*\<^sup>* x y" "0 < ttl" "T \<le> fst x + ttl - millisecond + 1" "min_int64 \<le> at" "at \<le> fst x"
  shows "(lives (view (snd x)) (tokenKey p ident) T (\<lambda>_. True) \<longrightarrow> lives (view (snd y)) (tokenKey p ident) T (\<lambda>_. True)) \<and>
    (lives (view (snd x)) (userKey p u) T (revoked_after at) \<longrightarrow> lives (view (snd y)) (userKey p u) T (revoked_after at))"
  using assms(2)
proof (induction rule: rtranclp_induct)
  case (step y z)
  have "fst x \<le> fst y" using run_time(2) [OF step.hyps(1)] .
  with step assms(4-6) show ?case using revoke_op_keeps [OF assms(1) step.hyps(2) assms(3), of T at] by simp
qed simp

subsection \<open>Properties\<close>

text \<open>
  C22. A refresh token is redeemed at most once among all nodes that share a Redis: after a successful
  redemption at one of them, and any operations of any nodes on the shared store, whatever of them
  failed for their callers, no node redeems the same identifier again up to a millisecond before
  the token's expiry.
\<close>

theorem redis_redeemed_once:
  assumes "kv_ok rv view" and "now < exp" and "exp - now \<le> max_int64"
    and "rf_MarkRedeemed rv jti exp now s = (None, s1)"
    and "(refresh_op rv view (rf_keyPrefix s) (\<lambda>fid exp. True))\<^sup>*\<^sup>* (now, rf_client s1) (t, rf_client s2)"
    and "rf_keyPrefix s2 = rf_keyPrefix s" and "t \<le> now'" and "now' \<le> exp - millisecond" and "now' < exp'"
  shows "fst (rf_MarkRedeemed rv jti exp' now' s2) \<noteq> None"
proof -
  let ?k = "jtiKey (rf_keyPrefix s) jti" and ?T = "exp - millisecond + 1"
  have ttl: "time_Sub exp now = exp - now" using assms(2,3) by (intro time_Sub_exact) (simp_all add: go_simps)
  have "written ?k ''1'' (exp - now) now (view (rf_client s)) (view (rf_client s1))"
    using assms(2,4) kv_SetNX_Ok [OF assms(1), of "exp - now" ?k "''1''" now "rf_client s" True]
    by (auto simp: rf_MarkRedeemed_def Let_def ttl split: prod.splits sum.splits if_splits)
  moreover have "?T \<le> now + (exp - now) - millisecond + 1" "0 < exp - now" using assms(2) by linarith+
  ultimately have "lives (view (rf_client s1)) ?k ?T (\<lambda>_. True)" by (blast intro: lives_written)
  with refresh_run_keeps_jti [OF assms(1,5), of jti ?T "\<lambda>_. True"] assms(7,8)
  have "lives (view (rf_client s2)) ?k ?T (\<lambda>_. True)" by simp
  with assms(8) have "alive now' (view (rf_client s2)) ?k \<noteq> None" using lives_alive by fastforce
  moreover have "0 < time_Sub exp' now'" using assms(9) by (simp add: time_Sub_def go_simps)
  ultimately show ?thesis
    using kv_SetNX_Ok [OF assms(1), of "time_Sub exp' now'" ?k "''1''" now' "rf_client s2" True] assms(6)
    by (auto simp: rf_MarkRedeemed_def Let_def split: prod.splits sum.splits)
qed

theorem redis_redeemed_once_witness:
  "fst (rf_MarkRedeemed mem_kv ''j'' (5 * second) (2 * second)
     (snd (rf_RevokeFamily mem_kv ''f'' (4 * second) second
       (snd (rf_MarkRedeemed mem_kv ''j'' (5 * second) 0 (NewRedisRefreshStore [])))))) \<noteq> None"
proof -
  let ?s = "NewRedisRefreshStore [] :: (string, string \<times> go_time option) gomap RedisRefreshStore"
  let ?s1 = "snd (rf_MarkRedeemed mem_kv ''j'' (5 * second) 0 ?s)"
  let ?s2 = "snd (rf_RevokeFamily mem_kv ''f'' (4 * second) second ?s1)"
  have m: "rf_MarkRedeemed mem_kv ''j'' (5 * second) 0 ?s = (None, ?s1)"
    by (simp add: rf_MarkRedeemed_def mem_kv_def mem_alive_def alive_def NewRedisRefreshStore_def time_Sub_def go_simps)
  have p: "rf_keyPrefix ?s = ''parsec''" "rf_keyPrefix ?s1 = ''parsec''" "rf_keyPrefix ?s2 = ''parsec''"
    by (simp_all add: rf_MarkRedeemed_def rf_RevokeFamily_def mem_kv_def mem_alive_def alive_def NewRedisRefreshStore_def
        time_Sub_def go_simps)
  then have "?s1 = \<lparr>rf_client = rf_client ?s1, rf_keyPrefix = ''parsec''\<rparr>" by simp
  then have "refresh_op mem_kv map_of ''parsec'' (\<lambda>fid exp. True) (0, rf_client ?s1) (second, rf_client ?s2)"
    using refresh_op.revoke_family [of 0 second "\<lambda>fid exp. True" "''f''" "4 * second" mem_kv map_of "''parsec''" "rf_client ?s1"]
    by simp
  then have run: "(refresh_op mem_kv map_of (rf_keyPrefix ?s) (\<lambda>fid exp. True))\<^sup>*\<^sup>* (0, rf_client ?s1) (second, rf_client ?s2)"
    by (simp add: p)
  show ?thesis by (rule redis_redeemed_once [OF mem_kv_ok _ _ m run]) (use p in \<open>simp_all add: go_simps\<close>)
qed

text \<open>
  A revoked family stays revoked at every node as long as it is not revoked again with an earlier
  expiry.
\<close>

lemma redis_family_revoked:
  assumes "kv_ok rv view" and "now < exp" and "exp - now \<le> max_int64"
    and "rf_RevokeFamily rv fid exp now s = (None, s1)"
    and "(refresh_op rv view (rf_keyPrefix s) (\<lambda>f e. f = fid \<longrightarrow> exp \<le> e))\<^sup>*\<^sup>* (now, rf_client s1) (t, rf_client s2)"
    and "rf_keyPrefix s2 = rf_keyPrefix s" and "t \<le> now'" and "now' \<le> exp - millisecond"
  shows "fst (rf_IsFamilyRevoked rv fid now' s2) \<noteq> Ok False"
proof -
  let ?k = "fidKey (rf_keyPrefix s) fid" and ?T = "exp - millisecond + 1"
  have ttl: "time_Sub exp now = exp - now" using assms(2,3) by (intro time_Sub_exact) (simp_all add: go_simps)
  have "written ?k ''1'' (exp - now) now (view (rf_client s)) (view (rf_client s1))"
    using assms(2) rf_Revoke_effect [OF assms(1,4)] by (simp add: ttl)
  moreover have "?T \<le> now + (exp - now) - millisecond + 1" "0 < exp - now" using assms(2) by linarith+
  ultimately have "lives (view (rf_client s1)) ?k ?T (\<lambda>_. True)" by (blast intro: lives_written)
  with refresh_run_keeps_fid [OF assms(1,5), of ?T "\<lambda>_. True"] assms(3)
  have "lives (view (rf_client s2)) ?k ?T (\<lambda>_. True)" by simp
  with assms(8) have "alive now' (view (rf_client s2)) ?k \<noteq> None" using lives_alive by fastforce
  with assms(6) show ?thesis
    using kv_Exists [OF assms(1), of ?k now' "rf_client s2"] by (auto simp: rf_IsFamilyRevoked_def split: sum.splits)
qed

text \<open>
  Unlike the in-memory store, a later revocation with an earlier expiry shortens the first one:
  revoked until the tenth second, then until the third, the family is free again at the fourth.
\<close>

lemma redis_revocation_shortened:
  "let s1 = snd (rf_RevokeFamily mem_kv ''f'' (10 * second) 0 (NewRedisRefreshStore []));
       s2 = snd (rf_RevokeFamily mem_kv ''f'' (3 * second) second s1)
   in fst (rf_IsFamilyRevoked mem_kv ''f'' (4 * second) s1) = Ok True \<and>
      fst (rf_IsFamilyRevoked mem_kv ''f'' (4 * second) s2) = Ok False"
  by (simp add: rf_RevokeFamily_def rf_IsFamilyRevoked_def mem_kv_def mem_alive_def alive_def mem_expiry_def
      NewRedisRefreshStore_def time_Sub_def go_simps)

text \<open>
  C24. A revocation at one node stops the subscribes at every node: once the \<^verbatim>\<open>jti\<close> of a token, or its
  user, has been revoked through any node, and whatever operations of any nodes follow, no
  subscribe to a private channel with that token passes anywhere, up to a millisecond before the
  time the store keeps the revocation; a Redis that fails stops it as well.
\<close>

theorem redis_revoked_cannot_subscribe:
  assumes "kv_ok rv view" and "IsPrivate ch" and "verify_env env ring leeway token TypeAccess now2 = Ok c"
    and "0 < rr_maxTTL s" "min_int64 \<le> t" "t \<le> max_int64"
    and "cl_JTI c \<noteq> [] \<and> rr_Revoke rv (cl_JTI c) u why t s = (None, s1) \<or>
      cl_Sub c \<noteq> [] \<and> IssuedAt c \<le> t \<and> rr_RevokeAllForUser rv (cl_Sub c) t s = (None, s1)"
    and "(revoke_op rv view (rr_keyPrefix s) (rr_maxTTL s))\<^sup>*\<^sup>* (t, rr_client s1) (t', rr_client s2)"
    and "rr_keyPrefix s2 = rr_keyPrefix s" and "t' \<le> now2" and "now2 \<le> t + rr_maxTTL s - millisecond"
  shows "fst (SubscribeAuthorizer sops lops (RedisRevocations_ops rv) env ring leeway manager (Some s2) ctx now1 now2 userID ch token p) \<noteq> None"
proof -
  let ?T = "t + rr_maxTTL s - millisecond + 1" and ?p = "rr_keyPrefix s"
  have kept: "lives (view (rr_client s2)) k ?T P"
    if "lives (view (rr_client s1)) k ?T P" "k = tokenKey ?p (cl_JTI c) \<and> P = (\<lambda>_. True) \<or> k = userKey ?p (cl_Sub c) \<and> P = revoked_after t" for k P
    using that revoke_run_keeps [OF assms(1,8,4), of ?T t "cl_JTI c" "cl_Sub c"] assms(5) by auto
  have "check_revoked (RedisRevocations_ops rv) c now2 s2 \<noteq> None"
    using assms(7)
  proof
    assume asm: "cl_JTI c \<noteq> [] \<and> rr_Revoke rv (cl_JTI c) u why t s = (None, s1)"
    then obtain v where "written (tokenKey ?p (cl_JTI c)) v (rr_maxTTL s) t (view (rr_client s)) (view (rr_client s1))"
      using rr_Revoke_effect [OF assms(1), of "cl_JTI c" u why t s None s1] assms(4) by auto
    then have "lives (view (rr_client s1)) (tokenKey ?p (cl_JTI c)) ?T (\<lambda>_. True)"
      using assms(4) by (blast intro: lives_written)
    then have "alive now2 (view (rr_client s2)) (tokenKey ?p (cl_JTI c)) \<noteq> None"
      using kept lives_alive [of _ _ ?T _ now2] assms(11) by fastforce
    then have "rr_IsRevoked rv (cl_JTI c) now2 s2 \<noteq> Ok False"
      using kv_Exists [OF assms(1), of "tokenKey ?p (cl_JTI c)" now2 "rr_client s2"] asm assms(9)
      by (auto simp: rr_IsRevoked_def split: sum.splits)
    with asm show ?thesis by (simp add: check_revoked_None RedisRevocations_ops_def)
  next
    assume asm: "cl_Sub c \<noteq> [] \<and> IssuedAt c \<le> t \<and> rr_RevokeAllForUser rv (cl_Sub c) t s = (None, s1)"
    then have "written (userKey ?p (cl_Sub c)) (FormatInt (wrap64 t)) (rr_maxTTL s) t (view (rr_client s)) (view (rr_client s1))"
      using rr_User_effect [OF assms(1), of "cl_Sub c" t s None s1] assms(4) by auto
    then have "lives (view (rr_client s1)) (userKey ?p (cl_Sub c)) ?T (revoked_after t)"
      using assms(4-6) revoked_after_now [of t t] by (blast intro: lives_written)
    then have "lives (view (rr_client s2)) (userKey ?p (cl_Sub c)) ?T (revoked_after t)" by (rule kept) simp
    from lives_alive [OF this, of now2] assms(11)
    obtain v n where v: "alive now2 (view (rr_client s2)) (userKey ?p (cl_Sub c)) = Some v" "ParseInt v = Ok n" "t \<le> n"
      by (auto simp: revoked_after_def)
    then have "rr_IsUserRevoked rv (cl_Sub c) (IssuedAt c) now2 s2 \<noteq> Ok False"
      using kv_Get [OF assms(1), of "userKey ?p (cl_Sub c)" now2 "rr_client s2"] asm assms(9)
      by (auto simp: rr_IsUserRevoked_def split: sum.splits option.splits)
    with asm show ?thesis by (simp add: check_revoked_None RedisRevocations_ops_def)
  qed
  with assms(2,3) show ?thesis by (auto simp: SubscribeAuthorizer_None)
qed

theorem redis_revoked_cannot_subscribe_witness:
  "\<exists>token. verify_env sample_env one_key 0 token TypeAccess (200 * second) = Ok (pair_claims TypeAccess 400 (b64_encode ''aaa'') []) \<and>
     fst (SubscribeAuthorizer MemoryStore_ops MemoryLimiter_ops (RedisRevocations_ops mem_kv) sample_env one_key 0
       (snd (mgr_CreatePrivate MemoryStore_ops sample_private hour 0 NewManager))
       (Some (snd (rr_RevokeAllForUser mem_kv ''u'' (150 * second) (NewRedisRevocations [])))) None (200 * second) (200 * second)
       ''u'' sample_private token sample_limits) \<noteq> None"
proof -
  obtain tok where tok: "verify_env sample_env one_key 0 tok TypeAccess (200 * second) = Ok (pair_claims TypeAccess 400 (b64_encode ''aaa'') [])"
    by (rule sample_access_token)
  let ?c = "pair_claims TypeAccess 400 (b64_encode ''aaa'') []"
  let ?s = "NewRedisRevocations [] :: (string, string \<times> go_time option) gomap RedisRevocations"
  let ?r = "rr_RevokeAllForUser mem_kv ''u'' (150 * second) ?s"
  have "IsPrivate sample_private" by (simp add: IsPrivate_def sample_private_def go_simps)
  moreover have "0 < rr_maxTTL ?s" "200 * second \<le> 150 * second + rr_maxTTL ?s - millisecond" "rr_keyPrefix (snd ?r) = rr_keyPrefix ?s"
    by (simp_all add: NewRedisRevocations_def rr_RevokeAllForUser_def mem_kv_def)
  moreover have "cl_Sub ?c \<noteq> [] \<and> IssuedAt ?c \<le> 150 * second \<and> rr_RevokeAllForUser mem_kv (cl_Sub ?c) (150 * second) ?s = (None, snd ?r)"
    by (simp add: pair_claims_def IssuedAt_def rr_RevokeAllForUser_def mem_kv_def)
  moreover have "min_int64 \<le> 150 * second" "150 * second \<le> max_int64" "150 * second \<le> 200 * second" by (simp_all add: go_simps)
  ultimately show ?thesis
    using redis_revoked_cannot_subscribe [OF mem_kv_ok _ tok, of sample_private ?s "150 * second" "[]" "[]" "snd ?r" "150 * second" "snd ?r"] tok
    by blast
qed

end
