(* ===== verification/RedisLimiter.thy ===== *)
theory RedisLimiter
  imports RateLimit Encoding GoStrings
begin

text \<open>
  The rate limiter shared by all nodes on a Redis (\<^verbatim>\<open>src/ratelimit/redis.go\<close>).

  The Lua script is a function of the sorted-set commands it calls, \<open>zset_ops\<close>; what Redis
  documents of them is \<open>zset_ok\<close>, in terms of the members and scores a key has at a time, the
  expiry of the key taken into account.  Loading and running the script through the client is
  \<open>script_ops\<close>; \<open>script_ok\<close> says that a reply is that of the script run atomically, and that a call
  that failed may or may not have run it.  Times are in milliseconds, as in the script, whose
  numbers are exact below \<open>2 ^ 53\<close>.  The random nonce of a call is an argument.
\<close>

subsection \<open>The script\<close>

record 'z zset_ops =
  zo_REMRANGEBYSCORE :: "string \<Rightarrow> int \<Rightarrow> int \<Rightarrow> 'z \<Rightarrow> 'z"
  zo_CARD :: "string \<Rightarrow> int \<Rightarrow> 'z \<Rightarrow> int"
  zo_ADD :: "string \<Rightarrow> int \<Rightarrow> string \<Rightarrow> int \<Rightarrow> 'z \<Rightarrow> 'z"
  zo_PEXPIRE :: "string \<Rightarrow> int \<Rightarrow> int \<Rightarrow> 'z \<Rightarrow> 'z"
  zo_FIRST :: "string \<Rightarrow> int \<Rightarrow> 'z \<Rightarrow> (string \<times> int) option"

text \<open>The last argument before the state is the time of the script; the members are added in a loop.\<close>

definition nonce_member :: "string \<Rightarrow> int \<Rightarrow> string" where
  "nonce_member nonce i = nonce @ '':'' @ FormatInt i"

definition zadd_loop :: "'z zset_ops \<Rightarrow> string \<Rightarrow> int \<Rightarrow> string \<Rightarrow> int \<Rightarrow> 'z \<Rightarrow> 'z" where
  "zadd_loop zo k now_ms nonce n z = fold (\<lambda>i. zo_ADD zo k now_ms (nonce_member nonce i) now_ms) [1..n] z"

definition reset_from :: "int \<Rightarrow> int \<Rightarrow> (string \<times> int) option \<Rightarrow> int" where
  "reset_from window_ms now_ms oldest =
     (case oldest of
        None \<Rightarrow> window_ms
      | Some (m, score) \<Rightarrow>
          let age = now_ms - score; reset_ms = window_ms - age in if reset_ms < 0 then 0 else reset_ms)"

definition luaSlidingWindow ::
  "'z zset_ops \<Rightarrow> string \<Rightarrow> int \<Rightarrow> int \<Rightarrow> int \<Rightarrow> int \<Rightarrow> string \<Rightarrow> 'z \<Rightarrow> int list \<times> 'z" where
  "luaSlidingWindow zo k max_count window_ms now_ms n nonce z =
     (let cutoff = now_ms - window_ms;
          z = zo_REMRANGEBYSCORE zo k cutoff now_ms z;
          count = zo_CARD zo k now_ms z
      in if count + n \<le> max_count then
           let z = zadd_loop zo k now_ms nonce n z;
               z = zo_PEXPIRE zo k (window_ms + 10000) now_ms z;
               reset_ms = reset_from window_ms now_ms (zo_FIRST zo k now_ms z)
           in ([1, max_count - count - n, reset_ms], z)
         else ([0, 0, reset_from window_ms now_ms (zo_FIRST zo k now_ms z)], z))"

subsection \<open>The limiter\<close>

record script_args =
  sa_key :: string
  sa_max :: int
  sa_window :: int
  sa_now :: int
  sa_n :: int
  sa_nonce :: string

text \<open>A reply is a list of values of any type, \<open>None\<close> one that is no list.\<close>

datatype lua_val = LInt int | LOther string

record 'c script_ops =
  so_ScriptLoad :: "'c \<Rightarrow> string result \<times> 'c"
  so_EvalSha :: "string \<Rightarrow> script_args \<Rightarrow> 'c \<Rightarrow> lua_val list option result \<times> 'c"
  so_Eval :: "script_args \<Rightarrow> 'c \<Rightarrow> lua_val list option result \<times> 'c"

record 'c RedisLimiter =
  xl_client :: 'c
  xl_limit :: Limit
  xl_keyPrefix :: string
  xl_scriptOnce :: bool
  xl_scriptSHA :: string
  xl_scriptErr :: "go_error option"

definition NewRedisLimiter :: "'c \<Rightarrow> Limit \<Rightarrow> 'c RedisLimiter" where
  "NewRedisLimiter client limit =
     \<lparr>xl_client = client, xl_limit = limit_Normalize limit, xl_keyPrefix = ''parsec'', xl_scriptOnce = False,
      xl_scriptSHA = [], xl_scriptErr = None\<rparr>"

definition xl_WithKeyPrefix :: "string \<Rightarrow> 'c RedisLimiter \<Rightarrow> 'c RedisLimiter" where
  "xl_WithKeyPrefix p r = (if p \<noteq> [] then r\<lparr>xl_keyPrefix := p\<rparr> else r)"

definition splitBucketKey :: "string \<Rightarrow> string \<times> string" where
  "splitBucketKey key =
     (let idx = strings_IndexByte key CHR '':'' in
      if idx < 0 then (''default'', key) else (take (nat idx) key, drop (nat idx + 1) key))"

definition rl_fullKey :: "string \<Rightarrow> string \<Rightarrow> string" where
  "rl_fullKey prefix key = (let (bucket, subject) = splitBucketKey key in prefix @ '':rl:'' @ bucket @ '':'' @ subject)"

definition newNonce :: "bytes result \<Rightarrow> string result" where
  "newNonce rnd = map_sum id hex_encode rnd"

definition isNoScript :: "go_error \<Rightarrow> bool" where
  "isNoScript err \<longleftrightarrow> strings_Contains (to_lower (err_Error err)) ''noscript''"

fun lua_int :: "lua_val \<Rightarrow> int option" where
  "lua_int (LInt i) = Some i"
| "lua_int (LOther _) = None"

definition parseLuaResult :: "lua_val list option \<Rightarrow> int \<Rightarrow> Decision result" where
  "parseLuaResult raw windowMs =
     (case raw of
        Some [v0, v1, v2] \<Rightarrow>
          (case (lua_int v0, lua_int v1, lua_int v2) of
             (Some allowed, Some remaining, Some resetMs) \<Rightarrow>
               let reset = wrap64 (resetMs * 1000000);
                   reset = (if reset < 0 then 0 else reset);
                   reset = (if reset = 0 \<and> allowed = 0 then wrap64 (windowMs * 1000000) else reset)
               in Ok \<lparr>d_Allowed = (allowed = 1), d_Remaining = remaining, d_Reset = reset\<rparr>
           | _ \<Rightarrow> Err (Plain ''ratelimit: non-integer in redis reply''))
      | _ \<Rightarrow> Err (Plain ''ratelimit: unexpected redis reply shape''))"

text \<open>\<^verbatim>\<open>scriptOnce.Do\<close>, and the run of the script with its fallbacks.\<close>

definition load_once :: "'c script_ops \<Rightarrow> 'c RedisLimiter \<Rightarrow> 'c RedisLimiter" where
  "load_once sop r =
     (if xl_scriptOnce r then r
      else case so_ScriptLoad sop (xl_client r) of
        (Err loadErr, c) \<Rightarrow> r\<lparr>xl_client := c, xl_scriptOnce := True, xl_scriptErr := Some loadErr\<rparr>
      | (Ok sha, c) \<Rightarrow> r\<lparr>xl_client := c, xl_scriptOnce := True, xl_scriptSHA := sha\<rparr>)"

definition eval_script :: "'c script_ops \<Rightarrow> script_args \<Rightarrow> 'c RedisLimiter \<Rightarrow> lua_val list option result \<times> 'c RedisLimiter" where
  "eval_script sop args r =
     (if xl_scriptSHA r \<noteq> [] then
        (case so_EvalSha sop (xl_scriptSHA r) args (xl_client r) of
           (Ok raw, c) \<Rightarrow> (Ok raw, r\<lparr>xl_client := c\<rparr>)
         | (Err err, c) \<Rightarrow>
             if isNoScript err then
               (case so_ScriptLoad sop c of
                  (Err loadErr, c) \<Rightarrow> (Err loadErr, r\<lparr>xl_client := c\<rparr>)
                | (Ok sha, c) \<Rightarrow>
                    (case so_EvalSha sop sha args c of (raw, c) \<Rightarrow> (raw, r\<lparr>xl_client := c, xl_scriptSHA := sha\<rparr>)))
             else (Err err, r\<lparr>xl_client := c\<rparr>))
      else (case so_Eval sop args (xl_client r) of (raw, c) \<Rightarrow> (raw, r\<lparr>xl_client := c\<rparr>)))"

definition window_ms :: "Limit \<Rightarrow> int" where
  "window_ms lim = (let windowMs = l_Per lim div 1000000 in if windowMs \<le> 0 then 1000 else windowMs)"

definition xl_ceiling :: "Limit \<Rightarrow> int" where
  "xl_ceiling lim = (if l_Burst lim < l_Rate lim then l_Rate lim else l_Burst lim)"

definition xl_AllowWithLimit ::
  "'c script_ops \<Rightarrow> go_error option \<Rightarrow> bytes result \<Rightarrow> string \<Rightarrow> int \<Rightarrow> Limit \<Rightarrow> int \<Rightarrow> 'c RedisLimiter \<Rightarrow> Decision result \<times> 'c RedisLimiter" where
  "xl_AllowWithLimit sop ctx rnd key n lim now r =
     (case ctx of
        Some err \<Rightarrow> (Err err, r)
      | None \<Rightarrow>
          let lim = limit_Normalize lim in
          if Unlimited lim then (Ok AllowDecisionUnlimited, r)
          else
            let n = (if n \<le> 0 then 1 else n);
                fullKey = rl_fullKey (xl_keyPrefix r) key;
                windowMs = window_ms lim
            in case newNonce rnd of
                 Err err \<Rightarrow> (Err err, r)
               | Ok nonce \<Rightarrow>
                   let r = load_once sop r;
                       args = \<lparr>sa_key = fullKey, sa_max = xl_ceiling lim, sa_window = windowMs, sa_now = now, sa_n = n, sa_nonce = nonce\<rparr>
                   in case eval_script sop args r of
                        (Err err, r) \<Rightarrow> (Err err, r)
                      | (Ok raw, r) \<Rightarrow> (parseLuaResult raw windowMs, r))"

definition xl_Allow ::
  "'c script_ops \<Rightarrow> go_error option \<Rightarrow> bytes result \<Rightarrow> string \<Rightarrow> int \<Rightarrow> int \<Rightarrow> 'c RedisLimiter \<Rightarrow> Decision result \<times> 'c RedisLimiter" where
  "xl_Allow sop ctx rnd key n now r = xl_AllowWithLimit sop ctx rnd key n (xl_limit r) now r"

subsection \<open>What Redis documents\<close>

type_synonym zset = "string \<Rightarrow> int option"

definition score_above :: "int \<Rightarrow> zset \<Rightarrow> zset" where
  "score_above c m x = (case m x of Some s \<Rightarrow> if c < s then Some s else None | None \<Rightarrow> None)"

definition zset_ok :: "'z zset_ops \<Rightarrow> (int \<Rightarrow> 'z \<Rightarrow> string \<Rightarrow> zset) \<Rightarrow> bool" where
  "zset_ok zo live \<longleftrightarrow>
     (\<forall>T z k. finite (dom (live T z k))) \<and>
     (\<forall>k c T z T' k'. T \<le> T' \<longrightarrow> live T' (zo_REMRANGEBYSCORE zo k c T z) k' = (if k' = k then score_above c (live T' z k) else live T' z k')) \<and>
     (\<forall>k s m T z. live T (zo_ADD zo k s m T z) k = (live T z k)(m \<mapsto> s)) \<and>
     (\<forall>k s m T z T' k'. T \<le> T' \<longrightarrow> k' \<noteq> k \<longrightarrow> live T' (zo_ADD zo k s m T z) k' = live T' z k') \<and>
     (\<forall>k d T z T' k'. T \<le> T' \<longrightarrow> live T' (zo_PEXPIRE zo k d T z) k' =
        (if k' = k then if T' < T + d then live T z k else Map.empty else live T' z k')) \<and>
     (\<forall>k T z. zo_CARD zo k T z = int (card (dom (live T z k)))) \<and>
     (\<forall>k T z. case zo_FIRST zo k T z of None \<Rightarrow> live T z k = Map.empty
        | Some (m, s) \<Rightarrow> live T z k m = Some s \<and> (\<forall>m' s'. live T z k m' = Some s' \<longrightarrow> s \<le> s'))"

definition run_script :: "'z zset_ops \<Rightarrow> script_args \<Rightarrow> 'z \<Rightarrow> int list \<times> 'z" where
  "run_script zo a z = luaSlidingWindow zo (sa_key a) (sa_max a) (sa_window a) (sa_now a) (sa_n a) (sa_nonce a) z"

definition script_ran :: "'z zset_ops \<Rightarrow> script_args \<Rightarrow> 'z \<Rightarrow> lua_val list option result \<Rightarrow> 'z \<Rightarrow> bool" where
  "script_ran zo a z reply z' \<longleftrightarrow>
     (case reply of
        Ok raw \<Rightarrow> raw = Some (map LInt (fst (run_script zo a z))) \<and> z' = snd (run_script zo a z)
      | Err err \<Rightarrow> z' = z \<or> \<not> isNoScript err \<and> z' = snd (run_script zo a z))"

definition script_ok :: "'c script_ops \<Rightarrow> 'z zset_ops \<Rightarrow> ('c \<Rightarrow> 'z) \<Rightarrow> string \<Rightarrow> bool" where
  "script_ok sop zo db digest \<longleftrightarrow>
     (\<forall>c a c'. so_ScriptLoad sop c = (a, c') \<longrightarrow> db c' = db c \<and> (\<forall>sha. a = Ok sha \<longrightarrow> sha = digest)) \<and>
     (\<forall>args c a c'. so_EvalSha sop digest args c = (a, c') \<longrightarrow> script_ran zo args (db c) a (db c')) \<and>
     (\<forall>args c a c'. so_Eval sop args c = (a, c') \<longrightarrow> script_ran zo args (db c) a (db c'))"

subsection \<open>The script\<close>

lemma zset_okD:
  assumes "zset_ok zo live"
  shows "finite (dom (live T z k))"
    and "T \<le> T' \<Longrightarrow> live T' (zo_REMRANGEBYSCORE zo k c T z) k' = (if k' = k then score_above c (live T' z k) else live T' z k')"
    and "live T (zo_ADD zo k s m T z) k = (live T z k)(m \<mapsto> s)"
    and "T \<le> T' \<Longrightarrow> k' \<noteq> k \<Longrightarrow> live T' (zo_ADD zo k s m T z) k' = live T' z k'"
    and "T \<le> T' \<Longrightarrow> live T' (zo_PEXPIRE zo k d T z) k' = (if k' = k then if T' < T + d then live T z k else Map.empty else live T' z k')"
    and "zo_CARD zo k T z = int (card (dom (live T z k)))"
  using assms by (simp_all add: zset_ok_def)

definition new_members :: "string \<Rightarrow> int \<Rightarrow> int \<Rightarrow> zset" where
  "new_members nonce now n m = (if m \<in> nonce_member nonce ` {1..n} then Some now else None)"

lemma zadd_fold:
  assumes "zset_ok zo live"
  shows "live T (fold (\<lambda>i. zo_ADD zo k T (nonce_member nonce i) T) is z) k =
      (\<lambda>m. if m \<in> nonce_member nonce ` set is then Some T else live T z k m)"
    and "T \<le> T' \<Longrightarrow> k' \<noteq> k \<Longrightarrow> live T' (fold (\<lambda>i. zo_ADD zo k T (nonce_member nonce i) T) is z) k' = live T' z k'"
  by (induction "is" arbitrary: z) (auto simp: zset_okD [OF assms] fun_eq_iff)

lemma zadd_loop_eq:
  assumes "zset_ok zo live"
  shows "live T (zadd_loop zo k T nonce n z) k = live T z k ++ new_members nonce T n"
    and "T \<le> T' \<Longrightarrow> k' \<noteq> k \<Longrightarrow> live T' (zadd_loop zo k T nonce n z) k' = live T' z k'"
  using zadd_fold [OF assms]
  by (auto simp: zadd_loop_def new_members_def fun_eq_iff map_add_def)

text \<open>What the script answers and leaves behind, at any time from now on.\<close>

lemma lua_effect:
  assumes ok: "zset_ok zo live" and run: "luaSlidingWindow zo k mx w now n nonce z = (rep, z')"
  defines "m \<equiv> score_above (now - w) (live now z k)"
  shows "(\<exists>rest. rep = 1 # rest \<and> length rest = 2 \<and> int (card (dom m)) + n \<le> mx \<and>
      (\<forall>T' \<ge> now. live T' z' k = (if T' < now + (w + 10000) then m ++ new_members nonce now n else Map.empty))) \<or>
    (\<exists>rest. rep = 0 # rest \<and> length rest = 2 \<and> (\<forall>T' \<ge> now. live T' z' k = score_above (now - w) (live T' z k)))"
    and "T' \<ge> now \<Longrightarrow> k' \<noteq> k \<Longrightarrow> live T' z' k' = live T' z k'"
proof -
  show "(\<exists>rest. rep = 1 # rest \<and> length rest = 2 \<and> int (card (dom m)) + n \<le> mx \<and>
      (\<forall>T' \<ge> now. live T' z' k = (if T' < now + (w + 10000) then m ++ new_members nonce now n else Map.empty))) \<or>
    (\<exists>rest. rep = 0 # rest \<and> length rest = 2 \<and> (\<forall>T' \<ge> now. live T' z' k = score_above (now - w) (live T' z k)))"
    using run by (auto simp: luaSlidingWindow_def Let_def zset_okD [OF ok] m_def zadd_loop_eq [OF ok] split: if_splits)
  show "T' \<ge> now \<Longrightarrow> k' \<noteq> k \<Longrightarrow> live T' z' k' = live T' z k'"
    using run by (auto simp: luaSlidingWindow_def Let_def zset_okD [OF ok] zadd_loop_eq [OF ok] split: if_splits)
qed

subsection \<open>All nodes together\<close>

text \<open>
  Any number of nodes share a Redis: call \<open>i\<close> goes to node \<open>sched i\<close> and draws the nonce \<open>rnd i\<close>.
  The time of the last call is kept for the statement of the invariant.
\<close>

record 'c fleet =
  fl_client :: 'c
  fl_nodes :: "nat \<Rightarrow> 'c RedisLimiter"
  fl_calls :: nat
  fl_now :: int

definition new_fleet :: "string \<Rightarrow> Limit \<Rightarrow> 'c \<Rightarrow> int \<Rightarrow> 'c fleet" where
  "new_fleet prefix lim c now =
     \<lparr>fl_client = c, fl_nodes = (\<lambda>_. xl_WithKeyPrefix prefix (NewRedisLimiter c lim)), fl_calls = 0, fl_now = now\<rparr>"

definition fleet_call :: "'c script_ops \<Rightarrow> (nat \<Rightarrow> nat) \<Rightarrow> (nat \<Rightarrow> bytes result) \<Rightarrow> call \<Rightarrow> 'c fleet \<Rightarrow> bool \<times> 'c fleet" where
  "fleet_call sop sched rnd q f =
     (let i = fl_calls f;
          (d, r) = xl_Allow sop None (rnd i) (q_key q) (q_n q) (q_now q) ((fl_nodes f (sched i))\<lparr>xl_client := fl_client f\<rparr>)
      in (case d of Ok d \<Rightarrow> d_Allowed d | Err _ \<Rightarrow> False,
          \<lparr>fl_client = xl_client r, fl_nodes = (fl_nodes f)(sched i := r), fl_calls = Suc i, fl_now = q_now q\<rparr>))"

text \<open>The scores of a sorted set.\<close>

definition scores :: "zset \<Rightarrow> int multiset" where
  "scores m = image_mset (\<lambda>x. the (m x)) (mset_set (dom m))"

lemma size_scores: "size (scores m) = card (dom m)"
  by (simp add: scores_def)

lemma scores_filter: "finite (dom m) \<Longrightarrow> filter_mset P (scores m) = image_mset (\<lambda>x. the (m x)) (mset_set {x \<in> dom m. P (the (m x))})"
  unfolding scores_def by (simp add: filter_mset_image_mset filter_mset_mset_set)

lemma scores_filter_mono:
  assumes "finite (dom m)" "finite (dom m')" "\<And>x s. m x = Some s \<Longrightarrow> P s \<Longrightarrow> m' x = Some s"
  shows "filter_mset P (scores m) \<subseteq># filter_mset P (scores m')"
proof -
  have "{x \<in> dom m. P (the (m x))} \<subseteq> {x \<in> dom m'. P (the (m' x))}" using assms(3) by fastforce
  then have "mset_set {x \<in> dom m. P (the (m x))} \<subseteq># mset_set {x \<in> dom m'. P (the (m' x))}"
    using assms(2) by (intro subset_imp_msubset_mset_set) auto
  moreover have "image_mset (\<lambda>x. the (m x)) (mset_set {x \<in> dom m. P (the (m x))}) =
      image_mset (\<lambda>x. the (m' x)) (mset_set {x \<in> dom m. P (the (m x))})"
    using assms(1) assms(3) by (intro image_mset_cong) fastforce
  ultimately show ?thesis using assms(1,2) by (simp add: scores_filter image_mset_subseteq_mono)
qed

lemma nonce_member_eq:
  "CHR '':'' \<notin> set a \<Longrightarrow> CHR '':'' \<notin> set b \<Longrightarrow> 0 < i \<Longrightarrow> 0 < j \<Longrightarrow> nonce_member a i = nonce_member b j \<longleftrightarrow> a = b \<and> i = j"
proof
  assume asm: "CHR '':'' \<notin> set a" "CHR '':'' \<notin> set b" "0 < i" "0 < j" "nonce_member a i = nonce_member b j"
  from asm(5) have "strings_Split CHR '':'' (a @ CHR '':'' # FormatInt i) = strings_Split CHR '':'' (b @ CHR '':'' # FormatInt j)"
    by (simp add: nonce_member_def)
  with asm(1,2) have "a = b" by (simp add: strings_Split_prefix)
  with asm show "a = b \<and> i = j" by (auto simp: nonce_member_def FormatInt_def split: if_splits)
qed auto

lemma hex_no_colon: "CHR '':'' \<notin> set (hex_encode b)"
  using hex_encode_digits [of "CHR '':''" b] by (auto simp: hex_val_def)

lemma scores_add:
  assumes "finite (dom m)" "dom m \<inter> dom (new_members nonce now n) = {}" "CHR '':'' \<notin> set nonce" "0 \<le> n"
  shows "scores (m ++ new_members nonce now n) = scores m + replicate_mset (nat n) now"
proof -
  let ?N = "nonce_member nonce ` {1..n}"
  have N: "dom (new_members nonce now n) = ?N" by (auto simp: new_members_def split: if_splits)
  have card: "card ?N = nat n"
    using assms(3,4) by (subst card_image) (auto simp: inj_on_def nonce_member_eq)
  have "scores (m ++ new_members nonce now n) =
      image_mset (\<lambda>x. the ((m ++ new_members nonce now n) x)) (mset_set (dom m)) +
      image_mset (\<lambda>x. the ((m ++ new_members nonce now n) x)) (mset_set ?N)"
    using assms(1,2) by (simp add: scores_def N Un_commute mset_set_Union Int_commute)
  moreover have "image_mset (\<lambda>x. the ((m ++ new_members nonce now n) x)) (mset_set (dom m)) = scores m"
    unfolding scores_def using assms(1,2) N
    by (intro image_mset_cong) (auto simp: map_add_def new_members_def split: option.splits if_splits)
  moreover have "image_mset (\<lambda>x. the ((m ++ new_members nonce now n) x)) (mset_set ?N) = image_mset (\<lambda>x. now) (mset_set ?N)"
    by (intro image_mset_cong) (auto simp: map_add_def new_members_def)
  ultimately show ?thesis by (simp add: card image_mset_const_eq)
qed

text \<open>What a call does to the database.\<close>

definition node_ok :: "string \<Rightarrow> 'c RedisLimiter \<Rightarrow> bool" where
  "node_ok digest r \<longleftrightarrow> xl_scriptSHA r = [] \<or> xl_scriptSHA r = digest"

lemma load_once_effect:
  assumes "script_ok sop zo db digest" "node_ok digest r"
  shows "db (xl_client (load_once sop r)) = db (xl_client r)" "node_ok digest (load_once sop r)"
    "xl_limit (load_once sop r) = xl_limit r" "xl_keyPrefix (load_once sop r) = xl_keyPrefix r"
  using assms by (auto simp: load_once_def script_ok_def node_ok_def split: prod.split sum.split)

lemma eval_script_effect:
  assumes "script_ok sop zo db digest" "node_ok digest r" "eval_script sop args r = (a, r')"
  shows "node_ok digest r'" "xl_limit r' = xl_limit r" "xl_keyPrefix r' = xl_keyPrefix r"
    and "isl a \<and> db (xl_client r') = db (xl_client r) \<or>
      db (xl_client r') = snd (run_script zo args (db (xl_client r))) \<and>
      (\<forall>raw. a = Ok raw \<longrightarrow> raw = Some (map LInt (fst (run_script zo args (db (xl_client r))))))"
proof -
  have sha: "so_EvalSha sop digest args c = (x, c') \<Longrightarrow> script_ran zo args (db c) x (db c')"
    and eval: "so_Eval sop args c = (x, c') \<Longrightarrow> script_ran zo args (db c) x (db c')"
    and load: "so_ScriptLoad sop c = (y, c') \<Longrightarrow> db c' = db c \<and> (\<forall>sha. y = Ok sha \<longrightarrow> sha = digest)" for c x y c'
    using assms(1) by (auto simp: script_ok_def)
  have ran: "isl a \<and> db (xl_client r') = db (xl_client r) \<or>
      db (xl_client r') = snd (run_script zo args (db (xl_client r))) \<and>
      (\<forall>raw. a = Ok raw \<longrightarrow> raw = Some (map LInt (fst (run_script zo args (db (xl_client r))))))"
    if "script_ran zo args (db (xl_client r)) a (db (xl_client r'))"
    using that by (auto simp: script_ran_def split: sum.splits)
  have "node_ok digest r' \<and> xl_limit r' = xl_limit r \<and> xl_keyPrefix r' = xl_keyPrefix r \<and>
    (script_ran zo args (db (xl_client r)) a (db (xl_client r')) \<or> isl a \<and> db (xl_client r') = db (xl_client r))"
  proof (cases "xl_scriptSHA r = []")
    case True
    then show ?thesis using assms(2,3) by (auto simp: eval_script_def node_ok_def dest: eval split: prod.splits)
  next
    case False
    then have d: "xl_scriptSHA r = digest" using assms(2) by (simp add: node_ok_def)
    obtain x c where x: "so_EvalSha sop digest args (xl_client r) = (x, c)" by fastforce
    show ?thesis
    proof (cases "\<exists>err. x = Err err \<and> isNoScript err")
      case False
      then show ?thesis using assms(3) \<open>xl_scriptSHA r \<noteq> []\<close> x sha [OF x]
        by (cases x) (auto simp: eval_script_def d node_ok_def)
    next
      case True
      then have same: "db c = db (xl_client r)" using sha [OF x] by (auto simp: script_ran_def)
      obtain y c' where y: "so_ScriptLoad sop c = (y, c')" by fastforce
      show ?thesis
        using assms(3) \<open>xl_scriptSHA r \<noteq> []\<close> True x y same load [OF y] sha [of c' a]
        by (cases y) (auto simp: eval_script_def d node_ok_def split: prod.splits)
    qed
  qed
  with ran show "node_ok digest r'" "xl_limit r' = xl_limit r" "xl_keyPrefix r' = xl_keyPrefix r"
    and "isl a \<and> db (xl_client r') = db (xl_client r) \<or>
      db (xl_client r') = snd (run_script zo args (db (xl_client r))) \<and>
      (\<forall>raw. a = Ok raw \<longrightarrow> raw = Some (map LInt (fst (run_script zo args (db (xl_client r))))))"
    by blast+
qed

lemma xl_AllowWithLimit_effect:
  assumes "script_ok sop zo db digest" "node_ok digest r" "limit_Normalize lim = lim" "0 < l_Rate lim" "0 < n"
    and "xl_AllowWithLimit sop None rnd key n lim now r = (d, r')"
  shows "node_ok digest r' \<and> xl_limit r' = xl_limit r \<and> xl_keyPrefix r' = xl_keyPrefix r \<and>
    (isl d \<and> db (xl_client r') = db (xl_client r) \<or>
      (\<exists>b rep z. rnd = Ok b \<and> luaSlidingWindow zo (rl_fullKey (xl_keyPrefix r) key) (l_Burst lim) (window_ms lim) now n (hex_encode b)
          (db (xl_client r)) = (rep, z) \<and> db (xl_client r') = z \<and>
        (isl d \<or> d = parseLuaResult (Some (map LInt rep)) (window_ms lim))))"
proof -
  have lim: "\<not> Unlimited lim" "xl_ceiling lim = l_Burst lim"
    using assms(3,4) Normalize_fields(2) [of lim] by (auto simp: Unlimited_def xl_ceiling_def)
  show ?thesis
  proof (cases rnd)
    case (Inl e)
    then show ?thesis using assms(2,6) lim by (auto simp: xl_AllowWithLimit_def Let_def assms(3) newNonce_def)
  next
    case (Inr b)
    let ?args = "\<lparr>sa_key = rl_fullKey (xl_keyPrefix r) key, sa_max = l_Burst lim, sa_window = window_ms lim, sa_now = now, sa_n = n,
      sa_nonce = hex_encode b\<rparr>"
    note load = load_once_effect [OF assms(1,2)]
    obtain a r2 where e: "eval_script sop ?args (load_once sop r) = (a, r2)" by fastforce
    note eff = eval_script_effect [OF assms(1) load(2) e]
    have "d = (case a of Err e \<Rightarrow> Err e | Ok raw \<Rightarrow> parseLuaResult raw (window_ms lim))" "r' = r2"
      using assms(5,6) lim Inr e by (auto simp: xl_AllowWithLimit_def Let_def assms(3) newNonce_def split: sum.splits)
    moreover obtain rep z where "luaSlidingWindow zo (rl_fullKey (xl_keyPrefix r) key) (l_Burst lim) (window_ms lim) now n (hex_encode b)
        (db (xl_client r)) = (rep, z)" by fastforce
    ultimately show ?thesis using eff(1-3) eff(4) Inr load
      by (auto simp: run_script_def split: sum.splits)
  qed
qed

text \<open>
  The invariant of a key: its members come from the nonces used so far and are not in the future;
  letting time pass only removes members, and none that the window still covers.
\<close>

definition used_members :: "(nat \<Rightarrow> bytes result) \<Rightarrow> nat \<Rightarrow> string set" where
  "used_members rnd used = {nonce_member (hex_encode b) i | j b i. j < used \<and> rnd j = Ok b \<and> 0 < i}"

definition key_inv :: "(int \<Rightarrow> zset) \<Rightarrow> (nat \<Rightarrow> bytes result) \<Rightarrow> int \<Rightarrow> nat \<Rightarrow> int \<Rightarrow> bool" where
  "key_inv m rnd w used t \<longleftrightarrow>
     (\<forall>T T' x s. t \<le> T \<longrightarrow> T \<le> T' \<longrightarrow> m T' x = Some s \<longrightarrow> m T x = Some s) \<and>
     (\<forall>T T' x s. t \<le> T \<longrightarrow> T \<le> T' \<longrightarrow> m T x = Some s \<longrightarrow> T' - w < s \<longrightarrow> m T' x = Some s) \<and>
     (\<forall>x s. m t x = Some s \<longrightarrow> s \<le> t \<and> x \<in> used_members rnd used)"

lemma used_members_mono: "x \<in> used_members rnd used \<Longrightarrow> x \<in> used_members rnd (Suc used)"
  by (auto simp: used_members_def intro: less_SucI)

lemma key_invI:
  assumes "\<And>T T' x s. t \<le> T \<Longrightarrow> T \<le> T' \<Longrightarrow> m T' x = Some s \<Longrightarrow> m T x = Some s"
    and "\<And>T T' x s. t \<le> T \<Longrightarrow> T \<le> T' \<Longrightarrow> m T x = Some s \<Longrightarrow> T' - w < s \<Longrightarrow> m T' x = Some s"
    and "\<And>x s. m t x = Some s \<Longrightarrow> s \<le> t \<and> x \<in> used_members rnd used"
  shows "key_inv m rnd w used t"
  unfolding key_inv_def using assms by blast

lemma key_invD:
  assumes "key_inv m rnd w used t"
  shows "t \<le> T \<Longrightarrow> T \<le> T' \<Longrightarrow> m T' x = Some s \<Longrightarrow> m T x = Some s"
    and "t \<le> T \<Longrightarrow> T \<le> T' \<Longrightarrow> m T x = Some s \<Longrightarrow> T' - w < s \<Longrightarrow> m T' x = Some s"
    and "m t x = Some s \<Longrightarrow> s \<le> t \<and> x \<in> used_members rnd used"
  using assms unfolding key_inv_def by blast+

lemma key_inv_later:
  assumes "key_inv m rnd w used t" "t \<le> now"
  shows "key_inv m rnd w used now"
proof (rule key_invI)
  fix x s assume "m now x = Some s"
  then have "m t x = Some s" using key_invD(1) [OF assms(1), of t now] assms(2) by simp
  then show "s \<le> now \<and> x \<in> used_members rnd used" using key_invD(3) [OF assms(1)] assms(2) by fastforce
qed (use key_invD [OF assms(1)] assms(2) in \<open>meson order.trans\<close>)+

lemma key_inv_Suc: "key_inv m rnd w used t \<Longrightarrow> key_inv m rnd w (Suc used) t"
  by (rule key_invI) (auto dest: key_invD used_members_mono)

lemma score_above_Some: "score_above c m x = Some s \<longleftrightarrow> m x = Some s \<and> c < s"
  by (auto simp: score_above_def split: option.splits)

lemma key_inv_filter:
  assumes "key_inv m rnd w used now" "\<And>T x s. now \<le> T \<Longrightarrow> m' T x = Some s \<longleftrightarrow> m T x = Some s \<and> P s"
  shows "key_inv m' rnd w used now"
proof (rule key_invI)
  fix T T' x s assume t: "now \<le> T" "T \<le> T'"
  then have t': "now \<le> T'" by simp
  show "m' T' x = Some s \<Longrightarrow> m' T x = Some s"
    using key_invD(1) [OF assms(1) t, of x s] unfolding assms(2) [OF t(1)] assms(2) [OF t'] by blast
  assume "m' T x = Some s" "T' - w < s"
  then show "m' T' x = Some s"
    using key_invD(2) [OF assms(1) t, of x s] unfolding assms(2) [OF t(1)] assms(2) [OF t'] by blast
next
  fix x s assume "m' now x = Some s"
  then show "s \<le> now \<and> x \<in> used_members rnd used"
    using key_invD(3) [OF assms(1), of x s] unfolding assms(2) [OF order.refl] by blast
qed

lemma key_inv_allowed:
  assumes "key_inv m rnd w used now" "rnd used = Ok b" "0 < w"
    and "\<forall>T' \<ge> now. m' T' = (if T' < now + (w + 10000) then score_above c (m now) ++ new_members (hex_encode b) now n else Map.empty)"
  shows "key_inv m' rnd w (Suc used) now"
proof -
  let ?n = "score_above c (m now) ++ new_members (hex_encode b) now n"
  have le: "s \<le> now \<and> x \<in> used_members rnd (Suc used)" if asm: "?n x = Some s" for x s
  proof (cases "x \<in> nonce_member (hex_encode b) ` {1..n}")
    case True
    then have "x \<in> used_members rnd (Suc used)" using assms(2) by (force simp: used_members_def)
    moreover have "s = now" using True asm by (simp add: map_add_def new_members_def)
    ultimately show ?thesis by simp
  next
    case False
    then have "m now x = Some s" using asm by (simp add: map_add_def new_members_def score_above_Some)
    then show ?thesis using key_invD(3) [OF assms(1)] used_members_mono by blast
  qed
  have m': "m' T x = Some s \<longleftrightarrow> T < now + (w + 10000) \<and> ?n x = Some s" if "now \<le> T" for T x s
    using assms(4) that by simp
  show ?thesis
  proof (rule key_invI)
    fix T T' x s assume t: "now \<le> T" "T \<le> T'"
    show "m' T' x = Some s \<Longrightarrow> m' T x = Some s" using m' [of T] m' [of T'] t by auto
    assume "m' T x = Some s" "T' - w < s"
    moreover from this have "s \<le> now" using m' [of T] t le by blast
    ultimately show "m' T' x = Some s" using m' [of T] m' [of T'] t by auto
  next
    fix x s assume "m' now x = Some s"
    from conjunct2 [OF m' [OF order.refl, THEN iffD1, OF this]]
    show "s \<le> now \<and> x \<in> used_members rnd (Suc used)" by (rule le)
  qed
qed

text \<open>The script keeps the invariant of every key, and of its own key what the window covers.\<close>

lemma lua_key_inv:
  assumes "zset_ok zo live" "luaSlidingWindow zo k mx w now n (hex_encode b) z = (rep, z')" "0 < w" "rnd used = Ok b"
    and "key_inv (\<lambda>T. live T z k') rnd w used now"
  shows "key_inv (\<lambda>T. live T z' k') rnd w (Suc used) now"
proof (cases "k' = k")
  case True
  from lua_effect(1) [OF assms(1,2)] show ?thesis
  proof (elim disjE exE conjE)
    assume "\<forall>T' \<ge> now. live T' z' k = (if T' < now + (w + 10000)
      then score_above (now - w) (live now z k) ++ new_members (hex_encode b) now n else Map.empty)"
    then show ?thesis using key_inv_allowed [OF assms(5,4,3), of "\<lambda>T. live T z' k"] unfolding True by blast
  next
    assume "\<forall>T' \<ge> now. live T' z' k = score_above (now - w) (live T' z k)"
    then have "key_inv (\<lambda>T. live T z' k') rnd w used now"
      by (intro key_inv_filter [OF assms(5), of _ "\<lambda>s. now - w < s"]) (simp add: True score_above_Some)
    then show ?thesis by (rule key_inv_Suc)
  qed
next
  case False
  have "key_inv (\<lambda>T. live T z' k') rnd w used now"
    by (intro key_inv_filter [OF assms(5), of _ "\<lambda>s. True"]) (simp add: lua_effect(2) [OF assms(1,2) _ False])
  then show ?thesis by (rule key_inv_Suc)
qed

lemma lua_keeps:
  assumes "zset_ok zo live" "luaSlidingWindow zo k mx w now n nonce z = (rep, z')" "0 < w" "fresh \<inter> dom (new_members nonce now n) = {}"
    and "live now z k' x = Some s" "now - w < s" "x \<in> fresh"
  shows "live now z' k' x = Some s"
proof (cases "k' = k")
  case True
  have "new_members nonce now n x = None" using assms(4,7) by auto
  then show ?thesis using lua_effect(1) [OF assms(1,2)] assms(3,5,6) True
    by (auto simp: map_add_def score_above_Some)
next
  case False
  then show ?thesis using lua_effect(2) [OF assms(1,2)] assms(5) by simp
qed

definition fleet_inv ::
  "(int \<Rightarrow> 'z \<Rightarrow> string \<Rightarrow> zset) \<Rightarrow> ('c \<Rightarrow> 'z) \<Rightarrow> string \<Rightarrow> (nat \<Rightarrow> bytes result) \<Rightarrow> string \<Rightarrow> Limit \<Rightarrow> int \<Rightarrow> 'c fleet \<Rightarrow> bool" where
  "fleet_inv live db digest rnd p lim t f \<longleftrightarrow> fl_now f = t \<and>
     (\<forall>j. xl_limit (fl_nodes f j) = lim \<and> xl_keyPrefix (fl_nodes f j) = p \<and> node_ok digest (fl_nodes f j)) \<and>
     (\<forall>k. key_inv (\<lambda>T. live T (db (fl_client f)) (rl_fullKey p k)) rnd (window_ms lim) (fl_calls f) t)"

definition fleet_events :: "(int \<Rightarrow> 'z \<Rightarrow> string \<Rightarrow> zset) \<Rightarrow> ('c \<Rightarrow> 'z) \<Rightarrow> string \<Rightarrow> 'c fleet \<Rightarrow> string \<Rightarrow> int multiset" where
  "fleet_events live db p f k = scores (live (fl_now f) (db (fl_client f)) (rl_fullKey p k))"

lemma window_ms_pos: "0 < window_ms lim"
  by (simp add: window_ms_def Let_def)

text \<open>A call, in terms of what it does to the database.\<close>

lemma fleet_call_effect:
  assumes ok: "script_ok sop zo db digest" and lim: "limit_Normalize lim = lim" "0 < l_Rate lim"
    and inv: "fleet_inv live db digest rnd p lim t f" and n: "0 < q_n q"
  obtains (unchanged) "db (fl_client (snd (fleet_call sop sched rnd q f))) = db (fl_client f)" "\<not> fst (fleet_call sop sched rnd q f)"
  | (ran) b rep where "rnd (fl_calls f) = Ok b"
      "luaSlidingWindow zo (rl_fullKey p (q_key q)) (l_Burst lim) (window_ms lim) (q_now q) (q_n q) (hex_encode b) (db (fl_client f)) =
        (rep, db (fl_client (snd (fleet_call sop sched rnd q f))))"
      "fst (fleet_call sop sched rnd q f) \<longrightarrow> hd rep = 1"
proof -
  let ?i = "fl_calls f"
  let ?r = "(fl_nodes f (sched ?i))\<lparr>xl_client := fl_client f\<rparr>"
  obtain d r where run: "xl_AllowWithLimit sop None (rnd ?i) (q_key q) (q_n q) lim (q_now q) ?r = (d, r)" by fastforce
  have r: "node_ok digest ?r" "xl_limit ?r = lim" "xl_keyPrefix ?r = p" using inv by (auto simp: fleet_inv_def node_ok_def)
  have call: "fl_client (snd (fleet_call sop sched rnd q f)) = xl_client r"
    "fst (fleet_call sop sched rnd q f) = (case d of Ok d \<Rightarrow> d_Allowed d | Err _ \<Rightarrow> False)"
    using run r(2) by (simp_all add: fleet_call_def xl_Allow_def Let_def)
  have hd1: "d_Allowed x \<Longrightarrow> hd rep = 1" if "parseLuaResult (Some (map LInt rep)) w = Ok x" for rep w x
    using that by (auto simp: parseLuaResult_def Let_def split: list.splits)
  from xl_AllowWithLimit_effect [OF ok r(1) lim n run]
  consider "isl d" "db (xl_client r) = db (xl_client ?r)"
  | b rep where "rnd ?i = Ok b" "isl d \<or> d = parseLuaResult (Some (map LInt rep)) (window_ms lim)"
      "luaSlidingWindow zo (rl_fullKey (xl_keyPrefix ?r) (q_key q)) (l_Burst lim) (window_ms lim) (q_now q) (q_n q)
        (hex_encode b) (db (xl_client ?r)) = (rep, db (xl_client r))"
    by auto
  then show ?thesis
  proof cases
    case 1
    then show ?thesis using unchanged call by (auto simp: isl_def)
  next
    case (2 b rep)
    moreover have "fst (fleet_call sop sched rnd q f) \<longrightarrow> hd rep = 1"
      using 2(2) call(2) hd1 [of rep "window_ms lim"] by (cases d) (auto dest: sym)
    ultimately show ?thesis using ran [of b rep] r(3) call(1) by simp
  qed
qed

lemma fleet_call_frame:
  fixes sched :: "nat \<Rightarrow> nat"
  assumes ok: "script_ok sop zo db digest" and lim: "limit_Normalize lim = lim" "0 < l_Rate lim"
    and inv: "fleet_inv live db digest rnd p lim t f" and n: "0 < q_n q"
  defines "f' \<equiv> snd (fleet_call sop sched rnd q f)"
  shows "fl_now f' = q_now q" "fl_calls f' = Suc (fl_calls f)"
    "xl_limit (fl_nodes f' j) = lim \<and> xl_keyPrefix (fl_nodes f' j) = p \<and> node_ok digest (fl_nodes f' j)"
proof -
  let ?i = "fl_calls f"
  let ?r = "(fl_nodes f (sched ?i))\<lparr>xl_client := fl_client f\<rparr>"
  obtain d r where run: "xl_AllowWithLimit sop None (rnd ?i) (q_key q) (q_n q) lim (q_now q) ?r = (d, r)" by fastforce
  have r: "node_ok digest ?r" "xl_limit ?r = lim" "xl_keyPrefix ?r = p" using inv by (auto simp: fleet_inv_def node_ok_def)
  show "fl_now f' = q_now q" "fl_calls f' = Suc (fl_calls f)"
    using run r(2) by (simp_all add: f'_def Let_def fleet_call_def xl_Allow_def)
  show "xl_limit (fl_nodes f' j) = lim \<and> xl_keyPrefix (fl_nodes f' j) = p \<and> node_ok digest (fl_nodes f' j)"
    using xl_AllowWithLimit_effect [OF ok r(1) lim n run] r(2,3) run inv
    by (auto simp: f'_def Let_def fleet_call_def xl_Allow_def fleet_inv_def)
qed

definition nonces_distinct :: "(nat \<Rightarrow> bytes result) \<Rightarrow> bool" where
  "nonces_distinct rnd \<longleftrightarrow> (\<forall>i j b. rnd i = Ok b \<longrightarrow> rnd j = Ok b \<longrightarrow> i = j)"

lemma hex_encode_inj: "hex_encode a = hex_encode b \<longleftrightarrow> a = b"
  by (metis hex_decode_encode option.inject)

lemma fresh_members:
  assumes "nonces_distinct rnd" "rnd used = Ok b"
  shows "used_members rnd used \<inter> dom (new_members (hex_encode b) now n) = {}"
proof -
  have False if "j < used" "rnd j = Ok a" "0 < i" "i' \<in> {1..n}" "nonce_member (hex_encode a) i = nonce_member (hex_encode b) i'" for j a i i'
  proof -
    have "a = b" using that(3-5) nonce_member_eq [OF hex_no_colon hex_no_colon, of i i' a b] by (simp add: hex_encode_inj)
    then show False using assms that(1,2) by (auto simp: nonces_distinct_def)
  qed
  then show ?thesis by (fastforce simp: used_members_def new_members_def split: if_splits)
qed

lemma fleet_sliding_window:
  assumes ok: "script_ok sop zo db digest" and z: "zset_ok zo live" and nd: "nonces_distinct rnd"
    and lim: "limit_Normalize lim = lim" "0 < l_Rate lim"
  shows "sliding_window (fleet_call sop sched rnd) (fleet_inv live db digest rnd p lim) (fleet_events live db p)
    (\<lambda>_. l_Burst lim) (\<lambda>_. window_ms lim - 1)"
proof
  show "0 \<le> window_ms lim - 1" using window_ms_pos [of lim] by simp
  fix t and q :: call and f
  assume inv: "fleet_inv live db digest rnd p lim t f" and t: "t \<le> q_now q" and n: "0 < q_n q"
  let ?w = "window_ms lim" and ?now = "q_now q" and ?f' = "snd (fleet_call sop sched rnd q f)"
  let ?z = "db (fl_client f)" and ?z' = "db (fl_client ?f')" and ?P = "\<lambda>s. ?now - (?w - 1) \<le> s"
  note frame = fleet_call_frame [OF ok lim inv n, of sched]
  have fl_now: "fl_now f = t" using inv by (simp add: fleet_inv_def)
  have key: "key_inv (\<lambda>T. live T ?z (rl_fullKey p k)) rnd ?w (fl_calls f) t" for k using inv by (simp add: fleet_inv_def)
  note key_now = key_inv_later [OF key t]
  have "key_inv (\<lambda>T. live T ?z' (rl_fullKey p k)) rnd ?w (Suc (fl_calls f)) ?now" for k
  proof (cases rule: fleet_call_effect [OF ok lim inv n, of sched])
    case 1
    then show ?thesis using key_inv_Suc [OF key_now] by simp
  next
    case (2 b rep)
    from lua_key_inv [OF z 2(2) window_ms_pos 2(1) key_now] show ?thesis .
  qed
  then show "fleet_inv live db digest rnd p lim ?now ?f'" using frame by (simp add: fleet_inv_def)
  have cur: "live ?now ?z (rl_fullKey p k) x = Some s" "x \<in> used_members rnd (fl_calls f)"
    if "live t ?z (rl_fullKey p k) x = Some s" "?P s" for k x s
    using key_invD(2) [OF key, of t ?now k x s] key_invD(3) [OF key, of k x s] t that by simp_all
  have keep: "live ?now ?z' (rl_fullKey p k) x = Some s" if "live t ?z (rl_fullKey p k) x = Some s" "?P s" for k x s
  proof (cases rule: fleet_call_effect [OF ok lim inv n, of sched])
    case 1
    then show ?thesis using cur [OF that] by simp
  next
    case (2 b rep)
    from lua_keeps [OF z 2(2) window_ms_pos fresh_members [OF nd 2(1)] cur(1) [OF that]] cur(2) [OF that] that(2) show ?thesis by simp
  qed
  have fin: "finite (dom (live T x k))" for T x k using z by (rule zset_okD)
  show "in_window (?w - 1) ?now (fleet_events live db p f k) \<subseteq># in_window (?w - 1) ?now (fleet_events live db p ?f' k)" for k
    unfolding in_window_def fleet_events_def frame(1) fl_now
    by (rule scores_filter_mono [OF fin fin]) (rule keep)
  assume yes: "fst (fleet_call sop sched rnd q f)"
  let ?k = "rl_fullKey p (q_key q)" and ?m = "score_above (?now - ?w) (live ?now ?z (rl_fullKey p (q_key q)))"
  obtain b where b: "rnd (fl_calls f) = Ok b" "int (card (dom ?m)) + q_n q \<le> l_Burst lim"
    and new: "live ?now ?z' ?k = ?m ++ new_members (hex_encode b) ?now (q_n q)"
  proof (cases rule: fleet_call_effect [OF ok lim inv n, of sched])
    case 1
    then show ?thesis using yes by simp
  next
    case (2 b rep)
    then show ?thesis using that [of b] lua_effect(1) [OF z 2(2)] yes window_ms_pos [of lim] by fastforce
  qed
  have dom: "dom ?m \<subseteq> dom (live ?now ?z ?k)" by (auto simp: score_above_Some)
  have m: "finite (dom ?m)" using finite_subset [OF dom fin] .
  have "dom ?m \<inter> dom (new_members (hex_encode b) ?now (q_n q)) = {}"
    using fresh_members [OF nd b(1), of ?now "q_n q"] key_invD(3) [OF key_now, of "q_key q"] by (fastforce simp: score_above_Some)
  then have sc: "scores (live ?now ?z' ?k) = scores ?m + replicate_mset (nat (q_n q)) ?now"
    using scores_add [OF m _ hex_no_colon] n unfolding new by simp
  have "filter_mset ?P (scores (live t ?z ?k)) \<subseteq># filter_mset ?P (scores ?m)"
    by (rule scores_filter_mono [OF fin m]) (use cur in \<open>auto simp: score_above_Some\<close>)
  moreover have "filter_mset ?P (replicate_mset (nat (q_n q)) ?now) = replicate_mset (nat (q_n q)) ?now"
    using window_ms_pos [of lim] by (auto simp: filter_mset_eq_conv)
  moreover have "int (size (filter_mset ?P (scores (live ?now ?z' ?k)))) \<le> l_Burst lim"
  proof -
    have "size (filter_mset ?P (scores (live ?now ?z' ?k))) \<le> size (scores (live ?now ?z' ?k))"
      by (rule size_filter_mset_lesseq)
    moreover have "int (size (scores (live ?now ?z' ?k))) \<le> l_Burst lim" using b(2) n unfolding sc by (simp add: size_scores)
    ultimately show ?thesis by linarith
  qed
  ultimately show "in_window (?w - 1) ?now (fleet_events live db p f (q_key q)) + replicate_mset (nat (q_n q)) ?now
      \<subseteq># in_window (?w - 1) ?now (fleet_events live db p ?f' (q_key q)) \<and>
    int (size (in_window (?w - 1) ?now (fleet_events live db p ?f' (q_key q)))) \<le> l_Burst lim"
    unfolding in_window_def fleet_events_def frame(1) fl_now sc by (simp only: filter_union_mset subset_mset.add_right_mono)
qed simp_all

subsection \<open>Properties\<close>


text \<open>A Redis that fulfils the hypotheses: every key with its members and its deadline.\<close>

type_synonym zdb = "(string, (string \<times> int) list \<times> int option) gomap"

definition zdb_entry :: "int \<Rightarrow> zdb \<Rightarrow> string \<Rightarrow> (string \<times> int) list \<times> int option" where
  "zdb_entry T z k =
     (case map_of z k of None \<Rightarrow> ([], None)
      | Some (ms, None) \<Rightarrow> (ms, None)
      | Some (ms, Some d) \<Rightarrow> if T < d then (ms, Some d) else ([], None))"

definition zdb_live :: "int \<Rightarrow> zdb \<Rightarrow> string \<Rightarrow> zset" where
  "zdb_live T z k = map_of (fst (zdb_entry T z k))"

definition zdb_ops :: "zdb zset_ops" where
  "zdb_ops = \<lparr>
     zo_REMRANGEBYSCORE = (\<lambda>k c T z. let (ms, d) = zdb_entry T z k in
       AList.update k (filter (\<lambda>(m, s). map_of ms m = Some s \<and> c < s) ms, d) z),
     zo_CARD = (\<lambda>k T z. int (length (remdups (map fst (fst (zdb_entry T z k)))))),
     zo_ADD = (\<lambda>k s m T z. let (ms, d) = zdb_entry T z k in AList.update k ((m, s) # ms, d) z),
     zo_PEXPIRE = (\<lambda>k d T z. AList.update k (fst (zdb_entry T z k), Some (T + d)) z),
     zo_FIRST = (\<lambda>k T z. let ms = fst (zdb_entry T z k) in
       if ms = [] then None
       else let m = arg_min_list (\<lambda>m. the (map_of ms m)) (map fst ms) in Some (m, the (map_of ms m)))\<rparr>"

definition zdb_client :: "zdb script_ops" where
  "zdb_client = \<lparr>so_ScriptLoad = (\<lambda>c. (Ok ''sha'', c)),
     so_EvalSha = (\<lambda>sha a c. (Ok (Some (map LInt (fst (run_script zdb_ops a c)))), snd (run_script zdb_ops a c))),
     so_Eval = (\<lambda>a c. (Ok (Some (map LInt (fst (run_script zdb_ops a c)))), snd (run_script zdb_ops a c)))\<rparr>"

lemma map_ext:
  assumes "\<And>x s. m x = Some s \<longleftrightarrow> m' x = Some s"
  shows "m = m'"
proof (rule ext)
  fix x
  show "m x = m' x"
  proof (cases "m x")
    case None
    then show ?thesis using assms [of x "the (m' x)"] by (cases "m' x") simp_all
  next
    case (Some s)
    then show ?thesis using assms [of x s] by simp
  qed
qed

lemma map_of_first: "map_of (filter (\<lambda>(m, s). map_of ms m = Some s \<and> c < s) ms) = score_above c (map_of ms)"
proof -
  have "map_of (filter (\<lambda>(m, s). f m = Some s \<and> c < s) xs) x = Some s \<longleftrightarrow> f x = Some s \<and> c < s \<and> (x, s) \<in> set xs"
    for f :: "string \<Rightarrow> int option" and xs x s
    by (induction xs) auto
  then have "map_of (filter (\<lambda>(m, s). map_of ms m = Some s \<and> c < s) ms) x = Some s \<longleftrightarrow> score_above c (map_of ms) x = Some s" for x s
    using map_of_SomeD [of ms x s] by (simp add: score_above_Some) blast
  then show ?thesis by (rule map_ext)
qed

lemma zdb_live_update [simp]:
  "zdb_live T' (AList.update k (ms, d) z) k' =
     (if k' = k then (case d of None \<Rightarrow> map_of ms | Some x \<Rightarrow> if T' < x then map_of ms else Map.empty) else zdb_live T' z k')"
  by (simp add: zdb_live_def zdb_entry_def split: option.split)

lemma zdb_first:
  assumes "ms \<noteq> []"
  shows "map_of ms (arg_min_list (\<lambda>m. the (map_of ms m)) (map fst ms)) =
      Some (the (map_of ms (arg_min_list (\<lambda>m. the (map_of ms m)) (map fst ms)))) \<and>
    (\<forall>m' s'. map_of ms m' = Some s' \<longrightarrow> the (map_of ms (arg_min_list (\<lambda>m. the (map_of ms m)) (map fst ms))) \<le> s')"
proof -
  let ?f = "\<lambda>m. the (map_of ms m)" and ?xs = "map fst ms"
  have "arg_min_list ?f ?xs \<in> set ?xs" using assms by (intro arg_min_list_in) simp
  then have "map_of ms (arg_min_list ?f ?xs) \<noteq> None" by (simp add: map_of_eq_None_iff)
  moreover have "?f (arg_min_list ?f ?xs) \<le> s'" if "map_of ms m' = Some s'" for m' s'
  proof -
    have "m' \<in> set ?xs" using that by (metis domI dom_map_of_conv_image_fst set_map)
    then have "Min (?f ` set ?xs) \<le> ?f m'" by (intro Min_le) auto
    then show ?thesis using f_arg_min_list_f [of ?xs ?f] assms that by simp
  qed
  ultimately show ?thesis by auto
qed

lemma zdb_ok: "zset_ok zdb_ops zdb_live"
  unfolding zset_ok_def
proof (intro conjI allI impI)
  fix k c s d m T T' k' and z :: zdb
  obtain ms e where entry: "zdb_entry T z k = (ms, e)" by fastforce
  then have live: "zdb_live T z k = map_of ms" by (simp add: zdb_live_def)
  have alive: "e = Some x \<Longrightarrow> T < x" for x using entry by (auto simp: zdb_entry_def split: option.splits if_splits)
  have later: "zdb_live T' z k = (case e of None \<Rightarrow> map_of ms | Some x \<Rightarrow> if T' < x then map_of ms else Map.empty)" if "T \<le> T'"
    using entry that by (auto simp: zdb_entry_def zdb_live_def split: option.splits if_splits)
  show "finite (dom (zdb_live T z k))" by (simp add: live finite_dom_map_of)
  show "zdb_live T (zo_ADD zdb_ops k s m T z) k = (zdb_live T z k)(m \<mapsto> s)"
    using alive by (auto simp: zdb_ops_def entry live split: option.split)
  show "zo_CARD zdb_ops k T z = int (card (dom (zdb_live T z k)))"
    by (simp add: live zdb_ops_def entry dom_map_of_conv_image_fst length_remdups_card_conv)
  show "case zo_FIRST zdb_ops k T z of None \<Rightarrow> zdb_live T z k = Map.empty
      | Some (m, s) \<Rightarrow> zdb_live T z k m = Some s \<and> (\<forall>m' s'. zdb_live T z k m' = Some s' \<longrightarrow> s \<le> s')"
    using zdb_first [of ms] by (simp add: live zdb_ops_def entry Let_def)
  assume T: "T \<le> T'"
  show "k' \<noteq> k \<Longrightarrow> zdb_live T' (zo_ADD zdb_ops k s m T z) k' = zdb_live T' z k'" by (simp add: zdb_ops_def entry)
  show "zdb_live T' (zo_PEXPIRE zdb_ops k d T z) k' =
      (if k' = k then if T' < T + d then zdb_live T z k else Map.empty else zdb_live T' z k')"
    by (simp add: zdb_ops_def entry live)
  have "score_above c Map.empty = Map.empty" by (simp add: score_above_def fun_eq_iff)
  then show "zdb_live T' (zo_REMRANGEBYSCORE zdb_ops k c T z) k' =
      (if k' = k then score_above c (zdb_live T' z k) else zdb_live T' z k')"
    by (simp add: zdb_ops_def entry later [OF T] map_of_first split: option.split)
qed

lemma zdb_client_ok: "script_ok zdb_client zdb_ops id ''sha''"
  by (auto simp: script_ok_def zdb_client_def script_ran_def)


end
