(* ===== verification/KeyStore.thy ===== *)
theory KeyStore
  imports Token
begin

text \<open>
  Persistent key rings: the snapshot codec (\<^verbatim>\<open>src/auth/keyring_codec.go\<close>), the file store
  (\<^verbatim>\<open>keyring_file.go\<close>, \<^verbatim>\<open>file_keyringstore.go\<close>, \<^verbatim>\<open>keyring_watcher.go\<close>) and the store
  interface with its bootstrap (\<^verbatim>\<open>keyringstore.go\<close>).

  The JSON codec of snapshots is a parameter.  A file system is a map from paths to contents with
  a list of faults: each call of the \<^verbatim>\<open>os\<close> package takes the next one, \<open>None\<close> or the text of
  the error and, for a failed write, how much of the data reached the file (\<open>None\<close>: it was not
  even opened).  Rings are passed as values, so the checks for a nil ring have no counterpart.
\<close>

fun errors_Is :: "go_error \<Rightarrow> go_error \<Rightarrow> bool" where
  "errors_Is (Coded c m (Some e)) t \<longleftrightarrow> Coded c m (Some e) = t \<or> errors_Is e t"
| "errors_Is e t \<longleftrightarrow> e = t"

definition ErrNotExist :: go_error where
  "ErrNotExist = Plain ''file does not exist''"

definition ErrKeyRingConflict :: go_error where
  "ErrKeyRingConflict = Plain ''auth: keyring changed since it was loaded''"

subsection \<open>The snapshot codec\<close>

record snap_codec =
  sc_Marshal :: "Snapshot \<Rightarrow> bytes result"
  sc_MarshalIndent :: "Snapshot \<Rightarrow> bytes result"
  sc_Unmarshal :: "bytes \<Rightarrow> Snapshot result"

definition keyringFormatVersion :: string where
  "keyringFormatVersion = ''2''"

definition supportedFormatVersion :: "string \<Rightarrow> bool" where
  "supportedFormatVersion v \<longleftrightarrow> v = [] \<or> v = ''1'' \<or> v = ''2''"

definition EncodeKeyRing :: "key_codec \<Rightarrow> snap_codec \<Rightarrow> KeyRing \<Rightarrow> bytes result" where
  "EncodeKeyRing kc sc r = sc_Marshal sc ((kr_Snapshot kc r)\<lparr>sn_FormatVersion := keyringFormatVersion\<rparr>)"

definition DecodeKeyRing :: "key_codec \<Rightarrow> snap_codec \<Rightarrow> bytes \<Rightarrow> KeyRing result" where
  "DecodeKeyRing kc sc body =
     (case sc_Unmarshal sc body of
        Err _ \<Rightarrow> Err (Plain ''auth: decode keyring: %w'')
      | Ok snap \<Rightarrow>
          if \<not> supportedFormatVersion (sn_FormatVersion snap) then Err (Plain ''auth: keyring format_version %q is not supported'')
          else case kr_LoadSnapshot kc snap NewKeyRing of (Some err, _) \<Rightarrow> Err err | (None, r) \<Rightarrow> Ok r)"

subsection \<open>The file system\<close>

record fs =
  fs_files :: "(string, bytes) gomap"
  fs_faults :: "(string \<times> nat option) option list"

definition next_fault :: "fs \<Rightarrow> (string \<times> nat option) option \<times> fs" where
  "next_fault f = (case fs_faults f of [] \<Rightarrow> (None, f) | x # rest \<Rightarrow> (x, f\<lparr>fs_faults := rest\<rparr>))"

definition os_err :: "string \<Rightarrow> go_error" where
  "os_err m = Plain (''os: '' @ m)"

definition os_MkdirAll :: "fs \<Rightarrow> go_error option \<times> fs" where
  "os_MkdirAll f = (case next_fault f of (Some (m, _), f) \<Rightarrow> (Some (os_err m), f) | (None, f) \<Rightarrow> (None, f))"

definition os_WriteFile :: "string \<Rightarrow> bytes \<Rightarrow> fs \<Rightarrow> go_error option \<times> fs" where
  "os_WriteFile name data f =
     (case next_fault f of
        (Some (m, None), f) \<Rightarrow> (Some (os_err m), f)
      | (Some (m, Some n), f) \<Rightarrow> (Some (os_err m), f\<lparr>fs_files := AList.update name (take n data) (fs_files f)\<rparr>)
      | (None, f) \<Rightarrow> (None, f\<lparr>fs_files := AList.update name data (fs_files f)\<rparr>))"

definition os_Rename :: "string \<Rightarrow> string \<Rightarrow> fs \<Rightarrow> go_error option \<times> fs" where
  "os_Rename old new f =
     (case next_fault f of
        (Some (m, _), f) \<Rightarrow> (Some (os_err m), f)
      | (None, f) \<Rightarrow>
          (case map_of (fs_files f) old of
             None \<Rightarrow> (Some ErrNotExist, f)
           | Some data \<Rightarrow> (None, f\<lparr>fs_files := AList.update new data (AList.delete old (fs_files f))\<rparr>)))"

definition os_Remove :: "string \<Rightarrow> fs \<Rightarrow> go_error option \<times> fs" where
  "os_Remove name f =
     (case next_fault f of
        (Some (m, _), f) \<Rightarrow> (Some (os_err m), f)
      | (None, f) \<Rightarrow> (None, f\<lparr>fs_files := AList.delete name (fs_files f)\<rparr>))"

definition os_ReadFile :: "string \<Rightarrow> fs \<Rightarrow> bytes result \<times> fs" where
  "os_ReadFile name f =
     (case next_fault f of
        (Some (m, _), f) \<Rightarrow> (Err (os_err m), f)
      | (None, f) \<Rightarrow> ((case map_of (fs_files f) name of None \<Rightarrow> Err ErrNotExist | Some data \<Rightarrow> Ok data), f))"

lemmas os_defs = os_MkdirAll_def os_WriteFile_def os_Rename_def os_Remove_def os_ReadFile_def next_fault_def

subsection \<open>Saving and loading a file\<close>

definition file_body :: "key_codec \<Rightarrow> snap_codec \<Rightarrow> KeyRing \<Rightarrow> bytes result" where
  "file_body kc sc r = sc_MarshalIndent sc ((kr_Snapshot kc r)\<lparr>sn_FormatVersion := keyringFormatVersion\<rparr>)"

definition SaveKeyRing :: "key_codec \<Rightarrow> snap_codec \<Rightarrow> string \<Rightarrow> KeyRing \<Rightarrow> fs \<Rightarrow> go_error option \<times> fs" where
  "SaveKeyRing kc sc path r f =
     (if path = [] then (Some (Plain ''auth: SaveKeyRing: path required''), f)
      else case os_MkdirAll f of
        (Some _, f) \<Rightarrow> (Some (Plain ''auth: create state dir: %w''), f)
      | (None, f) \<Rightarrow>
          (case file_body kc sc r of
             Err err \<Rightarrow> (Some err, f)
           | Ok body \<Rightarrow>
               let tmp = path @ ''.tmp'' in
               (case os_WriteFile tmp body f of
                  (Some _, f) \<Rightarrow> (Some (Plain ''auth: write temp keyring: %w''), f)
                | (None, f) \<Rightarrow>
                    (case os_Rename tmp path f of
                       (Some _, f) \<Rightarrow> (Some (Plain ''auth: rename keyring into place: %w''), snd (os_Remove tmp f))
                     | (None, f) \<Rightarrow> (None, f)))))"

definition parse_into :: "key_codec \<Rightarrow> snap_codec \<Rightarrow> bytes \<Rightarrow> KeyRing \<Rightarrow> go_error option \<times> KeyRing" where
  "parse_into kc sc body ring =
     (case sc_Unmarshal sc body of
        Err _ \<Rightarrow> (Some (Plain ''auth: parse keyring: %w''), ring)
      | Ok snap \<Rightarrow>
          if \<not> supportedFormatVersion (sn_FormatVersion snap) then
            (Some (Plain ''auth: keyring format_version %q is not supported''), ring)
          else kr_LoadSnapshot kc snap ring)"

definition parse_keyring :: "key_codec \<Rightarrow> snap_codec \<Rightarrow> bytes \<Rightarrow> KeyRing result" where
  "parse_keyring kc sc body =
     (case parse_into kc sc body NewKeyRing of (Some err, _) \<Rightarrow> Err err | (None, r) \<Rightarrow> Ok r)"

definition LoadKeyRing :: "key_codec \<Rightarrow> snap_codec \<Rightarrow> string \<Rightarrow> fs \<Rightarrow> KeyRing result \<times> fs" where
  "LoadKeyRing kc sc path f =
     (case os_ReadFile path f of (Err err, f) \<Rightarrow> (Err err, f) | (Ok body, f) \<Rightarrow> (parse_keyring kc sc body, f))"

definition ReloadInto :: "key_codec \<Rightarrow> snap_codec \<Rightarrow> string \<Rightarrow> KeyRing \<Rightarrow> fs \<Rightarrow> (go_error option \<times> KeyRing) \<times> fs" where
  "ReloadInto kc sc path ring f =
     (case os_ReadFile path f of (Err err, f) \<Rightarrow> ((Some err, ring), f) | (Ok body, f) \<Rightarrow> (parse_into kc sc body ring, f))"

definition EnsureKeyRing ::
  "key_codec \<Rightarrow> snap_codec \<Rightarrow> generators \<Rightarrow> go_time \<Rightarrow> string \<Rightarrow> fs \<Rightarrow> (KeyRing \<times> bool) result \<times> fs" where
  "EnsureKeyRing kc sc g now path f =
     (case LoadKeyRing kc sc path f of
        (Ok r, f) \<Rightarrow> (Ok (r, False), f)
      | (Err err, f) \<Rightarrow>
          if \<not> errors_Is err ErrNotExist then (Err err, f)
          else case kr_Generate kc g now NewKeyRing of
            (Err err, _) \<Rightarrow> (Err err, f)
          | (Ok _, r) \<Rightarrow>
              (case SaveKeyRing kc sc path r f of (Some err, f) \<Rightarrow> (Err err, f) | (None, f) \<Rightarrow> (Ok (r, True), f)))"

text \<open>
  One tick of the mtime watchers.  \<open>lastMod\<close> is \<open>None\<close> for the zero time; \<open>stat\<close> is the
  modification time found, or \<open>None\<close> when \<^verbatim>\<open>os.Stat\<close> failed.  The answer is the ring handed to
  \<^verbatim>\<open>onChange\<close>, if any.
\<close>

definition watch_tick ::
  "key_codec \<Rightarrow> snap_codec \<Rightarrow> string \<Rightarrow> go_time option \<Rightarrow> go_time option \<times> fs \<Rightarrow> KeyRing option \<times> go_time option \<times> fs" where
  "watch_tick kc sc path stat = (\<lambda>(lastMod, f).
     case stat of
       None \<Rightarrow> (None, lastMod, f)
     | Some m \<Rightarrow>
         if (case lastMod of None \<Rightarrow> False | Some l \<Rightarrow> \<not> m > l) then (None, lastMod, f)
         else case LoadKeyRing kc sc path f of
           (Err _, f) \<Rightarrow> (None, Some m, f)
         | (Ok r, f) \<Rightarrow> (Some r, Some m, f))"

definition reload_tick ::
  "key_codec \<Rightarrow> snap_codec \<Rightarrow> string \<Rightarrow> go_time result \<Rightarrow> go_time \<times> KeyRing \<times> fs \<Rightarrow> (go_error + string) option \<times> go_time \<times> KeyRing \<times> fs" where
  "reload_tick kc sc path stat = (\<lambda>(lastMod, ring, f).
     case stat of
       Err err \<Rightarrow> (Some (Inl err), lastMod, ring, f)
     | Ok m \<Rightarrow>
         if \<not> m > lastMod then (None, lastMod, ring, f)
         else case ReloadInto kc sc path ring f of
           ((Some err, ring), f) \<Rightarrow> (Some (Inl err), m, ring, f)
         | ((None, ring), f) \<Rightarrow> (Some (Inr (kr_ActiveID ring)), m, ring, f))"

subsection \<open>The store interface\<close>

record 'w keyring_store_ops =
  ks_Load :: "'w \<Rightarrow> KeyRing result \<times> 'w"
  ks_Save :: "KeyRing \<Rightarrow> 'w \<Rightarrow> go_error option \<times> 'w"
  ks_Ensure :: "(generators \<Rightarrow> go_time \<Rightarrow> 'w \<Rightarrow> (KeyRing \<times> bool) result \<times> 'w) option"

text \<open>The load-or-create of \<^verbatim>\<open>EnsureKeyRingStore\<close>, for stores that do not bootstrap themselves.\<close>

definition ensure_fallback ::
  "key_codec \<Rightarrow> 'w keyring_store_ops \<Rightarrow> generators \<Rightarrow> go_time \<Rightarrow> 'w \<Rightarrow> (KeyRing \<times> bool) result \<times> 'w" where
  "ensure_fallback kc ops g now w =
     (case ks_Load ops w of
        (Ok r, w) \<Rightarrow> (Ok (r, False), w)
      | (Err err, w) \<Rightarrow>
          if \<not> errors_Is err ErrNotExist then (Err err, w)
          else case kr_Generate kc g now NewKeyRing of
            (Err err, _) \<Rightarrow> (Err err, w)
          | (Ok _, r) \<Rightarrow>
              (case ks_Save ops r w of
                 (None, w) \<Rightarrow> (Ok (r, True), w)
               | (Some err, w) \<Rightarrow>
                   if \<not> errors_Is err ErrKeyRingConflict then (Err err, w)
                   else case ks_Load ops w of (Err err, w) \<Rightarrow> (Err err, w) | (Ok r, w) \<Rightarrow> (Ok (r, False), w)))"

definition EnsureKeyRingStore ::
  "key_codec \<Rightarrow> 'w keyring_store_ops \<Rightarrow> generators \<Rightarrow> go_time \<Rightarrow> 'w \<Rightarrow> (KeyRing \<times> bool) result \<times> 'w" where
  "EnsureKeyRingStore kc ops g now w =
     (case ks_Ensure ops of Some ensure \<Rightarrow> ensure g now w | None \<Rightarrow> ensure_fallback kc ops g now w)"

record FileKeyRingStore =
  fk_path :: string
  fk_pollEvery :: duration

definition NewFileKeyRingStore :: "string \<Rightarrow> duration \<Rightarrow> FileKeyRingStore" where
  "NewFileKeyRingStore path pollEvery = \<lparr>fk_path = path, fk_pollEvery = pollEvery\<rparr>"

definition fks_Load :: "key_codec \<Rightarrow> snap_codec \<Rightarrow> FileKeyRingStore \<Rightarrow> fs \<Rightarrow> KeyRing result \<times> fs" where
  "fks_Load kc sc s f = LoadKeyRing kc sc (fk_path s) f"

definition fks_Save :: "key_codec \<Rightarrow> snap_codec \<Rightarrow> FileKeyRingStore \<Rightarrow> KeyRing \<Rightarrow> fs \<Rightarrow> go_error option \<times> fs" where
  "fks_Save kc sc s r f = SaveKeyRing kc sc (fk_path s) r f"

definition fks_Ensure ::
  "key_codec \<Rightarrow> snap_codec \<Rightarrow> FileKeyRingStore \<Rightarrow> generators \<Rightarrow> go_time \<Rightarrow> fs \<Rightarrow> (KeyRing \<times> bool) result \<times> fs" where
  "fks_Ensure kc sc s g now f =
     (case fks_Load kc sc s f of
        (Ok r, f) \<Rightarrow> (Ok (r, False), f)
      | (Err err, f) \<Rightarrow>
          if \<not> errors_Is err ErrNotExist then (Err err, f)
          else case kr_Generate kc g now NewKeyRing of
            (Err err, _) \<Rightarrow> (Err err, f)
          | (Ok _, r) \<Rightarrow>
              (case fks_Save kc sc s r f of (Some err, f) \<Rightarrow> (Err err, f) | (None, f) \<Rightarrow> (Ok (r, True), f)))"

definition FileKeyRingStore_ops :: "key_codec \<Rightarrow> snap_codec \<Rightarrow> FileKeyRingStore \<Rightarrow> fs keyring_store_ops" where
  "FileKeyRingStore_ops kc sc s = \<lparr>ks_Load = fks_Load kc sc s, ks_Save = fks_Save kc sc s, ks_Ensure = Some (fks_Ensure kc sc s)\<rparr>"

subsection \<open>The contract of a store\<close>

text \<open>
  What a store promises its clients, in the presence of other nodes: \<open>stored\<close> is the contents of
  the backend, \<open>other\<close> what other nodes may do to it at any moment, \<open>body\<close> the snapshot it holds.
  \<open>base w c\<close> says that the contents \<open>c\<close> has the revision which this node last read or wrote.  A
  load answers from some contents of the backend, and contents of the same revision found later
  hold the same snapshot; a save that succeeds replaced contents of that revision.
\<close>

locale keyring_store =
  fixes ops :: "'w keyring_store_ops" and inv :: "'w \<Rightarrow> bool" and stored :: "'w \<Rightarrow> 'c" and other :: "'c \<Rightarrow> 'c \<Rightarrow> bool"
    and base :: "'w \<Rightarrow> 'c \<Rightarrow> bool" and body :: "'c \<Rightarrow> bytes option"
    and dec :: "bytes \<Rightarrow> KeyRing result" and enc :: "KeyRing \<Rightarrow> bytes result"
  assumes Load_inv: "inv w \<Longrightarrow> inv (snd (ks_Load ops w))"
    and Load_ok: "inv w \<Longrightarrow> ks_Load ops w = (Ok r, w') \<Longrightarrow> \<exists>c b. other\<^sup>*\<^sup>* (stored w) c \<and> other\<^sup>*\<^sup>* c (stored w') \<and>
      body c = Some b \<and> dec b = Ok r \<and> (\<forall>c'. other\<^sup>*\<^sup>* c c' \<longrightarrow> base w' c' \<longrightarrow> body c' = Some b)"
    and Load_none: "inv w \<Longrightarrow> ks_Load ops w = (Err e, w') \<Longrightarrow> errors_Is e ErrNotExist \<Longrightarrow>
      \<exists>c. other\<^sup>*\<^sup>* (stored w) c \<and> other\<^sup>*\<^sup>* c (stored w') \<and>
        (body c = None \<and> (\<forall>c'. other\<^sup>*\<^sup>* c c' \<longrightarrow> base w' c' \<longrightarrow> body c' = None) \<or> (\<exists>b. body c = Some b \<and> dec b = Err e))"
    and Save_inv: "inv w \<Longrightarrow> inv (snd (ks_Save ops r w))"
    and Save_ok: "inv w \<Longrightarrow> ks_Save ops r w = (None, w') \<Longrightarrow> \<exists>c c' b. other\<^sup>*\<^sup>* (stored w) c \<and> base w c \<and>
      enc r = Ok b \<and> body c' = Some b \<and> other\<^sup>*\<^sup>* c' (stored w')"
    and Save_conflict: "inv w \<Longrightarrow> ks_Save ops r w = (Some e, w') \<Longrightarrow> errors_Is e ErrKeyRingConflict \<Longrightarrow>
      other\<^sup>*\<^sup>* (stored w) (stored w')"
begin

text \<open>
  The bootstrap over such a store: a ring that was created replaced nothing, and any other ring
  that is returned is one that was found in the store.
\<close>

lemma ensure_created:
  assumes "inv w" and "ensure_fallback kc ops g now w = (Ok (r, True), w')" and "\<And>b e. dec b = Err e \<Longrightarrow> \<not> errors_Is e ErrNotExist"
  shows "\<exists>c c' b. other\<^sup>*\<^sup>* (stored w) c \<and> body c = None \<and> enc r = Ok b \<and> body c' = Some b \<and> other\<^sup>*\<^sup>* c' (stored w')"
proof -
  obtain e w1 where l: "ks_Load ops w = (Err e, w1)" "errors_Is e ErrNotExist" and s: "ks_Save ops r w1 = (None, w')"
    using assms(2) by (auto simp: ensure_fallback_def split: prod.splits sum.splits if_splits option.splits)
  obtain c where c: "other\<^sup>*\<^sup>* (stored w) c" "other\<^sup>*\<^sup>* c (stored w1)" "body c = None" "\<And>c'. other\<^sup>*\<^sup>* c c' \<Longrightarrow> base w1 c' \<Longrightarrow> body c' = None"
    using Load_none [OF assms(1) l] assms(3) l(2) by blast
  have "inv w1" using Load_inv [OF assms(1)] l(1) by simp
  from Save_ok [OF this s] obtain c1 c' b where s': "other\<^sup>*\<^sup>* (stored w1) c1" "base w1 c1" "enc r = Ok b" "body c' = Some b"
    "other\<^sup>*\<^sup>* c' (stored w')" by blast
  from c(2) s'(1) have c1: "other\<^sup>*\<^sup>* c c1" by (rule rtranclp_trans)
  with c(1) have "other\<^sup>*\<^sup>* (stored w) c1" by (rule rtranclp_trans)
  moreover have "body c1 = None" using c(4) [OF c1 s'(2)] .
  ultimately show ?thesis using s'(3-5) by blast
qed

lemma ensure_found:
  assumes "inv w" and "ensure_fallback kc ops g now w = (Ok (r, False), w')"
  shows "\<exists>c b. other\<^sup>*\<^sup>* (stored w) c \<and> body c = Some b \<and> dec b = Ok r \<and> other\<^sup>*\<^sup>* c (stored w')"
proof (cases "ks_Load ops w")
  case (Pair l w1)
  show ?thesis
  proof (cases l)
    case (Inr r1)
    then have "r1 = r" "w1 = w'" using assms(2) Pair by (simp_all add: ensure_fallback_def)
    with Load_ok [OF assms(1)] Pair Inr show ?thesis by blast
  next
    case (Inl e)
    then obtain e' r1 w2 where s: "errors_Is e ErrNotExist" "ks_Save ops r1 w1 = (Some e', w2)" "errors_Is e' ErrKeyRingConflict"
      "ks_Load ops w2 = (Ok r, w')"
      using assms(2) Pair by (auto simp: ensure_fallback_def split: prod.splits sum.splits if_splits option.splits)
    have i: "inv w1" "inv w2" using Load_inv [OF assms(1)] Save_inv [of w1 r1] Pair s(2) by simp_all
    have "other\<^sup>*\<^sup>* (stored w) (stored w1)" using Load_none [OF assms(1)] Pair Inl s(1) by (blast intro: rtranclp_trans)
    moreover have "other\<^sup>*\<^sup>* (stored w1) (stored w2)" using Save_conflict [OF i(1) s(2,3)] .
    ultimately have "other\<^sup>*\<^sup>* (stored w) (stored w2)" by (rule rtranclp_trans)
    with Load_ok [OF i(2) s(4)] show ?thesis by (blast intro: rtranclp_trans)
  qed
qed

end

subsection \<open>The file store\<close>

lemma os_frame:
  "os_ReadFile name f = (r, f') \<Longrightarrow> fs_files f' = fs_files f"
  "os_MkdirAll f = (e, f') \<Longrightarrow> fs_files f' = fs_files f"
  "os_WriteFile name data f = (e, f') \<Longrightarrow> k \<noteq> name \<Longrightarrow> map_of (fs_files f') k = map_of (fs_files f) k"
  "os_WriteFile name data f = (None, f') \<Longrightarrow> map_of (fs_files f') name = Some data"
  "os_Rename old new f = (Some err, f') \<Longrightarrow> fs_files f' = fs_files f"
  "os_Rename old new f = (None, f') \<Longrightarrow> old \<noteq> new \<Longrightarrow>
     map_of (fs_files f') = (map_of (fs_files f))(old := None, new := map_of (fs_files f) old) \<and> map_of (fs_files f) old \<noteq> None"
  "k \<noteq> name \<Longrightarrow> map_of (fs_files (snd (os_Remove name f))) k = map_of (fs_files f) k"
  by (auto simp: os_defs update_conv' delete_conv' split: list.splits option.splits if_splits prod.splits)

text \<open>
  A save writes a temporary file and renames it: the file itself changes in one step or not at
  all, whichever call fails and whatever part of a failed write reached the disk.
\<close>

lemma SaveKeyRing_atomic:
  assumes "SaveKeyRing kc sc path r f = (res, f')"
  shows "res = None \<Longrightarrow> \<exists>b. file_body kc sc r = Ok b \<and> map_of (fs_files f') path = Some b"
    and "res \<noteq> None \<Longrightarrow> map_of (fs_files f') path = map_of (fs_files f) path"
    and "k \<noteq> path \<Longrightarrow> k \<noteq> path @ ''.tmp'' \<Longrightarrow> map_of (fs_files f') k = map_of (fs_files f) k"
proof -
  let ?tmp = "path @ ''.tmp''"
  obtain e1 f1 where m: "os_MkdirAll f = (e1, f1)" by fastforce
  note save = assms [unfolded SaveKeyRing_def Let_def m]
  have "(res = None \<longrightarrow> (\<exists>b. file_body kc sc r = Ok b \<and> map_of (fs_files f') path = Some b)) \<and>
    (res \<noteq> None \<longrightarrow> map_of (fs_files f') path = map_of (fs_files f) path) \<and>
    (k \<noteq> path \<longrightarrow> k \<noteq> ?tmp \<longrightarrow> map_of (fs_files f') k = map_of (fs_files f) k)" for k
  proof (cases "path \<noteq> [] \<and> e1 = None \<and> (\<exists>body. file_body kc sc r = Ok body)")
    case False
    then show ?thesis using save os_frame(2) [OF m] by (auto split: if_splits option.splits sum.splits)
  next
    case True
    then obtain body where body: "path \<noteq> []" "e1 = None" "file_body kc sc r = Ok body" by blast
    obtain e2 f2 where w: "os_WriteFile ?tmp body f1 = (e2, f2)" by fastforce
    obtain e3 f3 where n: "os_Rename ?tmp path f2 = (e3, f3)" by fastforce
    show ?thesis
    proof (cases e2)
      case (Some e)
      then show ?thesis using save body w os_frame(3) [OF w] os_frame(2) [OF m] by auto
    next
      case None
      then have s: "(case e3 of None \<Rightarrow> (None, f3) | Some _ \<Rightarrow> (Some (Plain ''auth: rename keyring into place: %w''), snd (os_Remove ?tmp f3))) = (res, f')"
        using save body w n by (simp split: option.splits)
      have w': "os_WriteFile ?tmp body f1 = (None, f2)" using w None by simp
      note fr = os_frame(2) [OF m] os_frame(4) [OF w']
      show ?thesis
      proof (cases e3)
        case [simp]: None
        have "f' = f3" "res = None" using s by simp_all
        then show ?thesis
          using os_frame(6) [OF n [simplified]] os_frame(3) [OF w', of k] fr body(3) by auto
      next
        case [simp]: (Some e)
        have "f' = snd (os_Remove ?tmp f3)" "res \<noteq> None" using s by auto
        then show ?thesis
          using os_frame(5) [OF n [simplified]] os_frame(3) [OF w', of k] os_frame(3) [OF w', of path] fr(1)
            os_frame(7) [of k ?tmp f3] os_frame(7) [of path ?tmp f3] by auto
      qed
    qed
  qed
  then show "res = None \<Longrightarrow> \<exists>b. file_body kc sc r = Ok b \<and> map_of (fs_files f') path = Some b"
    and "res \<noteq> None \<Longrightarrow> map_of (fs_files f') path = map_of (fs_files f) path"
    and "k \<noteq> path \<Longrightarrow> k \<noteq> ?tmp \<Longrightarrow> map_of (fs_files f') k = map_of (fs_files f) k" by auto
qed

lemma star_eq [simp]: "(=)\<^sup>*\<^sup>* = ((=) :: 'a \<Rightarrow> 'a \<Rightarrow> bool)"
proof (intro ext iffI)
  fix x y :: 'a
  show "(=)\<^sup>*\<^sup>* x y \<Longrightarrow> x = y" by (induction rule: rtranclp_induct) simp_all
qed simp

lemma LoadKeyRing_cases:
  assumes "LoadKeyRing kc sc path f = (res, f')"
  shows "fs_files f' = fs_files f"
    and "res = Ok r \<Longrightarrow> \<exists>b. map_of (fs_files f) path = Some b \<and> parse_keyring kc sc b = Ok r"
    and "res = Err e \<Longrightarrow> errors_Is e ErrNotExist \<Longrightarrow>
      map_of (fs_files f) path = None \<or> (\<exists>b. map_of (fs_files f) path = Some b \<and> parse_keyring kc sc b = Err e)"
  using assms
  by (auto simp: LoadKeyRing_def os_ReadFile_def next_fault_def os_err_def ErrNotExist_def
      split: list.splits option.splits prod.splits sum.splits)

interpretation fks: keyring_store "FileKeyRingStore_ops kc sc s" "\<lambda>_. True" "\<lambda>f. map_of (fs_files f) (fk_path s)" "(=)"
  "\<lambda>_ _. True" "\<lambda>c. c" "parse_keyring kc sc" "file_body kc sc"
  for kc sc s
proof (unfold_locales, goal_cases)
  case (2 w r w')
  then show ?case using LoadKeyRing_cases(1,2) [of kc sc "fk_path s" w "Ok r" w'] by (auto simp: FileKeyRingStore_ops_def fks_Load_def)
next
  case (3 w e w')
  then show ?case using LoadKeyRing_cases(1,3) [of kc sc "fk_path s" w "Err e" w'] by (auto simp: FileKeyRingStore_ops_def fks_Load_def)
next
  case (5 w r w')
  then show ?case using SaveKeyRing_atomic(1) [of kc sc "fk_path s" r w None w'] by (auto simp: FileKeyRingStore_ops_def fks_Save_def)
next
  case (6 w r e w')
  then show ?case using SaveKeyRing_atomic(2) [of kc sc "fk_path s" r w "Some e" w'] by (auto simp: FileKeyRingStore_ops_def fks_Save_def)
qed simp_all

subsection \<open>Saving and loading back\<close>

text \<open>JSON keeps ASCII text; bytes that are not UTF-8 it replaces.\<close>

definition snap_ascii :: "Snapshot \<Rightarrow> bool" where
  "snap_ascii s \<longleftrightarrow> ascii (sn_FormatVersion s) \<and> ascii (sn_ActiveKeyID s) \<and>
     list_all (\<lambda>k. ascii (sk_ID k) \<and> ascii (sk_Alg k) \<and> ascii (sk_SecretHex k) \<and> ascii (sk_PrivatePEM k) \<and> ascii (sk_Role k) \<and>
       ascii (sk_CreatedAt k) \<and> ascii (sk_RetiredAt k)) (sn_Keys s)"

definition snap_codec_ok :: "snap_codec \<Rightarrow> bool" where
  "snap_codec_ok sc \<longleftrightarrow> (\<forall>s b. snap_ascii s \<longrightarrow> sc_Marshal sc s = Ok b \<or> sc_MarshalIndent sc s = Ok b \<longrightarrow> sc_Unmarshal sc b = Ok s)"

definition live_part :: "KeyRing \<Rightarrow> KeyRing \<Rightarrow> bool" where
  "live_part r r'' \<longleftrightarrow> kr_active r'' = kr_active r \<and> (\<forall>ident. map_of (kr_byID r'') ident =
     (case map_of (kr_byID r) ident of Some k \<Rightarrow> if k_Role k = RoleRetired then None else Some k | None \<Rightarrow> None))"

lemma LoadSnapshot_version [simp]: "kr_LoadSnapshot kc (s\<lparr>sn_FormatVersion := v\<rparr>) r = kr_LoadSnapshot kc s r"
  by (simp add: kr_LoadSnapshot_def split: sum.split)

lemma snapshot_live:
  assumes "ring_ok kc good r" "key_codec_ok kc good"
  shows "\<exists>r''. kr_LoadSnapshot kc (kr_Snapshot kc r) r' = (None, r'') \<and> live_part r r''"
  by (rule snapshot_roundtrip [OF assms, of r']) (auto simp: live_part_def)

lemma encoded_ring:
  assumes "ring_ok kc good r" "key_codec_ok kc good" "snap_codec_ok sc" "snap_ascii (kr_Snapshot kc r)"
  shows "file_body kc sc r = Ok b \<Longrightarrow> \<exists>r''. parse_keyring kc sc b = Ok r'' \<and> live_part r r''"
    and "EncodeKeyRing kc sc r = Ok b \<Longrightarrow> \<exists>r''. DecodeKeyRing kc sc b = Ok r'' \<and> live_part r r''"
proof -
  let ?s = "(kr_Snapshot kc r)\<lparr>sn_FormatVersion := keyringFormatVersion\<rparr>"
  have s: "snap_ascii ?s" "supportedFormatVersion (sn_FormatVersion ?s)"
    using assms(4) by (auto simp: snap_ascii_def keyringFormatVersion_def supportedFormatVersion_def ascii_def)
  obtain r'' where r: "kr_LoadSnapshot kc (kr_Snapshot kc r) NewKeyRing = (None, r'')" "live_part r r''"
    using snapshot_live [OF assms(1,2)] by blast
  have b: "sc_Marshal sc ?s = Ok b \<or> sc_MarshalIndent sc ?s = Ok b \<Longrightarrow> sc_Unmarshal sc b = Ok ?s" for b
    using assms(3) s(1) unfolding snap_codec_ok_def by blast
  show "\<exists>r''. parse_keyring kc sc b = Ok r'' \<and> live_part r r''" if "file_body kc sc r = Ok b"
    using b [of b] that s(2) r by (simp add: file_body_def parse_keyring_def parse_into_def)
  show "\<exists>r''. DecodeKeyRing kc sc b = Ok r'' \<and> live_part r r''" if "EncodeKeyRing kc sc r = Ok b"
    using b [of b] that s(2) r by (simp add: EncodeKeyRing_def DecodeKeyRing_def)
qed

text \<open>
  C27. A save is safe against crashes and full disks: whichever of its system calls fails and
  however much of a failed write reached the disk, loading the file afterwards gives the ring that
  was saved, less its retired keys, if the save succeeded, and otherwise exactly what loading gave
  before.  No other file but the temporary one is touched.
\<close>

theorem keyring_file_crash_safe:
  assumes "(ring_step kc good)\<^sup>*\<^sup>* NewKeyRing r" and "key_codec_ok kc good" and "snap_codec_ok sc" and "snap_ascii (kr_Snapshot kc r)"
    and "SaveKeyRing kc sc path r f = (res, f')"
  shows "(case res of
       None \<Rightarrow> \<exists>r''. fst (LoadKeyRing kc sc path (f'\<lparr>fs_faults := []\<rparr>)) = Ok r'' \<and> kr_active r'' = kr_active r \<and>
         (\<forall>ident. map_of (kr_byID r'') ident =
            (case map_of (kr_byID r) ident of Some k \<Rightarrow> if k_Role k = RoleRetired then None else Some k | None \<Rightarrow> None))
     | Some _ \<Rightarrow> fst (LoadKeyRing kc sc path (f'\<lparr>fs_faults := []\<rparr>)) = fst (LoadKeyRing kc sc path (f\<lparr>fs_faults := []\<rparr>))) \<and>
    (k \<noteq> path \<longrightarrow> k \<noteq> path @ ''.tmp'' \<longrightarrow> map_of (fs_files f') k = map_of (fs_files f) k)"
proof -
  have load: "fst (LoadKeyRing kc sc path (f\<lparr>fs_faults := []\<rparr>)) =
      (case map_of (fs_files f) path of None \<Rightarrow> Err ErrNotExist | Some b \<Rightarrow> parse_keyring kc sc b)" for f
    by (simp add: LoadKeyRing_def os_ReadFile_def next_fault_def split: option.split)
  note at = SaveKeyRing_atomic [OF assms(5)]
  have "\<exists>r''. fst (LoadKeyRing kc sc path (f'\<lparr>fs_faults := []\<rparr>)) = Ok r'' \<and> live_part r r''" if "res = None"
    using at(1) [OF that] encoded_ring(1) [OF ring_ok_reach [OF assms(1)] assms(2-4)] by (auto simp: load)
  then show ?thesis using at(2,3) by (auto simp: load live_part_def split: option.split)
qed

lemma ascii_hex: "ascii (hex_encode s)"
proof -
  have "n < 16 \<Longrightarrow> (of_char (hex_digit n) :: nat) < 128" for n by (simp add: hex_digit_def)
  moreover have "(of_char b :: nat) div 16 < 16" "(of_char b :: nat) mod 16 < 16" for b using nat_of_char_less_256 [of b] by (linarith, simp)
  ultimately show ?thesis by (induction s rule: hex_encode.induct) (simp_all add: ascii_def)
qed

text \<open>
  A snapshot codec that knows the snapshot of one ring, and a disk that is full when the second of
  two saves has written one byte.
\<close>

definition one_snap :: "Snapshot \<Rightarrow> snap_codec" where
  "one_snap s0 = \<lparr>sc_Marshal = (\<lambda>s. if s = s0 then Ok ''s'' else Err (Plain ''unsupported'')),
     sc_MarshalIndent = (\<lambda>s. if s = s0 then Ok ''s'' else Err (Plain ''unsupported'')),
     sc_Unmarshal = (\<lambda>b. if b = ''s'' then Ok s0 else Err (Plain ''malformed''))\<rparr>"

definition one_ring_codec :: snap_codec where
  "one_ring_codec = one_snap ((kr_Snapshot plain_codec two_keys)\<lparr>sn_FormatVersion := keyringFormatVersion\<rparr>)"

definition full_disk :: fs where
  "full_disk = \<lparr>fs_files = [(''keyring.json'', ''old'')], fs_faults = [None, Some (''no space left'', Some 1)]\<rparr>"

theorem keyring_file_crash_safe_witness:
  "fst (SaveKeyRing plain_codec one_ring_codec ''keyring.json'' two_keys full_disk) = Some (Plain ''auth: write temp keyring: %w'') \<and>
   fst (LoadKeyRing plain_codec one_ring_codec ''keyring.json''
     ((snd (SaveKeyRing plain_codec one_ring_codec ''keyring.json'' two_keys full_disk))\<lparr>fs_faults := []\<rparr>)) =
   fst (LoadKeyRing plain_codec one_ring_codec ''keyring.json'' (full_disk\<lparr>fs_faults := []\<rparr>))"
proof -
  let ?S = "SaveKeyRing plain_codec one_ring_codec ''keyring.json'' two_keys full_disk"
  have codec: "snap_codec_ok one_ring_codec" by (auto simp: snap_codec_ok_def one_ring_codec_def one_snap_def split: if_splits)
  have snap: "snap_ascii (kr_Snapshot plain_codec two_keys)"
    by (simp del: hex_encode.simps add: snap_ascii_def two_keys_def kr_Add_def kr_install_def installHeader_def buildHeader_def plain_codec_def
        NewKeyRing_def alg_Valid_def Let_def go_simps kr_Snapshot_def snapshot_entry_def snapshot_pem_def ascii_hex)
      (simp add: ascii_def be_bytes.simps)
  have res: "fst ?S = Some (Plain ''auth: write temp keyring: %w'')"
    by (simp add: SaveKeyRing_def os_defs full_disk_def file_body_def one_ring_codec_def one_snap_def Let_def)
  then have "?S = (Some (Plain ''auth: write temp keyring: %w''), snd ?S)" by (metis prod.collapse)
  from keyring_file_crash_safe [OF two_keys_reach plain_codec_ok codec snap this] res show ?thesis by simp
qed

end
