(* ===== verification/KeyRotation.thy ===== *)
theory KeyRotation
  imports KeyStore
begin

text \<open>
  Key rotation through the facade (\<^verbatim>\<open>src/parsec.go\<close>, \<^verbatim>\<open>ReloadKeys\<close> to \<^verbatim>\<open>RetireKey\<close>): a
  mutation of the ring is persisted, and re-applied to a freshly loaded ring when another node
  rotated in between.

  The state holds the ring, the store if one is configured, whether a JWKS handler is installed
  and the counted rotations.  The lock \<^verbatim>\<open>keyMu\<close> makes each operation one step for the other
  mutations of the node and for the watcher's change of the ring; the watcher's own load of the
  store takes no lock, and the theorems here speak of a node whose watcher does not load in between.
  The gauges that \<^verbatim>\<open>observeKeyring\<close> sets and the log lines are left out.
\<close>

record 'w keys_state =
  ky_ring :: KeyRing
  ky_store :: "'w option"
  ky_jwks :: bool
  ky_rotations :: "string list"

definition ringHasAsymmetric :: "KeyRing \<Rightarrow> bool" where
  "ringHasAsymmetric ring \<longleftrightarrow> list_ex (\<lambda>k. k_Role k \<noteq> RoleRetired \<and> IsAsymmetric (k_Alg k)) (kr_List ring)"

definition reloadKeysLocked :: "key_codec \<Rightarrow> 'w keyring_store_ops \<Rightarrow> 'w keys_state \<Rightarrow> go_error option \<times> 'w keys_state" where
  "reloadKeysLocked kc ops p =
     (case ky_store p of
        None \<Rightarrow> (Some (go_panic ''nil pointer dereference''), p)
      | Some w \<Rightarrow>
          (case ks_Load ops w of
             (Err err, w) \<Rightarrow> (Some (err_Wrap Internal ''reload keyring'' err), p\<lparr>ky_store := Some w\<rparr>)
           | (Ok fresh, w) \<Rightarrow>
               (case kr_LoadSnapshot kc (kr_Snapshot kc fresh) (ky_ring p) of
                  (err, ring) \<Rightarrow> (err, p\<lparr>ky_store := Some w, ky_ring := ring\<rparr>))))"

definition ReloadKeys :: "key_codec \<Rightarrow> 'w keyring_store_ops \<Rightarrow> 'w keys_state \<Rightarrow> go_error option \<times> 'w keys_state" where
  "ReloadKeys kc ops p =
     (if ky_store p = None then
        (Some (err_New InvalidArgument
           ''no keyring store configured; pass Options.StateDir, Options.RedisClient or Options.KeyRingStore''), p)
      else reloadKeysLocked kc ops p)"

definition persistKeyRing :: "'w keyring_store_ops \<Rightarrow> 'w keys_state \<Rightarrow> go_error option \<times> 'w keys_state" where
  "persistKeyRing ops p =
     (case ky_store p of
        None \<Rightarrow> (None, p)
      | Some w \<Rightarrow> (case ks_Save ops (ky_ring p) w of (err, w) \<Rightarrow> (err, p\<lparr>ky_store := Some w\<rparr>)))"

text \<open>
  The loop of \<^verbatim>\<open>mutateKeys\<close> with its remaining attempts.  \<open>apply\<close> gets the number of the attempt,
  for its randomness and its clock; what the closure of the source assigns to a captured variable
  is its result.
\<close>

fun mutate_loop ::
  "key_codec \<Rightarrow> 'w keyring_store_ops \<Rightarrow> (nat \<Rightarrow> KeyRing \<Rightarrow> 'a result \<times> KeyRing) \<Rightarrow> nat \<Rightarrow> nat \<Rightarrow> go_error \<Rightarrow> 'w keys_state \<Rightarrow>
   'a result \<times> 'w keys_state" where
  "mutate_loop kc ops app 0 attempt lastErr p = (Err (err_Wrap Internal ''persist keyring'' lastErr), p)"
| "mutate_loop kc ops app (Suc left) attempt lastErr p =
     (case app attempt (ky_ring p) of
        (Err err, ring) \<Rightarrow> (Err err, p\<lparr>ky_ring := ring\<rparr>)
      | (Ok k, ring) \<Rightarrow>
          (case persistKeyRing ops (p\<lparr>ky_ring := ring\<rparr>) of
             (None, p) \<Rightarrow> (Ok k, p)
           | (Some err, p) \<Rightarrow>
               if \<not> errors_Is err ErrKeyRingConflict then (Err (err_Wrap Internal ''persist keyring'' err), p)
               else case reloadKeysLocked kc ops p of
                 (Some rerr, p) \<Rightarrow> (Err (err_Wrap Internal ''reload keyring after conflict'' rerr), p)
               | (None, p) \<Rightarrow> mutate_loop kc ops app left (Suc attempt) err p))"

definition maxKeyMutationAttempts :: nat where
  "maxKeyMutationAttempts = 5"

definition mutateKeys ::
  "key_codec \<Rightarrow> 'w keyring_store_ops \<Rightarrow> (nat \<Rightarrow> KeyRing \<Rightarrow> 'a result \<times> KeyRing) \<Rightarrow> 'w keys_state \<Rightarrow> 'a result \<times> 'w keys_state" where
  "mutateKeys kc ops app p = mutate_loop kc ops app maxKeyMutationAttempts 0 (Plain []) p"

definition wrap_err :: "code \<Rightarrow> string \<Rightarrow> 'a result \<Rightarrow> 'a result" where
  "wrap_err c m r = (case r of Err e \<Rightarrow> Err (err_Wrap c m e) | Ok x \<Rightarrow> Ok x)"

definition GenerateKeyAlg ::
  "key_codec \<Rightarrow> 'w keyring_store_ops \<Rightarrow> Alg \<Rightarrow> (nat \<Rightarrow> generators) \<Rightarrow> (nat \<Rightarrow> go_time) \<Rightarrow> 'w keys_state \<Rightarrow> Key result \<times> 'w keys_state" where
  "GenerateKeyAlg kc ops alg g now p =
     (case mutateKeys kc ops (\<lambda>n r. map_prod (wrap_err InvalidArgument ''generate key'') id (GenerateAlg kc alg (g n) (now n) r)) p of
        (Err err, p) \<Rightarrow> (Err err, p)
      | (Ok k, p) \<Rightarrow>
          (Ok k, p\<lparr>ky_jwks := ky_jwks p \<or> IsAsymmetric (k_Alg k), ky_rotations := ky_rotations p @ [''generated'']\<rparr>))"

definition GenerateKey ::
  "key_codec \<Rightarrow> 'w keyring_store_ops \<Rightarrow> (nat \<Rightarrow> generators) \<Rightarrow> (nat \<Rightarrow> go_time) \<Rightarrow> 'w keys_state \<Rightarrow> Key result \<times> 'w keys_state" where
  "GenerateKey kc ops g now p = GenerateKeyAlg kc ops AlgHS256 g now p"

definition as_result :: "go_error option \<Rightarrow> unit result" where
  "as_result e = (case e of None \<Rightarrow> Ok () | Some err \<Rightarrow> Err err)"

definition PromoteKey :: "key_codec \<Rightarrow> 'w keyring_store_ops \<Rightarrow> string \<Rightarrow> 'w keys_state \<Rightarrow> go_error option \<times> 'w keys_state" where
  "PromoteKey kc ops ident p =
     (case mutateKeys kc ops (\<lambda>_ r. map_prod (\<lambda>e. wrap_err InvalidArgument ''promote key'' (as_result e)) id (kr_Promote ident r)) p of
        (Err err, p) \<Rightarrow> (Some err, p)
      | (Ok _, p) \<Rightarrow> (None, p\<lparr>ky_rotations := ky_rotations p @ [''promoted'']\<rparr>))"

definition RetireKey ::
  "key_codec \<Rightarrow> 'w keyring_store_ops \<Rightarrow> string \<Rightarrow> (nat \<Rightarrow> go_time) \<Rightarrow> 'w keys_state \<Rightarrow> go_error option \<times> 'w keys_state" where
  "RetireKey kc ops ident now p =
     (case mutateKeys kc ops (\<lambda>n r. map_prod (\<lambda>e. wrap_err InvalidArgument ''retire key'' (as_result e)) id (kr_Retire ident (now n) r)) p of
        (Err err, p) \<Rightarrow> (Some err, p)
      | (Ok _, p) \<Rightarrow> (None, p\<lparr>ky_rotations := ky_rotations p @ [''retired'']\<rparr>))"

subsection \<open>Mutations over a shared store\<close>

context keyring_store
begin

text \<open>
  \<open>Q r c\<close> relates a ring of this node to contents of the backend; it is to hold for the ring and
  all contents of the revision it was derived from.  Reloading establishes that the ring is what
  the backend holds.
\<close>

definition loaded_from :: "key_codec \<Rightarrow> KeyRing \<Rightarrow> 'c \<Rightarrow> bool" where
  "loaded_from kc r c \<longleftrightarrow> (\<exists>b fresh r1. body c = Some b \<and> dec b = Ok fresh \<and> kr_LoadSnapshot kc (kr_Snapshot kc fresh) r1 = (None, r))"

lemma reload_current:
  assumes "inv w" "ky_store p = Some w" "reloadKeysLocked kc ops p = (None, p')"
  obtains w' where "ky_store p' = Some w'" "inv w'" "other\<^sup>*\<^sup>* (stored w) (stored w')"
    "\<And>c. other\<^sup>*\<^sup>* (stored w') c \<Longrightarrow> base w' c \<Longrightarrow> loaded_from kc (ky_ring p') c"
proof -
  obtain fresh w' where l: "ks_Load ops w = (Ok fresh, w')"
    and s: "kr_LoadSnapshot kc (kr_Snapshot kc fresh) (ky_ring p) = (None, ky_ring p')" "ky_store p' = Some w'"
    using assms(2,3) by (auto simp: reloadKeysLocked_def split: prod.splits sum.splits)
  obtain c b where c: "other\<^sup>*\<^sup>* (stored w) c" "other\<^sup>*\<^sup>* c (stored w')" "body c = Some b" "dec b = Ok fresh"
    "\<And>c'. other\<^sup>*\<^sup>* c c' \<Longrightarrow> base w' c' \<Longrightarrow> body c' = Some b" using Load_ok [OF assms(1) l] by blast
  have "inv w'" using Load_inv [OF assms(1)] l by simp
  moreover have "other\<^sup>*\<^sup>* (stored w) (stored w')" using c(1,2) by (rule rtranclp_trans)
  moreover have "loaded_from kc (ky_ring p') c'" if "other\<^sup>*\<^sup>* (stored w') c'" "base w' c'" for c'
    using c(4) c(5) [OF rtranclp_trans [OF c(2) that(1)] that(2)] s(1) by (auto simp: loaded_from_def)
  ultimately show ?thesis using s(2) that by blast
qed

lemma mutate_loop_safe:
  assumes "inv w" "ky_store p = Some w" "mutate_loop kc ops app left attempt lastErr p = (Ok k, p')"
    and "\<And>c. other\<^sup>*\<^sup>* (stored w) c \<Longrightarrow> base w c \<Longrightarrow> Q (ky_ring p) c"
    and "\<And>r c. loaded_from kc r c \<Longrightarrow> Q r c"
  shows "\<exists>n r0 c c' b w'. app n r0 = (Ok k, ky_ring p') \<and> other\<^sup>*\<^sup>* (stored w) c \<and> Q r0 c \<and> enc (ky_ring p') = Ok b \<and>
    body c' = Some b \<and> other\<^sup>*\<^sup>* c' (stored w') \<and> ky_store p' = Some w' \<and> inv w'"
  using assms(1-4)
proof (induction left arbitrary: p w attempt lastErr)
  case (Suc left)
  obtain k1 ring where a: "app attempt (ky_ring p) = (Ok k1, ring)"
    using Suc.prems(3) by (auto split: prod.splits sum.splits)
  obtain e w1 where s: "ks_Save ops ring w = (e, w1)" by fastforce
  have pers: "persistKeyRing ops (p\<lparr>ky_ring := ring\<rparr>) = (e, p\<lparr>ky_ring := ring, ky_store := Some w1\<rparr>)"
    using Suc.prems(2) s by (simp add: persistKeyRing_def)
  have i1: "inv w1" using Save_inv [OF Suc.prems(1), of ring] s by simp
  show ?case
  proof (cases e)
    case None
    then have p': "p' = p\<lparr>ky_ring := ring, ky_store := Some w1\<rparr>" "k1 = k" using Suc.prems(3) a pers by auto
    obtain c c' b where "other\<^sup>*\<^sup>* (stored w) c" "base w c" "enc ring = Ok b" "body c' = Some b" "other\<^sup>*\<^sup>* c' (stored w1)"
      using Save_ok [OF Suc.prems(1)] s None by blast
    with Suc.prems(4) a i1 p' show ?thesis by fastforce
  next
    case (Some err)
    then obtain p2 where conf: "errors_Is err ErrKeyRingConflict"
      and r: "reloadKeysLocked kc ops (p\<lparr>ky_ring := ring, ky_store := Some w1\<rparr>) = (None, p2)"
      and rest: "mutate_loop kc ops app left (Suc attempt) err p2 = (Ok k, p')"
      using Suc.prems(3) a pers by (auto split: if_splits prod.splits option.splits)
    obtain w2 where w2: "ky_store p2 = Some w2" "inv w2" "other\<^sup>*\<^sup>* (stored w1) (stored w2)"
      "\<And>c. other\<^sup>*\<^sup>* (stored w2) c \<Longrightarrow> base w2 c \<Longrightarrow> loaded_from kc (ky_ring p2) c"
      using reload_current [OF i1 _ r] by auto
    have "other\<^sup>*\<^sup>* (stored w) (stored w1)" using Save_conflict [OF Suc.prems(1)] s Some conf by blast
    then have reach: "other\<^sup>*\<^sup>* (stored w) (stored w2)" using w2(3) by (rule rtranclp_trans)
    from Suc.IH [OF w2(2,1) rest] w2(4) assms(5) show ?thesis using reach by (blast intro: rtranclp_trans)
  qed
qed simp

lemmas mutateKeys_safe = mutate_loop_safe [where left = maxKeyMutationAttempts and attempt = 0 and lastErr = "Plain []", folded mutateKeys_def]

end

text \<open>A save that fails for another reason than a conflict leaves the mutated ring in use.\<close>

lemma mutateKeys_unpersisted:
  assumes "app 0 (ky_ring p) = (Ok k, ring)" "ky_store p = Some w" "ks_Save ops ring w = (Some err, w')"
    and "\<not> errors_Is err ErrKeyRingConflict"
  shows "mutateKeys kc ops app p = (Err (err_Wrap Internal ''persist keyring'' err), p\<lparr>ky_ring := ring, ky_store := Some w'\<rparr>)"
  using assms by (simp add: mutateKeys_def maxKeyMutationAttempts_def eval_nat_numeral persistKeyRing_def)

end
