(* ===== verification/RedisKeys.thy ===== *)
theory RedisKeys
  imports KeyRotation GoStrings
begin

text \<open>
  The Redis-backed key ring store (\<^verbatim>\<open>src/auth/redis_keyringstore.go\<close>).

  Redis and its client are a parameter, \<open>redis_ops\<close>: reading a key, reading it under a \<^verbatim>\<open>WATCH\<close>,
  and executing a transaction.  \<open>redis_ok\<close> states what Redis documents of them, other nodes
  interfering at any moment.  The version counter is an int64 in the code; it grows by one per
  rotation and the model does not wrap it around.
\<close>

datatype redis_value = RStr string | RInt int

type_synonym redis_db = "string \<Rightarrow> redis_value option"

datatype redis_cmd = SetCmd string redis_value | PublishCmd string int

datatype tx_result = TxOk | TxFailedErr | TxErr go_error

record 'r redis_ops =
  rd_Get :: "string \<Rightarrow> 'r \<Rightarrow> string option result \<times> 'r"
  rd_GetInt64 :: "string \<Rightarrow> 'r \<Rightarrow> int option result \<times> 'r"
  rd_WatchGetInt64 :: "string \<Rightarrow> 'r \<Rightarrow> int option result \<times> 'r"
  rd_TxPipelined :: "redis_cmd list \<Rightarrow> 'r \<Rightarrow> tx_result \<times> 'r"

definition versionUnknown :: int where
  "versionUnknown = -1"

definition maxSaveAttempts :: nat where
  "maxSaveAttempts = 5"

record 'r RedisKeyRingStore =
  rk_client :: 'r
  rk_keyPrefix :: string
  rk_lastVersion :: int
  rk_reconcileEvery :: duration

definition NewRedisKeyRingStore :: "'r \<Rightarrow> 'r RedisKeyRingStore" where
  "NewRedisKeyRingStore client = \<lparr>rk_client = client, rk_keyPrefix = ''parsec'', rk_lastVersion = versionUnknown, rk_reconcileEvery = 0\<rparr>"

definition WithKeyPrefix :: "string \<Rightarrow> 'r RedisKeyRingStore \<Rightarrow> 'r RedisKeyRingStore" where
  "WithKeyPrefix p s = s\<lparr>rk_keyPrefix := (if p = [] then ''parsec'' else p)\<rparr>"

definition WithReconcileInterval :: "duration \<Rightarrow> 'r RedisKeyRingStore \<Rightarrow> 'r RedisKeyRingStore" where
  "WithReconcileInterval d s = s\<lparr>rk_reconcileEvery := d\<rparr>"

definition keyringKey :: "string \<Rightarrow> string" where
  "keyringKey prefix = prefix @ '':keyring''"

definition versionKey :: "string \<Rightarrow> string" where
  "versionKey prefix = prefix @ '':keyring:version''"

definition eventChan :: "string \<Rightarrow> string" where
  "eventChan prefix = prefix @ '':keyring:events''"

definition rks_Version :: "'r RedisKeyRingStore \<Rightarrow> int" where
  "rks_Version s = rk_lastVersion s"

definition reconcileInterval :: "'r RedisKeyRingStore \<Rightarrow> duration" where
  "reconcileInterval s = (if rk_reconcileEvery s = 0 then 30 * second else rk_reconcileEvery s)"

definition readVersion :: "'r redis_ops \<Rightarrow> 'r RedisKeyRingStore \<Rightarrow> int result \<times> 'r RedisKeyRingStore" where
  "readVersion rd s =
     (case rd_GetInt64 rd (versionKey (rk_keyPrefix s)) (rk_client s) of
        (Ok None, c) \<Rightarrow> (Ok 0, s\<lparr>rk_client := c\<rparr>)
      | (Err _, c) \<Rightarrow> (Err (Plain ''redis Get keyring version: %w''), s\<lparr>rk_client := c\<rparr>)
      | (Ok (Some v), c) \<Rightarrow> (Ok v, s\<lparr>rk_client := c\<rparr>))"

fun load_loop ::
  "key_codec \<Rightarrow> snap_codec \<Rightarrow> 'r redis_ops \<Rightarrow> nat \<Rightarrow> 'r RedisKeyRingStore \<Rightarrow> KeyRing result \<times> 'r RedisKeyRingStore" where
  "load_loop kc sc rd 0 s = (Err (Plain ''load keyring: version kept changing after %d attempts''), s)"
| "load_loop kc sc rd (Suc left) s =
     (case readVersion rd s of
        (Err err, s) \<Rightarrow> (Err err, s)
      | (Ok before, s) \<Rightarrow>
          (case rd_Get rd (keyringKey (rk_keyPrefix s)) (rk_client s) of
             (Ok None, c) \<Rightarrow> (Err ErrNotExist, s\<lparr>rk_client := c, rk_lastVersion := before\<rparr>)
           | (Err _, c) \<Rightarrow> (Err (Plain ''redis Get keyring: %w''), s\<lparr>rk_client := c\<rparr>)
           | (Ok (Some bdy), c) \<Rightarrow>
               (case readVersion rd (s\<lparr>rk_client := c\<rparr>) of
                  (Err err, s) \<Rightarrow> (Err err, s)
                | (Ok after, s) \<Rightarrow>
                    if before \<noteq> after then load_loop kc sc rd left s
                    else case DecodeKeyRing kc sc bdy of
                      Err err \<Rightarrow> (Err err, s)
                    | Ok ring \<Rightarrow> (Ok ring, s\<lparr>rk_lastVersion := after\<rparr>))))"

definition rks_Load ::
  "key_codec \<Rightarrow> snap_codec \<Rightarrow> 'r redis_ops \<Rightarrow> 'r RedisKeyRingStore \<Rightarrow> KeyRing result \<times> 'r RedisKeyRingStore" where
  "rks_Load kc sc rd s = load_loop kc sc rd maxSaveAttempts s"

fun save_loop :: "'r redis_ops \<Rightarrow> bytes \<Rightarrow> int \<Rightarrow> nat \<Rightarrow> 'r RedisKeyRingStore \<Rightarrow> go_error option \<times> 'r RedisKeyRingStore" where
  "save_loop rd bdy expected 0 s = (Some (Plain ''save keyring: contention after %d attempts''), s)"
| "save_loop rd bdy expected (Suc left) s =
     (case rd_WatchGetInt64 rd (versionKey (rk_keyPrefix s)) (rk_client s) of
        (Err _, c) \<Rightarrow> (Some (Plain ''save keyring: %w''), s\<lparr>rk_client := c\<rparr>)
      | (Ok v, c) \<Rightarrow>
          let current = (case v of None \<Rightarrow> 0 | Some n \<Rightarrow> n) in
          if expected \<noteq> versionUnknown \<and> current \<noteq> expected then (Some ErrKeyRingConflict, s\<lparr>rk_client := c\<rparr>)
          else
            let written = current + 1 in
            (case rd_TxPipelined rd
                    [SetCmd (keyringKey (rk_keyPrefix s)) (RStr bdy), SetCmd (versionKey (rk_keyPrefix s)) (RInt written),
                     PublishCmd (eventChan (rk_keyPrefix s)) written] c of
               (TxOk, c) \<Rightarrow> (None, s\<lparr>rk_client := c, rk_lastVersion := written\<rparr>)
             | (TxFailedErr, c) \<Rightarrow> save_loop rd bdy expected left (s\<lparr>rk_client := c\<rparr>)
             | (TxErr _, c) \<Rightarrow> (Some (Plain ''save keyring: %w''), s\<lparr>rk_client := c\<rparr>)))"

definition rks_Save ::
  "key_codec \<Rightarrow> snap_codec \<Rightarrow> 'r redis_ops \<Rightarrow> KeyRing \<Rightarrow> 'r RedisKeyRingStore \<Rightarrow> go_error option \<times> 'r RedisKeyRingStore" where
  "rks_Save kc sc rd r s =
     (case EncodeKeyRing kc sc r of
        Err err \<Rightarrow> (Some err, s)
      | Ok bdy \<Rightarrow> save_loop rd bdy (rk_lastVersion s) maxSaveAttempts s)"

definition rks_Ensure ::
  "key_codec \<Rightarrow> snap_codec \<Rightarrow> 'r redis_ops \<Rightarrow> generators \<Rightarrow> go_time \<Rightarrow> 'r RedisKeyRingStore \<Rightarrow>
   (KeyRing \<times> bool) result \<times> 'r RedisKeyRingStore" where
  "rks_Ensure kc sc rd g now s =
     (case rks_Load kc sc rd s of
        (Ok r, s) \<Rightarrow> (Ok (r, False), s)
      | (Err err, s) \<Rightarrow>
          if \<not> errors_Is err ErrNotExist then (Err err, s)
          else case kr_Generate kc g now NewKeyRing of
            (Err err, _) \<Rightarrow> (Err err, s)
          | (Ok _, r) \<Rightarrow>
              (case rks_Save kc sc rd r s of
                 (None, s) \<Rightarrow> (Ok (r, True), s)
               | (Some err, s) \<Rightarrow>
                   if \<not> errors_Is err ErrKeyRingConflict then (Err err, s)
                   else case rks_Load kc sc rd s of (Err err, s) \<Rightarrow> (Err err, s) | (Ok r, s) \<Rightarrow> (Ok (r, False), s)))"

definition RedisKeyRingStore_ops :: "key_codec \<Rightarrow> snap_codec \<Rightarrow> 'r redis_ops \<Rightarrow> 'r RedisKeyRingStore keyring_store_ops" where
  "RedisKeyRingStore_ops kc sc rd =
     \<lparr>ks_Load = rks_Load kc sc rd, ks_Save = rks_Save kc sc rd, ks_Ensure = Some (rks_Ensure kc sc rd)\<rparr>"

text \<open>
  What \<^verbatim>\<open>Watch\<close> does for an event or a tick of the reconcile timer: load, and hand the ring on if
  its version is above the last one notified.  The answer is the ring for \<^verbatim>\<open>onChange\<close>.
\<close>

definition deliver ::
  "key_codec \<Rightarrow> snap_codec \<Rightarrow> 'r redis_ops \<Rightarrow> int \<times> 'r RedisKeyRingStore \<Rightarrow> KeyRing option \<times> int \<times> 'r RedisKeyRingStore" where
  "deliver kc sc rd = (\<lambda>(notified, s).
     case rks_Load kc sc rd s of
       (Err _, s) \<Rightarrow> (None, notified, s)
     | (Ok ring, s) \<Rightarrow>
         let v = rk_lastVersion s in
         if v \<le> notified then (None, notified, s) else (Some ring, v, s))"

subsection \<open>What Redis documents\<close>

fun run_cmd :: "redis_cmd \<Rightarrow> redis_db \<Rightarrow> redis_db" where
  "run_cmd (SetCmd k v) d = d(k \<mapsto> v)"
| "run_cmd (PublishCmd ch n) d = d"

definition str_at :: "redis_db \<Rightarrow> string \<Rightarrow> string option" where
  "str_at d k = (case d k of None \<Rightarrow> None | Some (RStr s) \<Rightarrow> Some s
     | Some (RInt i) \<Rightarrow> Some (FormatInt i))"

text \<open>
  The other nodes write the two keys only together, as a save does, and leave other keys' contents
  open: \<open>node_write\<close>.
\<close>

definition cur :: "string \<Rightarrow> redis_db \<Rightarrow> int" where
  "cur pfx d = (case d (versionKey pfx) of Some (RInt v) \<Rightarrow> v | _ \<Rightarrow> 0)"

definition node_write :: "string \<Rightarrow> redis_db \<Rightarrow> redis_db \<Rightarrow> bool" where
  "node_write pfx d d' \<longleftrightarrow>
     d' (keyringKey pfx) = d (keyringKey pfx) \<and> d' (versionKey pfx) = d (versionKey pfx) \<or>
     (\<exists>b. d' (keyringKey pfx) = Some (RStr b)) \<and> d' (versionKey pfx) = Some (RInt (cur pfx d + 1))"

text \<open>
  A read answers from a state between its call and its return.  A transaction that is executed
  found the watched key unchanged since the read under \<^verbatim>\<open>WATCH\<close> and runs without interleaving; one that
  is refused did nothing, and one that failed otherwise may or may not have run.
\<close>

definition between :: "string \<Rightarrow> redis_db \<Rightarrow> redis_db \<Rightarrow> redis_db \<Rightarrow> bool" where
  "between pfx d0 d d1 \<longleftrightarrow> (node_write pfx)\<^sup>*\<^sup>* d0 d \<and> (node_write pfx)\<^sup>*\<^sup>* d d1"

definition get_ok :: "string \<Rightarrow> 'r redis_ops \<Rightarrow> ('r \<Rightarrow> redis_db) \<Rightarrow> bool" where
  "get_ok pfx rd db \<longleftrightarrow> (\<forall>k r v r'. rd_Get rd k r = (v, r') \<longrightarrow>
     (\<exists>d. between pfx (db r) d (db r') \<and> (\<forall>x. v = Ok x \<longrightarrow> x = str_at d k)))"

definition get_int_ok :: "string \<Rightarrow> 'r redis_ops \<Rightarrow> ('r \<Rightarrow> redis_db) \<Rightarrow> bool" where
  "get_int_ok pfx rd db \<longleftrightarrow> (\<forall>k r v r'. rd_GetInt64 rd k r = (v, r') \<longrightarrow>
     (\<exists>d. between pfx (db r) d (db r') \<and> (\<forall>x. v = Ok x \<longrightarrow> d k = map_option RInt x)))"

definition watch_ok :: "string \<Rightarrow> 'r redis_ops \<Rightarrow> ('r \<Rightarrow> redis_db) \<Rightarrow> bool" where
  "watch_ok pfx rd db \<longleftrightarrow> (\<forall>k r v r'. rd_WatchGetInt64 rd k r = (v, r') \<longrightarrow>
     (\<exists>d. between pfx (db r) d (db r') \<and> (\<forall>x. v = Ok x \<longrightarrow> d k = map_option RInt x \<and>
        (\<forall>cmds r''. rd_TxPipelined rd cmds r' = (TxOk, r'') \<longrightarrow>
           (\<exists>d'. (node_write pfx)\<^sup>*\<^sup>* d d' \<and> d' k = d k \<and> (node_write pfx)\<^sup>*\<^sup>* (fold run_cmd cmds d') (db r''))))))"

definition tx_ok :: "string \<Rightarrow> 'r redis_ops \<Rightarrow> ('r \<Rightarrow> redis_db) \<Rightarrow> bool" where
  "tx_ok pfx rd db \<longleftrightarrow>
     (\<forall>cmds r r'. rd_TxPipelined rd cmds r = (TxFailedErr, r') \<longrightarrow> (node_write pfx)\<^sup>*\<^sup>* (db r) (db r')) \<and>
     (\<forall>cmds r e r'. rd_TxPipelined rd cmds r = (TxErr e, r') \<longrightarrow> (node_write pfx)\<^sup>*\<^sup>* (db r) (db r') \<or>
        (\<exists>d. (node_write pfx)\<^sup>*\<^sup>* (db r) d \<and> (node_write pfx)\<^sup>*\<^sup>* (fold run_cmd cmds d) (db r')))"

definition redis_ok :: "string \<Rightarrow> 'r redis_ops \<Rightarrow> ('r \<Rightarrow> redis_db) \<Rightarrow> bool" where
  "redis_ok pfx rd db \<longleftrightarrow> get_ok pfx rd db \<and> get_int_ok pfx rd db \<and> watch_ok pfx rd db \<and> tx_ok pfx rd db"

lemma redis_okD:
  assumes "redis_ok pfx rd db"
  shows "rd_Get rd k r = (v, r') \<Longrightarrow> \<exists>d. between pfx (db r) d (db r') \<and> (\<forall>x. v = Ok x \<longrightarrow> x = str_at d k)"
    and "rd_GetInt64 rd k r = (n, r') \<Longrightarrow> \<exists>d. between pfx (db r) d (db r') \<and> (\<forall>x. n = Ok x \<longrightarrow> d k = map_option RInt x)"
    and "rd_WatchGetInt64 rd k r = (n, r') \<Longrightarrow> \<exists>d. between pfx (db r) d (db r') \<and> (\<forall>x. n = Ok x \<longrightarrow> d k = map_option RInt x \<and>
        (\<forall>cmds r''. rd_TxPipelined rd cmds r' = (TxOk, r'') \<longrightarrow>
           (\<exists>d'. (node_write pfx)\<^sup>*\<^sup>* d d' \<and> d' k = d k \<and> (node_write pfx)\<^sup>*\<^sup>* (fold run_cmd cmds d') (db r''))))"
    and "rd_TxPipelined rd cmds r = (TxFailedErr, r') \<Longrightarrow> (node_write pfx)\<^sup>*\<^sup>* (db r) (db r')"
    and "rd_TxPipelined rd cmds r = (TxErr e, r') \<Longrightarrow> (node_write pfx)\<^sup>*\<^sup>* (db r) (db r') \<or>
        (\<exists>d. (node_write pfx)\<^sup>*\<^sup>* (db r) d \<and> (node_write pfx)\<^sup>*\<^sup>* (fold run_cmd cmds d) (db r'))"
proof -
  have parts: "get_ok pfx rd db" "get_int_ok pfx rd db" "watch_ok pfx rd db" "tx_ok pfx rd db" using assms by (simp_all add: redis_ok_def)
  show "rd_Get rd k r = (v, r') \<Longrightarrow> \<exists>d. between pfx (db r) d (db r') \<and> (\<forall>x. v = Ok x \<longrightarrow> x = str_at d k)"
    by (rule parts(1) [unfolded get_ok_def, THEN spec, THEN spec, THEN spec, THEN spec, THEN mp])
  show "rd_GetInt64 rd k r = (n, r') \<Longrightarrow> \<exists>d. between pfx (db r) d (db r') \<and> (\<forall>x. n = Ok x \<longrightarrow> d k = map_option RInt x)"
    by (rule parts(2) [unfolded get_int_ok_def, THEN spec, THEN spec, THEN spec, THEN spec, THEN mp])
  show "rd_WatchGetInt64 rd k r = (n, r') \<Longrightarrow> \<exists>d. between pfx (db r) d (db r') \<and> (\<forall>x. n = Ok x \<longrightarrow> d k = map_option RInt x \<and>
        (\<forall>cmds r''. rd_TxPipelined rd cmds r' = (TxOk, r'') \<longrightarrow>
           (\<exists>d'. (node_write pfx)\<^sup>*\<^sup>* d d' \<and> d' k = d k \<and> (node_write pfx)\<^sup>*\<^sup>* (fold run_cmd cmds d') (db r''))))"
    by (rule parts(3) [unfolded watch_ok_def, THEN spec, THEN spec, THEN spec, THEN spec, THEN mp])
  show "rd_TxPipelined rd cmds r = (TxFailedErr, r') \<Longrightarrow> (node_write pfx)\<^sup>*\<^sup>* (db r) (db r')"
    by (rule parts(4) [unfolded tx_ok_def, THEN conjunct1, THEN spec, THEN spec, THEN spec, THEN mp])
  show "rd_TxPipelined rd cmds r = (TxErr e, r') \<Longrightarrow> (node_write pfx)\<^sup>*\<^sup>* (db r) (db r') \<or>
        (\<exists>d. (node_write pfx)\<^sup>*\<^sup>* (db r) d \<and> (node_write pfx)\<^sup>*\<^sup>* (fold run_cmd cmds d) (db r'))"
    by (rule parts(4) [unfolded tx_ok_def, THEN conjunct2, THEN spec, THEN spec, THEN spec, THEN spec, THEN mp])
qed

subsection \<open>The store keeps the contract\<close>

lemma node_write_step:
  assumes "node_write pfx d d'"
  shows "cur pfx d' = cur pfx d \<and> str_at d' (keyringKey pfx) = str_at d (keyringKey pfx) \<or>
    cur pfx d' = cur pfx d + 1 \<and> str_at d' (keyringKey pfx) \<noteq> None"
  using assms unfolding node_write_def
proof
  assume "d' (keyringKey pfx) = d (keyringKey pfx) \<and> d' (versionKey pfx) = d (versionKey pfx)"
  then show ?thesis by (simp add: cur_def str_at_def)
next
  assume "(\<exists>b. d' (keyringKey pfx) = Some (RStr b)) \<and> d' (versionKey pfx) = Some (RInt (cur pfx d + 1))"
  then show ?thesis by (auto simp: cur_def [of pfx d'] str_at_def)
qed

lemma node_writes:
  assumes "(node_write pfx)\<^sup>*\<^sup>* d d'"
  shows "cur pfx d \<le> cur pfx d'"
    and "cur pfx d' = cur pfx d \<Longrightarrow> str_at d' (keyringKey pfx) = str_at d (keyringKey pfx)"
    and "str_at d' (keyringKey pfx) = None \<Longrightarrow> str_at d (keyringKey pfx) = None \<and> cur pfx d' = cur pfx d"
proof -
  from assms have "cur pfx d \<le> cur pfx d' \<and> (cur pfx d' = cur pfx d \<longrightarrow> str_at d' (keyringKey pfx) = str_at d (keyringKey pfx)) \<and>
      (str_at d' (keyringKey pfx) = None \<longrightarrow> str_at d (keyringKey pfx) = None \<and> cur pfx d' = cur pfx d)"
  proof (induction rule: rtranclp_induct)
    case (step d1 d2)
    from step.IH node_write_step [OF step.hyps(2)] show ?case by (elim disjE conjE) simp_all
  qed simp
  then show "cur pfx d \<le> cur pfx d'"
    and "cur pfx d' = cur pfx d \<Longrightarrow> str_at d' (keyringKey pfx) = str_at d (keyringKey pfx)"
    and "str_at d' (keyringKey pfx) = None \<Longrightarrow> str_at d (keyringKey pfx) = None \<and> cur pfx d' = cur pfx d" by blast+
qed

definition rks_inv :: "string \<Rightarrow> ('r \<Rightarrow> redis_db) \<Rightarrow> 'r RedisKeyRingStore \<Rightarrow> bool" where
  "rks_inv pfx db s \<longleftrightarrow> rk_keyPrefix s = pfx \<and> 0 \<le> cur pfx (db (rk_client s))"

definition rks_base :: "string \<Rightarrow> 'r RedisKeyRingStore \<Rightarrow> redis_db \<Rightarrow> bool" where
  "rks_base pfx s d \<longleftrightarrow> rk_lastVersion s = versionUnknown \<or> cur pfx d = rk_lastVersion s"

definition ring_body :: "string \<Rightarrow> redis_db \<Rightarrow> bytes option" where
  "ring_body pfx d = str_at d (keyringKey pfx)"

lemma rks_inv_later: "rks_inv pfx db s \<Longrightarrow> (node_write pfx)\<^sup>*\<^sup>* (db (rk_client s)) (db c) \<Longrightarrow> rks_inv pfx db (s\<lparr>rk_client := c\<rparr>)"
  using node_writes(1) by (fastforce simp: rks_inv_def)

lemma between_trans: "(node_write pfx)\<^sup>*\<^sup>* a b \<Longrightarrow> between pfx b d c \<Longrightarrow> between pfx a d c"
  "between pfx a d b \<Longrightarrow> (node_write pfx)\<^sup>*\<^sup>* b c \<Longrightarrow> between pfx a d c" "between pfx a d b \<Longrightarrow> (node_write pfx)\<^sup>*\<^sup>* a b"
  unfolding between_def by (blast intro: rtranclp_trans)+

lemma readVersion_ok:
  assumes "redis_ok pfx rd db" "rks_inv pfx db s" "readVersion rd s = (v, s')"
  shows "\<exists>c d. s' = s\<lparr>rk_client := c\<rparr> \<and> between pfx (db (rk_client s)) d (db c) \<and>
    (\<forall>x. v = Ok x \<longrightarrow> x = cur pfx d) \<and> (\<forall>e. v = Err e \<longrightarrow> \<not> errors_Is e ErrNotExist)"
proof -
  obtain w c where g: "rd_GetInt64 rd (versionKey pfx) (rk_client s) = (w, c)" by fastforce
  from redis_okD(2) [OF assms(1) this]
  obtain d where d: "between pfx (db (rk_client s)) d (db c)" "\<And>x. w = Ok x \<Longrightarrow> d (versionKey pfx) = map_option RInt x" by blast
  have "readVersion rd s = (case w of Ok None \<Rightarrow> (Ok 0, s\<lparr>rk_client := c\<rparr>)
      | Err _ \<Rightarrow> (Err (Plain ''redis Get keyring version: %w''), s\<lparr>rk_client := c\<rparr>) | Ok (Some v) \<Rightarrow> (Ok v, s\<lparr>rk_client := c\<rparr>))"
    using assms(2) g by (simp add: readVersion_def rks_inv_def split: sum.split option.split)
  then have "s' = s\<lparr>rk_client := c\<rparr>" "\<And>x. v = Ok x \<Longrightarrow> x = cur pfx d" "\<And>e. v = Err e \<Longrightarrow> \<not> errors_Is e ErrNotExist"
    using assms(3) d(2) by (auto simp: cur_def ErrNotExist_def split: sum.splits option.splits)
  with d(1) show ?thesis by blast
qed

definition load_post :: "key_codec \<Rightarrow> snap_codec \<Rightarrow> string \<Rightarrow> redis_db \<Rightarrow> redis_db \<Rightarrow> KeyRing result \<Rightarrow> int \<Rightarrow> bool" where
  "load_post kc sc pfx d0 d1 res ver \<longleftrightarrow> (\<exists>d. between pfx d0 d d1 \<and>
    (case res of
       Ok r \<Rightarrow> ver = cur pfx d \<and> (\<exists>b. ring_body pfx d = Some b \<and> DecodeKeyRing kc sc b = Ok r)
     | Err e \<Rightarrow> errors_Is e ErrNotExist \<longrightarrow>
         ring_body pfx d = None \<and> ver = cur pfx d \<or> (\<exists>b. ring_body pfx d = Some b \<and> DecodeKeyRing kc sc b = Err e)))"

lemma load_post_later: "(node_write pfx)\<^sup>*\<^sup>* d d0 \<Longrightarrow> load_post kc sc pfx d0 d1 res ver \<Longrightarrow> load_post kc sc pfx d d1 res ver"
  unfolding load_post_def using between_trans(1) by blast

lemma load_loop_ok:
  assumes "redis_ok pfx rd db" "rks_inv pfx db s" "load_loop kc sc rd left s = (res, s')"
  shows "rks_inv pfx db s' \<and> load_post kc sc pfx (db (rk_client s)) (db (rk_client s')) res (rk_lastVersion s')"
  using assms(2,3)
proof (induction left arbitrary: s)
  case 0
  then show ?case by (auto simp: load_post_def between_def ErrNotExist_def)
next
  case (Suc left)
  obtain v1 s1 where rv1: "readVersion rd s = (v1, s1)" by fastforce
  obtain c1 d1 where 1: "s1 = s\<lparr>rk_client := c1\<rparr>" "between pfx (db (rk_client s)) d1 (db c1)"
    "\<And>x. v1 = Ok x \<Longrightarrow> x = cur pfx d1" "\<And>e. v1 = Err e \<Longrightarrow> \<not> errors_Is e ErrNotExist"
    using readVersion_ok [OF assms(1) Suc.prems(1) rv1] by blast
  have i1: "rks_inv pfx db s1" using rks_inv_later [OF Suc.prems(1)] between_trans(3) [OF 1(2)] 1(1) by blast
  have pfx: "rk_keyPrefix s1 = pfx" using i1 by (simp add: rks_inv_def)
  obtain g c2 where g: "rd_Get rd (keyringKey pfx) c1 = (g, c2)" by fastforce
  from redis_okD(1) [OF assms(1) g] obtain d2 where 2: "between pfx (db c1) d2 (db c2)" "\<And>x. g = Ok x \<Longrightarrow> x = ring_body pfx d2"
    unfolding ring_body_def by blast
  let ?s2 = "s1\<lparr>rk_client := c2\<rparr>"
  have d12: "(node_write pfx)\<^sup>*\<^sup>* d1 d2" using 1(2) 2(1) unfolding between_def by (meson rtranclp_trans)
  have b2: "between pfx (db (rk_client s)) d2 (db c2)"
    using between_trans(1) [OF between_trans(3) [OF 1(2)] 2(1)] .
  have i2: "rks_inv pfx db ?s2" using rks_inv_later [OF i1] between_trans(3) [OF 2(1)] 1(1) by simp
  obtain v3 s3 where rv3: "readVersion rd ?s2 = (v3, s3)" by fastforce
  obtain c3 d3 where 3: "s3 = s1\<lparr>rk_client := c3\<rparr>" "between pfx (db c2) d3 (db c3)"
    "\<And>x. v3 = Ok x \<Longrightarrow> x = cur pfx d3" "\<And>e. v3 = Err e \<Longrightarrow> \<not> errors_Is e ErrNotExist"
    using readVersion_ok [OF assms(1) i2 rv3] by auto
  have i3: "rks_inv pfx db s3" using rks_inv_later [OF i2] between_trans(3) [OF 3(2)] 3(1) by simp
  have b3: "between pfx (db (rk_client s)) d2 (db c3)" using between_trans(2) [OF b2 between_trans(3) [OF 3(2)]] .
  have d23: "(node_write pfx)\<^sup>*\<^sup>* d2 d3" using 2(1) 3(2) unfolding between_def by (meson rtranclp_trans)
  note run = Suc.prems(2) [unfolded load_loop.simps rv1 prod.case]
  show ?case
  proof (cases v1)
    case (Inl e)
    then have "res = Err e" "s' = s1" using run by simp_all
    then show ?thesis using i1 1 Inl by (auto simp: load_post_def)
  next
    case (Inr before)
    then have before: "before = cur pfx d1" using 1(3) by blast
    note run = run [unfolded Inr sum.case pfx, simplified 1(1), simplified, unfolded g prod.case]
    consider (err) e where "g = Err e" | (empty) "g = Ok None" | (got) b where "g = Ok (Some b)" by (metis obj_sumE option.exhaust)
    then show ?thesis
    proof cases
      case err
      then have "res = Err (Plain ''redis Get keyring: %w'')" "s' = ?s2" using run 1(1) by simp_all
      then show ?thesis using i2 b2 by (auto simp: load_post_def ErrNotExist_def)
    next
      case empty
      then have r: "res = Err ErrNotExist" "s' = ?s2\<lparr>rk_lastVersion := before\<rparr>" using run 1(1) by simp_all
      have "ring_body pfx d2 = None" using 2(2) [OF empty] by simp
      with node_writes(3) [OF d12] before have "before = cur pfx d2" "ring_body pfx d2 = None" by (auto simp: ring_body_def)
      with r i2 b2 show ?thesis by (auto simp: load_post_def rks_inv_def)
    next
      case got
      have b: "ring_body pfx d2 = Some b" using 2(2) [OF got] by simp
      have rv3': "readVersion rd (s\<lparr>rk_client := c2\<rparr>) = (v3, s3)" using rv3 1(1) by simp
      note run = run [unfolded got sum.case option.case rv3' prod.case]
      show ?thesis
      proof (cases v3)
        case (Inl e)
        then have "res = Err e" "s' = s3" using run rv3' by simp_all
        then show ?thesis using i3 b3 3 Inl by (auto simp: load_post_def)
      next
        case (Inr after)
        then have after: "after = cur pfx d3" using 3(3) by blast
        show ?thesis
        proof (cases "before = after")
          case False
          then have "load_loop kc sc rd left s3 = (res, s')" using run rv3' Inr by simp
          from Suc.IH [OF i3 this] load_post_later [OF between_trans(3) [OF b3]] 3(1) show ?thesis by simp
        next
          case True
          then have "cur pfx d2 = after" using node_writes(1) [OF d12] node_writes(1) [OF d23] before after by simp
          with run rv3' Inr True b b3 i3 3(1) show ?thesis
            by (auto simp: load_post_def rks_inv_def split: sum.splits)
        qed
      qed
    qed
  qed
qed

lemma saved_db:
  fixes pfx b n d
  defines "d' \<equiv> fold run_cmd [SetCmd (keyringKey pfx) (RStr b), SetCmd (versionKey pfx) (RInt n), PublishCmd (eventChan pfx) n] d"
  shows "ring_body pfx d' = Some b" "cur pfx d' = n"
  by (simp_all add: d'_def ring_body_def str_at_def cur_def keyringKey_def versionKey_def)

definition save_post :: "string \<Rightarrow> bytes \<Rightarrow> int \<Rightarrow> redis_db \<Rightarrow> redis_db \<Rightarrow> go_error option \<Rightarrow> bool" where
  "save_post pfx b expected d0 d1 res \<longleftrightarrow>
     (case res of
        None \<Rightarrow> \<exists>d d'. (node_write pfx)\<^sup>*\<^sup>* d0 d \<and> (expected = versionUnknown \<or> cur pfx d = expected) \<and>
          ring_body pfx d' = Some b \<and> (node_write pfx)\<^sup>*\<^sup>* d' d1
      | Some e \<Rightarrow> errors_Is e ErrKeyRingConflict \<longrightarrow> (node_write pfx)\<^sup>*\<^sup>* d0 d1)"

lemma save_loop_ok:
  assumes "redis_ok pfx rd db" "rks_inv pfx db s" "save_loop rd b expected left s = (res, s')"
  shows "rks_inv pfx db s' \<and> save_post pfx b expected (db (rk_client s)) (db (rk_client s')) res"
  using assms(2,3)
proof (induction left arbitrary: s)
  case 0
  then show ?case by (auto simp: save_post_def ErrKeyRingConflict_def)
next
  case (Suc left)
  have pfx: "rk_keyPrefix s = pfx" and nn: "0 \<le> cur pfx (db (rk_client s))" using Suc.prems(1) by (auto simp: rks_inv_def)
  obtain v c where g: "rd_WatchGetInt64 rd (versionKey pfx) (rk_client s) = (v, c)" by fastforce
  from redis_okD(3) [OF assms(1) g] obtain d where d: "between pfx (db (rk_client s)) d (db c)"
    "\<And>x. v = Ok x \<Longrightarrow> d (versionKey pfx) = map_option RInt x"
    "\<And>x cmds r''. v = Ok x \<Longrightarrow> rd_TxPipelined rd cmds c = (TxOk, r'') \<Longrightarrow>
       \<exists>d'. (node_write pfx)\<^sup>*\<^sup>* d d' \<and> d' (versionKey pfx) = d (versionKey pfx) \<and> (node_write pfx)\<^sup>*\<^sup>* (fold run_cmd cmds d') (db r'')"
    by blast
  have later: "(node_write pfx)\<^sup>*\<^sup>* (db (rk_client s)) (db c)" using between_trans(3) [OF d(1)] .
  have ic: "rks_inv pfx db (s\<lparr>rk_client := c\<rparr>)" using rks_inv_later [OF Suc.prems(1) later] .
  note run = Suc.prems(2) [unfolded save_loop.simps pfx g prod.case Let_def]
  show ?case
  proof (cases v)
    case (Inl e)
    then show ?thesis using run ic by (auto simp: save_post_def ErrKeyRingConflict_def)
  next
    case (Inr x)
    define n where "n = (case x of None \<Rightarrow> 0 | Some n \<Rightarrow> n)"
    define cmds where "cmds = [SetCmd (keyringKey pfx) (RStr b), SetCmd (versionKey pfx) (RInt (n + 1)), PublishCmd (eventChan pfx) (n + 1)]"
    have n: "cur pfx d = n" using d(2) [OF Inr] by (simp add: cur_def n_def split: option.split)
    with d(1) nn have n0: "0 \<le> n" using node_writes(1) [of pfx "db (rk_client s)" d] by (simp add: between_def)
    note run = run [unfolded Inr sum.case, folded n_def, folded cmds_def]
    show ?thesis
    proof (cases "expected \<noteq> versionUnknown \<and> n \<noteq> expected")
      case True
      then show ?thesis using run ic later by (auto simp: save_post_def)
    next
      case False
      obtain t c' where t: "rd_TxPipelined rd cmds c = (t, c')" by fastforce
      note run = run [unfolded if_not_P [OF False] t prod.case]
      show ?thesis
      proof (cases t)
        case TxOk
        from d(3) [OF Inr] t TxOk obtain d' where d': "(node_write pfx)\<^sup>*\<^sup>* d d'" "d' (versionKey pfx) = d (versionKey pfx)"
          "(node_write pfx)\<^sup>*\<^sup>* (fold run_cmd cmds d') (db c')" by blast
        have fin: "ring_body pfx (fold run_cmd cmds d') = Some b" "cur pfx (fold run_cmd cmds d') = n + 1"
          unfolding cmds_def by (rule saved_db)+
        have "cur pfx d' = n" using n d'(2) by (simp add: cur_def)
        moreover have "(node_write pfx)\<^sup>*\<^sup>* (db (rk_client s)) d'" using d(1) d'(1) unfolding between_def by (meson rtranclp_trans)
        moreover have "0 \<le> cur pfx (db c')" using node_writes(1) [OF d'(3)] fin(2) n0 by simp
        moreover have "res = None" "s' = s\<lparr>rk_client := c', rk_lastVersion := n + 1\<rparr>" using run TxOk by simp_all
        ultimately show ?thesis using False fin(1) d'(3) pfx by (auto simp: save_post_def rks_inv_def)
      next
        case TxFailedErr
        then have "(node_write pfx)\<^sup>*\<^sup>* (db c) (db c')" using redis_okD(4) [OF assms(1)] t by blast
        then have "rks_inv pfx db (s\<lparr>rk_client := c'\<rparr>)" and l: "(node_write pfx)\<^sup>*\<^sup>* (db (rk_client s)) (db c')"
          using rks_inv_later [OF ic] later by (simp_all add: rtranclp_trans [OF later])
        moreover have "save_loop rd b expected left (s\<lparr>rk_client := c'\<rparr>) = (res, s')" using run TxFailedErr by simp
        ultimately have "rks_inv pfx db s'" "save_post pfx b expected (db c') (db (rk_client s')) res" using Suc.IH by force+
        with l show ?thesis by (auto simp: save_post_def split: option.splits intro: rtranclp_trans)
      next
        case (TxErr e)
        with redis_okD(5) [OF assms(1)] t
        consider "(node_write pfx)\<^sup>*\<^sup>* (db c) (db c')" | d2 where "(node_write pfx)\<^sup>*\<^sup>* (fold run_cmd cmds d2) (db c')" by blast
        then have "0 \<le> cur pfx (db c')"
        proof cases
          case 1
          then show ?thesis using rks_inv_later [OF ic] by (simp add: rks_inv_def)
        next
          case 2
          have "cur pfx (fold run_cmd cmds d2) = n + 1" unfolding cmds_def by (rule saved_db)
          then show ?thesis using node_writes(1) [OF 2] n0 by simp
        qed
        then show ?thesis using run TxErr pfx by (auto simp: save_post_def ErrKeyRingConflict_def rks_inv_def)
      qed
    qed
  qed
qed

lemma base_unique:
  assumes "rks_inv pfx db s" "(node_write pfx)\<^sup>*\<^sup>* (db (rk_client s)) d" "rk_lastVersion s' = cur pfx d"
    and "(node_write pfx)\<^sup>*\<^sup>* d d'" "rks_base pfx s' d'"
  shows "ring_body pfx d' = ring_body pfx d"
proof -
  have "0 \<le> cur pfx d" using node_writes(1) [OF assms(2)] assms(1) by (simp add: rks_inv_def)
  then have "cur pfx d' = cur pfx d" using assms(3,5) by (simp add: rks_base_def versionUnknown_def)
  then show ?thesis using node_writes(2) [OF assms(4)] by (simp add: ring_body_def)
qed

lemma redis_keyring_store:
  assumes "redis_ok pfx rd db"
  shows "keyring_store (RedisKeyRingStore_ops kc sc rd) (rks_inv pfx db) (\<lambda>s. db (rk_client s)) (node_write pfx) (rks_base pfx)
    (ring_body pfx) (DecodeKeyRing kc sc) (EncodeKeyRing kc sc)"
proof (unfold_locales, goal_cases)
  case (1 w)
  obtain r w' where "load_loop kc sc rd maxSaveAttempts w = (r, w')" by fastforce
  with load_loop_ok [OF assms 1] show ?case by (simp add: RedisKeyRingStore_ops_def rks_Load_def)
next
  case (2 w r w')
  then have "load_loop kc sc rd maxSaveAttempts w = (Ok r, w')" by (simp add: RedisKeyRingStore_ops_def rks_Load_def)
  from load_loop_ok [OF assms 2(1) this] obtain d b
    where d: "(node_write pfx)\<^sup>*\<^sup>* (db (rk_client w)) d" "(node_write pfx)\<^sup>*\<^sup>* d (db (rk_client w'))"
      "rk_lastVersion w' = cur pfx d" "ring_body pfx d = Some b" "DecodeKeyRing kc sc b = Ok r"
    by (auto simp: load_post_def between_def)
  moreover have "\<forall>d'. (node_write pfx)\<^sup>*\<^sup>* d d' \<longrightarrow> rks_base pfx w' d' \<longrightarrow> ring_body pfx d' = Some b"
    using base_unique [OF 2(1) d(1,3)] d(4) by simp
  ultimately show ?case by blast
next
  case (3 w e w')
  then have "load_loop kc sc rd maxSaveAttempts w = (Err e, w')" by (simp add: RedisKeyRingStore_ops_def rks_Load_def)
  from load_loop_ok [OF assms 3(1) this] 3(3) obtain d
    where d: "(node_write pfx)\<^sup>*\<^sup>* (db (rk_client w)) d" "(node_write pfx)\<^sup>*\<^sup>* d (db (rk_client w'))"
      "ring_body pfx d = None \<and> rk_lastVersion w' = cur pfx d \<or> (\<exists>b. ring_body pfx d = Some b \<and> DecodeKeyRing kc sc b = Err e)"
    by (auto simp: load_post_def between_def)
  moreover have "\<forall>d'. (node_write pfx)\<^sup>*\<^sup>* d d' \<longrightarrow> rks_base pfx w' d' \<longrightarrow> ring_body pfx d' = None"
    if "ring_body pfx d = None" "rk_lastVersion w' = cur pfx d"
    using base_unique [OF 3(1) d(1) that(2)] that(1) by simp
  ultimately show ?case by blast
next
  case (4 w r)
  then show ?case using save_loop_ok [OF assms 4]
    by (cases "EncodeKeyRing kc sc r") (auto simp: RedisKeyRingStore_ops_def rks_Save_def, metis prod.collapse)
next
  case (5 w r w')
  then obtain b where "EncodeKeyRing kc sc r = Ok b" "save_loop rd b (rk_lastVersion w) maxSaveAttempts w = (None, w')"
    by (auto simp: RedisKeyRingStore_ops_def rks_Save_def split: sum.splits)
  with save_loop_ok [OF assms 5(1) this(2)] show ?case by (auto simp: save_post_def rks_base_def)
next
  case (6 w r e w')
  then show ?case using save_loop_ok [OF assms 6(1)]
    by (fastforce simp: RedisKeyRingStore_ops_def rks_Save_def save_post_def split: sum.splits)
qed

text \<open>The store's own \<^verbatim>\<open>Ensure\<close> is the load-or-create that other stores get.\<close>

lemma rks_Ensure_eq:
  "EnsureKeyRingStore kc (RedisKeyRingStore_ops kc sc rd) g now s = ensure_fallback kc (RedisKeyRingStore_ops kc sc rd) g now s"
  unfolding EnsureKeyRingStore_def ensure_fallback_def rks_Ensure_def RedisKeyRingStore_ops_def keyring_store_ops.select_convs option.case ..

subsection \<open>Properties\<close>

text \<open>For the witnesses: Redis used by one node, and a codec with one text.\<close>

definition lone_redis :: "redis_db redis_ops" where
  "lone_redis =
     (let get = (\<lambda>k d. (case d k of None \<Rightarrow> Ok None | Some (RInt i) \<Rightarrow> Ok (Some i) | Some (RStr _) \<Rightarrow> Err (Plain ''invalid syntax''), d)) in
      \<lparr>rd_Get = (\<lambda>k d. (Ok (str_at d k), d)), rd_GetInt64 = get, rd_WatchGetInt64 = get,
       rd_TxPipelined = (\<lambda>cmds d. (TxOk, fold run_cmd cmds d))\<rparr>)"

lemma lone_redis_ok: "redis_ok pfx lone_redis (\<lambda>d. d)"
  by (auto simp: redis_ok_def get_ok_def get_int_ok_def watch_ok_def tx_ok_def between_def lone_redis_def Let_def
      split: option.splits redis_value.splits)

definition one_text :: snap_codec where
  "one_text = \<lparr>sc_Marshal = (\<lambda>_. Ok ''s''), sc_MarshalIndent = (\<lambda>_. Ok ''s''), sc_Unmarshal = (\<lambda>_. Err (Plain ''malformed''))\<rparr>"




definition some_gens :: generators where
  "some_gens = \<lparr>g_id = Some ''id'', g_secret = Some (replicate 32 CHR ''s''), g_ed = Err (Plain []), g_rsa = Err (Plain []), g_ec = Err (Plain [])\<rparr>"


text \<open>The same for a lone load and save: a load notes the stored version, a save compares with the noted one.\<close>

lemma lone_Load:
  assumes "rks_Load kc sc lone_redis s = (Ok fresh, s1)"
  shows "s1 = s\<lparr>rk_lastVersion := cur (rk_keyPrefix s) (rk_client s)\<rparr>"
    "\<forall>t. rk_client s (versionKey (rk_keyPrefix s)) \<noteq> Some (RStr t)"
  using assms
  by (auto simp: rks_Load_def maxSaveAttempts_def eval_nat_numeral readVersion_def lone_redis_def Let_def cur_def
      split: option.splits redis_value.splits sum.splits)

lemma lone_Save:
  assumes "EncodeKeyRing kc sc r = Ok b" "\<forall>t. rk_client s (versionKey (rk_keyPrefix s)) \<noteq> Some (RStr t)" "rk_lastVersion s \<noteq> versionUnknown"
  shows "rk_lastVersion s \<noteq> cur (rk_keyPrefix s) (rk_client s) \<Longrightarrow> fst (rks_Save kc sc lone_redis r s) = Some ErrKeyRingConflict"
    and "rk_lastVersion s = cur (rk_keyPrefix s) (rk_client s) \<Longrightarrow>
      fst (rks_Save kc sc lone_redis r s) = None \<and> str_at (rk_client (snd (rks_Save kc sc lone_redis r s))) (keyringKey (rk_keyPrefix s)) = Some b"
  using assms
  by (auto simp: rks_Save_def maxSaveAttempts_def eval_nat_numeral lone_redis_def Let_def cur_def str_at_def keyringKey_def versionKey_def
      split: option.splits redis_value.splits)

text \<open>
  The watcher's reload can hide a conflict.  A save of a ring that was derived from an older
  version than the stored one is refused; but if the watcher of the same node loads the store
  between the mutation of the ring and its save, which takes no lock, the save of the very same
  stale ring succeeds and replaces the other node's rotation.
\<close>

theorem watcher_hides_conflict:
  assumes "deliver kc sc lone_redis (notified, s) = (Some fresh, v, s1)" and "EncodeKeyRing kc sc r = Ok b"
    and "rk_lastVersion s \<noteq> versionUnknown" and "0 \<le> cur (rk_keyPrefix s) (rk_client s)"
    and "rk_lastVersion s \<noteq> cur (rk_keyPrefix s) (rk_client s)"
  shows "fst (rks_Save kc sc lone_redis r s) = Some ErrKeyRingConflict \<and>
    (\<exists>s2. rks_Save kc sc lone_redis r s1 = (None, s2) \<and> str_at (rk_client s2) (keyringKey (rk_keyPrefix s)) = Some b)"
proof -
  have l: "rks_Load kc sc lone_redis s = (Ok fresh, s1)"
    using assms(1) by (auto simp: deliver_def Let_def split: prod.splits sum.splits if_splits)
  let ?S = "rks_Save kc sc lone_redis r s1"
  have "fst ?S = None \<and> str_at (rk_client (snd ?S)) (keyringKey (rk_keyPrefix s1)) = Some b"
    using lone_Load [OF l] assms(2,4) by (intro lone_Save(2)) (auto simp: versionUnknown_def)
  moreover have "rk_keyPrefix s1 = rk_keyPrefix s" using lone_Load(1) [OF l] by simp
  ultimately have "\<exists>s2. ?S = (None, s2) \<and> str_at (rk_client s2) (keyringKey (rk_keyPrefix s)) = Some b" by (metis prod.collapse)
  then show ?thesis using lone_Save(1) [OF assms(2) lone_Load(2) [OF l] assms(3,5)] by simp
qed

definition empty_text :: snap_codec where
  "empty_text = \<lparr>sc_Marshal = (\<lambda>_. Ok ''s''), sc_MarshalIndent = (\<lambda>_. Ok ''s''),
     sc_Unmarshal = (\<lambda>_. Ok \<lparr>sn_FormatVersion = ''2'', sn_ActiveKeyID = [], sn_Keys = []\<rparr>)\<rparr>"

theorem watcher_hides_conflict_witness:
  "\<exists>s1 s2. deliver plain_codec empty_text lone_redis
       (1, (NewRedisKeyRingStore [''parsec:keyring'' \<mapsto> RStr ''t'', ''parsec:keyring:version'' \<mapsto> RInt 2])\<lparr>rk_lastVersion := 1\<rparr>) = (Some NewKeyRing, 2, s1) \<and>
     rks_Save plain_codec empty_text lone_redis two_keys s1 = (None, s2) \<and> str_at (rk_client s2) ''parsec:keyring'' = Some ''s''"
proof -
  let ?s = "(NewRedisKeyRingStore [''parsec:keyring'' \<mapsto> RStr ''t'', ''parsec:keyring:version'' \<mapsto> RInt 2])\<lparr>rk_lastVersion := 1\<rparr>"
  have d: "deliver plain_codec empty_text lone_redis (1, ?s) = (Some NewKeyRing, 2, ?s\<lparr>rk_lastVersion := 2\<rparr>)"
    by (simp add: deliver_def rks_Load_def maxSaveAttempts_def eval_nat_numeral readVersion_def lone_redis_def Let_def NewRedisKeyRingStore_def
        str_at_def DecodeKeyRing_def empty_text_def supportedFormatVersion_def kr_LoadSnapshot_def NewKeyRing_def keyringKey_def versionKey_def)
  from watcher_hides_conflict [OF d, of two_keys "''s''"] d show ?thesis
    by (simp add: EncodeKeyRing_def empty_text_def versionUnknown_def NewRedisKeyRingStore_def cur_def keyringKey_def versionKey_def)
qed

end
