(* ===== verification/RedisChannels.thy ===== *)
theory RedisChannels
  imports ChannelManager RedisKeys
begin

text \<open>
  The channel store on Redis (\<^verbatim>\<open>src/channels/redis_store.go\<close>).

  The records are the fields of one Redis hash, seen as the list of its fields in the order
  \<^verbatim>\<open>HGETALL\<close> gives.  The Lua scripts are functions on the hash; a script that raises an error has no
  reply.  Redis and its client are a parameter, \<open>chan_client\<close>, and so are the two JSON codecs:
  Go's for \<open>channelRecord\<close> and Lua's for the table with the same fields, whose numbers are strings.
  \<open>chan_redis_ok\<close> states what Redis documents, with other nodes interfering at any moment.
\<close>

subsection \<open>Records\<close>

record channelRecord =
  cr_Name :: string
  cr_Visibility :: string
  cr_State :: State
  cr_TTLSeconds :: int
  cr_CreatedAt :: int
  cr_LastActive :: int
  cr_DeltaEnabled :: bool

record lua_rec =
  lr_name :: string
  lr_visibility :: string
  lr_state :: string
  lr_ttl_seconds :: string
  lr_created_at :: string
  lr_last_active :: string
  lr_delta :: bool

record rec_codec =
  rc_Marshal :: "channelRecord \<Rightarrow> string"
  rc_Unmarshal :: "string \<Rightarrow> channelRecord result"
  lua_decode :: "string \<Rightarrow> lua_rec option"
  lua_encode :: "lua_rec \<Rightarrow> string"

type_synonym hash = "(string, string) gomap"

definition formatNanos :: "go_time \<Rightarrow> string" where
  "formatNanos t = FormatInt (wrap64 t)"

definition fromRecord :: "channelRecord \<Rightarrow> channel result" where
  "fromRecord r =
     (case ParseName (cr_Name r) of
        Err err \<Rightarrow> Err err
      | Ok n \<Rightarrow>
          Ok \<lparr>c_Name = n, c_State = cr_State r, c_TTL = wrap64 (cr_TTLSeconds r * second),
             c_CreatedAt = cr_CreatedAt r, c_LastActive = cr_LastActive r, c_DeltaEnabled = cr_DeltaEnabled r\<rparr>)"

text \<open>\<^verbatim>\<open>int64(ttl.Seconds())\<close> goes through a float64: the conversion is an argument, \<open>secs\<close>.\<close>

definition new_record :: "(duration \<Rightarrow> int) \<Rightarrow> chan_name \<Rightarrow> duration \<Rightarrow> go_time \<Rightarrow> channelRecord" where
  "new_record secs name ttl now =
     \<lparr>cr_Name = name_String name, cr_Visibility = n_Visibility name, cr_State = StateOpen, cr_TTLSeconds = secs ttl,
      cr_CreatedAt = wrap64 now, cr_LastActive = wrap64 now, cr_DeltaEnabled = False\<rparr>"

subsection \<open>The scripts\<close>

datatype lua_reply = LStr string | LArr "string list"

type_synonym lua_script = "hash \<Rightarrow> lua_reply option \<times> hash"

definition touchScript :: "rec_codec \<Rightarrow> string \<Rightarrow> string \<Rightarrow> lua_script" where
  "touchScript cd field now h =
     (case map_of h field of
        None \<Rightarrow> (Some (LStr ''not_found''), h)
      | Some raw \<Rightarrow>
          (case lua_decode cd raw of
             None \<Rightarrow> (None, h)
           | Some rec \<Rightarrow>
               if lr_state rec = ''deleted'' then (Some (LStr ''not_found''), h)
               else if lr_state rec = ''closed'' then (Some (LStr ''closed''), h)
               else (Some (LStr ''ok''), AList.update field (lua_encode cd (rec\<lparr>lr_last_active := now\<rparr>)) h)))"

definition deleteScript :: "rec_codec \<Rightarrow> string \<Rightarrow> lua_script" where
  "deleteScript cd field h =
     (case map_of h field of
        None \<Rightarrow> (Some (LStr ''not_found''), h)
      | Some raw \<Rightarrow>
          (case lua_decode cd raw of
             None \<Rightarrow> (None, h)
           | Some rec \<Rightarrow>
               if lr_state rec = ''deleted'' then (Some (LStr ''noop''), h)
               else (Some (LStr ''deleted''), AList.update field (lua_encode cd (rec\<lparr>lr_state := ''deleted''\<rparr>)) h)))"

definition setDeltaScript :: "rec_codec \<Rightarrow> string \<Rightarrow> string \<Rightarrow> lua_script" where
  "setDeltaScript cd field flag h =
     (case map_of h field of
        None \<Rightarrow> (Some (LStr ''not_found''), h)
      | Some raw \<Rightarrow>
          (case lua_decode cd raw of
             None \<Rightarrow> (None, h)
           | Some rec \<Rightarrow>
               if lr_state rec = ''deleted'' then (Some (LStr ''not_found''), h)
               else (Some (LStr ''ok''), AList.update field (lua_encode cd (rec\<lparr>lr_delta := (ParseInt flag = Ok 1)\<rparr>)) h)))"

text \<open>\<^verbatim>\<open>math.floor(tonumber(string.sub(s, 1, -7)))\<close>, an error when nothing is left of the text.\<close>

definition lua_ms :: "string \<Rightarrow> int option" where
  "lua_ms s = (case ParseInt (take (length s - 6) s) of Ok i \<Rightarrow> Some i | Err _ \<Rightarrow> None)"

fun lua_sweep :: "rec_codec \<Rightarrow> int \<Rightarrow> (string \<times> string) list \<Rightarrow> hash \<Rightarrow> string list option \<times> hash" where
  "lua_sweep cd now_ms [] h = (Some [], h)"
| "lua_sweep cd now_ms ((name, raw) # entries) h =
     (case lua_decode cd raw of
        None \<Rightarrow> (None, h)
      | Some rec \<Rightarrow>
          if lr_state rec = ''open'' then
            (case lua_ms (lr_last_active rec) of
               None \<Rightarrow> (None, h)
             | Some last_ms \<Rightarrow>
                 (case ParseInt (lr_ttl_seconds rec) of
                    Err _ \<Rightarrow> (None, h)
                  | Ok ttl \<Rightarrow>
                      let age_ms = now_ms - last_ms; ttl_ms = ttl * 1000 in
                      if age_ms \<ge> ttl_ms then
                        if lr_visibility rec = ''private'' then
                          (let (out, h) = lua_sweep cd now_ms entries (AList.delete name h)
                           in (map_option (\<lambda>out. name # ''deleted'' # out) out, h))
                        else
                          (let (out, h) = lua_sweep cd now_ms entries
                                 (AList.update name (lua_encode cd (rec\<lparr>lr_state := ''closed''\<rparr>)) h)
                           in (map_option (\<lambda>out. name # ''closed'' # out) out, h))
                      else lua_sweep cd now_ms entries h))
          else lua_sweep cd now_ms entries h)"

definition sweepScript :: "rec_codec \<Rightarrow> string \<Rightarrow> lua_script" where
  "sweepScript cd now_ns h =
     (case lua_ms now_ns of
        None \<Rightarrow> (None, h)
      | Some now_ms \<Rightarrow> map_prod (map_option LArr) id (lua_sweep cd now_ms h h))"

subsection \<open>The store\<close>

record 'c chan_client =
  cc_HGet :: "string \<Rightarrow> string \<Rightarrow> 'c \<Rightarrow> string option result \<times> 'c"
  cc_HGetAll :: "string \<Rightarrow> 'c \<Rightarrow> hash result \<times> 'c"
  cc_HSetNX :: "string \<Rightarrow> string \<Rightarrow> string \<Rightarrow> 'c \<Rightarrow> bool result \<times> 'c"
  cc_WatchHGet :: "string \<Rightarrow> string \<Rightarrow> 'c \<Rightarrow> string option result \<times> 'c"
  cc_TxHSet :: "string \<Rightarrow> string \<Rightarrow> string \<Rightarrow> 'c \<Rightarrow> tx_result \<times> 'c"
  cc_Eval :: "string \<Rightarrow> lua_script \<Rightarrow> 'c \<Rightarrow> lua_reply result \<times> 'c"

record 'c RedisStore =
  xs_client :: 'c
  xs_keyPrefix :: string
  xs_timeout :: duration

definition NewRedisStore :: "'c \<Rightarrow> 'c RedisStore" where
  "NewRedisStore client = \<lparr>xs_client = client, xs_keyPrefix = ''parsec'', xs_timeout = 5 * second\<rparr>"

definition xs_WithKeyPrefix :: "string \<Rightarrow> 'c RedisStore \<Rightarrow> 'c RedisStore" where
  "xs_WithKeyPrefix p s = s\<lparr>xs_keyPrefix := (if p = [] then ''parsec'' else p)\<rparr>"

definition hashKey :: "'c RedisStore \<Rightarrow> string" where
  "hashKey s = xs_keyPrefix s @ '':channels''"

definition xs_Get :: "rec_codec \<Rightarrow> 'c chan_client \<Rightarrow> chan_name \<Rightarrow> 'c RedisStore \<Rightarrow> channel result \<times> 'c RedisStore" where
  "xs_Get cd cl name s =
     (case cc_HGet cl (hashKey s) (name_String name) (xs_client s) of
        (Ok None, c) \<Rightarrow> (Err (err_New ChannelNotFound ''no such channel''), s\<lparr>xs_client := c\<rparr>)
      | (Err err, c) \<Rightarrow> (Err (err_Wrap Internal ''redis HGet'' err), s\<lparr>xs_client := c\<rparr>)
      | (Ok (Some raw), c) \<Rightarrow>
          (case rc_Unmarshal cd raw of
             Err err \<Rightarrow> (Err (err_Wrap Internal ''decode channel record'' err), s\<lparr>xs_client := c\<rparr>)
           | Ok rec \<Rightarrow>
               if cr_State rec = StateDeleted then (Err (err_New ChannelNotFound ''no such channel''), s\<lparr>xs_client := c\<rparr>)
               else (fromRecord rec, s\<lparr>xs_client := c\<rparr>)))"

fun list_loop :: "rec_codec \<Rightarrow> hash \<Rightarrow> channel list" where
  "list_loop cd [] = []"
| "list_loop cd ((k, raw) # all) =
     (case rc_Unmarshal cd raw of
        Err _ \<Rightarrow> list_loop cd all
      | Ok rec \<Rightarrow>
          if cr_State rec = StateDeleted then list_loop cd all
          else case fromRecord rec of Err _ \<Rightarrow> list_loop cd all | Ok ch \<Rightarrow> ch # list_loop cd all)"

definition xs_List :: "rec_codec \<Rightarrow> 'c chan_client \<Rightarrow> 'c RedisStore \<Rightarrow> channel list result \<times> 'c RedisStore" where
  "xs_List cd cl s =
     (case cc_HGetAll cl (hashKey s) (xs_client s) of
        (Err err, c) \<Rightarrow> (Err (err_Wrap Internal ''redis HGetAll'' err), s\<lparr>xs_client := c\<rparr>)
      | (Ok all, c) \<Rightarrow> (Ok (list_loop cd all), s\<lparr>xs_client := c\<rparr>))"

definition xs_IsOpen :: "rec_codec \<Rightarrow> 'c chan_client \<Rightarrow> chan_name \<Rightarrow> 'c RedisStore \<Rightarrow> bool \<times> 'c RedisStore" where
  "xs_IsOpen cd cl name s =
     (case xs_Get cd cl name s of
        (Err _, s) \<Rightarrow> (False, s)
      | (Ok ch, s) \<Rightarrow> (c_State ch = StateOpen, s))"

text \<open>What the function under \<^verbatim>\<open>Watch\<close> returns: an error, a transaction to be retried, or success,
  with \<^verbatim>\<open>errOpenedEvent\<close> or nil.\<close>

datatype open_outcome = OpenErr go_error | OpenRetry | OpenDone bool

definition open_attempt ::
  "rec_codec \<Rightarrow> 'c chan_client \<Rightarrow> (duration \<Rightarrow> int) \<Rightarrow> chan_name \<Rightarrow> duration \<Rightarrow> go_time \<Rightarrow> 'c RedisStore \<Rightarrow> open_outcome \<times> 'c RedisStore" where
  "open_attempt cd cl secs name ttl now s =
     (case cc_WatchHGet cl (hashKey s) (name_String name) (xs_client s) of
        (Err err, c) \<Rightarrow> (OpenErr err, s\<lparr>xs_client := c\<rparr>)
      | (Ok raw, c) \<Rightarrow>
          (case (case raw of None \<Rightarrow> Ok None | Some raw \<Rightarrow> map_sum id Some (rc_Unmarshal cd raw)) of
             Err err \<Rightarrow> (OpenErr err, s\<lparr>xs_client := c\<rparr>)
           | Ok existing \<Rightarrow>
               if (case existing of Some rec \<Rightarrow> cr_State rec = StateDeleted | None \<Rightarrow> False) then
                 (OpenErr (err_New ChannelNotFound ''channel was deleted; create a new one''), s\<lparr>xs_client := c\<rparr>)
               else
                 let wasClosed = (case existing of Some rec \<Rightarrow> cr_State rec = StateClosed | None \<Rightarrow> False);
                     wasNew = (existing = None);
                     rec = (case existing of
                              Some rec \<Rightarrow> rec\<lparr>cr_State := StateOpen, cr_LastActive := wrap64 now, cr_TTLSeconds := secs ttl\<rparr>
                            | None \<Rightarrow> new_record secs name ttl now)
                 in case cc_TxHSet cl (hashKey s) (name_String name) (rc_Marshal cd rec) c of
                      (TxErr err, c) \<Rightarrow> (OpenErr err, s\<lparr>xs_client := c\<rparr>)
                    | (TxFailedErr, c) \<Rightarrow> (OpenRetry, s\<lparr>xs_client := c\<rparr>)
                    | (TxOk, c) \<Rightarrow> (OpenDone (wasNew \<or> wasClosed), s\<lparr>xs_client := c\<rparr>)))"

text \<open>The channel returned is what \<^verbatim>\<open>Get\<close> finds afterwards; its error is ignored, so it may be nil.\<close>

fun open_loop ::
  "rec_codec \<Rightarrow> 'c chan_client \<Rightarrow> (duration \<Rightarrow> int) \<Rightarrow> chan_name \<Rightarrow> duration \<Rightarrow> go_time \<Rightarrow> nat \<Rightarrow> 'c RedisStore \<Rightarrow>
   (channel option \<times> event option) result \<times> 'c RedisStore" where
  "open_loop cd cl secs name ttl now 0 s = (Err (err_New Internal ''redis OpenPublic contention''), s)"
| "open_loop cd cl secs name ttl now (Suc left) s =
     (case open_attempt cd cl secs name ttl now s of
        (OpenErr err, s) \<Rightarrow> (Err err, s)
      | (OpenRetry, s) \<Rightarrow> open_loop cd cl secs name ttl now left s
      | (OpenDone opened, s) \<Rightarrow>
          (case xs_Get cd cl name s of
             (ch, s) \<Rightarrow> (Ok (case ch of Ok ch \<Rightarrow> Some ch | Err _ \<Rightarrow> None,
                           if opened then Some \<lparr>e_Kind = EventOpened, e_Name = name, e_At = now\<rparr> else None), s)))"

definition xs_OpenPublic ::
  "rec_codec \<Rightarrow> 'c chan_client \<Rightarrow> (duration \<Rightarrow> int) \<Rightarrow> chan_name \<Rightarrow> duration \<Rightarrow> go_time \<Rightarrow> 'c RedisStore \<Rightarrow>
   (channel option \<times> event option) result \<times> 'c RedisStore" where
  "xs_OpenPublic cd cl secs name ttl now s =
     (if n_Visibility name \<noteq> VisibilityPublic then
        (Err (err_New ChannelInvalid ''OpenPublic requires a public channel name''), s)
      else open_loop cd cl secs name ttl now 3 s)"

definition xs_CreatePrivate ::
  "rec_codec \<Rightarrow> 'c chan_client \<Rightarrow> (duration \<Rightarrow> int) \<Rightarrow> chan_name \<Rightarrow> duration \<Rightarrow> go_time \<Rightarrow> 'c RedisStore \<Rightarrow>
   (channel option \<times> event option) result \<times> 'c RedisStore" where
  "xs_CreatePrivate cd cl secs name ttl now s =
     (if n_Visibility name \<noteq> VisibilityPrivate then
        (Err (err_New ChannelInvalid ''CreatePrivate requires a private channel name''), s)
      else
        let rec = new_record secs name ttl now in
        case cc_HSetNX cl (hashKey s) (name_String name) (rc_Marshal cd rec) (xs_client s) of
          (Err err, c) \<Rightarrow> (Err (err_Wrap Internal ''redis HSetNX'' err), s\<lparr>xs_client := c\<rparr>)
        | (Ok ok, c) \<Rightarrow>
            if \<not> ok then (Err (err_New ChannelExists ''channel already exists''), s\<lparr>xs_client := c\<rparr>)
            else (Ok (case fromRecord rec of Ok ch \<Rightarrow> Some ch | Err _ \<Rightarrow> None,
                      Some \<lparr>e_Kind = EventOpened, e_Name = name, e_At = now\<rparr>), s\<lparr>xs_client := c\<rparr>))"

definition xs_Touch ::
  "rec_codec \<Rightarrow> 'c chan_client \<Rightarrow> chan_name \<Rightarrow> go_time \<Rightarrow> 'c RedisStore \<Rightarrow> go_error option \<times> 'c RedisStore" where
  "xs_Touch cd cl name now s =
     (case cc_Eval cl (hashKey s) (touchScript cd (name_String name) (formatNanos now)) (xs_client s) of
        (Err err, c) \<Rightarrow> (Some (err_Wrap Internal ''redis Touch'' err), s\<lparr>xs_client := c\<rparr>)
      | (Ok res, c) \<Rightarrow>
          (if res = LStr ''ok'' then None
           else if res = LStr ''closed'' then Some (err_New ChannelClosed ''channel closed; reopen first'')
           else Some (err_New ChannelNotFound ''no such channel''), s\<lparr>xs_client := c\<rparr>))"

definition xs_Delete ::
  "rec_codec \<Rightarrow> 'c chan_client \<Rightarrow> chan_name \<Rightarrow> go_time \<Rightarrow> 'c RedisStore \<Rightarrow> event option result \<times> 'c RedisStore" where
  "xs_Delete cd cl name now s =
     (case cc_Eval cl (hashKey s) (deleteScript cd (name_String name)) (xs_client s) of
        (Err err, c) \<Rightarrow> (Err (err_Wrap Internal ''redis Delete'' err), s\<lparr>xs_client := c\<rparr>)
      | (Ok res, c) \<Rightarrow>
          (if res = LStr ''deleted'' then Ok (Some \<lparr>e_Kind = EventDeleted, e_Name = name, e_At = now\<rparr>)
           else if res = LStr ''noop'' then Ok None
           else Err (err_New ChannelNotFound ''no such channel''), s\<lparr>xs_client := c\<rparr>))"

definition xs_SetDelta ::
  "rec_codec \<Rightarrow> 'c chan_client \<Rightarrow> chan_name \<Rightarrow> bool \<Rightarrow> 'c RedisStore \<Rightarrow> go_error option \<times> 'c RedisStore" where
  "xs_SetDelta cd cl name enabled s =
     (case cc_Eval cl (hashKey s) (setDeltaScript cd (name_String name) (if enabled then ''1'' else ''0'')) (xs_client s) of
        (Err err, c) \<Rightarrow> (Some (err_Wrap Internal ''redis SetDelta'' err), s\<lparr>xs_client := c\<rparr>)
      | (Ok res, c) \<Rightarrow>
          (if res = LStr ''not_found'' then Some (err_New ChannelNotFound ''no such channel'') else None, s\<lparr>xs_client := c\<rparr>))"

fun sweep_rows :: "go_time \<Rightarrow> string list \<Rightarrow> event list" where
  "sweep_rows now (name # kind # rows) =
     (case ParseName name of
        Err _ \<Rightarrow> sweep_rows now rows
      | Ok n \<Rightarrow>
          if kind = ''deleted'' then \<lparr>e_Kind = EventDeleted, e_Name = n, e_At = now\<rparr> # sweep_rows now rows
          else if kind = ''closed'' then \<lparr>e_Kind = EventClosed, e_Name = n, e_At = now\<rparr> # sweep_rows now rows
          else sweep_rows now rows)"
| "sweep_rows now _ = []"

definition xs_Sweep ::
  "rec_codec \<Rightarrow> 'c chan_client \<Rightarrow> go_time \<Rightarrow> 'c RedisStore \<Rightarrow> event list result \<times> 'c RedisStore" where
  "xs_Sweep cd cl now s =
     (case cc_Eval cl (hashKey s) (sweepScript cd (formatNanos now)) (xs_client s) of
        (Err err, c) \<Rightarrow> (Err (err_Wrap Internal ''redis Sweep'' err), s\<lparr>xs_client := c\<rparr>)
      | (Ok (LArr rows), c) \<Rightarrow> (Ok (sweep_rows now rows), s\<lparr>xs_client := c\<rparr>)
      | (Ok (LStr _), c) \<Rightarrow> (Ok [], s\<lparr>xs_client := c\<rparr>))"

subsection \<open>What the store relies on\<close>

definition state_string :: "State \<Rightarrow> string" where
  "state_string st = (case st of StateOpen \<Rightarrow> ''open'' | StateClosed \<Rightarrow> ''closed'' | StateDeleted \<Rightarrow> ''deleted'')"

text \<open>The table Lua's decoder makes of a record: numbers tagged \<^verbatim>\<open>,string\<close> are strings in the JSON.\<close>

definition lua_of :: "channelRecord \<Rightarrow> lua_rec" where
  "lua_of r = \<lparr>lr_name = cr_Name r, lr_visibility = cr_Visibility r, lr_state = state_string (cr_State r),
     lr_ttl_seconds = FormatInt (cr_TTLSeconds r), lr_created_at = FormatInt (cr_CreatedAt r),
     lr_last_active = FormatInt (cr_LastActive r), lr_delta = cr_DeltaEnabled r\<rparr>"

definition rec_ok :: "channelRecord \<Rightarrow> bool" where
  "rec_ok r \<longleftrightarrow> (\<exists>n. wf_name n \<and> cr_Name r = name_String n \<and> cr_Visibility r = n_Visibility n) \<and>
     0 \<le> cr_TTLSeconds r \<and> cr_TTLSeconds r * second \<le> max_int64 \<and>
     1000000 \<le> cr_CreatedAt r \<and> cr_CreatedAt r \<le> max_int64 \<and> 1000000 \<le> cr_LastActive r \<and> cr_LastActive r \<le> max_int64"

definition stored :: "rec_codec \<Rightarrow> string \<Rightarrow> channelRecord \<Rightarrow> bool" where
  "stored cd raw r \<longleftrightarrow> rc_Unmarshal cd raw = Ok r \<and> lua_decode cd raw = Some (lua_of r)"

definition rec_codec_ok :: "rec_codec \<Rightarrow> bool" where
  "rec_codec_ok cd \<longleftrightarrow> (\<forall>r. rec_ok r \<longrightarrow> stored cd (rc_Marshal cd r) r \<and> stored cd (lua_encode cd (lua_of r)) r)"

definition secs_ok :: "(duration \<Rightarrow> int) \<Rightarrow> bool" where
  "secs_ok secs \<longleftrightarrow> (\<forall>d. 0 \<le> d \<longrightarrow> d \<le> 90 * 24 * hour \<longrightarrow> secs d = d div second)"

text \<open>
  \<open>E\<close> is what the other nodes do to the hash.  Every command acts on the hash at some moment
  between its call and its return; a transaction that was executed found the hash as the read
  under \<^verbatim>\<open>WATCH\<close> did; a command that failed for its caller may have been executed.
\<close>

definition reads_law :: "'c chan_client \<Rightarrow> string \<Rightarrow> ('c \<Rightarrow> hash) \<Rightarrow> (hash \<Rightarrow> hash \<Rightarrow> bool) \<Rightarrow> bool" where
  "reads_law cl key db E \<longleftrightarrow>
     (\<forall>f c a c'. cc_HGet cl key f c = (a, c') \<longrightarrow>
        (\<exists>h. E\<^sup>*\<^sup>* (db c) h \<and> E\<^sup>*\<^sup>* h (db c') \<and> (\<forall>x. a = Ok x \<longrightarrow> x = map_of h f))) \<and>
     (\<forall>c a c'. cc_HGetAll cl key c = (a, c') \<longrightarrow>
        (\<exists>h. E\<^sup>*\<^sup>* (db c) h \<and> E\<^sup>*\<^sup>* h (db c') \<and> (\<forall>x. a = Ok x \<longrightarrow> x = h)))"

definition setnx_law :: "'c chan_client \<Rightarrow> string \<Rightarrow> ('c \<Rightarrow> hash) \<Rightarrow> (hash \<Rightarrow> hash \<Rightarrow> bool) \<Rightarrow> bool" where
  "setnx_law cl key db E \<longleftrightarrow>
     (\<forall>f v c a c'. cc_HSetNX cl key f v c = (a, c') \<longrightarrow>
        (\<exists>h h'. E\<^sup>*\<^sup>* (db c) h \<and> E\<^sup>*\<^sup>* h' (db c') \<and>
           (case a of Ok ok \<Rightarrow> ok \<longleftrightarrow> map_of h f = None | Err _ \<Rightarrow> True) \<and>
           (h' = (if map_of h f = None then AList.update f v h else h) \<or> isl a \<and> h' = h)))"

definition watch_law :: "'c chan_client \<Rightarrow> string \<Rightarrow> ('c \<Rightarrow> hash) \<Rightarrow> (hash \<Rightarrow> hash \<Rightarrow> bool) \<Rightarrow> bool" where
  "watch_law cl key db E \<longleftrightarrow>
     (\<forall>f c a c'. cc_WatchHGet cl key f c = (a, c') \<longrightarrow>
        (\<exists>h. E\<^sup>*\<^sup>* (db c) h \<and> E\<^sup>*\<^sup>* h (db c') \<and> (\<forall>x. a = Ok x \<longrightarrow> x = map_of h f) \<and>
           (\<forall>f v t c''. cc_TxHSet cl key f v c' = (t, c'') \<longrightarrow>
              (case t of
                 TxOk \<Rightarrow> E\<^sup>*\<^sup>* (AList.update f v h) (db c'')
               | TxFailedErr \<Rightarrow> E\<^sup>*\<^sup>* h (db c'')
               | TxErr _ \<Rightarrow> E\<^sup>*\<^sup>* h (db c'') \<or> E\<^sup>*\<^sup>* (AList.update f v h) (db c'')))))"

definition eval_law :: "'c chan_client \<Rightarrow> string \<Rightarrow> ('c \<Rightarrow> hash) \<Rightarrow> (hash \<Rightarrow> hash \<Rightarrow> bool) \<Rightarrow> bool" where
  "eval_law cl key db E \<longleftrightarrow>
     (\<forall>scr c a c'. cc_Eval cl key scr c = (a, c') \<longrightarrow>
        (\<exists>h h'. E\<^sup>*\<^sup>* (db c) h \<and> E\<^sup>*\<^sup>* h' (db c') \<and> (\<forall>r. a = Ok r \<longrightarrow> fst (scr h) = Some r) \<and>
           (h' = snd (scr h) \<or> isl a \<and> h' = h)))"

definition chan_redis_ok :: "'c chan_client \<Rightarrow> string \<Rightarrow> ('c \<Rightarrow> hash) \<Rightarrow> (hash \<Rightarrow> hash \<Rightarrow> bool) \<Rightarrow> bool" where
  "chan_redis_ok cl key db E \<longleftrightarrow> reads_law cl key db E \<and> setnx_law cl key db E \<and> watch_law cl key db E \<and>
     eval_law cl key db E"

subsection \<open>The registry in the hash\<close>

definition good :: "rec_codec \<Rightarrow> hash \<Rightarrow> bool" where
  "good cd h \<longleftrightarrow> map_wf h \<and> (\<forall>f raw. map_of h f = Some raw \<longrightarrow> (\<exists>r. stored cd raw r \<and> rec_ok r \<and> cr_Name r = f))"

definition chan_of :: "channelRecord \<Rightarrow> channel" where
  "chan_of r = \<lparr>c_Name = projr (ParseName (cr_Name r)), c_State = cr_State r, c_TTL = cr_TTLSeconds r * second,
     c_CreatedAt = cr_CreatedAt r, c_LastActive = cr_LastActive r, c_DeltaEnabled = cr_DeltaEnabled r\<rparr>"

definition reg_of :: "rec_codec \<Rightarrow> hash \<Rightarrow> registry" where
  "reg_of cd h f =
     (case map_of h f of None \<Rightarrow> None
      | Some raw \<Rightarrow> (case rc_Unmarshal cd raw of Err _ \<Rightarrow> None | Ok r \<Rightarrow> Some (chan_of r)))"

lemma fromRecord_ok: "rec_ok r \<Longrightarrow> fromRecord r = Ok (chan_of r)"
  by (auto simp: rec_ok_def fromRecord_def chan_of_def ParseName_print wrap64_id go_simps split: sum.split)

lemma rec_name: "rec_ok r \<Longrightarrow> ParseName (cr_Name r) = Ok (c_Name (chan_of r)) \<and> name_String (c_Name (chan_of r)) = cr_Name r"
  by (auto simp: rec_ok_def chan_of_def ParseName_print)

lemma good_lookup:
  assumes "good cd h" "map_of h f = Some raw"
  obtains r where "stored cd raw r" "rec_ok r" "cr_Name r = f" "reg_of cd h f = Some (chan_of r)"
proof -
  obtain r where r: "stored cd raw r" "rec_ok r" "cr_Name r = f" using assms unfolding good_def by blast
  then have "reg_of cd h f = Some (chan_of r)" using assms(2) unfolding reg_of_def stored_def by simp
  with r show ?thesis by (rule that)
qed

text \<open>A field is missing, or holds a record; the script then decodes that record.\<close>

lemma good_cases:
  assumes "good cd h"
  obtains (missing) "map_of h f = None" "reg_of cd h f = None"
  | (present) raw r where "map_of h f = Some raw" "stored cd raw r" "rec_ok r" "cr_Name r = f" "reg_of cd h f = Some (chan_of r)"
      "lua_decode cd raw = Some (lua_of r)" "lr_state (lua_of r) = state_string (cr_State r)" "rc_Unmarshal cd raw = Ok r"
proof (cases "map_of h f")
  case None
  then show ?thesis using missing by (simp add: reg_of_def)
next
  case (Some raw)
  with assms obtain r where "stored cd raw r" "rec_ok r" "cr_Name r = f" "reg_of cd h f = Some (chan_of r)" by (rule good_lookup)
  moreover from this have "lua_decode cd raw = Some (lua_of r)" "lr_state (lua_of r) = state_string (cr_State r)" "rc_Unmarshal cd raw = Ok r"
    by (simp_all add: stored_def lua_of_def)
  ultimately show ?thesis using present [OF Some] by blast
qed

lemma reg_of_None:
  assumes "good cd h"
  shows "reg_of cd h f = None \<longleftrightarrow> map_of h f = None"
  by (rule good_cases [OF assms, of f]) simp_all

lemma good_update:
  assumes "good cd h" "stored cd raw r" "rec_ok r" "cr_Name r = f"
  shows "good cd (AList.update f raw h)" "reg_of cd (AList.update f raw h) = (reg_of cd h)(f \<mapsto> chan_of r)"
proof -
  show "good cd (AList.update f raw h)" unfolding good_def
  proof (intro conjI allI impI)
    show "map_wf (AList.update f raw h)" using assms(1) by (simp add: good_def)
    fix f' raw' assume "map_of (AList.update f raw h) f' = Some raw'"
    then show "\<exists>r. stored cd raw' r \<and> rec_ok r \<and> cr_Name r = f'"
      using assms unfolding good_def map_of_update_apply by (cases "f' = f") auto
  qed
  show "reg_of cd (AList.update f raw h) = (reg_of cd h)(f \<mapsto> chan_of r)"
    using assms(2) by (simp add: reg_of_def stored_def fun_eq_iff)
qed

lemma good_delete: "good cd h \<Longrightarrow> good cd (AList.delete f h) \<and> reg_of cd (AList.delete f h) = (reg_of cd h)(f := None)"
  unfolding good_def by (simp add: reg_of_def fun_eq_iff del: map_of_eq_Some_iff)

lemma good_keyed: "good cd h \<Longrightarrow> keyed (reg_of cd h)"
  unfolding keyed_def
proof (intro allI impI)
  fix k c assume asm: "good cd h" "reg_of cd h k = Some c"
  then obtain raw where "map_of h k = Some raw" by (auto simp: reg_of_def split: option.splits)
  with asm(1) obtain r where "rec_ok r" "cr_Name r = k" "reg_of cd h k = Some (chan_of r)" by (rule good_lookup)
  with asm(2) show "name_String (c_Name c) = k" using rec_name [of r] by simp
qed

definition time_ok :: "go_time \<Rightarrow> bool" where
  "time_ok t \<longleftrightarrow> 1000000 \<le> t \<and> t \<le> max_int64"

lemma formatNanos_ok: "time_ok t \<Longrightarrow> formatNanos t = FormatInt t"
  by (simp add: formatNanos_def time_ok_def wrap64_id go_simps)

lemma state_string_eq [simp]:
  "state_string st = ''open'' \<longleftrightarrow> st = StateOpen" "state_string st = ''closed'' \<longleftrightarrow> st = StateClosed"
  "state_string st = ''deleted'' \<longleftrightarrow> st = StateDeleted"
  by (simp_all add: state_string_def split: State.split)

text \<open>The records the scripts write are those of changed records.\<close>

lemma lua_of_upd:
  "(lua_of r)\<lparr>lr_last_active := FormatInt t\<rparr> = lua_of (r\<lparr>cr_LastActive := t\<rparr>)"
  "(lua_of r)\<lparr>lr_state := ''deleted''\<rparr> = lua_of (r\<lparr>cr_State := StateDeleted\<rparr>)"
  "(lua_of r)\<lparr>lr_state := ''closed''\<rparr> = lua_of (r\<lparr>cr_State := StateClosed\<rparr>)"
  "(lua_of r)\<lparr>lr_delta := b\<rparr> = lua_of (r\<lparr>cr_DeltaEnabled := b\<rparr>)"
  by (simp_all add: lua_of_def state_string_def)

lemma rec_ok_upd:
  "rec_ok r \<Longrightarrow> time_ok t \<Longrightarrow> rec_ok (r\<lparr>cr_LastActive := t\<rparr>)"
  "rec_ok r \<Longrightarrow> rec_ok (r\<lparr>cr_State := st\<rparr>)" "rec_ok r \<Longrightarrow> rec_ok (r\<lparr>cr_DeltaEnabled := b\<rparr>)"
  by (auto simp: rec_ok_def time_ok_def)

lemma chan_of_upd [simp]:
  "chan_of (r\<lparr>cr_LastActive := t\<rparr>) = (chan_of r)\<lparr>c_LastActive := t\<rparr>"
  "chan_of (r\<lparr>cr_State := st\<rparr>) = (chan_of r)\<lparr>c_State := st\<rparr>"
  "chan_of (r\<lparr>cr_DeltaEnabled := b\<rparr>) = (chan_of r)\<lparr>c_DeltaEnabled := b\<rparr>"
  "chan_of (r\<lparr>cr_TTLSeconds := d\<rparr>) = (chan_of r)\<lparr>c_TTL := d * second\<rparr>"
  "c_State (chan_of r) = cr_State r" "c_LastActive (chan_of r) = cr_LastActive r" "c_TTL (chan_of r) = cr_TTLSeconds r * second"
  by (simp_all add: chan_of_def)

lemma codec_lua: "rec_codec_ok cd \<Longrightarrow> rec_ok r \<Longrightarrow> stored cd (lua_encode cd (lua_of r)) r"
  by (simp add: rec_codec_ok_def)

subsection \<open>The scripts implement the registry's operations\<close>

lemma touch_refines:
  assumes "rec_codec_ok cd" "good cd h" "time_ok now"
  shows "good cd (snd (touchScript cd (name_String n) (formatNanos now) h)) \<and>
    reg_of cd (snd (touchScript cd (name_String n) (formatNanos now) h)) = snd (reg_Touch n now (reg_of cd h)) \<and>
    fst (touchScript cd (name_String n) (formatNanos now) h) = Some (LStr
      (case CodeOf (fst (reg_Touch n now (reg_of cd h))) of None \<Rightarrow> ''ok'' | Some ChannelClosed \<Rightarrow> ''closed'' | _ \<Rightarrow> ''not_found''))"
proof (cases rule: good_cases [OF assms(2), of "name_String n"])
  case 1
  then show ?thesis using assms(2) by (simp add: touchScript_def reg_Touch_def)
next
  case (2 raw r)
  let ?r = "r\<lparr>cr_LastActive := now\<rparr>"
  have "stored cd (lua_encode cd (lua_of ?r)) ?r" "rec_ok ?r"
    using assms(1,3) 2(3) by (simp_all add: codec_lua rec_ok_upd)
  from good_update [OF assms(2) this] show ?thesis using 2 assms(2)
    by (cases "cr_State r") (simp_all add: touchScript_def reg_Touch_def formatNanos_ok [OF assms(3)] lua_of_upd)
qed

lemma delete_refines:
  assumes "rec_codec_ok cd" "good cd h"
  shows "good cd (snd (deleteScript cd (name_String n) h)) \<and>
    reg_of cd (snd (deleteScript cd (name_String n) h)) = snd (reg_Delete n now (reg_of cd h)) \<and>
    fst (deleteScript cd (name_String n) h) = Some (LStr
      (case fst (reg_Delete n now (reg_of cd h)) of Err _ \<Rightarrow> ''not_found'' | Ok None \<Rightarrow> ''noop'' | Ok (Some _) \<Rightarrow> ''deleted''))"
proof (cases rule: good_cases [OF assms(2), of "name_String n"])
  case 1
  then show ?thesis using assms(2) by (simp add: deleteScript_def reg_Delete_def)
next
  case (2 raw r)
  let ?r = "r\<lparr>cr_State := StateDeleted\<rparr>"
  have "stored cd (lua_encode cd (lua_of ?r)) ?r" "rec_ok ?r"
    using assms(1) 2(3) by (simp_all add: codec_lua rec_ok_upd)
  note up = good_update [OF assms(2) this]
  have same: "cr_State r = StateDeleted \<Longrightarrow> (chan_of r)\<lparr>c_State := StateDeleted\<rparr> = chan_of r" by (simp add: chan_of_def)
  show ?thesis using 2 up assms(2) same
    by (cases "cr_State r") (auto simp: deleteScript_def reg_Delete_def lua_of_upd)
qed

lemma setDelta_refines:
  assumes "rec_codec_ok cd" "good cd h"
  shows "good cd (snd (setDeltaScript cd (name_String n) (if b then ''1'' else ''0'') h)) \<and>
    reg_of cd (snd (setDeltaScript cd (name_String n) (if b then ''1'' else ''0'') h)) = snd (reg_SetDelta n b (reg_of cd h)) \<and>
    fst (setDeltaScript cd (name_String n) (if b then ''1'' else ''0'') h) = Some (LStr
      (case fst (reg_SetDelta n b (reg_of cd h)) of None \<Rightarrow> ''ok'' | Some _ \<Rightarrow> ''not_found''))"
proof (cases rule: good_cases [OF assms(2), of "name_String n"])
  case 1
  then show ?thesis using assms(2) by (simp add: setDeltaScript_def reg_SetDelta_def live_def)
next
  case (2 raw r)
  let ?r = "r\<lparr>cr_DeltaEnabled := b\<rparr>"
  have "stored cd (lua_encode cd (lua_of ?r)) ?r" "rec_ok ?r"
    using assms(1) 2(3) by (simp_all add: codec_lua rec_ok_upd)
  note up = good_update [OF assms(2) this]
  have flag: "(ParseInt (if b then ''1'' else ''0'') = Ok 1) = b" by (simp add: ParseInt_def is_digit_def dec_value_def go_simps)
  show ?thesis using 2 up assms(2)
    by (cases "cr_State r") (simp_all add: setDeltaScript_def reg_SetDelta_def live_def flag lua_of_upd)
qed

text \<open>TTLs are kept in whole seconds.\<close>

definition whole :: "duration \<Rightarrow> duration" where
  "whole ttl = ttl div second * second"

definition ttl_ok :: "duration \<Rightarrow> bool" where
  "ttl_ok ttl \<longleftrightarrow> 0 \<le> ttl \<and> ttl \<le> 90 * 24 * hour"

lemma secs_bounds:
  assumes "secs_ok secs" "ttl_ok ttl"
  shows "0 \<le> secs ttl" "secs ttl * second = whole ttl" "secs ttl * second \<le> max_int64"
proof -
  have s: "secs ttl = ttl div second" using assms by (simp add: secs_ok_def ttl_ok_def)
  show "0 \<le> secs ttl" "secs ttl * second = whole ttl" using assms(2) by (simp_all add: s whole_def ttl_ok_def pos_imp_zdiv_nonneg_iff)
  have "ttl div second * second \<le> ttl" using div_mult_mod_eq [of ttl second] pos_mod_sign [of second ttl] by linarith
  then show "secs ttl * second \<le> max_int64" using assms(2) by (simp add: s ttl_ok_def go_simps)
qed

lemma new_record_ok:
  assumes "secs_ok secs" "ttl_ok ttl" "time_ok now" "wf_name n"
  shows "rec_ok (new_record secs n ttl now)" "chan_of (new_record secs n ttl now) = new_channel n (whole ttl) now"
    "cr_Name (new_record secs n ttl now) = name_String n"
proof -
  have "wrap64 now = now" using assms(3) by (simp add: time_ok_def wrap64_id go_simps)
  then show "rec_ok (new_record secs n ttl now)" "chan_of (new_record secs n ttl now) = new_channel n (whole ttl) now"
    "cr_Name (new_record secs n ttl now) = name_String n"
    using assms(3,4) secs_bounds [OF assms(1,2)]
    by (auto simp: new_record_def rec_ok_def chan_of_def new_channel_def time_ok_def ParseName_print)
qed

lemma create_refines:
  assumes "rec_codec_ok cd" "good cd h" "secs_ok secs" "ttl_ok ttl" "time_ok now" "wf_name n" "n_Visibility n = VisibilityPrivate"
  defines "h' \<equiv> if map_of h (name_String n) = None then AList.update (name_String n) (rc_Marshal cd (new_record secs n ttl now)) h else h"
  shows "good cd h' \<and> reg_of cd h' = snd (reg_CreatePrivate n (whole ttl) now (reg_of cd h)) \<and>
    fst (reg_CreatePrivate n (whole ttl) now (reg_of cd h)) =
      (if map_of h (name_String n) = None then Ok (new_channel n (whole ttl) now, Some (open_event n now))
       else Err (err_New ChannelExists ''channel already exists''))"
proof -
  note new = new_record_ok [OF assms(3-6)]
  have "stored cd (rc_Marshal cd (new_record secs n ttl now)) (new_record secs n ttl now)"
    using assms(1) new(1) by (simp add: rec_codec_ok_def)
  from good_update [OF assms(2) this new(1,3)] show ?thesis
    using assms(2,7) by (auto simp: h'_def reg_CreatePrivate_def new(2) reg_of_None)
qed

text \<open>What a transaction of \<^verbatim>\<open>OpenPublic\<close> writes, given the record it has read.\<close>

definition open_record :: "(duration \<Rightarrow> int) \<Rightarrow> chan_name \<Rightarrow> duration \<Rightarrow> go_time \<Rightarrow> channelRecord option \<Rightarrow> channelRecord" where
  "open_record secs n ttl now existing =
     (case existing of
        Some rec \<Rightarrow> rec\<lparr>cr_State := StateOpen, cr_LastActive := wrap64 now, cr_TTLSeconds := secs ttl\<rparr>
      | None \<Rightarrow> new_record secs n ttl now)"

lemma open_refines:
  assumes "rec_codec_ok cd" "good cd h" "secs_ok secs" "ttl_ok ttl" "time_ok now" "wf_name n" "n_Visibility n = VisibilityPublic"
    and ex: "existing = (case map_of h (name_String n) of None \<Rightarrow> None | Some raw \<Rightarrow> Some (projr (rc_Unmarshal cd raw)))"
    and alive: "\<And>r. existing = Some r \<Longrightarrow> cr_State r \<noteq> StateDeleted"
  defines "h' \<equiv> AList.update (name_String n) (rc_Marshal cd (open_record secs n ttl now existing)) h"
  shows "good cd h' \<and> reg_of cd h' = snd (reg_OpenPublic n (whole ttl) now (reg_of cd h)) \<and>
    (\<exists>c. fst (reg_OpenPublic n (whole ttl) now (reg_of cd h)) =
      Ok (c, if existing = None \<or> (\<exists>r. existing = Some r \<and> cr_State r = StateClosed) then Some (open_event n now) else None))"
proof (cases rule: good_cases [OF assms(2), of "name_String n"])
  case 1
  note new = new_record_ok [OF assms(3-6)]
  have "stored cd (rc_Marshal cd (new_record secs n ttl now)) (new_record secs n ttl now)"
    using assms(1) new(1) by (simp add: rec_codec_ok_def)
  from good_update [OF assms(2) this new(1,3)] show ?thesis
    using 1 assms(7) by (simp add: h'_def open_record_def ex reg_OpenPublic_def new(2))
next
  case (2 raw r)
  let ?r = "r\<lparr>cr_State := StateOpen, cr_LastActive := now, cr_TTLSeconds := secs ttl\<rparr>"
  have e: "existing = Some r" using 2 by (simp add: ex)
  have "wrap64 now = now" using assms(5) by (simp add: time_ok_def wrap64_id go_simps)
  then have rec: "open_record secs n ttl now (Some r) = ?r" by (simp add: open_record_def)
  have ok: "rec_ok ?r" using 2(3) assms(5) secs_bounds [OF assms(3,4)] by (auto simp: rec_ok_def time_ok_def)
  have chan: "chan_of ?r = (chan_of r)\<lparr>c_State := StateOpen, c_LastActive := now, c_TTL := whole ttl\<rparr>"
    using secs_bounds(2) [OF assms(3,4)] by (simp add: chan_of_def)
  have "stored cd (rc_Marshal cd ?r) ?r" using assms(1) ok by (simp add: rec_codec_ok_def)
  from good_update [OF assms(2) this ok] show ?thesis
    using 2 alive [OF e] assms(7)
    by (cases "cr_State r") (simp_all add: h'_def rec chan reg_OpenPublic_def Let_def e del: chan_of_upd(1-4))
qed

text \<open>The sweep compares in milliseconds.\<close>

definition expired_ms :: "go_time \<Rightarrow> channel \<Rightarrow> bool" where
  "expired_ms now c \<longleftrightarrow> c_State c = StateOpen \<and> c_TTL c div second * 1000 \<le> now div 1000000 - c_LastActive c div 1000000"

definition swept_ms :: "go_time \<Rightarrow> channel \<Rightarrow> channel option" where
  "swept_ms now c =
     (if \<not> expired_ms now c then Some c else if IsPrivate (c_Name c) then None else Some (c\<lparr>c_State := StateClosed\<rparr>))"

lemma digits_take: "10 ^ k \<le> n \<Longrightarrow> take (length (digits n) - k) (digits n) = digits (n div 10 ^ k)"
proof (induction k arbitrary: n)
  case (Suc k)
  have "(1 :: nat) \<le> 10 ^ k" by simp
  then have ten: "10 \<le> n" using Suc.prems unfolding power_Suc by linarith
  then have d: "digits n = digits (n div 10) @ [char_of (48 + n mod 10)]" by (subst digits.simps) simp
  have "10 ^ k \<le> n div 10" using Suc.prems by (simp add: less_eq_div_iff_mult_less_eq mult.commute)
  from Suc.IH [OF this] show ?case by (simp add: d div_mult2_eq)
qed simp

lemma lua_ms_Format:
  assumes "time_ok t"
  shows "lua_ms (FormatInt t) = Some (t div 1000000)"
proof -
  have "10 ^ 6 \<le> nat t" using assms by (simp add: time_ok_def le_nat_iff)
  then have "take (length (digits (nat t)) - 6) (digits (nat t)) = digits (nat t div 10 ^ 6)" by (rule digits_take)
  also have "\<dots> = FormatInt (t div 1000000)"
    using assms pos_imp_zdiv_nonneg_iff [of 1000000 t] by (simp add: FormatInt_def time_ok_def nat_div_distrib)
  finally have "take (length (FormatInt t) - 6) (FormatInt t) = FormatInt (t div 1000000)"
    using assms by (simp add: FormatInt_def time_ok_def)
  moreover have "t div 1000000 \<le> t" using assms div_mult_mod_eq [of t 1000000] pos_mod_sign [of 1000000 t]
    by (auto simp: time_ok_def)
  then have "ParseInt (FormatInt (t div 1000000)) = Ok (t div 1000000)"
    using assms by (intro ParseInt_Format) (auto simp: time_ok_def go_simps)
  ultimately show ?thesis by (simp add: lua_ms_def)
qed

lemma rec_times: "rec_ok r \<Longrightarrow> time_ok (cr_LastActive r) \<and> ParseInt (FormatInt (cr_TTLSeconds r)) = Ok (cr_TTLSeconds r)"
proof -
  assume "rec_ok r"
  then have "time_ok (cr_LastActive r)" "min_int64 \<le> cr_TTLSeconds r" "cr_TTLSeconds r \<le> max_int64"
    by (auto simp: rec_ok_def time_ok_def go_simps)
  then show ?thesis by (simp add: ParseInt_Format)
qed

lemma rec_private: "rec_ok r \<Longrightarrow> cr_Visibility r = ''private'' \<longleftrightarrow> IsPrivate (c_Name (chan_of r))"
  by (auto simp: rec_ok_def chan_of_def ParseName_print IsPrivate_def go_simps)

definition sweep_at :: "go_time \<Rightarrow> string set \<Rightarrow> registry \<Rightarrow> registry" where
  "sweep_at now F m f = (if f \<in> F then Option.bind (m f) (swept_ms now) else m f)"

lemma sweep_refines:
  assumes "rec_codec_ok cd" "good cd h" "time_ok now" "distinct (map fst es)" "\<And>f raw. (f, raw) \<in> set es \<Longrightarrow> map_of h f = Some raw"
  shows "\<exists>out h'. lua_sweep cd (now div 1000000) es h = (Some out, h') \<and> good cd h' \<and>
    reg_of cd h' = sweep_at now (fst ` set es) (reg_of cd h) \<and>
    sweep_rows now out = map (sweep_event now) (filter (expired_ms now) (map (\<lambda>(f, raw). the (reg_of cd h f)) es))"
  using assms(2,4,5)
proof (induction es arbitrary: h)
  case Nil
  then show ?case by (simp add: sweep_at_def fun_eq_iff)
next
  case (Cons e es)
  obtain f raw where e: "e = (f, raw)" by (cases e)
  then have raw: "map_of h f = Some raw" using Cons.prems(3) by simp
  obtain r where r: "stored cd raw r" "rec_ok r" "cr_Name r = f" "reg_of cd h f = Some (chan_of r)"
    using good_lookup [OF Cons.prems(1) raw] by blast
  have dec: "lua_decode cd raw = Some (lua_of r)" using r(1) by (simp add: stored_def)
  have lua: "lr_state (lua_of r) = state_string (cr_State r)" "lua_ms (lr_last_active (lua_of r)) = Some (cr_LastActive r div 1000000)"
    "ParseInt (lr_ttl_seconds (lua_of r)) = Ok (cr_TTLSeconds r)" "lr_visibility (lua_of r) = cr_Visibility r"
    using rec_times [OF r(2)] by (simp_all add: lua_of_def lua_ms_Format)
  have exp: "expired_ms now (chan_of r) \<longleftrightarrow> cr_State r = StateOpen \<and>
      cr_TTLSeconds r * 1000 \<le> now div 1000000 - cr_LastActive r div 1000000"
    by (simp add: expired_ms_def)
  have fresh: "f \<notin> fst ` set es" using Cons.prems(2) e by simp
  have other: "(f', raw') \<in> set es \<Longrightarrow> f' \<noteq> f \<and> map_of h f' = Some raw'" for f' raw'
    using Cons.prems(3) fresh by (auto simp: e image_iff)
  have same: "map (\<lambda>(f, raw). the (reg_of cd h1 f)) es = map (\<lambda>(f, raw). the (reg_of cd h f)) es"
    if "\<And>f'. f' \<noteq> f \<Longrightarrow> reg_of cd h1 f' = reg_of cd h f'" for h1
    using that other by (auto simp: image_iff)
  have IH: "\<exists>out h'. lua_sweep cd (now div 1000000) es h1 = (Some out, h') \<and> good cd h' \<and>
      reg_of cd h' = sweep_at now (fst ` set es) (reg_of cd h1) \<and>
      sweep_rows now out = map (sweep_event now) (filter (expired_ms now) (map (\<lambda>(f, raw). the (reg_of cd h f)) es))"
    if "good cd h1" "\<And>f'. f' \<noteq> f \<Longrightarrow> map_of h1 f' = map_of h f' \<and> reg_of cd h1 f' = reg_of cd h f'" for h1
    using Cons.IH [OF that(1)] Cons.prems(2) other that(2) same [of h1] by (simp add: e)
  show ?case
  proof (cases "expired_ms now (chan_of r)")
    case False
    then have "lua_sweep cd (now div 1000000) (e # es) h = lua_sweep cd (now div 1000000) es h"
      by (auto simp: e dec lua exp Let_def)
    moreover obtain out h' where "lua_sweep cd (now div 1000000) es h = (Some out, h')" "good cd h'"
      "reg_of cd h' = sweep_at now (fst ` set es) (reg_of cd h)"
      "sweep_rows now out = map (sweep_event now) (filter (expired_ms now) (map (\<lambda>(f, raw). the (reg_of cd h f)) es))"
      using IH [OF Cons.prems(1)] by blast
    moreover have "sweep_at now (fst ` set (e # es)) (reg_of cd h) = sweep_at now (fst ` set es) (reg_of cd h)"
      using r(4) False by (auto simp: sweep_at_def e fun_eq_iff swept_ms_def)
    ultimately show ?thesis using False r(4) by (simp add: e)
  next
    case True
    define h1 where "h1 = (if IsPrivate (c_Name (chan_of r)) then AList.delete f h
      else AList.update f (lua_encode cd (lua_of (r\<lparr>cr_State := StateClosed\<rparr>))) h)"
    have up: "stored cd (lua_encode cd (lua_of (r\<lparr>cr_State := StateClosed\<rparr>))) (r\<lparr>cr_State := StateClosed\<rparr>)" "rec_ok (r\<lparr>cr_State := StateClosed\<rparr>)"
      using assms(1) r(2) by (simp_all add: codec_lua rec_ok_upd)
    have h1: "good cd h1" "reg_of cd h1 = (reg_of cd h)(f := swept_ms now (chan_of r))"
      using good_delete [OF Cons.prems(1), of f] good_update [OF Cons.prems(1) up] r(3) True
      by (auto simp: h1_def swept_ms_def)
    have look: "f' \<noteq> f \<Longrightarrow> map_of h1 f' = map_of h f'" for f' by (simp add: h1_def)
    obtain out h' where IH': "lua_sweep cd (now div 1000000) es h1 = (Some out, h')" "good cd h'"
      "reg_of cd h' = sweep_at now (fst ` set es) (reg_of cd h1)"
      "sweep_rows now out = map (sweep_event now) (filter (expired_ms now) (map (\<lambda>(f, raw). the (reg_of cd h f)) es))"
      using IH [OF h1(1)] h1(2) look by auto
    let ?kind = "if IsPrivate (c_Name (chan_of r)) then ''deleted'' else ''closed''"
    have "lua_sweep cd (now div 1000000) (e # es) h = (Some (f # ?kind # out), h')"
      using IH'(1) True rec_private [OF r(2)] by (simp add: e dec lua exp h1_def lua_of_upd split: if_splits)
    moreover have "sweep_rows now (f # ?kind # out) = sweep_event now (chan_of r) # sweep_rows now out"
      using rec_name [OF r(2)] r(3) by (simp add: sweep_event_def)
    moreover have "sweep_at now (fst ` set es) (reg_of cd h1) = sweep_at now (fst ` set (e # es)) (reg_of cd h)"
      using r(4) fresh by (auto simp: sweep_at_def e h1(2) fun_eq_iff)
    ultimately show ?thesis using IH' True r(4) by (simp add: e)
  qed
qed

subsection \<open>Every operation takes effect at one moment\<close>

definition takes_effect :: "rec_codec \<Rightarrow> ('c \<Rightarrow> hash) \<Rightarrow> (hash \<Rightarrow> hash \<Rightarrow> bool) \<Rightarrow> 'c \<Rightarrow> 'c \<Rightarrow> (registry \<Rightarrow> registry \<Rightarrow> bool) \<Rightarrow> bool" where
  "takes_effect cd db E c c' P \<longleftrightarrow>
     (\<exists>h h'. E\<^sup>*\<^sup>* (db c) h \<and> E\<^sup>*\<^sup>* h' (db c') \<and> good cd h \<and> good cd h' \<and> P (reg_of cd h) (reg_of cd h'))"

definition peers_ok :: "rec_codec \<Rightarrow> (hash \<Rightarrow> hash \<Rightarrow> bool) \<Rightarrow> bool" where
  "peers_ok cd E \<longleftrightarrow> (\<forall>h h'. good cd h \<longrightarrow> E h h' \<longrightarrow> good cd h')"

lemma peers_good: "E\<^sup>*\<^sup>* h h' \<Longrightarrow> peers_ok cd E \<Longrightarrow> good cd h \<Longrightarrow> good cd h'"
  by (induction rule: rtranclp_induct) (auto simp: peers_ok_def)

lemma takes_effectI:
  "E\<^sup>*\<^sup>* (db c) h \<Longrightarrow> E\<^sup>*\<^sup>* h' (db c') \<Longrightarrow> good cd h \<Longrightarrow> good cd h' \<Longrightarrow> P (reg_of cd h) (reg_of cd h') \<Longrightarrow> takes_effect cd db E c c' P"
  by (auto simp: takes_effect_def)

lemma takes_effect_trans:
  "E\<^sup>*\<^sup>* (db c) (db c1) \<Longrightarrow> takes_effect cd db E c1 c' P \<Longrightarrow> takes_effect cd db E c c' P"
  "takes_effect cd db E c c1 P \<Longrightarrow> E\<^sup>*\<^sup>* (db c1) (db c') \<Longrightarrow> takes_effect cd db E c c' P"
  unfolding takes_effect_def by (blast intro: rtranclp_trans)+

lemma chan_redisD:
  assumes "chan_redis_ok cl key db E"
  shows "cc_HGet cl key f c = (g, c') \<Longrightarrow> \<exists>h. E\<^sup>*\<^sup>* (db c) h \<and> E\<^sup>*\<^sup>* h (db c') \<and> (\<forall>x. g = Ok x \<longrightarrow> x = map_of h f)"
    and "cc_HSetNX cl key f v c = (b, c') \<Longrightarrow> \<exists>h h'. E\<^sup>*\<^sup>* (db c) h \<and> E\<^sup>*\<^sup>* h' (db c') \<and>
           (case b of Ok ok \<Rightarrow> ok \<longleftrightarrow> map_of h f = None | Err _ \<Rightarrow> True) \<and>
           (h' = (if map_of h f = None then AList.update f v h else h) \<or> isl b \<and> h' = h)"
    and "cc_WatchHGet cl key f c = (g, c') \<Longrightarrow> \<exists>h. E\<^sup>*\<^sup>* (db c) h \<and> E\<^sup>*\<^sup>* h (db c') \<and> (\<forall>x. g = Ok x \<longrightarrow> x = map_of h f) \<and>
           (\<forall>f v t c''. cc_TxHSet cl key f v c' = (t, c'') \<longrightarrow>
              (case t of TxOk \<Rightarrow> E\<^sup>*\<^sup>* (AList.update f v h) (db c'') | TxFailedErr \<Rightarrow> E\<^sup>*\<^sup>* h (db c'')
               | TxErr _ \<Rightarrow> E\<^sup>*\<^sup>* h (db c'') \<or> E\<^sup>*\<^sup>* (AList.update f v h) (db c'')))"
    and "cc_Eval cl key scr c = (a, c') \<Longrightarrow> \<exists>h h'. E\<^sup>*\<^sup>* (db c) h \<and> E\<^sup>*\<^sup>* h' (db c') \<and> (\<forall>r. a = Ok r \<longrightarrow> fst (scr h) = Some r) \<and>
           (h' = snd (scr h) \<or> isl a \<and> h' = h)"
proof -
  have laws: "reads_law cl key db E" "setnx_law cl key db E" "watch_law cl key db E" "eval_law cl key db E"
    using assms by (simp_all add: chan_redis_ok_def)
  show "cc_HGet cl key f c = (g, c') \<Longrightarrow> \<exists>h. E\<^sup>*\<^sup>* (db c) h \<and> E\<^sup>*\<^sup>* h (db c') \<and> (\<forall>x. g = Ok x \<longrightarrow> x = map_of h f)"
    by (rule laws(1) [unfolded reads_law_def, THEN conjunct1, THEN spec, THEN spec, THEN spec, THEN spec, THEN mp])
  show "cc_HSetNX cl key f v c = (b, c') \<Longrightarrow> \<exists>h h'. E\<^sup>*\<^sup>* (db c) h \<and> E\<^sup>*\<^sup>* h' (db c') \<and>
           (case b of Ok ok \<Rightarrow> ok \<longleftrightarrow> map_of h f = None | Err _ \<Rightarrow> True) \<and>
           (h' = (if map_of h f = None then AList.update f v h else h) \<or> isl b \<and> h' = h)"
    by (rule laws(2) [unfolded setnx_law_def, THEN spec, THEN spec, THEN spec, THEN spec, THEN spec, THEN mp])
  show "cc_WatchHGet cl key f c = (g, c') \<Longrightarrow> \<exists>h. E\<^sup>*\<^sup>* (db c) h \<and> E\<^sup>*\<^sup>* h (db c') \<and> (\<forall>x. g = Ok x \<longrightarrow> x = map_of h f) \<and>
           (\<forall>f v t c''. cc_TxHSet cl key f v c' = (t, c'') \<longrightarrow>
              (case t of TxOk \<Rightarrow> E\<^sup>*\<^sup>* (AList.update f v h) (db c'') | TxFailedErr \<Rightarrow> E\<^sup>*\<^sup>* h (db c'')
               | TxErr _ \<Rightarrow> E\<^sup>*\<^sup>* h (db c'') \<or> E\<^sup>*\<^sup>* (AList.update f v h) (db c'')))"
    by (rule laws(3) [unfolded watch_law_def, THEN spec, THEN spec, THEN spec, THEN spec, THEN mp])
  show "cc_Eval cl key scr c = (a, c') \<Longrightarrow> \<exists>h h'. E\<^sup>*\<^sup>* (db c) h \<and> E\<^sup>*\<^sup>* h' (db c') \<and> (\<forall>r. a = Ok r \<longrightarrow> fst (scr h) = Some r) \<and>
           (h' = snd (scr h) \<or> isl a \<and> h' = h)"
    by (rule laws(4) [unfolded eval_law_def, THEN spec, THEN spec, THEN spec, THEN spec, THEN mp])
qed

lemma eval_effect:
  assumes "chan_redis_ok cl key db E" "peers_ok cd E" "good cd (db c)" "cc_Eval cl key scr c = (a, c')"
    and refines: "\<And>h. good cd h \<Longrightarrow> good cd (snd (scr h)) \<and> reg_of cd (snd (scr h)) = op (reg_of cd h) \<and> fst (scr h) = Some (rep (reg_of cd h))"
  shows "takes_effect cd db E c c' (\<lambda>m m'. (\<forall>r. a = Ok r \<longrightarrow> m' = op m \<and> r = rep m) \<and> (m' = op m \<or> m' = m))"
proof -
  obtain h h' where h: "E\<^sup>*\<^sup>* (db c) h" "E\<^sup>*\<^sup>* h' (db c')" "\<And>r. a = Ok r \<Longrightarrow> fst (scr h) = Some r" "h' = snd (scr h) \<or> isl a \<and> h' = h"
    using chan_redisD(4) [OF assms(1,4)] by blast
  have g: "good cd h" using peers_good [OF h(1) assms(2,3)] .
  show ?thesis
    by (rule takes_effectI [of E db c h h' c', OF h(1,2) g]) (use refines [OF g] g h(3,4) in \<open>auto simp: isl_def\<close>)
qed

lemma open_attempt_effect:
  assumes ok: "chan_redis_ok cl (hashKey s) db E" "peers_ok cd E" "rec_codec_ok cd" "good cd (db (xs_client s))"
    and args: "secs_ok secs" "ttl_ok ttl" "time_ok now" "wf_name n" "n_Visibility n = VisibilityPublic"
    and run: "open_attempt cd cl secs n ttl now s = (out, s')"
  shows "hashKey s' = hashKey s \<and> (case out of
      OpenRetry \<Rightarrow> E\<^sup>*\<^sup>* (db (xs_client s)) (db (xs_client s'))
    | OpenDone opened \<Rightarrow> takes_effect cd db E (xs_client s) (xs_client s') (\<lambda>m m'.
        \<exists>c. reg_OpenPublic n (whole ttl) now m = (Ok (c, if opened then Some (open_event n now) else None), m'))
    | OpenErr e \<Rightarrow> takes_effect cd db E (xs_client s) (xs_client s') (\<lambda>m m'. m' = m \<or> m' = snd (reg_OpenPublic n (whole ttl) now m)))"
proof -
  let ?c = "xs_client s" and ?k = "hashKey s" and ?f = "name_String n"
  obtain g c1 where g: "cc_WatchHGet cl ?k ?f ?c = (g, c1)" by fastforce
  obtain h where h: "E\<^sup>*\<^sup>* (db ?c) h" "E\<^sup>*\<^sup>* h (db c1)" "\<And>x. g = Ok x \<Longrightarrow> x = map_of h ?f"
    and tx: "\<And>f v t c2. cc_TxHSet cl ?k f v c1 = (t, c2) \<Longrightarrow>
      (case t of TxOk \<Rightarrow> E\<^sup>*\<^sup>* (AList.update f v h) (db c2) | TxFailedErr \<Rightarrow> E\<^sup>*\<^sup>* h (db c2)
       | TxErr _ \<Rightarrow> E\<^sup>*\<^sup>* h (db c2) \<or> E\<^sup>*\<^sup>* (AList.update f v h) (db c2))"
    using chan_redisD(3) [OF ok(1) g] by blast
  have good: "good cd h" using peers_good [OF h(1) ok(2,4)] .
  have still: "takes_effect cd db E ?c c' (\<lambda>m m'. m' = m \<or> m' = snd (reg_OpenPublic n (whole ttl) now m))" if "E\<^sup>*\<^sup>* h (db c')" for c'
    by (rule takes_effectI [of E db ?c h h c', OF h(1) that good good]) simp
  define existing where "existing = (case map_of h ?f of None \<Rightarrow> None | Some raw \<Rightarrow> Some (projr (rc_Unmarshal cd raw)))"
  have ex: "(case map_of h ?f of None \<Rightarrow> Ok None | Some raw \<Rightarrow> map_sum id Some (rc_Unmarshal cd raw)) = Ok existing"
    by (rule good_cases [OF good, of ?f]) (simp_all add: existing_def)
  show ?thesis
  proof (cases g)
    case (Inl e)
    then have "out = OpenErr e" "s' = s\<lparr>xs_client := c1\<rparr>" using run g by (simp_all add: open_attempt_def)
    then show ?thesis using still [OF h(2)] by (simp add: hashKey_def)
  next
    case (Inr x)
    then have x: "x = map_of h ?f" using h(3) by simp
    show ?thesis
    proof (cases "\<exists>r. existing = Some r \<and> cr_State r = StateDeleted")
      case True
      then obtain e where "out = OpenErr e" "s' = s\<lparr>xs_client := c1\<rparr>" using run g Inr ex by (auto simp: open_attempt_def x)
      then show ?thesis using still [OF h(2)] by (simp add: hashKey_def)
    next
      case False
      let ?rec = "open_record secs n ttl now existing"
      let ?h' = "AList.update ?f (rc_Marshal cd ?rec) h"
      have ref: "good cd ?h'" "reg_of cd ?h' = snd (reg_OpenPublic n (whole ttl) now (reg_of cd h))"
        "\<exists>c. fst (reg_OpenPublic n (whole ttl) now (reg_of cd h)) =
          Ok (c, if existing = None \<or> (\<exists>r. existing = Some r \<and> cr_State r = StateClosed) then Some (open_event n now) else None)"
        using open_refines [OF ok(3) good args existing_def] False by blast+
      obtain t c2 where t: "cc_TxHSet cl ?k ?f (rc_Marshal cd ?rec) c1 = (t, c2)" by fastforce
      let ?opened = "existing = None \<or> (\<exists>r. existing = Some r \<and> cr_State r = StateClosed)"
      have res: "s' = s\<lparr>xs_client := c2\<rparr>" "out = (case t of TxOk \<Rightarrow> OpenDone ?opened | TxFailedErr \<Rightarrow> OpenRetry | TxErr e \<Rightarrow> OpenErr e)"
      proof -
        have "\<not> (case existing of Some rec \<Rightarrow> cr_State rec = StateDeleted | None \<Rightarrow> False)"
          and op: "(existing = None \<or> (case existing of Some rec \<Rightarrow> cr_State rec = StateClosed | None \<Rightarrow> False)) = ?opened"
          using False by (auto split: option.split)
        then have "open_attempt cd cl secs n ttl now s = (case t of
            TxErr err \<Rightarrow> (OpenErr err, s\<lparr>xs_client := c2\<rparr>)
          | TxFailedErr \<Rightarrow> (OpenRetry, s\<lparr>xs_client := c2\<rparr>)
          | TxOk \<Rightarrow> (OpenDone ?opened, s\<lparr>xs_client := c2\<rparr>))"
          using t [unfolded open_record_def]
          by (simp only: open_attempt_def g Inr x ex prod.case sum.case Let_def if_False op)
        then show "s' = s\<lparr>xs_client := c2\<rparr>" "out = (case t of TxOk \<Rightarrow> OpenDone ?opened | TxFailedErr \<Rightarrow> OpenRetry | TxErr e \<Rightarrow> OpenErr e)"
          using run by (cases t; simp)+
      qed
      show ?thesis
      proof (cases t)
        case TxOk
        have "takes_effect cd db E ?c c2 (\<lambda>m m'. \<exists>c. reg_OpenPublic n (whole ttl) now m = (Ok (c, if ?opened then Some (open_event n now) else None), m'))"
        proof (rule takes_effectI [of E db ?c h ?h' c2, OF h(1) _ good ref(1)])
          show "E\<^sup>*\<^sup>* ?h' (db c2)" using tx [OF t] TxOk by simp
          show "\<exists>c. reg_OpenPublic n (whole ttl) now (reg_of cd h) = (Ok (c, if ?opened then Some (open_event n now) else None), reg_of cd ?h')"
            using ref(2,3) unfolding prod_eq_iff by simp
        qed
        then show ?thesis using res TxOk by (simp add: hashKey_def)
      next
        case TxFailedErr
        then show ?thesis using res tx [OF t] h(1) by (auto simp: hashKey_def)
      next
        case (TxErr e)
        have "takes_effect cd db E ?c c2 (\<lambda>m m'. m' = m \<or> m' = snd (reg_OpenPublic n (whole ttl) now m))"
        proof (cases "E\<^sup>*\<^sup>* h (db c2)")
          case True
          then show ?thesis by (rule still)
        next
          case False
          then have "E\<^sup>*\<^sup>* ?h' (db c2)" using tx [OF t] TxErr by simp
          then show ?thesis by (rule takes_effectI [of E db ?c h ?h' c2, OF h(1) _ good ref(1)]) (simp add: ref(2))
        qed
        then show ?thesis using res TxErr by (simp add: hashKey_def)
      qed
    qed
  qed
qed

lemma xs_Get_peers:
  assumes "chan_redis_ok cl (hashKey s) db E" "xs_Get cd cl n s = (r, s')"
  shows "E\<^sup>*\<^sup>* (db (xs_client s)) (db (xs_client s')) \<and> hashKey s' = hashKey s"
proof -
  obtain g c where g: "cc_HGet cl (hashKey s) (name_String n) (xs_client s) = (g, c)" by fastforce
  have "E\<^sup>*\<^sup>* (db (xs_client s)) (db c)" using chan_redisD(1) [OF assms(1) g] by (meson rtranclp_trans)
  moreover have "s' = s\<lparr>xs_client := c\<rparr>" using assms(2) g by (auto simp: xs_Get_def split: sum.splits option.splits if_splits)
  ultimately show ?thesis by (simp add: hashKey_def)
qed

lemma open_loop_effect:
  assumes ok: "peers_ok cd E" "rec_codec_ok cd"
    and args: "secs_ok secs" "ttl_ok ttl" "time_ok now" "wf_name n" "n_Visibility n = VisibilityPublic"
    and "chan_redis_ok cl (hashKey s) db E" "good cd (db (xs_client s))" "open_loop cd cl secs n ttl now left s = (res, s')"
  shows "takes_effect cd db E (xs_client s) (xs_client s') (\<lambda>m m'. case res of
      Ok (ch, ev) \<Rightarrow> \<exists>c. reg_OpenPublic n (whole ttl) now m = (Ok (c, ev), m')
    | Err e \<Rightarrow> m' = m \<or> m' = snd (reg_OpenPublic n (whole ttl) now m))"
  using assms(8-)
proof (induction left arbitrary: s)
  case 0
  then show ?case by (auto intro: takes_effectI [of E db _ "db (xs_client s')" "db (xs_client s')"])
next
  case (Suc left)
  obtain out s1 where a: "open_attempt cd cl secs n ttl now s = (out, s1)" by fastforce
  note eff = open_attempt_effect [OF Suc.prems(1) ok Suc.prems(2) args a]
  show ?case
  proof (cases out)
    case (OpenErr e)
    then show ?thesis using eff Suc.prems(3) a by auto
  next
    case OpenRetry
    then have peers: "E\<^sup>*\<^sup>* (db (xs_client s)) (db (xs_client s1))" and key: "hashKey s1 = hashKey s" using eff by simp_all
    then have "good cd (db (xs_client s1))" using peers_good [OF _ ok(1) Suc.prems(2)] by blast
    from Suc.IH [OF _ this] show ?thesis
      using takes_effect_trans(1) [of E db "xs_client s" "xs_client s1", OF peers] key Suc.prems a OpenRetry by simp
  next
    case (OpenDone opened)
    obtain ch s2 where g: "xs_Get cd cl n s1 = (ch, s2)" by fastforce
    have "E\<^sup>*\<^sup>* (db (xs_client s1)) (db (xs_client s2))" using xs_Get_peers [OF _ g, of db E] eff Suc.prems(1) by simp
    then have "takes_effect cd db E (xs_client s) (xs_client s2) (\<lambda>m m'.
        \<exists>c. reg_OpenPublic n (whole ttl) now m = (Ok (c, if opened then Some (open_event n now) else None), m'))"
      using eff OpenDone by (auto intro: takes_effect_trans(2))
    then show ?thesis using Suc.prems(3) a g OpenDone by (auto simp: open_event_def split: if_splits)
  qed
qed

lemma takes_effect_mono:
  "takes_effect cd db E c c' P \<Longrightarrow> (\<And>m m'. P m m' \<Longrightarrow> Q m m') \<Longrightarrow> takes_effect cd db E c c' Q"
  unfolding takes_effect_def by blast

lemma xs_Touch_effect:
  assumes "chan_redis_ok cl (hashKey s) db E" "peers_ok cd E" "rec_codec_ok cd" "good cd (db (xs_client s))" "time_ok now"
    and run: "xs_Touch cd cl n now s = (e, s')"
  shows "takes_effect cd db E (xs_client s) (xs_client s') (\<lambda>m m'.
      if CodeOf e = Some Internal then m' = m \<or> m' = snd (reg_Touch n now m)
      else CodeOf e = CodeOf (fst (reg_Touch n now m)) \<and> m' = snd (reg_Touch n now m))"
proof -
  let ?scr = "touchScript cd (name_String n) (formatNanos now)" and ?op = "\<lambda>m. snd (reg_Touch n now m)"
  let ?rep = "\<lambda>m. LStr (case CodeOf (fst (reg_Touch n now m)) of None \<Rightarrow> ''ok'' | Some ChannelClosed \<Rightarrow> ''closed'' | _ \<Rightarrow> ''not_found'')"
  obtain a c where ev: "cc_Eval cl (hashKey s) ?scr (xs_client s) = (a, c)" by fastforce
  have codes: "CodeOf (fst (reg_Touch n now m)) \<in> {None, Some ChannelClosed, Some ChannelNotFound}" for m
    by (simp add: reg_Touch_def split: option.split State.split)
  have s': "s' = s\<lparr>xs_client := c\<rparr>" using run ev by (auto simp: xs_Touch_def split: sum.splits)
  have "takes_effect cd db E (xs_client s) c (\<lambda>m m'. (\<forall>r. a = Ok r \<longrightarrow> m' = ?op m \<and> r = ?rep m) \<and> (m' = ?op m \<or> m' = m))"
    by (rule eval_effect [OF assms(1,2,4) ev]) (rule touch_refines [OF assms(3) _ assms(5)])
  then show ?thesis unfolding s'
  proof (simp, elim takes_effect_mono)
    fix m m' assume "(\<forall>r. a = Ok r \<longrightarrow> m' = ?op m \<and> r = ?rep m) \<and> (m' = ?op m \<or> m' = m)"
    then show "(CodeOf e = Some Internal \<longrightarrow> m' = m \<or> m' = ?op m) \<and>
        (CodeOf e \<noteq> Some Internal \<longrightarrow> CodeOf e = CodeOf (fst (reg_Touch n now m)) \<and> m' = ?op m)"
      using run ev codes [of m] by (cases a) (auto simp: xs_Touch_def)
  qed
qed

lemma xs_Delete_effect:
  assumes "chan_redis_ok cl (hashKey s) db E" "peers_ok cd E" "rec_codec_ok cd" "good cd (db (xs_client s))"
    and run: "xs_Delete cd cl n now s = (e, s')"
  shows "takes_effect cd db E (xs_client s) (xs_client s') (\<lambda>m m'.
      if (\<exists>err. e = Err err \<and> CodeOf (Some err) = Some Internal) then m' = m \<or> m' = snd (reg_Delete n now m)
      else (e, m') = reg_Delete n now m)"
proof -
  let ?scr = "deleteScript cd (name_String n)" and ?op = "\<lambda>m. snd (reg_Delete n now m)"
  let ?rep = "\<lambda>m. LStr (case fst (reg_Delete n now m) of Err _ \<Rightarrow> ''not_found'' | Ok None \<Rightarrow> ''noop'' | Ok (Some _) \<Rightarrow> ''deleted'')"
  obtain a c where ev: "cc_Eval cl (hashKey s) ?scr (xs_client s) = (a, c)" by fastforce
  have cases: "fst (reg_Delete n now m) \<in> {Err (err_New ChannelNotFound ''no such channel''), Ok None,
      Ok (Some \<lparr>e_Kind = EventDeleted, e_Name = n, e_At = now\<rparr>)}" for m
    by (simp add: reg_Delete_def split: option.split)
  have s': "s' = s\<lparr>xs_client := c\<rparr>" using run ev by (auto simp: xs_Delete_def split: sum.splits)
  have "takes_effect cd db E (xs_client s) c (\<lambda>m m'. (\<forall>r. a = Ok r \<longrightarrow> m' = ?op m \<and> r = ?rep m) \<and> (m' = ?op m \<or> m' = m))"
    by (rule eval_effect [OF assms(1,2,4) ev]) (rule delete_refines [OF assms(3)])
  then show ?thesis unfolding s'
  proof (simp, elim takes_effect_mono)
    fix m m' assume "(\<forall>r. a = Ok r \<longrightarrow> m' = ?op m \<and> r = ?rep m) \<and> (m' = ?op m \<or> m' = m)"
    then show "((\<exists>err. e = Err err \<and> CodeOf (Some err) = Some Internal) \<longrightarrow> m' = m \<or> m' = ?op m) \<and>
        ((\<forall>err. e = Err err \<longrightarrow> CodeOf (Some err) \<noteq> Some Internal) \<longrightarrow> (e, m') = reg_Delete n now m)"
      using run ev cases [of m] by (cases a) (auto simp: xs_Delete_def prod_eq_iff)
  qed
qed

lemma xs_SetDelta_effect:
  assumes "chan_redis_ok cl (hashKey s) db E" "peers_ok cd E" "rec_codec_ok cd" "good cd (db (xs_client s))"
    and run: "xs_SetDelta cd cl n b s = (e, s')"
  shows "takes_effect cd db E (xs_client s) (xs_client s') (\<lambda>m m'.
      if CodeOf e = Some Internal then m' = m \<or> m' = snd (reg_SetDelta n b m) else (e, m') = reg_SetDelta n b m)"
proof -
  let ?scr = "setDeltaScript cd (name_String n) (if b then ''1'' else ''0'')" and ?op = "\<lambda>m. snd (reg_SetDelta n b m)"
  let ?rep = "\<lambda>m. LStr (case fst (reg_SetDelta n b m) of None \<Rightarrow> ''ok'' | Some _ \<Rightarrow> ''not_found'')"
  obtain a c where ev: "cc_Eval cl (hashKey s) ?scr (xs_client s) = (a, c)" by fastforce
  have cases: "fst (reg_SetDelta n b m) \<in> {None, Some (err_New ChannelNotFound ''no such channel'')}" for m
    by (simp add: reg_SetDelta_def)
  have s': "s' = s\<lparr>xs_client := c\<rparr>" using run ev by (auto simp: xs_SetDelta_def split: sum.splits)
  have "takes_effect cd db E (xs_client s) c (\<lambda>m m'. (\<forall>r. a = Ok r \<longrightarrow> m' = ?op m \<and> r = ?rep m) \<and> (m' = ?op m \<or> m' = m))"
    by (rule eval_effect [OF assms(1,2,4) ev]) (rule setDelta_refines [OF assms(3)])
  then show ?thesis unfolding s'
  proof (simp, elim takes_effect_mono)
    fix m m' assume "(\<forall>r. a = Ok r \<longrightarrow> m' = ?op m \<and> r = ?rep m) \<and> (m' = ?op m \<or> m' = m)"
    then show "(CodeOf e = Some Internal \<longrightarrow> m' = m \<or> m' = ?op m) \<and>
        (CodeOf e \<noteq> Some Internal \<longrightarrow> (e, m') = reg_SetDelta n b m)"
      using run ev cases [of m] by (cases a) (auto simp: xs_SetDelta_def prod_eq_iff)
  qed
qed

lemma xs_OpenPublic_effect:
  assumes "chan_redis_ok cl (hashKey s) db E" "peers_ok cd E" "rec_codec_ok cd" "good cd (db (xs_client s))"
    and "secs_ok secs" "ttl_ok ttl" "time_ok now" "wf_name n" and run: "xs_OpenPublic cd cl secs n ttl now s = (res, s')"
  shows "takes_effect cd db E (xs_client s) (xs_client s') (\<lambda>m m'. case res of
      Ok (ch, ev) \<Rightarrow> \<exists>c. reg_OpenPublic n (whole ttl) now m = (Ok (c, ev), m')
    | Err e \<Rightarrow> m' = m \<or> m' = snd (reg_OpenPublic n (whole ttl) now m))"
proof (cases "n_Visibility n = VisibilityPublic")
  case True
  then show ?thesis using run open_loop_effect [OF assms(2,3,5-8) True assms(1,4), of 3 res s'] by (simp add: xs_OpenPublic_def)
next
  case False
  then show ?thesis
    using run assms(4) by (auto simp: xs_OpenPublic_def intro!: takes_effectI [of E db "xs_client s'" "db (xs_client s')" "db (xs_client s')"])
qed

lemma xs_CreatePrivate_effect:
  assumes "chan_redis_ok cl (hashKey s) db E" "peers_ok cd E" "rec_codec_ok cd" "good cd (db (xs_client s))"
    and args: "secs_ok secs" "ttl_ok ttl" "time_ok now" "wf_name n" and run: "xs_CreatePrivate cd cl secs n ttl now s = (res, s')"
  shows "takes_effect cd db E (xs_client s) (xs_client s') (\<lambda>m m'.
      if (\<exists>err. res = Err err \<and> CodeOf (Some err) = Some Internal) then m' = m \<or> m' = snd (reg_CreatePrivate n (whole ttl) now m)
      else res = map_sum id (map_prod Some id) (fst (reg_CreatePrivate n (whole ttl) now m)) \<and> m' = snd (reg_CreatePrivate n (whole ttl) now m))"
proof (cases "n_Visibility n = VisibilityPrivate")
  case False
  then have "res = Err (err_New ChannelInvalid ''CreatePrivate requires a private channel name'')" "s' = s"
    "\<And>m. reg_CreatePrivate n (whole ttl) now m = (Err (err_New ChannelInvalid ''CreatePrivate requires a private channel name''), m)"
    using run by (simp_all add: xs_CreatePrivate_def reg_CreatePrivate_def)
  then show ?thesis
    using assms(4) by (auto intro!: takes_effectI [of E db "xs_client s" "db (xs_client s)" "db (xs_client s)"])
next
  case True
  let ?f = "name_String n" and ?rec = "new_record secs n ttl now"
  obtain a c where x: "cc_HSetNX cl (hashKey s) ?f (rc_Marshal cd ?rec) (xs_client s) = (a, c)" by fastforce
  obtain h h' where h: "E\<^sup>*\<^sup>* (db (xs_client s)) h" "E\<^sup>*\<^sup>* h' (db c)"
    "\<And>ok. a = Ok ok \<Longrightarrow> ok \<longleftrightarrow> map_of h ?f = None"
    "h' = (if map_of h ?f = None then AList.update ?f (rc_Marshal cd ?rec) h else h) \<or> isl a \<and> h' = h"
    using chan_redisD(2) [OF assms(1) x] by (elim exE conjE) (cases a, auto)
  have g: "good cd h" using peers_good [OF h(1) assms(2,4)] .
  note ref = create_refines [OF assms(3) g args True]
  have s': "s' = s\<lparr>xs_client := c\<rparr>" using run x True by (auto simp: xs_CreatePrivate_def Let_def split: sum.splits if_splits)
  have chan: "fromRecord ?rec = Ok (new_channel n (whole ttl) now)"
    using fromRecord_ok [OF new_record_ok(1) [OF args]] new_record_ok(2) [OF args] by simp
  have "takes_effect cd db E (xs_client s) c (\<lambda>m m'.
      if (\<exists>err. res = Err err \<and> CodeOf (Some err) = Some Internal) then m' = m \<or> m' = snd (reg_CreatePrivate n (whole ttl) now m)
      else res = map_sum id (map_prod Some id) (fst (reg_CreatePrivate n (whole ttl) now m)) \<and> m' = snd (reg_CreatePrivate n (whole ttl) now m))"
  proof (rule takes_effectI [of E db "xs_client s" h h' c, OF h(1,2) g])
    show "good cd h'" using h(4) ref g by auto
    show "if (\<exists>err. res = Err err \<and> CodeOf (Some err) = Some Internal)
      then reg_of cd h' = reg_of cd h \<or> reg_of cd h' = snd (reg_CreatePrivate n (whole ttl) now (reg_of cd h))
      else res = map_sum id (map_prod Some id) (fst (reg_CreatePrivate n (whole ttl) now (reg_of cd h))) \<and>
        reg_of cd h' = snd (reg_CreatePrivate n (whole ttl) now (reg_of cd h))"
    proof (cases a)
      case (Inl e)
      then have "res = Err (err_Wrap Internal ''redis HSetNX'' e)" using run x True by (simp add: xs_CreatePrivate_def Let_def)
      then show ?thesis using h(4) ref by auto
    next
      case (Inr ok)
      then have res: "res = (if ok then Ok (Some (new_channel n (whole ttl) now), Some (open_event n now))
          else Err (err_New ChannelExists ''channel already exists''))"
        using run x True chan by (simp add: xs_CreatePrivate_def Let_def open_event_def split: if_splits)
      have "\<not> (\<exists>err. res = Err err \<and> CodeOf (Some err) = Some Internal)" using res by auto
      moreover have "res = map_sum id (map_prod Some id) (fst (reg_CreatePrivate n (whole ttl) now (reg_of cd h)))"
        using ref h(3) [OF Inr] res by auto
      moreover have "reg_of cd h' = snd (reg_CreatePrivate n (whole ttl) now (reg_of cd h))" using ref h(4) Inr by auto
      ultimately show ?thesis by simp
    qed
  qed
  then show ?thesis by (simp add: s')
qed

text \<open>A sweep closes and deletes what had expired by then, in milliseconds, and reports exactly that.\<close>

definition reg_Sweep_ms :: "go_time \<Rightarrow> registry \<Rightarrow> registry" where
  "reg_Sweep_ms now m k = Option.bind (m k) (swept_ms now)"

lemma sweepScript_refines:
  assumes "rec_codec_ok cd" "good cd h" "time_ok now"
  obtains out h' where "sweepScript cd (formatNanos now) h = (Some (LArr out), h')" "good cd h'"
    "reg_of cd h' = reg_Sweep_ms now (reg_of cd h)"
    "set (sweep_rows now out) = sweep_event now ` {c \<in> ran (reg_of cd h). expired_ms now c}"
proof -
  have wf: "map_wf h" using assms(2) by (simp add: good_def)
  then have "map_of h f = Some raw" if "(f, raw) \<in> set h" for f raw using that by simp
  from sweep_refines [OF assms wf this]
  obtain out h' where o: "lua_sweep cd (now div 1000000) h h = (Some out, h')" "good cd h'"
    "reg_of cd h' = sweep_at now (fst ` set h) (reg_of cd h)"
    "sweep_rows now out = map (sweep_event now) (filter (expired_ms now) (map (\<lambda>(f, raw). the (reg_of cd h f)) h))"
    by blast
  have dom: "f \<notin> fst ` set h \<Longrightarrow> reg_of cd h f = None" for f
    unfolding reg_of_None [OF assms(2)] map_of_eq_None_iff .
  have "sweep_at now (fst ` set h) (reg_of cd h) = reg_Sweep_ms now (reg_of cd h)"
    using dom by (auto simp: sweep_at_def reg_Sweep_ms_def fun_eq_iff)
  moreover have "(\<lambda>(f, raw). the (reg_of cd h f)) ` set h = ran (reg_of cd h)"
  proof -
    have "fst ` set h = dom (reg_of cd h)"
      by (rule set_eqI) (simp only: domIff reg_of_None [OF assms(2)] map_of_eq_None_iff not_not)
    moreover have "(\<lambda>(f, raw). the (reg_of cd h f)) ` set h = (\<lambda>f. the (reg_of cd h f)) ` fst ` set h"
      by (simp add: image_image split_beta)
    moreover have "(\<lambda>f. the (m f)) ` dom m = ran m" for m :: registry
      by (auto simp: ran_def image_iff) (metis domI option.sel)
    ultimately show ?thesis by simp
  qed
  ultimately show ?thesis using that o formatNanos_ok [OF assms(3)] lua_ms_Format [OF assms(3)]
    by (auto simp: sweepScript_def)
qed

lemma xs_Sweep_effect:
  assumes "chan_redis_ok cl (hashKey s) db E" "peers_ok cd E" "rec_codec_ok cd" "good cd (db (xs_client s))" "time_ok now"
    and run: "xs_Sweep cd cl now s = (res, s')"
  shows "takes_effect cd db E (xs_client s) (xs_client s') (\<lambda>m m'.
      case res of
        Ok evs \<Rightarrow> m' = reg_Sweep_ms now m \<and> set evs = sweep_event now ` {c \<in> ran m. expired_ms now c}
      | Err e \<Rightarrow> CodeOf (Some e) = Some Internal \<and> (m' = m \<or> m' = reg_Sweep_ms now m))"
proof -
  obtain a c where ev: "cc_Eval cl (hashKey s) (sweepScript cd (formatNanos now)) (xs_client s) = (a, c)" by fastforce
  obtain h h' where h: "E\<^sup>*\<^sup>* (db (xs_client s)) h" "E\<^sup>*\<^sup>* h' (db c)"
    "\<And>r. a = Ok r \<Longrightarrow> fst (sweepScript cd (formatNanos now) h) = Some r"
    "h' = snd (sweepScript cd (formatNanos now) h) \<or> isl a \<and> h' = h"
    using chan_redisD(4) [OF assms(1) ev] by blast
  have g: "good cd h" using peers_good [OF h(1) assms(2,4)] .
  from sweepScript_refines [OF assms(3) g assms(5)]
  obtain out h1 where o: "sweepScript cd (formatNanos now) h = (Some (LArr out), h1)" "good cd h1"
    "reg_of cd h1 = reg_Sweep_ms now (reg_of cd h)"
    "set (sweep_rows now out) = sweep_event now ` {c \<in> ran (reg_of cd h). expired_ms now c}" .
  have s': "s' = s\<lparr>xs_client := c\<rparr>" using run ev by (auto simp: xs_Sweep_def split: sum.splits lua_reply.splits)
  have "takes_effect cd db E (xs_client s) c (\<lambda>m m'. case res of
        Ok evs \<Rightarrow> m' = reg_Sweep_ms now m \<and> set evs = sweep_event now ` {c \<in> ran m. expired_ms now c}
      | Err e \<Rightarrow> CodeOf (Some e) = Some Internal \<and> (m' = m \<or> m' = reg_Sweep_ms now m))"
  proof (rule takes_effectI [of E db "xs_client s" h h' c, OF h(1,2) g])
    show "good cd h'" using h(4) o g by auto
    show "case res of
        Ok evs \<Rightarrow> reg_of cd h' = reg_Sweep_ms now (reg_of cd h) \<and> set evs = sweep_event now ` {c \<in> ran (reg_of cd h). expired_ms now c}
      | Err e \<Rightarrow> CodeOf (Some e) = Some Internal \<and> (reg_of cd h' = reg_of cd h \<or> reg_of cd h' = reg_Sweep_ms now (reg_of cd h))"
      using run ev h(3,4) o by (cases a) (auto simp: xs_Sweep_def)
  qed
  then show ?thesis by (simp add: s')
qed

text \<open>What is read is the registry of some moment during the call.\<close>

lemma xs_Get_effect:
  assumes "chan_redis_ok cl (hashKey s) db E" "peers_ok cd E" "good cd (db (xs_client s))" and run: "xs_Get cd cl n s = (res, s')"
  shows "takes_effect cd db E (xs_client s) (xs_client s') (\<lambda>m m'. m' = m \<and> (case res of
      Ok ch \<Rightarrow> live (m (name_String n)) \<and> m (name_String n) = Some ch
    | Err e \<Rightarrow> CodeOf (Some e) = Some Internal \<or> CodeOf (Some e) = Some ChannelNotFound \<and> \<not> live (m (name_String n))))"
proof -
  obtain g c where get: "cc_HGet cl (hashKey s) (name_String n) (xs_client s) = (g, c)" by fastforce
  obtain h where h: "E\<^sup>*\<^sup>* (db (xs_client s)) h" "E\<^sup>*\<^sup>* h (db c)" "\<And>x. g = Ok x \<Longrightarrow> x = map_of h (name_String n)"
    using chan_redisD(1) [OF assms(1) get] by blast
  have good: "good cd h" using peers_good [OF h(1) assms(2,3)] .
  have s': "s' = s\<lparr>xs_client := c\<rparr>" using run get by (auto simp: xs_Get_def split: sum.splits option.splits if_splits)
  have "case res of
      Ok ch \<Rightarrow> live (reg_of cd h (name_String n)) \<and> reg_of cd h (name_String n) = Some ch
    | Err e \<Rightarrow> CodeOf (Some e) = Some Internal \<or> CodeOf (Some e) = Some ChannelNotFound \<and> \<not> live (reg_of cd h (name_String n))"
  proof (cases g)
    case (Inl e)
    then show ?thesis using run get by (auto simp: xs_Get_def)
  next
    case (Inr x)
    then have x: "x = map_of h (name_String n)" using h(3) by simp
    show ?thesis
    proof (cases rule: good_cases [OF good, of "name_String n"])
      case 1
      then show ?thesis using run get Inr x by (auto simp: xs_Get_def live_def)
    next
      case (2 raw r)
      then show ?thesis using run get Inr x by (auto simp: xs_Get_def live_def fromRecord_ok [OF 2(3)] split: if_splits)
    qed
  qed
  then show ?thesis unfolding s' by (intro takes_effectI [of E db "xs_client s" h h, OF h(1) _ good good]) (simp_all add: h(2))
qed

lemma list_loop_set:
  assumes "good cd h" "set es \<subseteq> set h"
  shows "set (list_loop cd es) = {c. \<exists>f \<in> fst ` set es. reg_of cd h f = Some c \<and> c_State c \<noteq> StateDeleted}"
  using assms(2)
proof (induction es)
  case (Cons e es)
  obtain f raw where e: "e = (f, raw)" by (cases e)
  have "map_of h f = Some raw" using Cons.prems assms(1) by (simp add: e good_def)
  with assms(1) obtain r where r: "stored cd raw r" "rec_ok r" "reg_of cd h f = Some (chan_of r)" by (rule good_lookup)
  then have "list_loop cd (e # es) = (if cr_State r = StateDeleted then [] else [chan_of r]) @ list_loop cd es"
    by (simp add: e stored_def fromRecord_ok)
  then show ?case using Cons r(3) by (auto simp: e)
qed simp

lemma xs_List_effect:
  assumes "chan_redis_ok cl (hashKey s) db E" "peers_ok cd E" "good cd (db (xs_client s))" and run: "xs_List cd cl s = (res, s')"
  shows "takes_effect cd db E (xs_client s) (xs_client s') (\<lambda>m m'. m' = m \<and> (case res of
      Ok chs \<Rightarrow> set chs = {c \<in> ran m. c_State c \<noteq> StateDeleted} | Err e \<Rightarrow> CodeOf (Some e) = Some Internal))"
proof -
  obtain g c where get: "cc_HGetAll cl (hashKey s) (xs_client s) = (g, c)" by fastforce
  have "reads_law cl (hashKey s) db E" using assms(1) by (simp add: chan_redis_ok_def)
  then obtain h where h: "E\<^sup>*\<^sup>* (db (xs_client s)) h" "E\<^sup>*\<^sup>* h (db c)" "\<And>x. g = Ok x \<Longrightarrow> x = h"
    using get unfolding reads_law_def by blast
  have good: "good cd h" using peers_good [OF h(1) assms(2,3)] .
  have "f \<in> fst ` set h" if "reg_of cd h f = Some ch" for f ch
    using that reg_of_None [OF good, of f] map_of_eq_None_iff [of h f] by fastforce
  then have "set (list_loop cd h) = {c \<in> ran (reg_of cd h). c_State c \<noteq> StateDeleted}"
    unfolding list_loop_set [OF good order.refl] ran_def by blast
  moreover have "s' = s\<lparr>xs_client := c\<rparr>" using run get by (auto simp: xs_List_def split: sum.splits)
  moreover have "case res of Ok chs \<Rightarrow> chs = list_loop cd h | Err e \<Rightarrow> CodeOf (Some e) = Some Internal"
    using run get h(3) by (cases g) (auto simp: xs_List_def)
  ultimately show ?thesis
    by (intro takes_effectI [of E db "xs_client s" h h, OF h(1) _ good good]) (auto simp: h(2) split: sum.splits)
qed

text \<open>The comparison in milliseconds is never late, and early by less than a millisecond.\<close>

lemma ms_floor:
  fixes q a b :: int
  shows "q * 1000000000 \<le> a - b \<Longrightarrow> q * 1000 \<le> a div 1000000 - b div 1000000"
    and "q * 1000 \<le> a div 1000000 - b div 1000000 \<Longrightarrow> q * 1000000000 \<le> a + 999999 - b"
  using div_mult_mod_eq [of a 1000000] div_mult_mod_eq [of b 1000000] pos_mod_bound [of 1000000 a] pos_mod_sign [of 1000000 a]
    pos_mod_bound [of 1000000 b] pos_mod_sign [of 1000000 b] by linarith+

lemma expired_ms_bounds:
  assumes "c_TTL c = whole ttl" "min_int64 \<le> now - c_LastActive c" "now + 999999 - c_LastActive c \<le> max_int64"
  shows "expired now c \<Longrightarrow> expired_ms now c" "expired_ms now c \<Longrightarrow> expired (now + 999999) c"
proof -
  have sub: "time_Sub now (c_LastActive c) = now - c_LastActive c" "time_Sub (now + 999999) (c_LastActive c) = now + 999999 - c_LastActive c"
    using assms(2,3) by (simp_all add: time_Sub_def go_simps)
  have ttl: "c_TTL c = (ttl div second) * second" "c_TTL c div second * 1000 = (ttl div second) * 1000"
    using assms(1) by (simp_all add: whole_def)
  show "expired now c \<Longrightarrow> expired_ms now c"
    using ms_floor(1) unfolding expired_def expired_ms_def sub ttl by simp
  show "expired_ms now c \<Longrightarrow> expired (now + 999999) c"
    using ms_floor(2) unfolding expired_def expired_ms_def sub ttl by simp
qed

subsection \<open>The store\<close>


text \<open>A Redis that fulfils the hypotheses, without other nodes, and a pair of codecs.\<close>

definition mem_chan_client :: "hash chan_client" where
  "mem_chan_client = \<lparr>
     cc_HGet = (\<lambda>k f h. (Ok (map_of h f), h)), cc_HGetAll = (\<lambda>k h. (Ok h, h)),
     cc_HSetNX = (\<lambda>k f v h. (Ok (map_of h f = None), if map_of h f = None then AList.update f v h else h)),
     cc_WatchHGet = (\<lambda>k f h. (Ok (map_of h f), h)), cc_TxHSet = (\<lambda>k f v h. (TxOk, AList.update f v h)),
     cc_Eval = (\<lambda>k scr h. case scr h of (None, h') \<Rightarrow> (Err (Plain ''ERR''), h') | (Some r, h') \<Rightarrow> (Ok r, h'))\<rparr>"

lemma no_peers: "(\<lambda>_ _. False)\<^sup>*\<^sup>* a b \<longleftrightarrow> a = b"
  by (auto elim: rtranclp.cases)

lemma mem_chan_ok: "chan_redis_ok mem_chan_client key id (\<lambda>_ _. False)"
  unfolding chan_redis_ok_def reads_law_def setnx_law_def watch_law_def eval_law_def no_peers
  by (auto simp: mem_chan_client_def split: prod.splits option.splits)

definition mem_lua_encode :: "lua_rec \<Rightarrow> string" where
  "mem_lua_encode r = strings_Join (map hex_encode [lr_name r, lr_visibility r, lr_state r, lr_ttl_seconds r,
     lr_created_at r, lr_last_active r, if lr_delta r then ''1'' else ''0'']) CHR '',''"

definition mem_lua_decode :: "string \<Rightarrow> lua_rec option" where
  "mem_lua_decode raw =
     (case map hex_decode (strings_Split CHR '','' raw) of
        [Some a, Some b, Some c, Some d, Some e, Some f, Some g] \<Rightarrow>
          Some \<lparr>lr_name = a, lr_visibility = b, lr_state = c, lr_ttl_seconds = d, lr_created_at = e, lr_last_active = f, lr_delta = (g = ''1'')\<rparr>
      | _ \<Rightarrow> None)"

definition mem_codec :: rec_codec where
  "mem_codec = \<lparr>rc_Marshal = (\<lambda>r. mem_lua_encode (lua_of r)),
     rc_Unmarshal = (\<lambda>raw. case mem_lua_decode raw of None \<Rightarrow> Err (Plain ''syntax'') | Some l \<Rightarrow>
       Ok \<lparr>cr_Name = lr_name l, cr_Visibility = lr_visibility l,
         cr_State = (if lr_state l = ''open'' then StateOpen else if lr_state l = ''closed'' then StateClosed else StateDeleted),
         cr_TTLSeconds = projr (ParseInt (lr_ttl_seconds l)), cr_CreatedAt = projr (ParseInt (lr_created_at l)),
         cr_LastActive = projr (ParseInt (lr_last_active l)), cr_DeltaEnabled = lr_delta l\<rparr>),
     lua_decode = mem_lua_decode, lua_encode = mem_lua_encode\<rparr>"

lemma mem_lua_roundtrip: "mem_lua_decode (mem_lua_encode r) = Some r"
proof -
  have "CHR '','' \<notin> set (hex_encode b)" for b using hex_encode_digits [of "CHR '',''" b] by (auto simp: hex_val_def)
  then have "strings_Split CHR '','' (mem_lua_encode r) = map hex_encode [lr_name r, lr_visibility r, lr_state r, lr_ttl_seconds r,
      lr_created_at r, lr_last_active r, if lr_delta r then ''1'' else ''0'']"
    unfolding mem_lua_encode_def by (intro strings_Split_Join) auto
  then show ?thesis by (simp add: mem_lua_decode_def)
qed

lemma mem_codec_ok: "rec_codec_ok mem_codec"
  unfolding rec_codec_ok_def
proof (intro allI impI)
  fix r assume r: "rec_ok r"
  have "ParseInt (FormatInt (cr_TTLSeconds r)) = Ok (cr_TTLSeconds r)" using rec_times [OF r] ..
  moreover have "ParseInt (FormatInt (cr_CreatedAt r)) = Ok (cr_CreatedAt r)" "ParseInt (FormatInt (cr_LastActive r)) = Ok (cr_LastActive r)"
    using r by (auto simp: rec_ok_def go_simps intro!: ParseInt_Format)
  ultimately show "stored mem_codec (rc_Marshal mem_codec r) r \<and> stored mem_codec (lua_encode mem_codec (lua_of r)) r"
    by (cases "cr_State r") (simp_all add: stored_def mem_codec_def mem_lua_roundtrip, simp_all add: lua_of_def)
qed


end
