(* ===== verification/EventBus.thy ===== *)
theory EventBus
  imports ChannelManager Encoding
begin

text \<open>
  The event bus between nodes on Redis pub/sub (\<^verbatim>\<open>src/channels/redis_eventbus.go\<close>,
  \<^verbatim>\<open>src/channels/eventbus.go\<close>).

  The client's \<^verbatim>\<open>Publish\<close> and the JSON codec of \<open>wireEvent\<close> are parameters.  \<open>run_step\<close> is one turn of
  the loop of \<^verbatim>\<open>Run\<close>, \<open>bus_Run\<close> the loop over what the subscription receives: it stops when the
  context is done or the channel is closed.  An \<^verbatim>\<open>Event\<close> without kind is \<open>None\<close>; a received event
  has whatever text the sender put for its kind.
\<close>

subsection \<open>The bus\<close>

record 'c RedisEventBus =
  eb_client :: 'c
  eb_channel :: string
  eb_nodeID :: string
  eb_keyPrefix :: string

record wireEvent =
  w_NodeID :: string
  w_Kind :: string
  w_Name :: string
  w_AtUnix :: int

record wire_codec =
  wc_Marshal :: "wireEvent \<Rightarrow> string result"
  wc_Unmarshal :: "string \<Rightarrow> wireEvent result"

record remote_event =
  v_Kind :: string
  v_Name :: chan_name
  v_At :: go_time

text \<open>\<^verbatim>\<open>randomNodeID\<close> ignores the error of the random source: the bytes are an argument.\<close>

definition randomNodeID :: "bytes \<Rightarrow> string" where
  "randomNodeID b = ''node-'' @ hex_encode b"

definition NewRedisEventBus :: "bytes \<Rightarrow> 'c \<Rightarrow> string \<Rightarrow> 'c RedisEventBus" where
  "NewRedisEventBus rnd client nodeID =
     (let nodeID = (if nodeID = [] then randomNodeID rnd else nodeID) in
      \<lparr>eb_client = client, eb_channel = ''parsec:events'', eb_nodeID = nodeID, eb_keyPrefix = ''parsec''\<rparr>)"

definition eb_WithKeyPrefix :: "string \<Rightarrow> 'c RedisEventBus \<Rightarrow> 'c RedisEventBus" where
  "eb_WithKeyPrefix p b =
     (let p = (if p = [] then ''parsec'' else p) in b\<lparr>eb_keyPrefix := p, eb_channel := p @ '':events''\<rparr>)"

definition kind_string :: "EventKind \<Rightarrow> string" where
  "kind_string k = (case k of EventOpened \<Rightarrow> ''opened'' | EventClosed \<Rightarrow> ''closed'' | EventDeleted \<Rightarrow> ''deleted'')"

definition wire_of :: "string \<Rightarrow> event \<Rightarrow> wireEvent" where
  "wire_of nodeID ev =
     \<lparr>w_NodeID = nodeID, w_Kind = kind_string (e_Kind ev), w_Name = name_String (e_Name ev), w_AtUnix = wrap64 (e_At ev)\<rparr>"

definition eb_Publish ::
  "wire_codec \<Rightarrow> (string \<Rightarrow> string \<Rightarrow> 'c \<Rightarrow> go_error option \<times> 'c) \<Rightarrow> event option \<Rightarrow> 'c RedisEventBus \<Rightarrow>
   go_error option \<times> 'c RedisEventBus" where
  "eb_Publish wc publish ev b =
     (case ev of
        None \<Rightarrow> (None, b)
      | Some ev \<Rightarrow>
          (case wc_Marshal wc (wire_of (eb_nodeID b) ev) of
             Err err \<Rightarrow> (Some err, b)
           | Ok payload \<Rightarrow>
               (case publish (eb_channel b) payload (eb_client b) of (err, c) \<Rightarrow> (err, b\<lparr>eb_client := c\<rparr>))))"

definition run_step :: "wire_codec \<Rightarrow> string \<Rightarrow> (remote_event \<Rightarrow> 's \<Rightarrow> 's) \<Rightarrow> string \<Rightarrow> 's \<Rightarrow> 's" where
  "run_step wc nodeID onRemote payload s =
     (case wc_Unmarshal wc payload of
        Err _ \<Rightarrow> s
      | Ok w \<Rightarrow>
          if w_NodeID w = nodeID then s
          else (case ParseName (w_Name w) of
                  Err _ \<Rightarrow> s
                | Ok name \<Rightarrow> onRemote \<lparr>v_Kind = w_Kind w, v_Name = name, v_At = w_AtUnix w\<rparr> s))"

datatype bus_input = Msg string | ChanClosed | CtxDone

fun run_loop :: "wire_codec \<Rightarrow> string \<Rightarrow> (remote_event \<Rightarrow> 's \<Rightarrow> 's) \<Rightarrow> bus_input list \<Rightarrow> 's \<Rightarrow> 's" where
  "run_loop wc nodeID onRemote (Msg payload # ins) s = run_loop wc nodeID onRemote ins (run_step wc nodeID onRemote payload s)"
| "run_loop wc nodeID onRemote _ s = s"

definition bus_Run ::
  "wire_codec \<Rightarrow> (remote_event \<Rightarrow> 's \<Rightarrow> 's) \<Rightarrow> go_error option \<Rightarrow> bus_input list \<Rightarrow> 'c RedisEventBus \<Rightarrow> 's \<Rightarrow> go_error option \<times> 's" where
  "bus_Run wc onRemote confirm ins b s =
     (case confirm of
        Some err \<Rightarrow> (Some err, s)
      | None \<Rightarrow> (None, run_loop wc (eb_nodeID b) onRemote ins s))"

subsection \<open>Nodes on one Redis\<close>

text \<open>
  What the bus relies on: the codec gives back what it was given, text in ASCII, and \<^verbatim>\<open>PUBLISH\<close> appends
  the payload to what the subscribers of the channel get, in the same order for all of them, or
  fails, and then may have done so or not.
\<close>

definition wire_codec_ok :: "wire_codec \<Rightarrow> bool" where
  "wire_codec_ok wc \<longleftrightarrow>
     (\<forall>w. ascii (w_NodeID w) \<and> ascii (w_Kind w) \<and> ascii (w_Name w) \<and> min_int64 \<le> w_AtUnix w \<and> w_AtUnix w \<le> max_int64 \<longrightarrow>
        (\<exists>raw. wc_Marshal wc w = Ok raw \<and> wc_Unmarshal wc raw = Ok w))"

definition pubsub_ok :: "(string \<Rightarrow> string \<Rightarrow> 'c \<Rightarrow> go_error option \<times> 'c) \<Rightarrow> ('c \<Rightarrow> string \<Rightarrow> string list) \<Rightarrow> bool" where
  "pubsub_ok publish sent \<longleftrightarrow>
     (\<forall>ch p c err c'. publish ch p c = (err, c') \<longrightarrow>
        (\<forall>ch'. ch' \<noteq> ch \<longrightarrow> sent c' ch' = sent c ch') \<and>
        (sent c' ch = sent c ch @ [p] \<or> err \<noteq> None \<and> sent c' ch = sent c ch))"

text \<open>The nodes publish in turn, each with its own id, through the shared client.\<close>

fun publish_all ::
  "wire_codec \<Rightarrow> (string \<Rightarrow> string \<Rightarrow> 'c \<Rightarrow> go_error option \<times> 'c) \<Rightarrow> (nat \<Rightarrow> string) \<Rightarrow> string \<Rightarrow> (nat \<times> event) list \<Rightarrow> 'c \<Rightarrow>
   go_error option list \<times> 'c" where
  "publish_all wc publish ids prefix [] c = ([], c)"
| "publish_all wc publish ids prefix ((i, ev) # evs) c =
     (let (err, b) = eb_Publish wc publish (Some ev) (eb_WithKeyPrefix prefix (NewRedisEventBus [] c (ids i)));
          (errs, c) = publish_all wc publish ids prefix evs (eb_client b)
      in (err # errs, c))"

definition remote_of :: "event \<Rightarrow> remote_event" where
  "remote_of ev = \<lparr>v_Kind = kind_string (e_Kind ev), v_Name = e_Name ev, v_At = e_At ev\<rparr>"

definition event_ok :: "event \<Rightarrow> bool" where
  "event_ok ev \<longleftrightarrow> wf_name (e_Name ev) \<and> min_int64 \<le> e_At ev \<and> e_At ev \<le> max_int64"

lemma wf_name_ascii:
  assumes "wf_name n"
  shows "ascii (name_String n)"
proof -
  have "(of_char c :: nat) < 128" if "component_char c" for c
    using that by (auto simp: component_char_def less_eq_char_def)
  moreover have "set (strings_Join (name_segs n) CHR ''.'') \<subseteq> insert CHR ''.'' {c. component_char c}"
    using strings_Join_chars [of "name_segs n" "CHR ''.''"] wf_name_segs(1) [OF assms]
    by (fastforce simp: list_all_iff component_ok_def)
  ultimately have "ascii (strings_Join (name_segs n) CHR ''.'')" by (auto simp: ascii_def list_all_iff)
  moreover have "ascii (n_Visibility n)" using assms by (auto simp: wf_name_def ascii_def go_simps)
  ultimately show ?thesis by (simp add: name_String_segs ascii_def)
qed

lemma wire_sent:
  assumes "wire_codec_ok wc" "event_ok ev" "ascii i"
  obtains raw where "wc_Marshal wc (wire_of i ev) = Ok raw" "wc_Unmarshal wc raw = Ok (wire_of i ev)"
proof -
  have "ascii (kind_string (e_Kind ev))" by (simp add: kind_string_def ascii_def split: EventKind.split)
  then show ?thesis using that assms wf_name_ascii unfolding wire_codec_ok_def
    by (elim allE [of _ "wire_of i ev"]) (auto simp: wire_of_def event_ok_def wrap64_id)
qed

lemma run_step_wire:
  "wc_Unmarshal wc raw = Ok (wire_of i ev) \<Longrightarrow> event_ok ev \<Longrightarrow>
    run_step wc j onRemote raw s = (if i = j then s else onRemote (remote_of ev) s)"
  by (simp add: run_step_def wire_of_def remote_of_def event_ok_def ParseName_print wrap64_id)

lemma run_loop_append:
  "run_loop wc j f (map Msg (ps @ qs)) s = run_loop wc j f (map Msg qs) (run_loop wc j f (map Msg ps) s)"
  by (induction ps arbitrary: s) simp_all

text \<open>A payload sent by node \<open>i\<close> is delivered by the loop of every other node and by no loop of its own.\<close>

lemma publish_all_delivered:
  assumes wc: "wire_codec_ok wc" and ps: "pubsub_ok publish sent"
    and ids: "\<And>i. ids i \<noteq> [] \<and> ascii (ids i)" "inj ids"
    and evs: "list_all (event_ok \<circ> snd) evs"
    and run: "publish_all wc publish ids prefix evs c = (errs, c')"
  defines "ch \<equiv> eb_channel (eb_WithKeyPrefix prefix (NewRedisEventBus [] c []))"
  shows "\<exists>ps kept. sent c' ch = sent c ch @ ps \<and> length kept = length evs \<and>
      (\<forall>k < length evs. errs ! k = None \<longrightarrow> kept ! k) \<and> length errs = length evs \<and>
      (\<forall>j f (s :: 's). run_loop wc (ids j) f (map Msg ps) s =
         fold (\<lambda>(i, ev). f (remote_of ev)) (filter (\<lambda>(i, ev). i \<noteq> j) (map fst (filter snd (zip evs kept)))) s)"
  using evs run unfolding ch_def
proof (induction evs arbitrary: c errs)
  case Nil
  then show ?case by simp
next
  case (Cons e evs)
  obtain i ev where e: "e = (i, ev)" by (cases e)
  define b where "b = eb_WithKeyPrefix prefix (NewRedisEventBus [] c (ids i))"
  obtain err b' errs' where pub: "eb_Publish wc publish (Some ev) b = (err, b')"
    and rest: "publish_all wc publish ids prefix evs (eb_client b') = (errs', c')" and errs: "errs = err # errs'"
    using Cons.prems(2) by (auto simp: e b_def Let_def split: prod.splits)
  let ?ch = "(if prefix = [] then ''parsec'' else prefix) @ '':events''"
  have b: "eb_channel b = ?ch" "eb_client b = c" "eb_nodeID b = ids i"
    using ids(1) [of i] by (simp_all add: b_def eb_WithKeyPrefix_def NewRedisEventBus_def Let_def)
  have ch: "eb_channel (eb_WithKeyPrefix prefix (NewRedisEventBus [] c0 [])) = ?ch" for c0 :: 'a
    by (simp add: eb_WithKeyPrefix_def Let_def)
  have ev: "event_ok ev" "ascii (ids i)" using Cons.prems(1) ids(1) [of i] by (simp_all add: e)
  obtain raw where raw: "wc_Marshal wc (wire_of (ids i) ev) = Ok raw" "wc_Unmarshal wc raw = Ok (wire_of (ids i) ev)"
    by (rule wire_sent [OF wc ev])
  have step: "run_step wc (ids j) f raw s = (if i = j then s else f (remote_of ev) s)" for j f s
    by (simp add: run_step_wire [OF raw(2) ev(1)] inj_eq [OF ids(2)])
  obtain c1 where c1: "publish ?ch raw c = (err, c1)" "eb_client b' = c1"
    using pub b raw by (auto simp: eb_Publish_def split: prod.splits)
  have sent: "sent c1 ?ch = sent c ?ch @ [raw] \<or> err \<noteq> None \<and> sent c1 ?ch = sent c ?ch"
    using ps c1(1) unfolding pubsub_ok_def by blast
  obtain ps' kept where IH: "sent c' ?ch = sent c1 ?ch @ ps'" "length kept = length evs" "length errs' = length evs"
    "\<And>k. k < length evs \<Longrightarrow> errs' ! k = None \<Longrightarrow> kept ! k"
    "\<And>j f (s :: 's). run_loop wc (ids j) f (map Msg ps') s =
         fold (\<lambda>(i, ev). f (remote_of ev)) (filter (\<lambda>(i, ev). i \<noteq> j) (map fst (filter snd (zip evs kept)))) s"
    using Cons.IH [OF list.pred_inject(2) [THEN iffD1, OF Cons.prems(1), THEN conjunct2] rest] unfolding ch c1(2) by blast
  define hit where "hit \<longleftrightarrow> sent c1 ?ch = sent c ?ch @ [raw]"
  have "sent c' ?ch = sent c ?ch @ ((if hit then [raw] else []) @ ps')" using sent IH(1) by (auto simp: hit_def)
  moreover have "errs ! k = None \<Longrightarrow> (hit # kept) ! k" if "k < length (e # evs)" for k
    using that IH(2-4) sent by (cases k) (auto simp: errs hit_def)
  moreover have "run_loop wc (ids j) f (map Msg ((if hit then [raw] else []) @ ps')) s =
      fold (\<lambda>(i, ev). f (remote_of ev)) (filter (\<lambda>(i, ev). i \<noteq> j) (map fst (filter snd (zip (e # evs) (hit # kept))))) s" for j f and s :: 's
    unfolding run_loop_append by (simp add: step IH(5) e)
  ultimately show ?case unfolding ch using IH(2,3)
    by (intro exI [of _ "(if hit then [raw] else []) @ ps'"] exI [of _ "hit # kept"]) (simp add: errs)
qed

lemma run_loop_stop: "run_loop wc j f (map Msg ps @ CtxDone # ins) s = run_loop wc j f (map Msg ps) s"
  by (induction ps arbitrary: s) simp_all

lemma fold_collect: "fold (\<lambda>(i, ev) es. es @ [g ev]) evs es = es @ map (g \<circ> snd) evs"
  by (induction evs arbitrary: es) auto


text \<open>A codec that writes every field in hex, and a Redis that keeps what was published.\<close>

definition hex_wire :: wire_codec where
  "hex_wire = \<lparr>
     wc_Marshal = (\<lambda>w. Ok (strings_Join [hex_encode (w_NodeID w), hex_encode (w_Kind w), hex_encode (w_Name w),
       replicate (nat (w_AtUnix w)) CHR ''+'' @ replicate (nat (- w_AtUnix w)) CHR ''-''] CHR '','')),
     wc_Unmarshal = (\<lambda>raw. case strings_Split CHR '','' raw of
       [a, b, c, d] \<Rightarrow> (case (hex_decode a, hex_decode b, hex_decode c) of
         (Some a, Some b, Some c) \<Rightarrow> Ok \<lparr>w_NodeID = a, w_Kind = b, w_Name = c,
            w_AtUnix = int (length (filter ((=) CHR ''+'') d)) - int (length (filter ((=) CHR ''-'') d))\<rparr>
         | _ \<Rightarrow> Err (Plain ''hex''))
     | _ \<Rightarrow> Err (Plain ''syntax''))\<rparr>"

lemma hex_wire_ok: "wire_codec_ok hex_wire"
proof -
  have "CHR '','' \<notin> set (hex_encode b)" for b using hex_encode_digits [of "CHR '',''" b] by (auto simp: hex_val_def)
  then have "strings_Split CHR '','' (projr (wc_Marshal hex_wire w)) = [hex_encode (w_NodeID w), hex_encode (w_Kind w), hex_encode (w_Name w),
      replicate (nat (w_AtUnix w)) CHR ''+'' @ replicate (nat (- w_AtUnix w)) CHR ''-'']" for w
    unfolding hex_wire_def wire_codec.simps sum.sel by (intro strings_Split_Join) auto
  then show ?thesis by (auto simp: wire_codec_ok_def hex_wire_def filter_replicate)
qed

definition log_publish :: "string \<Rightarrow> string \<Rightarrow> (string \<times> string) list \<Rightarrow> go_error option \<times> (string \<times> string) list" where
  "log_publish ch p log = (None, log @ [(ch, p)])"

definition log_sent :: "(string \<times> string) list \<Rightarrow> string \<Rightarrow> string list" where
  "log_sent log ch = map snd (filter (\<lambda>(ch', p). ch' = ch) log)"

lemma log_ok: "pubsub_ok log_publish log_sent"
  by (auto simp: pubsub_ok_def log_publish_def log_sent_def)


end
