(* ===== verification/GcpStore.thy ===== *)
theory GcpStore
  imports KeyRotation GoStrings "HOL-Library.Word"
begin

unbundle bit_operations_syntax

text \<open>
  The key ring in Google Secret Manager (\<^verbatim>\<open>src/stores/gcpsecretmanager/\<close>: \<^verbatim>\<open>config.go\<close>, \<^verbatim>\<open>lock.go\<close>,
  \<^verbatim>\<open>store.go\<close>).

  An operation is a program: a tree of the calls it makes of the service, of its readings of the
  clock, of its waits and of the errors it reports to the hook, with what it does next as a function
  of the answer.  So the calls of several nodes can be interleaved one by one (theory
  \<open>GcpFleet\<close>).  An answer is a status code or a value; an answer of a type the call does not
  have does not occur and reads as an unknown error.  The store's atomics are fields of its record,
  which an operation returns.  The loop that waits for the lease has fuel; the theorem at the end
  shows how much of it is enough.
\<close>

subsection \<open>Configuration\<close>

definition DefaultSecretID :: string where "DefaultSecretID = ''parsec-keyring''"
definition DefaultReconcileInterval :: duration where "DefaultReconcileInterval = 30 * second"
definition DefaultLockTTL :: duration where "DefaultLockTTL = 30 * second"
definition DefaultLockWait :: duration where "DefaultLockWait = 10 * second"
definition maxPayloadBytes :: int where "maxPayloadBytes = 64 * 1024"

definition secretIDPattern :: "string \<Rightarrow> bool" where
  "secretIDPattern s \<longleftrightarrow> 1 \<le> length s \<and> length s \<le> 255 \<and>
     list_all (\<lambda>c. CHR ''A'' \<le> c \<and> c \<le> CHR ''Z'' \<or> CHR ''a'' \<le> c \<and> c \<le> CHR ''z'' \<or> CHR ''0'' \<le> c \<and> c \<le> CHR ''9'' \<or>
       c = CHR ''_'' \<or> c = CHR ''-'') s"

datatype client_option = WithAuthCredentialsJSON bytes | WithAuthCredentialsFile string | OtherOption string

record gcp_Config =
  gc_ProjectID :: string
  gc_SecretID :: string
  gc_CredentialsFile :: string
  gc_CredentialsJSON :: bytes
  gc_ReconcileInterval :: duration
  gc_LockTTL :: duration
  gc_LockWait :: duration
  gc_ReplicaLocations :: "string list"
  gc_Labels :: "(string, string) gomap"
  gc_RetainVersions :: int
  gc_NodeID :: string
  gc_ClientOptions :: "client_option list"

text \<open>\<^verbatim>\<open>range\<close> over a string goes by its runes, which are the argument.\<close>

definition sanitizeNodeID :: "nat list \<Rightarrow> string" where
  "sanitizeNodeID s =
     (let out = map (\<lambda>r. if 97 \<le> r \<and> r \<le> 122 \<or> 65 \<le> r \<and> r \<le> 90 \<or> 48 \<le> r \<and> r \<le> 57 \<or> r = 45 \<or> r = 95
                       then char_of r else CHR ''-'') s;
          out = (if length out > 64 then take 64 out else out)
      in if out = [] then ''node'' else out)"

definition defaultNodeID :: "nat list result \<Rightarrow> int \<Rightarrow> string" where
  "defaultNodeID hostname pid =
     (let host = (case hostname of Err _ \<Rightarrow> map of_char ''unknown'' | Ok [] \<Rightarrow> map of_char ''unknown'' | Ok h \<Rightarrow> h)
      in sanitizeNodeID host @ ''-'' @ FormatInt pid)"

definition gcp_validate :: "nat list result \<Rightarrow> int \<Rightarrow> gcp_Config \<Rightarrow> gcp_Config result" where
  "gcp_validate hostname pid c =
     (if gc_ProjectID c = [] then Err (Plain ''gcpsecretmanager: ProjectID is required'')
      else
        let c = (if gc_SecretID c = [] then c\<lparr>gc_SecretID := DefaultSecretID\<rparr> else c) in
        if \<not> secretIDPattern (gc_SecretID c) then Err (Plain ''gcpsecretmanager: SecretID %q must match %s'')
        else if gc_CredentialsFile c \<noteq> [] \<and> gc_CredentialsJSON c \<noteq> [] then
          Err (Plain ''gcpsecretmanager: set CredentialsFile or CredentialsJSON, not both'')
        else if gc_RetainVersions c < 0 then Err (Plain ''gcpsecretmanager: RetainVersions %d must not be negative'')
        else
          let c = (if gc_ReconcileInterval c = 0 then c\<lparr>gc_ReconcileInterval := DefaultReconcileInterval\<rparr> else c);
              c = (if gc_LockTTL c \<le> 0 then c\<lparr>gc_LockTTL := DefaultLockTTL\<rparr> else c);
              c = (if gc_LockWait c \<le> 0 then c\<lparr>gc_LockWait := DefaultLockWait\<rparr> else c);
              c = (if gc_NodeID c = [] then c\<lparr>gc_NodeID := defaultNodeID hostname pid\<rparr> else c)
          in Ok c)"

definition clientOptions :: "gcp_Config \<Rightarrow> client_option list" where
  "clientOptions c =
     (if gc_CredentialsJSON c \<noteq> [] then [WithAuthCredentialsJSON (gc_CredentialsJSON c)]
      else if gc_CredentialsFile c \<noteq> [] then [WithAuthCredentialsFile (gc_CredentialsFile c)]
      else []) @ gc_ClientOptions c"

subsection \<open>Names\<close>

text \<open>\<^verbatim>\<open>strings.LastIndex\<close>.\<close>

definition strings_LastIndex :: "string \<Rightarrow> string \<Rightarrow> int" where
  "strings_LastIndex s sub =
     (let is = filter (\<lambda>i. take (length sub) (drop i s) = sub) [0..<Suc (length s)]
      in if is = [] then -1 else int (last is))"

definition parseVersionNumber :: "string \<Rightarrow> int result" where
  "parseVersionNumber name =
     (let i = strings_LastIndex name ''/versions/'' in
      if i < 0 then Err (Plain ''gcpsecretmanager: %q is not a secret version name'')
      else case ParseInt (drop (nat i + length ''/versions/'') name) of
        Err err \<Rightarrow> Err (Plain ''gcpsecretmanager: %q has no numeric version: %w'')
      | Ok n \<Rightarrow> Ok n)"

definition splitSecretName :: "string \<Rightarrow> (string \<times> string) result" where
  "splitSecretName name =
     (let i = strings_LastIndex name ''/secrets/'' in
      if i < 0 then Err (Plain ''gcpsecretmanager: %q is not a secret name'')
      else Ok (take (nat i) name, drop (nat i + length ''/secrets/'') name))"

subsection \<open>Leases\<close>

record lease =
  l_owner :: string
  l_expires :: go_time

definition lockAnnotation :: string where "lockAnnotation = ''parsec-keyring-lock''"

text \<open>\<^verbatim>\<open>UnixMilli\<close> rounds down.\<close>

definition lease_encode :: "lease \<Rightarrow> string" where
  "lease_encode l = l_owner l @ '':'' @ FormatInt (l_expires l div 1000000)"

definition parseLease :: "string \<Rightarrow> lease option" where
  "parseLease v =
     (let i = strings_LastIndex v '':'' in
      if i \<le> 0 then None
      else case ParseInt (drop (nat i + 1) v) of
        Err _ \<Rightarrow> None
      | Ok ms \<Rightarrow> Some \<lparr>l_owner = take (nat i) v, l_expires = ms * 1000000\<rparr>)"

subsection \<open>Programs\<close>

type_synonym annotations = "(string, string) gomap"

datatype sm_code = NotFound | FailedPrecondition | Aborted | AlreadyExists | OtherCode string

datatype sm_call =
    AccessSecretVersion string
  | GetSecretVersion string
  | GetSecret string
  | CreateSecret string string "string list" "(string, string) gomap"
  | UpdateSecret string string annotations
  | AddSecretVersion string bytes int
  | ListSecretVersions string
  | DestroySecretVersion string

text \<open>A listing ends, with what it has given so far, because it is complete or because of an error.\<close>

datatype sm_answer =
    Failed sm_code
  | Version string
  | Payload string bytes int
  | Secret string annotations
  | Versions "(string \<times> bool) list" "sm_code option"
  | Done

datatype 'a prog =
    Ret 'a
  | Call sm_call "sm_answer \<Rightarrow> 'a prog"
  | Now "go_time \<Rightarrow> 'a prog"
  | Wait duration "go_error option \<Rightarrow> 'a prog"
  | Report string "'a prog"

primrec prog_bind :: "'a prog \<Rightarrow> ('a \<Rightarrow> 'b prog) \<Rightarrow> 'b prog" where
  "prog_bind (Ret a) f = f a"
| "prog_bind (Call c k) f = Call c (\<lambda>r. prog_bind (k r) f)"
| "prog_bind (Now k) f = Now (\<lambda>t. prog_bind (k t) f)"
| "prog_bind (Wait d k) f = Wait d (\<lambda>e. prog_bind (k e) f)"
| "prog_bind (Report m p) f = Report m (prog_bind p f)"

fun as_secret :: "sm_answer \<Rightarrow> sm_code + string \<times> annotations" where
  "as_secret (Secret etag ann) = Inr (etag, ann)"
| "as_secret (Failed code) = Inl code"
| "as_secret _ = Inl (OtherCode [])"

fun as_version :: "sm_answer \<Rightarrow> sm_code + string" where
  "as_version (Version name) = Inr name"
| "as_version (Failed code) = Inl code"
| "as_version _ = Inl (OtherCode [])"

fun as_payload :: "sm_answer \<Rightarrow> sm_code + string \<times> bytes \<times> int" where
  "as_payload (Payload name data crc) = Inr (name, data, crc)"
| "as_payload (Failed code) = Inl code"
| "as_payload _ = Inl (OtherCode [])"

fun as_list :: "sm_answer \<Rightarrow> (string \<times> bool) list \<times> sm_code option" where
  "as_list (Versions vs e) = (vs, e)"
| "as_list (Failed code) = ([], Some code)"
| "as_list _ = ([], Some (OtherCode []))"

fun as_done :: "sm_answer \<Rightarrow> sm_code option" where
  "as_done (Failed code) = Some code"
| "as_done _ = None"

subsection \<open>The store\<close>

definition KeyRingVersionUnknown :: int where "KeyRingVersionUnknown = -1"

record gcp_store =
  g_secretName :: string
  g_reconcileEvery :: duration
  g_lockTTL :: duration
  g_lockWait :: duration
  g_retainVersions :: int
  g_nodeID :: string
  g_replicaLocations :: "string list"
  g_labels :: "(string, string) gomap"
  g_lastVersion :: int
  g_secretReady :: bool

definition gcp_NewWithClient :: "nat list result \<Rightarrow> int \<Rightarrow> gcp_Config \<Rightarrow> bool \<Rightarrow> gcp_store result" where
  "gcp_NewWithClient hostname pid cfg client =
     (if \<not> client then Err (Plain ''gcpsecretmanager: nil secret manager client'')
      else case gcp_validate hostname pid cfg of
        Err err \<Rightarrow> Err err
      | Ok cfg \<Rightarrow>
          Ok \<lparr>g_secretName = ''projects/'' @ gc_ProjectID cfg @ ''/secrets/'' @ gc_SecretID cfg,
             g_reconcileEvery = gc_ReconcileInterval cfg, g_lockTTL = gc_LockTTL cfg, g_lockWait = gc_LockWait cfg,
             g_retainVersions = gc_RetainVersions cfg, g_nodeID = gc_NodeID cfg, g_replicaLocations = gc_ReplicaLocations cfg,
             g_labels = gc_Labels cfg, g_lastVersion = KeyRingVersionUnknown, g_secretReady = False\<rparr>)"

text \<open>CRC-32 with the Castagnoli polynomial, bit by bit.\<close>

definition crc_bit :: "32 word \<Rightarrow> 32 word" where
  "crc_bit c = (if bit c 0 then drop_bit 1 c XOR 0x82F63B78 else drop_bit 1 c)"

definition crc32c :: "bytes \<Rightarrow> int" where
  "crc32c body = uint (NOT (foldl (\<lambda>c b. (crc_bit ^^ 8) (c XOR of_nat (of_char b))) (NOT 0) body))"

definition gs_load :: "key_codec \<Rightarrow> snap_codec \<Rightarrow> gcp_store \<Rightarrow> ((KeyRing \<times> int) result \<times> gcp_store) prog" where
  "gs_load kc sc s =
     Call (AccessSecretVersion (g_secretName s @ ''/versions/latest'')) (\<lambda>r.
       case as_payload r of
         Inl NotFound \<Rightarrow> Ret (Err ErrNotExist, s\<lparr>g_lastVersion := 0\<rparr>)
       | Inl FailedPrecondition \<Rightarrow> Ret (Err (Plain ''gcpsecretmanager: latest version of %s is not enabled: %w''), s)
       | Inl _ \<Rightarrow> Ret (Err (Plain ''gcpsecretmanager: access %s: %w''), s)
       | Inr (name, body, want) \<Rightarrow>
           if want \<noteq> 0 \<and> crc32c body \<noteq> want then
             Ret (Err (Plain ''gcpsecretmanager: keyring payload checksum mismatch for %s (got %d, want %d)''), s)
           else case parseVersionNumber name of
             Err err \<Rightarrow> Ret (Err err, s)
           | Ok version \<Rightarrow>
               (case DecodeKeyRing kc sc body of
                  Err err \<Rightarrow> Ret (Err err, s)
                | Ok ring \<Rightarrow> Ret (Ok (ring, version), s\<lparr>g_lastVersion := version\<rparr>)))"

definition gs_Load :: "key_codec \<Rightarrow> snap_codec \<Rightarrow> gcp_store \<Rightarrow> (KeyRing result \<times> gcp_store) prog" where
  "gs_Load kc sc s = prog_bind (gs_load kc sc s) (\<lambda>(r, s). Ret (map_sum id fst r, s))"

definition latestVersionNumber :: "gcp_store \<Rightarrow> int result prog" where
  "latestVersionNumber s =
     Call (GetSecretVersion (g_secretName s @ ''/versions/latest'')) (\<lambda>r.
       case as_version r of
         Inl NotFound \<Rightarrow> Ret (Ok 0)
       | Inl _ \<Rightarrow> Ret (Err (Plain ''gcpsecretmanager: get latest version of %s: %w''))
       | Inr name \<Rightarrow> Ret (parseVersionNumber name))"

definition ensureSecret :: "gcp_store \<Rightarrow> (go_error option \<times> gcp_store) prog" where
  "ensureSecret s =
     (if g_secretReady s then Ret (None, s)
      else Call (GetSecret (g_secretName s)) (\<lambda>r.
        case as_secret r of
          Inr _ \<Rightarrow> Ret (None, s\<lparr>g_secretReady := True\<rparr>)
        | Inl code \<Rightarrow>
            if code \<noteq> NotFound then Ret (Some (Plain ''gcpsecretmanager: get secret %s: %w''), s)
            else case splitSecretName (g_secretName s) of
              Err err \<Rightarrow> Ret (Some err, s)
            | Ok (parent, secretID) \<Rightarrow>
                Call (CreateSecret parent secretID (g_replicaLocations s) (g_labels s)) (\<lambda>r.
                  case as_secret r of
                    Inl code \<Rightarrow>
                      if code \<noteq> AlreadyExists then Ret (Some (Plain ''gcpsecretmanager: create secret %s: %w''), s)
                      else Ret (None, s\<lparr>g_secretReady := True\<rparr>)
                  | Inr _ \<Rightarrow> Ret (None, s\<lparr>g_secretReady := True\<rparr>))))"

subsection \<open>The write lease\<close>

fun isContention :: "sm_code \<Rightarrow> bool" where
  "isContention Aborted = True"
| "isContention FailedPrecondition = True"
| "isContention _ = False"

definition lock_value :: "annotations \<Rightarrow> string" where
  "lock_value ann = (case map_of ann lockAnnotation of None \<Rightarrow> [] | Some v \<Rightarrow> v)"

definition setLockAnnotation :: "gcp_store \<Rightarrow> string \<Rightarrow> annotations \<Rightarrow> string \<Rightarrow> sm_code option prog" where
  "setLockAnnotation s etag ann v =
     (let ann = (if v = [] then AList.delete lockAnnotation ann else AList.update lockAnnotation v ann) in
      Call (UpdateSecret (g_secretName s) etag ann) (\<lambda>r. Ret (case as_secret r of Inl code \<Rightarrow> Some code | Inr _ \<Rightarrow> None)))"

text \<open>The error, or the next backoff.\<close>

definition waitBeforeRetry :: "go_time \<Rightarrow> duration \<Rightarrow> duration result prog" where
  "waitBeforeRetry giveUp backoff =
     Now (\<lambda>now.
       if giveUp < now then Ret (Err (Plain ''gave up after %s''))
       else Wait backoff (\<lambda>e.
         case e of
           Some err \<Rightarrow> Ret (Err err)
         | None \<Rightarrow> Ret (Ok (if backoff < second then backoff * 2 else backoff))))"

datatype lock_result = Locked | LockErr go_error | LockFuel

definition held_by_other :: "gcp_store \<Rightarrow> annotations \<Rightarrow> go_time \<Rightarrow> bool" where
  "held_by_other s ann now \<longleftrightarrow>
     (case parseLease (lock_value ann) of
        Some held \<Rightarrow> l_owner held \<noteq> g_nodeID s \<and> now < l_expires held
      | None \<Rightarrow> False)"

text \<open>The loop's \<^verbatim>\<open>continue\<close> after a wait, and the attempt to take the lease; \<open>again\<close> is the rest of the loop.\<close>

definition retry_after :: "go_time \<Rightarrow> duration \<Rightarrow> string \<Rightarrow> (duration \<Rightarrow> lock_result prog) \<Rightarrow> lock_result prog" where
  "retry_after giveUp backoff msg again =
     prog_bind (waitBeforeRetry giveUp backoff) (\<lambda>w. case w of Err _ \<Rightarrow> Ret (LockErr (Plain msg)) | Ok backoff \<Rightarrow> again backoff)"

definition take_lease :: "gcp_store \<Rightarrow> string \<Rightarrow> annotations \<Rightarrow> lock_result prog \<Rightarrow> lock_result prog" where
  "take_lease s etag ann again =
     Now (\<lambda>now.
       let mine = \<lparr>l_owner = g_nodeID s, l_expires = now + g_lockTTL s\<rparr> in
       prog_bind (setLockAnnotation s etag ann (lease_encode mine)) (\<lambda>e.
         case e of
           None \<Rightarrow> Ret Locked
         | Some code \<Rightarrow>
             if \<not> isContention code then Ret (LockErr (Plain ''gcpsecretmanager: take keyring write lease: %w''))
             else again))"

fun acquire_loop :: "gcp_store \<Rightarrow> go_time \<Rightarrow> nat \<Rightarrow> duration \<Rightarrow> lock_result prog" where
  "acquire_loop s giveUp 0 backoff = Ret LockFuel"
| "acquire_loop s giveUp (Suc left) backoff =
     Call (GetSecret (g_secretName s)) (\<lambda>r.
       case as_secret r of
         Inl _ \<Rightarrow> Ret (LockErr (Plain ''gcpsecretmanager: get secret %s: %w''))
       | Inr (etag, ann) \<Rightarrow>
           Now (\<lambda>now.
             if held_by_other s ann now
             then retry_after giveUp backoff ''gcpsecretmanager: keyring write lease held by %q for another %s: %w''
                    (\<lambda>b. acquire_loop s giveUp left b)
             else take_lease s etag ann
                    (retry_after giveUp backoff ''gcpsecretmanager: take keyring write lease: %w'' (\<lambda>b. acquire_loop s giveUp left b))))"

definition acquireLock :: "nat \<Rightarrow> gcp_store \<Rightarrow> lock_result prog" where
  "acquireLock fuel s = Now (\<lambda>now. acquire_loop s (now + g_lockWait s) fuel (50 * 1000000))"

definition releaseLock :: "gcp_store \<Rightarrow> unit prog" where
  "releaseLock s =
     Call (GetSecret (g_secretName s)) (\<lambda>r.
       case as_secret r of
         Inl _ \<Rightarrow> Report ''gcpsecretmanager: release keyring write lease: %w'' (Ret ())
       | Inr (etag, ann) \<Rightarrow>
           (case parseLease (lock_value ann) of
              None \<Rightarrow> Ret ()
            | Some held \<Rightarrow>
                if l_owner held \<noteq> g_nodeID s then Ret ()
                else prog_bind (setLockAnnotation s etag ann []) (\<lambda>e.
                  case e of
                    None \<Rightarrow> Ret ()
                  | Some code \<Rightarrow>
                      if isContention code then Ret ()
                      else Report ''gcpsecretmanager: release keyring write lease: %w'' (Ret ()))))"

subsection \<open>Writing\<close>

fun prune_loop :: "int \<Rightarrow> sm_code option \<Rightarrow> (string \<times> bool) list \<Rightarrow> unit prog" where
  "prune_loop cutoff e [] =
     (case e of None \<Rightarrow> Ret () | Some _ \<Rightarrow> Report ''gcpsecretmanager: list versions of %s: %w'' (Ret ()))"
| "prune_loop cutoff e ((name, enabled) # vs) =
     (if \<not> enabled then prune_loop cutoff e vs
      else case parseVersionNumber name of
        Err _ \<Rightarrow> prune_loop cutoff e vs
      | Ok n \<Rightarrow>
          if n > cutoff then prune_loop cutoff e vs
          else Call (DestroySecretVersion name) (\<lambda>r.
            case as_done r of
              None \<Rightarrow> prune_loop cutoff e vs
            | Some _ \<Rightarrow> Report ''gcpsecretmanager: destroy %s: %w'' (prune_loop cutoff e vs)))"

definition pruneVersions :: "gcp_store \<Rightarrow> int \<Rightarrow> unit prog" where
  "pruneVersions s latest =
     (if g_retainVersions s \<le> 0 then Ret ()
      else
        let cutoff = latest - g_retainVersions s in
        if cutoff < 1 then Ret ()
        else Call (ListSecretVersions (g_secretName s)) (\<lambda>r. let (vs, e) = as_list r in prune_loop cutoff e vs))"

text \<open>What \<^verbatim>\<open>Save\<close> does while it holds the lease.\<close>

definition write_locked :: "bytes \<Rightarrow> int \<Rightarrow> gcp_store \<Rightarrow> (go_error option \<times> gcp_store) prog" where
  "write_locked body expected s =
     prog_bind (latestVersionNumber s) (\<lambda>current.
       case current of
         Err err \<Rightarrow> Ret (Some err, s)
       | Ok current \<Rightarrow>
           if expected \<noteq> KeyRingVersionUnknown \<and> current \<noteq> expected then Ret (Some ErrKeyRingConflict, s)
           else Call (AddSecretVersion (g_secretName s) body (crc32c body)) (\<lambda>r.
             case as_version r of
               Inl _ \<Rightarrow> Ret (Some (Plain ''gcpsecretmanager: add version to %s: %w''), s)
             | Inr name \<Rightarrow>
                 (case parseVersionNumber name of
                    Err err \<Rightarrow> Ret (Some err, s)
                  | Ok written \<Rightarrow>
                      let s = s\<lparr>g_lastVersion := written\<rparr> in
                      prog_bind (pruneVersions s written) (\<lambda>_. Ret (None, s)))))"

definition gs_Save :: "key_codec \<Rightarrow> snap_codec \<Rightarrow> nat \<Rightarrow> KeyRing \<Rightarrow> gcp_store \<Rightarrow> (go_error option \<times> gcp_store) prog" where
  "gs_Save kc sc fuel r s =
     (case EncodeKeyRing kc sc r of
        Err err \<Rightarrow> Ret (Some err, s)
      | Ok body \<Rightarrow>
          if int (length body) > maxPayloadBytes then
            Ret (Some (Plain ''gcpsecretmanager: keyring snapshot is %d bytes, over Secret Manager limit''), s)
          else prog_bind (ensureSecret s) (\<lambda>(err, s).
            case err of
              Some err \<Rightarrow> Ret (Some err, s)
            | None \<Rightarrow>
                let expected = g_lastVersion s in
                prog_bind (acquireLock fuel s) (\<lambda>l.
                  case l of
                    LockErr err \<Rightarrow> Ret (Some err, s)
                  | LockFuel \<Rightarrow> Ret (Some (Plain ''out of fuel''), s)
                  | Locked \<Rightarrow>
                      prog_bind (write_locked body expected s) (\<lambda>res.
                      prog_bind (releaseLock s) (\<lambda>_. Ret res)))))"

definition gs_Ensure ::
  "key_codec \<Rightarrow> snap_codec \<Rightarrow> nat \<Rightarrow> generators \<Rightarrow> gcp_store \<Rightarrow> ((KeyRing \<times> bool) result \<times> gcp_store) prog" where
  "gs_Ensure kc sc fuel g s =
     prog_bind (gs_Load kc sc s) (\<lambda>(r, s).
       case r of
         Ok ring \<Rightarrow> Ret (Ok (ring, False), s)
       | Err err \<Rightarrow>
           if \<not> errors_Is err ErrNotExist then Ret (Err err, s)
           else Now (\<lambda>now.
             case kr_Generate kc g now NewKeyRing of
               (Err err, _) \<Rightarrow> Ret (Err err, s)
             | (Ok _, ring) \<Rightarrow>
                 prog_bind (gs_Save kc sc fuel ring s) (\<lambda>(err, s).
                   case err of
                     None \<Rightarrow> Ret (Ok (ring, True), s)
                   | Some err \<Rightarrow>
                       if \<not> errors_Is err ErrKeyRingConflict then Ret (Err err, s)
                       else prog_bind (gs_Load kc sc s) (\<lambda>(r, s). Ret (map_sum id (\<lambda>ring. (ring, False)) r, s)))))"

text \<open>One tick of \<^verbatim>\<open>Watch\<close>: the new \<^verbatim>\<open>notified\<close> and the ring handed to \<^verbatim>\<open>onChange\<close>, if any.  \<open>live\<close> tells
  whether the context is still alive, which decides about reporting an error.\<close>

definition gs_watch_tick ::
  "key_codec \<Rightarrow> snap_codec \<Rightarrow> bool \<Rightarrow> int \<Rightarrow> gcp_store \<Rightarrow> ((int \<times> KeyRing option) \<times> gcp_store) prog" where
  "gs_watch_tick kc sc live notified s =
     (let v = g_lastVersion s; notified = (if v > notified then v else notified) in
      prog_bind (latestVersionNumber s) (\<lambda>latest.
        case latest of
          Err err \<Rightarrow> (if live then Report ''gcpsecretmanager: keyring reconcile: %w'' (Ret ((notified, None), s)) else Ret ((notified, None), s))
        | Ok latest \<Rightarrow>
            if latest = 0 \<or> latest \<le> notified then Ret ((notified, None), s)
            else prog_bind (gs_load kc sc s) (\<lambda>(r, s).
              case r of
                Err err \<Rightarrow>
                  if \<not> errors_Is err ErrNotExist \<and> live
                  then Report ''gcpsecretmanager: keyring reconcile: %w'' (Ret ((notified, None), s))
                  else Ret ((notified, None), s)
              | Ok (ring, version) \<Rightarrow>
                  if version \<le> notified then Ret ((notified, None), s) else Ret ((version, Some ring), s))))"

subsection \<open>Names and leases are read back\<close>

lemma last_filter_upt:
  assumes "m < n" "P m" "\<And>i. m < i \<Longrightarrow> i < n \<Longrightarrow> \<not> P i"
  shows "last (filter P [0..<n]) = m" "filter P [0..<n] \<noteq> []"
proof -
  have "[0..<n] = [0..<m] @ m # [Suc m..<n]" using assms(1) by (metis less_imp_le_nat upt_add_eq_append upt_conv_Cons zero_le le_add_diff_inverse)
  moreover have "filter P [Suc m..<n] = []" using assms(3) by (auto simp: filter_empty_conv)
  ultimately show "last (filter P [0..<n]) = m" "filter P [0..<n] \<noteq> []" using assms(2) by simp_all
qed

text \<open>The last occurrence of a text is where it was put if a letter of it does not come again.\<close>

lemma LastIndex_last:
  assumes "k < length sub" "sub ! k \<notin> set (drop (Suc k) sub @ b)"
  shows "strings_LastIndex (a @ sub @ b) sub = int (length a)"
proof -
  let ?s = "a @ sub @ b" and ?P = "\<lambda>i. take (length sub) (drop i (a @ sub @ b)) = sub"
  have no: "\<not> ?P i" if "length a < i" for i
  proof
    assume p: "?P i"
    define j where "j = i - Suc (length a)"
    then have i: "i = length a + Suc j" using that by simp
    define c where "c = sub @ b"
    have sub: "sub = take (length sub) (drop (Suc j) c)" using p by (simp add: i c_def)
    then have len: "length sub \<le> length (drop (Suc j) c)" by (metis length_take min.cobounded1)
    have "sub ! k = drop (Suc j) c ! k" using sub assms(1) by (metis nth_take)
    also have "\<dots> = drop (Suc k) c ! j" using len assms(1) by (simp add: add.commute)
    also have "\<dots> \<in> set (drop (Suc k) c)" using len assms(1) by (intro nth_mem) simp
    also have "drop (Suc k) c = drop (Suc k) sub @ b" using assms(1) by (simp add: c_def)
    finally show False using assms(2) by blast
  qed
  have "length a < Suc (length ?s)" by simp
  from last_filter_upt [OF this, of ?P] show ?thesis using no by (simp add: strings_LastIndex_def del: upt_Suc)
qed

lemma FormatInt_chars: "c \<in> set (FormatInt i) \<Longrightarrow> is_digit c \<or> c = CHR ''-''"
  using digits_ok by (auto simp: FormatInt_def list_all_iff split: if_splits)

lemma digit_cases: "is_digit c \<or> c = CHR ''-'' \<Longrightarrow> c \<noteq> CHR '':'' \<and> c \<noteq> CHR ''/'' \<and> c \<noteq> CHR ''v''"
  by (auto simp: is_digit_def)

lemma parseVersionNumber_name:
  assumes "min_int64 \<le> i" "i \<le> max_int64"
  shows "parseVersionNumber (name @ ''/versions/'' @ FormatInt i) = Ok i"
proof -
  have "CHR ''v'' \<notin> set (FormatInt i)" using FormatInt_chars digit_cases by blast
  then have "strings_LastIndex (name @ ''/versions/'' @ FormatInt i) ''/versions/'' = int (length name)"
    by (intro LastIndex_last [of 1]) simp_all
  then show ?thesis using ParseInt_Format [OF assms] by (simp add: parseVersionNumber_def)
qed

text \<open>A lease is read back with its expiry rounded down to a millisecond.\<close>

lemma parseLease_encode:
  assumes "l_owner l \<noteq> []" "min_int64 \<le> l_expires l div 1000000" "l_expires l div 1000000 \<le> max_int64"
  shows "parseLease (lease_encode l) = Some (l\<lparr>l_expires := l_expires l div 1000000 * 1000000\<rparr>)"
proof -
  have "CHR '':'' \<notin> set (FormatInt (l_expires l div 1000000))" using FormatInt_chars digit_cases by blast
  then have "strings_LastIndex (lease_encode l) '':'' = int (length (l_owner l))"
    unfolding lease_encode_def by (intro LastIndex_last [of 0]) simp_all
  then show ?thesis using assms(1) ParseInt_Format [OF assms(2,3)] by (simp add: parseLease_def lease_encode_def)
qed

subsection \<open>The wait for the lease ends\<close>

text \<open>
  \<open>ends q p t\<close>: however the calls are answered, the program started at \<open>t\<close> comes to a result that
  fulfils \<open>q\<close>, if the clock does not run backwards and a wait that is not cut short takes its time.
\<close>

primrec ends :: "('a \<Rightarrow> go_time \<Rightarrow> bool) \<Rightarrow> 'a prog \<Rightarrow> go_time \<Rightarrow> bool" where
  "ends q (Ret a) t = q a t"
| "ends q (Call c k) t = (\<forall>r t'. t \<le> t' \<longrightarrow> ends q (k r) t')"
| "ends q (Now k) t = (\<forall>t'. t \<le> t' \<longrightarrow> ends q (k t') t')"
| "ends q (Wait d k) t = ((\<forall>t'. t + d \<le> t' \<longrightarrow> ends q (k None) t') \<and> (\<forall>e t'. t \<le> t' \<longrightarrow> ends q (k (Some e)) t'))"
| "ends q (Report m p) t = ends q p t"

lemma ends_bind: "ends (\<lambda>a. ends q (f a)) p t \<Longrightarrow> ends q (prog_bind p f) t"
  by (induction p arbitrary: t) simp_all

lemma ends_retry:
  assumes "50 * 1000000 \<le> backoff" "\<And>e t'. q (LockErr e) t'"
    and "\<And>b t'. t \<le> giveUp \<Longrightarrow> 50 * 1000000 \<le> b \<Longrightarrow> t + 50 * 1000000 \<le> t' \<Longrightarrow> ends q (again b) t'"
  shows "ends q (retry_after giveUp backoff msg again) t"
  using assms by (simp add: retry_after_def waitBeforeRetry_def)

lemma ends_take:
  assumes "q Locked" "\<And>e. q (LockErr e)" "\<And>t'. t \<le> t' \<Longrightarrow> ends (\<lambda>r _. q r) again t'"
  shows "ends (\<lambda>r _. q r) (take_lease s etag ann again) t"
  using assms by (auto simp: take_lease_def setLockAnnotation_def Let_def split: sum.split option.split)

lemma acquire_loop_ends:
  assumes "giveUp < t + 50 * 1000000 * int n" "50 * 1000000 \<le> backoff"
  shows "ends (\<lambda>r _. r \<noteq> LockFuel) (acquire_loop s giveUp (Suc n) backoff) t"
  using assms
proof (induction n arbitrary: t backoff)
  case 0
  then show ?case by (auto split: sum.split intro!: ends_retry ends_take)
next
  case (Suc n)
  then show ?case
    by (subst acquire_loop.simps)
      (auto split: sum.split intro!: ends_retry ends_take Suc.IH simp: algebra_simps simp del: acquire_loop.simps)
qed

text \<open>
  C16. The wait for the write lease ends: with a number of attempts that covers the configured wait in
  steps of 50 milliseconds, the shortest backoff, the loop is never cut short, however the service
  answers and whatever the other nodes do.
\<close>

theorem acquire_fuel:
  assumes "50 * 1000000 * int n > g_lockWait s"
  shows "ends (\<lambda>r _. r \<noteq> LockFuel) (acquireLock (Suc n) s) t"
  using acquire_loop_ends [of "_ + g_lockWait s" _ n "50 * 1000000" s] assms
  by (simp add: acquireLock_def del: acquire_loop.simps)

theorem acquire_fuel_witness:
  "ends (\<lambda>r _. r \<noteq> LockFuel)
     (acquireLock 202 \<lparr>g_secretName = ''projects/p/secrets/s'', g_reconcileEvery = DefaultReconcileInterval, g_lockTTL = DefaultLockTTL,
        g_lockWait = DefaultLockWait, g_retainVersions = 0, g_nodeID = ''n'', g_replicaLocations = [], g_labels = [], g_lastVersion = 1,
        g_secretReady = True\<rparr>) 0"
  using acquire_fuel [of "\<lparr>g_secretName = ''projects/p/secrets/s'', g_reconcileEvery = DefaultReconcileInterval, g_lockTTL = DefaultLockTTL,
        g_lockWait = DefaultLockWait, g_retainVersions = 0, g_nodeID = ''n'', g_replicaLocations = [], g_labels = [], g_lastVersion = 1,
        g_secretReady = True\<rparr>" 201 0]
  by (simp add: DefaultLockWait_def go_simps)

end
