(* ===== verification/GcpFleet.thy ===== *)
theory GcpFleet
  imports GcpStore
begin

text \<open>
  Several nodes rotate the key ring in one Secret Manager secret (\<^verbatim>\<open>src/stores/gcpsecretmanager/\<close>).

  The service is a parameter, a relation between a call, the state before, the answer and the state
  after.  \<open>call_effect\<close> states what it documents of the secret: its revision (of which the etag is a
  function), its annotations and its versions; a call that failed for its caller may have been
  executed, unless the code says that the etag did not match.  The nodes' clocks agree.

  \<open>safe\<close> is a rely-guarantee judgement on programs: whatever the other nodes do between two steps
  of the program within their guarantee, its own steps keep its guarantee and it adds a version only
  in a state that fulfils \<open>W\<close>, as long as no version is added after the lease taken last has run out.
\<close>

subsection \<open>What the service documents\<close>

record sm_view =
  vw_rev :: nat
  vw_ann :: annotations
  vw_vers :: "bytes list"

definition version_name :: "string \<Rightarrow> nat \<Rightarrow> string" where
  "version_name N n = N @ ''/versions/'' @ FormatInt (int n)"

fun call_effect :: "(nat \<Rightarrow> string) \<Rightarrow> string \<Rightarrow> sm_call \<Rightarrow> sm_view \<Rightarrow> sm_answer \<Rightarrow> sm_view \<Rightarrow> bool" where
  "call_effect etag N (GetSecret n) v a v' \<longleftrightarrow>
     v' = v \<and> (\<forall>e ann. a = Secret e ann \<longrightarrow> e = etag (vw_rev v) \<and> ann = vw_ann v)"
| "call_effect etag N (UpdateSecret n e ann) v a v' \<longleftrightarrow>
     v' = v \<and> (\<forall>e ann. a \<noteq> Secret e ann) \<or>
     e = etag (vw_rev v) \<and> v' = v\<lparr>vw_rev := Suc (vw_rev v), vw_ann := ann\<rparr> \<and> (\<forall>code. a = Failed code \<longrightarrow> \<not> isContention code)"
| "call_effect etag N (AddSecretVersion n b crc) v a v' \<longleftrightarrow>
     v' = v \<and> (\<forall>name. a \<noteq> Version name) \<or>
     v' = v\<lparr>vw_vers := vw_vers v @ [b]\<rparr> \<and> (\<forall>name. a = Version name \<longrightarrow> name = version_name N (Suc (length (vw_vers v))))"
| "call_effect etag N (GetSecretVersion n) v a v' \<longleftrightarrow>
     v' = v \<and> (\<forall>name. a = Version name \<longrightarrow> vw_vers v \<noteq> [] \<and> name = version_name N (length (vw_vers v))) \<and>
     (a = Failed NotFound \<longrightarrow> vw_vers v = [])"
| "call_effect etag N (AccessSecretVersion n) v a v' \<longleftrightarrow>
     v' = v \<and> (\<forall>name body crc. a = Payload name body crc \<longrightarrow>
       vw_vers v \<noteq> [] \<and> name = version_name N (length (vw_vers v)) \<and> body = last (vw_vers v)) \<and>
     (a = Failed NotFound \<longrightarrow> vw_vers v = [])"
| "call_effect etag N (CreateSecret p i l m) v a v' \<longleftrightarrow> v' = v"
| "call_effect etag N (ListSecretVersions n) v a v' \<longleftrightarrow> v' = v"
| "call_effect etag N (DestroySecretVersion n) v a v' \<longleftrightarrow> v' = v"

definition gcp_ok :: "(nat \<Rightarrow> string) \<Rightarrow> string \<Rightarrow> (sm_call \<Rightarrow> 'w \<Rightarrow> sm_answer \<Rightarrow> 'w \<Rightarrow> bool) \<Rightarrow> ('w \<Rightarrow> sm_view) \<Rightarrow> bool" where
  "gcp_ok etag N sem view \<longleftrightarrow>
     inj etag \<and> (\<forall>c w a w'. sem c w a w' \<longrightarrow> call_effect etag N c (view w) a (view w') \<and> int (length (vw_vers (view w))) \<le> max_int64)"

subsection \<open>Rely and guarantee\<close>

definition lease_in :: "sm_view \<Rightarrow> lease option" where
  "lease_in v = parseLease (lock_value (vw_ann v))"

text \<open>
  A node changes the secret only when no lease of another node is in force, and adds a version only
  under its own lease.
\<close>

definition guar :: "string \<Rightarrow> go_time \<Rightarrow> sm_view \<Rightarrow> sm_view \<Rightarrow> bool" where
  "guar me t v v' \<longleftrightarrow>
     v' = v \<or>
     vw_rev v' = Suc (vw_rev v) \<and> vw_vers v' = vw_vers v \<and> (\<forall>l. lease_in v = Some l \<longrightarrow> l_owner l = me \<or> l_expires l \<le> t) \<or>
     vw_rev v' = vw_rev v \<and> vw_ann v' = vw_ann v \<and> (\<exists>b. vw_vers v' = vw_vers v @ [b]) \<and>
       (\<exists>l. lease_in v = Some l \<and> l_owner l = me \<and> t < l_expires l)"

inductive rely :: "string \<Rightarrow> go_time \<times> sm_view \<Rightarrow> go_time \<times> sm_view \<Rightarrow> bool" for me where
  tick: "t \<le> t' \<Longrightarrow> t' \<le> max_int64 \<Longrightarrow> rely me (t, v) (t', v)"
| peer: "other \<noteq> me \<Longrightarrow> guar other t v v' \<Longrightarrow> rely me (t, v) (t, v')"

definition newd :: "sm_call \<Rightarrow> sm_answer \<Rightarrow> go_time \<Rightarrow> go_time" where
  "newd c a d =
     (case (c, a) of
        (UpdateSecret n e ann, Secret e' ann') \<Rightarrow> (case parseLease (lock_value ann) of Some l \<Rightarrow> l_expires l | None \<Rightarrow> d)
      | _ \<Rightarrow> d)"

definition in_time :: "sm_call \<Rightarrow> go_time \<Rightarrow> go_time \<Rightarrow> bool" where
  "in_time c t d \<longleftrightarrow> (case c of AddSecretVersion n b crc \<Rightarrow> t < d | _ \<Rightarrow> True)"

primrec safe ::
  "(nat \<Rightarrow> string) \<Rightarrow> string \<Rightarrow> string \<Rightarrow> (sm_view \<Rightarrow> bool) \<Rightarrow> ('a \<Rightarrow> go_time \<Rightarrow> sm_view \<Rightarrow> go_time \<Rightarrow> bool) \<Rightarrow>
   'a prog \<Rightarrow> go_time \<Rightarrow> sm_view \<Rightarrow> go_time \<Rightarrow> bool" where
  "safe etag N me W Q (Ret a) t v d = (\<forall>t1 v1. (rely me)\<^sup>*\<^sup>* (t, v) (t1, v1) \<longrightarrow> Q a t1 v1 d)"
| "safe etag N me W Q (Call c k) t v d =
     (\<forall>t1 v1 r v2. (rely me)\<^sup>*\<^sup>* (t, v) (t1, v1) \<longrightarrow> int (length (vw_vers v1)) \<le> max_int64 \<longrightarrow>
        call_effect etag N c v1 r v2 \<longrightarrow> in_time c t1 d \<longrightarrow>
        guar me t1 v1 v2 \<and> (vw_vers v2 \<noteq> vw_vers v1 \<longrightarrow> W v1) \<and> safe etag N me W Q (k r) t1 v2 (newd c r d))"
| "safe etag N me W Q (Now k) t v d =
     (\<forall>t1 v1. (rely me)\<^sup>*\<^sup>* (t, v) (t1, v1) \<longrightarrow> safe etag N me W Q (k t1) t1 v1 d)"
| "safe etag N me W Q (Wait w k) t v d =
     (\<forall>t1 v1 e. (rely me)\<^sup>*\<^sup>* (t, v) (t1, v1) \<longrightarrow> safe etag N me W Q (k e) t1 v1 d)"
| "safe etag N me W Q (Report m p) t v d = safe etag N me W Q p t v d"

lemma safe_rely:
  "safe etag N me W Q p t v d \<Longrightarrow> (rely me)\<^sup>*\<^sup>* (t, v) (t1, v1) \<Longrightarrow> safe etag N me W Q p t1 v1 d"
  by (induction p) (simp_all, (meson rtranclp_trans)+)

lemma safe_bind:
  "safe etag N me W (\<lambda>a. safe etag N me W Q (f a)) p t v d \<Longrightarrow> safe etag N me W Q (prog_bind p f) t v d"
proof (induction p arbitrary: t v d)
  case (Ret a)
  then show ?case by auto
qed (simp_all add: range_eqI)

lemma safe_mono:
  assumes "safe etag N me W Q p t v d" "\<And>a t v d. Q a t v d \<Longrightarrow> Q' a t v d"
  shows "safe etag N me W Q' p t v d"
  using assms(1) by (induction p arbitrary: t v d) (simp_all add: assms(2) range_eqI)

text \<open>What the others may have done: while our lease is in force, nothing.\<close>

lemma rely_mono:
  assumes "(rely me)\<^sup>*\<^sup>* (t, v) (t1, v1)"
  shows "t \<le> t1" "t \<le> max_int64 \<Longrightarrow> t1 \<le> max_int64" "vw_rev v \<le> vw_rev v1" "vw_rev v1 = vw_rev v \<Longrightarrow> vw_ann v1 = vw_ann v"
proof -
  have "t \<le> t1 \<and> (t \<le> max_int64 \<longrightarrow> t1 \<le> max_int64) \<and> vw_rev v \<le> vw_rev v1 \<and> (vw_rev v1 = vw_rev v \<longrightarrow> vw_ann v1 = vw_ann v)"
    using assms
  proof (induction "(t1, v1)" arbitrary: t1 v1 rule: rtranclp_induct)
    case (step y)
    obtain t0 v0 where y: "y = (t0, v0)" by (cases y)
    have "t \<le> t0 \<and> (t \<le> max_int64 \<longrightarrow> t0 \<le> max_int64) \<and> vw_rev v \<le> vw_rev v0 \<and> (vw_rev v0 = vw_rev v \<longrightarrow> vw_ann v0 = vw_ann v)"
      using step.hyps(3) [OF y] .
    with step.hyps(2) show ?case unfolding y by (cases rule: rely.cases) (auto simp: guar_def)
  qed simp
  then show "t \<le> t1" "t \<le> max_int64 \<Longrightarrow> t1 \<le> max_int64" "vw_rev v \<le> vw_rev v1" "vw_rev v1 = vw_rev v \<Longrightarrow> vw_ann v1 = vw_ann v"
    by simp_all
qed

lemma rely_held:
  assumes "(rely me)\<^sup>*\<^sup>* (t, v) (t1, v1)" "lease_in v = Some l" "l_owner l = me" "t1 < l_expires l"
  shows "v1 = v"
  using assms(1,4)
proof (induction "(t1, v1)" arbitrary: t1 v1 rule: rtranclp_induct)
  case (step y)
  obtain t0 v0 where y: "y = (t0, v0)" by (cases y)
  have "t0 \<le> t1" using step.hyps(2) unfolding y by (cases rule: rely.cases) simp_all
  then have "v0 = v" using step.hyps(3) [OF y] step.prems by simp
  show ?case using step.hyps(2) [unfolded y] \<open>v0 = v\<close> assms(2,3) step.prems by (cases rule: rely.cases) (auto simp: guar_def)
qed simp

subsection \<open>The programs are safe\<close>

text \<open>Calls that only read.\<close>

definition reads :: "sm_call \<Rightarrow> bool" where
  "reads c \<longleftrightarrow> (case c of UpdateSecret n e ann \<Rightarrow> False | AddSecretVersion n b crc \<Rightarrow> False | _ \<Rightarrow> True)"

lemma reads_simps [simp]:
  "reads (GetSecret n)" "reads (GetSecretVersion n)" "reads (AccessSecretVersion n)" "reads (CreateSecret p i l m)"
  "reads (ListSecretVersions n)" "reads (DestroySecretVersion n)"
  by (simp_all add: reads_def)

lemma safe_read:
  assumes "reads c"
    and "\<And>t1 v1 r. (rely me)\<^sup>*\<^sup>* (t, v) (t1, v1) \<Longrightarrow> int (length (vw_vers v1)) \<le> max_int64 \<Longrightarrow> call_effect etag N c v1 r v1 \<Longrightarrow>
      safe etag N me W Q (k r) t1 v1 d"
  shows "safe etag N me W Q (Call c k) t v d"
proof -
  have "v2 = v1 \<and> newd c r d = d" if "call_effect etag N c v1 r v2" for v1 r v2
    using assms(1) that by (cases c) (simp_all add: reads_def newd_def)
  then show ?thesis using assms(2) by (auto simp: guar_def) (metis)
qed

text \<open>Our lease, unless it has run out.\<close>

definition holds :: "string \<Rightarrow> go_time \<Rightarrow> sm_view \<Rightarrow> go_time \<Rightarrow> bool" where
  "holds me t v d \<longleftrightarrow> (t < d \<longrightarrow> lease_in v = Some \<lparr>l_owner = me, l_expires = d\<rparr>)"

lemma holds_rely:
  assumes "holds me t v d" "(rely me)\<^sup>*\<^sup>* (t, v) (t1, v1)"
  shows "holds me t1 v1 d" "t1 < d \<Longrightarrow> v1 = v"
proof -
  have "t \<le> t1" using rely_mono(1) [OF assms(2)] .
  then show v: "t1 < d \<Longrightarrow> v1 = v" using assms rely_held [OF assms(2)] by (simp add: holds_def)
  show "holds me t1 v1 d" using v assms(1) \<open>t \<le> t1\<close> by (auto simp: holds_def)
qed

definition clock_ok :: "go_time \<Rightarrow> bool" where
  "clock_ok t \<longleftrightarrow> 0 \<le> t \<and> t \<le> max_int64"

lemma clock_rely: "clock_ok t \<Longrightarrow> (rely me)\<^sup>*\<^sup>* (t, v) (t1, v1) \<Longrightarrow> clock_ok t1"
  using rely_mono(1,2) [of me t v t1 v1] by (auto simp: clock_ok_def)

text \<open>The store of a node of the fleet.\<close>

definition store_ok :: "string \<Rightarrow> string \<Rightarrow> gcp_store \<Rightarrow> bool" where
  "store_ok N me s \<longleftrightarrow> g_secretName s = N \<and> g_nodeID s = me \<and> me \<noteq> [] \<and> 0 \<le> g_lockTTL s \<and> g_lockTTL s \<le> max_int64"

text \<open>
  Writing the annotation with an etag read earlier: it takes effect only on the annotations that
  were read, so when these carried no other node's lease then in force, the guarantee is kept.
\<close>

lemma safe_setLock:
  assumes "inj etag" and read: "(rely me)\<^sup>*\<^sup>* (t0, v0) (t, v)"
    and free: "\<And>l. lease_in v0 = Some l \<Longrightarrow> l_owner l = me \<or> l_expires l \<le> t"
    and ok: "\<And>t1 v1 t2 v2 v3 d'. (rely me)\<^sup>*\<^sup>* (t, v) (t1, v1) \<Longrightarrow> (x \<noteq> [] \<Longrightarrow> lease_in v2 = parseLease x) \<Longrightarrow>
      (\<And>l. x \<noteq> [] \<Longrightarrow> parseLease x = Some l \<Longrightarrow> d' = l_expires l) \<Longrightarrow> (rely me)\<^sup>*\<^sup>* (t1, v2) (t2, v3) \<Longrightarrow> Q None t2 v3 d'"
    and failed: "\<And>t1 v1 t2 v2 v3 d' code. (rely me)\<^sup>*\<^sup>* (t, v) (t1, v1) \<Longrightarrow> (rely me)\<^sup>*\<^sup>* (t1, v2) (t2, v3) \<Longrightarrow> Q (Some code) t2 v3 d'"
  shows "safe etag N me W Q (setLockAnnotation s (etag (vw_rev v0)) (vw_ann v0) x) t v d"
proof -
  let ?ann = "if x = [] then AList.delete lockAnnotation (vw_ann v0) else AList.update lockAnnotation x (vw_ann v0)"
  let ?c = "UpdateSecret (g_secretName s) (etag (vw_rev v0)) ?ann"
  let ?k = "\<lambda>r. Ret (case as_secret r of Inl code \<Rightarrow> Some code | Inr _ \<Rightarrow> None)"
  have "guar me t1 v1 v2 \<and> (vw_vers v2 \<noteq> vw_vers v1 \<longrightarrow> W v1) \<and> safe etag N me W Q (?k r) t1 v2 (newd ?c r d)"
    if rel: "(rely me)\<^sup>*\<^sup>* (t, v) (t1, v1)" and eff: "call_effect etag N ?c v1 r v2" for t1 v1 r v2
  proof -
    have "(rely me)\<^sup>*\<^sup>* (t0, v0) (t1, v1)" using read rel by (rule rtranclp_trans)
    note same = rely_mono(4) [OF this]
    have "t \<le> t1" using rely_mono(1) [OF rel] .
    have "guar me t1 v1 v2"
    proof (cases "v2 = v1")
      case False
      then have "vw_rev v1 = vw_rev v0" "vw_rev v2 = Suc (vw_rev v1)" "vw_vers v2 = vw_vers v1"
        using eff assms(1) by (auto simp: inj_eq)
      then show ?thesis using free same \<open>t \<le> t1\<close> by (force simp: guar_def lease_in_def)
    qed (simp add: guar_def)
    moreover have "vw_vers v2 = vw_vers v1" using eff by auto
    moreover have "safe etag N me W Q (?k r) t1 v2 (newd ?c r d)"
    proof (cases "\<exists>e ann. r = Secret e ann")
      case True
      then obtain e ann where r: "r = Secret e ann" by blast
      then have "vw_ann v2 = ?ann" using eff by auto
      then have lin: "lease_in v2 = parseLease x" if "x \<noteq> []" using that by (simp add: lease_in_def lock_value_def)
      have new: "newd ?c r d = l_expires l" if "x \<noteq> []" "parseLease x = Some l" for l
        using that r by (simp add: newd_def lock_value_def)
      have "Q None t2 v3 (newd ?c r d)" if "(rely me)\<^sup>*\<^sup>* (t1, v2) (t2, v3)" for t2 v3
        by (rule ok [OF rel lin new that])
      then show ?thesis by (simp add: r)
    next
      case False
      then have "\<exists>code. as_secret r = Inl code" by (cases r) simp_all
      then show ?thesis using failed [OF rel] by auto
    qed
    ultimately show ?thesis by simp
  qed
  then show ?thesis by (simp add: setLockAnnotation_def Let_def del: call_effect.simps)
qed

lemma lease_mine:
  assumes "store_ok N me s" "clock_ok t"
  shows "parseLease (lease_encode \<lparr>l_owner = g_nodeID s, l_expires = t + g_lockTTL s\<rparr>) =
      Some \<lparr>l_owner = me, l_expires = (t + g_lockTTL s) div 1000000 * 1000000\<rparr>"
    and "lease_encode \<lparr>l_owner = g_nodeID s, l_expires = t + g_lockTTL s\<rparr> \<noteq> []"
proof -
  have b: "0 \<le> t + g_lockTTL s" "t + g_lockTTL s \<le> 2 * max_int64" using assms by (auto simp: store_ok_def clock_ok_def)
  then have "0 \<le> (t + g_lockTTL s) div 1000000" "(t + g_lockTTL s) div 1000000 \<le> 2 * max_int64 div 1000000"
    by (simp_all add: pos_imp_zdiv_nonneg_iff zdiv_mono1)
  then have "min_int64 \<le> (t + g_lockTTL s) div 1000000" "(t + g_lockTTL s) div 1000000 \<le> max_int64" by (simp_all add: go_simps)
  then show "parseLease (lease_encode \<lparr>l_owner = g_nodeID s, l_expires = t + g_lockTTL s\<rparr>) =
      Some \<lparr>l_owner = me, l_expires = (t + g_lockTTL s) div 1000000 * 1000000\<rparr>"
    using assms(1) by (subst parseLease_encode) (auto simp: store_ok_def)
  show "lease_encode \<lparr>l_owner = g_nodeID s, l_expires = t + g_lockTTL s\<rparr> \<noteq> []" by (simp add: lease_encode_def)
qed

lemma safe_wait:
  assumes "\<And>r t1 v1. (rely me)\<^sup>*\<^sup>* (t, v) (t1, v1) \<Longrightarrow> Q r t1 v1 d"
  shows "safe etag N me W Q (waitBeforeRetry giveUp backoff) t v d"
  unfolding waitBeforeRetry_def by (auto intro!: assms split: option.split intro: rtranclp_trans)

lemma safe_retry:
  assumes "clock_ok t" "\<And>e t1 v1. Q (LockErr e) t1 v1 d" "\<And>b t1 v1. clock_ok t1 \<Longrightarrow> safe etag N me W Q (again b) t1 v1 d"
  shows "safe etag N me W Q (retry_after giveUp backoff msg again) t v d"
  unfolding retry_after_def
  by (rule safe_bind, rule safe_wait) (use clock_rely [OF assms(1)] in \<open>simp add: assms(2,3) split: sum.split\<close>)

text \<open>An attempt to take the lease with an etag read when no other node's lease was in force.\<close>

lemma safe_take:
  assumes "inj etag" "store_ok N me s" "clock_ok t0" "(rely me)\<^sup>*\<^sup>* (t0, v0) (t, v)" "\<not> held_by_other s (vw_ann v0) t"
    and again: "\<And>t1 v1 d. clock_ok t1 \<Longrightarrow> safe etag N me W (\<lambda>r t v d. r = Locked \<longrightarrow> holds me t v d) again t1 v1 d"
  shows "safe etag N me W (\<lambda>r t v d. r = Locked \<longrightarrow> holds me t v d) (take_lease s (etag (vw_rev v0)) (vw_ann v0) again) t v d"
  unfolding take_lease_def Let_def safe.simps
proof (intro allI impI safe_bind)
  fix t3 v3 assume r3: "(rely me)\<^sup>*\<^sup>* (t, v) (t3, v3)"
  have c3: "clock_ok t3" using clock_rely [OF clock_rely [OF assms(3,4)] r3] .
  show "safe etag N me W (\<lambda>e. safe etag N me W (\<lambda>r t v d. r = Locked \<longrightarrow> holds me t v d) (case e of
         None \<Rightarrow> Ret Locked
       | Some code \<Rightarrow>
           if \<not> isContention code then Ret (LockErr (Plain ''gcpsecretmanager: take keyring write lease: %w'')) else again))
      (setLockAnnotation s (etag (vw_rev v0)) (vw_ann v0) (lease_encode \<lparr>l_owner = g_nodeID s, l_expires = t3 + g_lockTTL s\<rparr>)) t3 v3 d"
  proof (rule safe_setLock [OF assms(1) rtranclp_trans [OF assms(4) r3]], goal_cases)
    case (1 l)
    then show ?case using assms(2,5) rely_mono(1) [OF r3] by (auto simp: store_ok_def held_by_other_def lease_in_def)
  next
    case (2 t4 v4 t5 v5 v6 d')
    have "holds me t4 v5 d'" using 2(2,3) lease_mine [OF assms(2) c3] by (simp add: holds_def)
    then have "holds me t6 v7 d'" if "(rely me)\<^sup>*\<^sup>* (t5, v6) (t6, v7)" for t6 v7
      using holds_rely(1) [OF holds_rely(1) [OF _ 2(4)] that] by simp
    then show ?case by simp
  next
    case (3 t4 v4 t5 v5 v6 d' code)
    have "clock_ok t5" using clock_rely [OF clock_rely [OF c3 3(1)] 3(2)] .
    then show ?case using again by simp
  qed
qed

lemma safe_acquire_loop:
  assumes "inj etag" "store_ok N me s" "clock_ok t"
  shows "safe etag N me W (\<lambda>r t v d. r = Locked \<longrightarrow> holds me t v d) (acquire_loop s giveUp left backoff) t v d"
  using assms(3)
proof (induction left arbitrary: t v d backoff)
  case (Suc left)
  let ?Q = "\<lambda>r t v d. r = Locked \<longrightarrow> holds me t v d"
  have again: "safe etag N me W ?Q (retry_after giveUp backoff msg (\<lambda>b. acquire_loop s giveUp left b)) t1 v1 d1" if "clock_ok t1" for t1 v1 d1 msg
    using that Suc.IH by (intro safe_retry) simp_all
  show ?case unfolding acquire_loop.simps
  proof (rule safe_read, simp, goal_cases)
    case (1 t1 v1 r)
    have c1: "clock_ok t1" using clock_rely [OF Suc.prems 1(1)] .
    show ?case
    proof (cases "as_secret r")
      case (Inr x)
      then obtain e ann where "x = (e, ann)" "r = Secret e ann" by (cases r) auto
      then have x: "x = (etag (vw_rev v1), vw_ann v1)" using 1(3) by simp
      show ?thesis unfolding Inr x
        using again clock_rely [OF c1] safe_take [OF assms(1,2) c1 _ _ again] by simp
    qed simp
  qed
qed simp

lemma safe_any_read:
  assumes "reads c" "\<And>r t1 v1. clock_ok t1 \<Longrightarrow> safe etag N me W Q (k r) t1 v1 d" "clock_ok t"
  shows "safe etag N me W Q (Call c k) t v d"
  using assms by (intro safe_read) (auto dest: clock_rely)

lemma safe_ret: "(\<And>t1 v1. clock_ok t1 \<Longrightarrow> Q a t1 v1 d) \<Longrightarrow> clock_ok t \<Longrightarrow> safe etag N me W Q (Ret a) t v d"
  using clock_rely by fastforce

lemma safe_ensureSecret:
  assumes "clock_ok t" "\<And>e s' t1 v1. clock_ok t1 \<Longrightarrow> \<exists>x. s' = s\<lparr>g_secretReady := x\<rparr> \<Longrightarrow> Q (e, s') t1 v1 d"
  shows "safe etag N me W Q (ensureSecret s) t v d"
proof -
  have ret: "safe etag N me W Q (Ret (e, s\<lparr>g_secretReady := x\<rparr>)) t1 v1 d" if "clock_ok t1" for e x t1 v1
    using that assms(2) by (intro safe_ret) blast+
  have same: "safe etag N me W Q (Ret (e, s)) t1 v1 d" if "clock_ok t1" for e t1 v1
    using ret [OF that, of e "g_secretReady s"] by simp
  show ?thesis unfolding ensureSecret_def
    using assms(1) by (auto intro!: ret same safe_any_read split: sum.split simp del: safe.simps)
qed

lemma safe_latest:
  assumes "g_secretName s = N" "clock_ok t"
    and "\<And>e t1 v1. clock_ok t1 \<Longrightarrow> Q (Err e) t1 v1 d"
    and "\<And>t1 v1 t2 v2. (rely me)\<^sup>*\<^sup>* (t, v) (t1, v1) \<Longrightarrow> (rely me)\<^sup>*\<^sup>* (t1, v1) (t2, v2) \<Longrightarrow> Q (Ok (int (length (vw_vers v1)))) t2 v2 d"
  shows "safe etag N me W Q (latestVersionNumber s) t v d"
  unfolding latestVersionNumber_def
proof (rule safe_read, simp, goal_cases)
  case (1 t1 v1 r)
  have c: "clock_ok t1" using clock_rely [OF assms(2) 1(1)] .
  have ok: "safe etag N me W Q (Ret (Ok (int (length (vw_vers v1))))) t1 v1 d" using assms(4) [OF 1(1)] by simp
  show ?case
  proof (cases "as_version r")
    case (Inl code)
    have "code = NotFound \<Longrightarrow> r = Failed NotFound" using Inl by (cases r) simp_all
    then have "code = NotFound \<Longrightarrow> vw_vers v1 = []" using 1(3) by simp
    then show ?thesis using ok c assms(3) by (cases code) (auto simp: Inl intro!: safe_ret simp del: safe.simps)
  next
    case (Inr name)
    then have "r = Version name" by (cases r) simp_all
    then have "name = N @ ''/versions/'' @ FormatInt (int (length (vw_vers v1)))" using 1(3) by (simp add: version_name_def)
    then have "parseVersionNumber name = Ok (int (length (vw_vers v1)))"
      using parseVersionNumber_name [of "int (length (vw_vers v1))" N] 1(2) by (simp add: go_simps)
    then show ?thesis using ok by (simp add: Inr)
  qed
qed

lemma safe_prune_loop: "clock_ok t \<Longrightarrow> (\<And>t1 v1. clock_ok t1 \<Longrightarrow> Q () t1 v1 d) \<Longrightarrow> safe etag N me W Q (prune_loop cutoff e vs) t v d"
proof (induction cutoff e vs arbitrary: t v rule: prune_loop.induct)
  case (1 cutoff e)
  then show ?case by (auto split: option.split intro!: safe_ret simp del: safe.simps simp add: safe.simps(5))
next
  case (2 cutoff e name enabled vs)
  then show ?case by (auto split: option.split sum.split intro!: safe_any_read simp del: safe.simps simp add: safe.simps(5))
qed

lemma safe_pruneVersions: "clock_ok t \<Longrightarrow> (\<And>t1 v1. clock_ok t1 \<Longrightarrow> Q () t1 v1 d) \<Longrightarrow> safe etag N me W Q (pruneVersions s latest) t v d"
  unfolding pruneVersions_def by (auto simp: Let_def split_beta intro!: safe_ret safe_any_read safe_prune_loop simp del: safe.simps)

text \<open>Under the lease the latest version cannot change between the check and the write.\<close>

lemma safe_write_locked:
  assumes "store_ok N me s" "clock_ok t" "holds me t v d"
    and W: "\<And>v. expected = KeyRingVersionUnknown \<or> int (length (vw_vers v)) = expected \<Longrightarrow> W v"
    and Q: "\<And>e s' t1 v1. clock_ok t1 \<Longrightarrow> store_ok N me s' \<Longrightarrow> Q (e, s') t1 v1 d"
  shows "safe etag N me W Q (write_locked body expected s) t v d"
  unfolding write_locked_def
proof (rule safe_bind, rule safe_latest, goal_cases)
  case (3 e t1 v1)
  then show ?case using Q assms(1) by (auto intro!: safe_ret simp del: safe.simps)
next
  case (4 t1 v1 t2 v2)
  have c2: "clock_ok t2" using clock_rely [OF clock_rely [OF assms(2) 4(1)] 4(2)] .
  have h2: "holds me t2 v2 d" using holds_rely(1) [OF holds_rely(1) [OF assms(3) 4(1)] 4(2)] .
  have same: "v2 = v1" if "t2 < d" using holds_rely(2) [OF holds_rely(1) [OF assms(3) 4(1)] 4(2) that] .
  let ?c = "AddSecretVersion (g_secretName s) body (crc32c body)"
  have call: "safe etag N me W Q (Call ?c k) t2 v2 d"
    if W': "W v1" and k: "\<And>r t3 v3. clock_ok t3 \<Longrightarrow> safe etag N me W Q (k r) t3 v3 d" for k
    unfolding safe.simps
  proof (intro allI impI)
    fix t3 v3 r v4
    assume r: "(rely me)\<^sup>*\<^sup>* (t2, v2) (t3, v3)" and eff: "call_effect etag N ?c v3 r v4" and time: "in_time ?c t3 d"
    have t3: "t3 < d" using time by (simp add: in_time_def)
    then have t2: "t2 < d" using rely_mono(1) [OF r] by simp
    have v: "v3 = v1" using holds_rely(2) [OF h2 r t3] same [OF t2] by simp
    have "lease_in v3 = Some \<lparr>l_owner = me, l_expires = d\<rparr>" using holds_rely(1) [OF h2 r] t3 by (simp add: holds_def)
    then have "guar me t3 v3 v4" using eff t3 by (auto simp: guar_def)
    then show "guar me t3 v3 v4 \<and> (vw_vers v4 \<noteq> vw_vers v3 \<longrightarrow> W v3) \<and> safe etag N me W Q (k r) t3 v4 (newd ?c r d)"
      using W' v k clock_rely [OF c2 r] by (simp add: newd_def)
  qed
  have ret: "safe etag N me W Q (Ret (e, s')) t3 v3 d" if "clock_ok t3" "store_ok N me s'" for e s' t3 v3
    using that Q by (intro safe_ret)
  have upd: "store_ok N me (s\<lparr>g_lastVersion := x\<rparr>)" for x using assms(1) by (simp add: store_ok_def)
  show ?case using c2 W assms(1) upd
    by (auto intro!: ret call safe_bind safe_pruneVersions split: sum.split simp: Let_def simp del: safe.simps)
qed (use assms in \<open>simp_all add: store_ok_def\<close>)

lemma safe_releaseLock:
  assumes "inj etag" "store_ok N me s" "clock_ok t" "\<And>t1 v1 d'. clock_ok t1 \<Longrightarrow> Q () t1 v1 d'"
  shows "safe etag N me W Q (releaseLock s) t v d"
  unfolding releaseLock_def
proof (rule safe_read, simp, goal_cases)
  case (1 t1 v1 r)
  have c1: "clock_ok t1" using clock_rely [OF assms(3) 1(1)] .
  have ret: "safe etag N me W Q (Ret ()) t2 v2 d'" if "clock_ok t2" for t2 v2 d' using that assms(4) by (intro safe_ret)
  show ?case
  proof (cases "as_secret r")
    case (Inl code)
    then show ?thesis using ret [OF c1] by simp
  next
    case (Inr x)
    then obtain e ann where "x = (e, ann)" "r = Secret e ann" by (cases r) auto
    then have x: "x = (etag (vw_rev v1), vw_ann v1)" using 1(3) by simp
    have "safe etag N me W (\<lambda>e. safe etag N me W Q (case e of None \<Rightarrow> Ret () | Some code \<Rightarrow>
        if isContention code then Ret () else Report ''gcpsecretmanager: release keyring write lease: %w'' (Ret ())))
      (setLockAnnotation s (etag (vw_rev v1)) (vw_ann v1) []) t1 v1 d"
      if "\<And>l. lease_in v1 = Some l \<Longrightarrow> l_owner l = me"
    proof (rule safe_setLock [OF assms(1) rtranclp.rtrancl_refl], goal_cases)
      case (1 l)
      then show ?case using that by simp
    next
      case (2 t2 v2 t3 v3 v4 d')
      have "clock_ok t3" using clock_rely [OF clock_rely [OF c1 2(1)] 2(4)] .
      then show ?case using ret by simp
    next
      case (3 t2 v2 t3 v3 v4 d' code)
      have "clock_ok t3" using clock_rely [OF clock_rely [OF c1 3(1)] 3(2)] .
      then show ?case using ret by simp
    qed
    then show ?thesis unfolding Inr x using ret [OF c1] assms(2)
      by (auto simp: lease_in_def store_ok_def intro!: safe_bind split: option.split simp del: safe.simps)
  qed
qed

lemma safe_acquireLock:
  assumes "inj etag" "store_ok N me s" "clock_ok t"
  shows "safe etag N me W (\<lambda>r t v d. r = Locked \<longrightarrow> holds me t v d) (acquireLock fuel s) t v d"
  unfolding acquireLock_def using safe_acquire_loop [OF assms(1,2)] clock_rely [OF assms(3)] by simp

lemma safe_and_clock:
  "safe etag N me W Q p t v d \<Longrightarrow> clock_ok t \<Longrightarrow> safe etag N me W (\<lambda>a t v d. Q a t v d \<and> clock_ok t) p t v d"
  by (induction p arbitrary: t v d) (auto simp: range_eqI dest: clock_rely)

lemma safe_gs_Save:
  assumes "inj etag" "store_ok N me s" "clock_ok t"
    and W: "\<And>v. g_lastVersion s = KeyRingVersionUnknown \<or> int (length (vw_vers v)) = g_lastVersion s \<Longrightarrow> W v"
  shows "safe etag N me W (\<lambda>(e, s') t v d. store_ok N me s' \<and> clock_ok t) (gs_Save kc sc fuel ring s) t v d"
proof -
  let ?Q = "\<lambda>(e :: go_error option, s') t (v :: sm_view) (d :: go_time). store_ok N me s' \<and> clock_ok t"
  have ret: "safe etag N me W ?Q (Ret (e, s')) t1 v1 d1" if "clock_ok t1" "store_ok N me s'" for e s' t1 v1 d1
    using that by (intro safe_ret) simp_all
  have locked: "safe etag N me W ?Q (prog_bind (write_locked body (g_lastVersion s) s') (\<lambda>res. prog_bind (releaseLock s') (\<lambda>_. Ret res))) t1 v1 d1"
    if "clock_ok t1" "store_ok N me s'" "holds me t1 v1 d1" for s' body t1 v1 d1
    using that ret W assms(1) by (intro safe_bind safe_write_locked safe_releaseLock) auto
  have lock: "safe etag N me W (\<lambda>l. safe etag N me W ?Q (case l of
        LockErr err \<Rightarrow> Ret (Some err, s')
      | LockFuel \<Rightarrow> Ret (Some (Plain ''out of fuel''), s')
      | Locked \<Rightarrow> prog_bind (write_locked body (g_lastVersion s) s') (\<lambda>res. prog_bind (releaseLock s') (\<lambda>_. Ret res))))
    (acquireLock fuel s') t1 v1 d1"
    if "clock_ok t1" "store_ok N me s'" for s' body t1 v1 d1
    by (rule safe_mono [OF safe_and_clock [OF safe_acquireLock [OF assms(1) that(2,1)] that(1)]])
      (use that(2) ret locked in \<open>auto split: lock_result.split simp del: safe.simps\<close>)
  have upd: "store_ok N me (s\<lparr>g_secretReady := x\<rparr>)" for x using assms(2) by (simp add: store_ok_def)
  have main: "safe etag N me W (\<lambda>a. safe etag N me W ?Q (case a of (err, s) \<Rightarrow> case err of
        Some err \<Rightarrow> Ret (Some err, s)
      | None \<Rightarrow>
          let expected = g_lastVersion s in
          prog_bind (acquireLock fuel s) (\<lambda>l.
            case l of
              LockErr err \<Rightarrow> Ret (Some err, s)
            | LockFuel \<Rightarrow> Ret (Some (Plain ''out of fuel''), s)
            | Locked \<Rightarrow> prog_bind (write_locked body expected s) (\<lambda>res. prog_bind (releaseLock s) (\<lambda>_. Ret res)))))
    (ensureSecret s) t v d" for body
  proof (rule safe_ensureSecret [OF assms(3)], goal_cases)
    case (1 e s' t1 v1)
    then obtain x where x: "s' = s\<lparr>g_secretReady := x\<rparr>" by blast
    show ?case using 1(1) ret [OF 1(1) upd] safe_bind [OF lock [OF 1(1) upd]]
      by (auto simp: x Let_def split: option.split simp del: safe.simps)
  qed
  show ?thesis unfolding gs_Save_def
    using ret [OF assms(3,2)] main by (auto intro!: safe_bind split: sum.split simp del: safe.simps)
qed

lemma safe_gs_Load:
  assumes "store_ok N me s" "clock_ok t"
  shows "safe etag N me W (\<lambda>(e, s') t v d. store_ok N me s' \<and> clock_ok t)
    (prog_bind (gs_Load kc sc s) (\<lambda>(r, s). Ret (None :: go_error option, s))) t v d"
proof -
  have ret: "safe etag N me W (\<lambda>(e, s') t v d. store_ok N me s' \<and> clock_ok t) (Ret (None :: go_error option, s')) t1 v1 d"
    if "clock_ok t1" "store_ok N me s'" for s' t1 v1 using that by (intro safe_ret) simp_all
  have upd: "store_ok N me (s\<lparr>g_lastVersion := x\<rparr>)" for x using assms(1) by (simp add: store_ok_def)
  show ?thesis unfolding gs_Load_def gs_load_def
    using assms upd by (auto intro!: ret safe_any_read split: sum.split sm_code.split simp del: safe.simps)
qed

subsection \<open>The fleet\<close>

text \<open>
  Every node runs one operation of its store at a time, which the store's mutex enforces.  Besides
  the clock, the service and the programs the state records, for each node, until when the lease it
  took last is good and which version its running save builds on, and the versions added: by whom,
  on which expected version, and how many versions there were.
\<close>

record 'w fleet =
  fl_time :: go_time
  fl_world :: 'w
  fl_prog :: "nat \<Rightarrow> (go_error option \<times> gcp_store) prog"
  fl_deadline :: "nat \<Rightarrow> go_time"
  fl_expected :: "nat \<Rightarrow> int"
  fl_log :: "(nat \<times> int \<times> nat) list"

text \<open>In a timely step no version is added after the caller's lease has run out.\<close>

inductive fleet_step ::
  "bool \<Rightarrow> key_codec \<Rightarrow> snap_codec \<Rightarrow> nat \<Rightarrow> (sm_call \<Rightarrow> 'w \<Rightarrow> sm_answer \<Rightarrow> 'w \<Rightarrow> bool) \<Rightarrow> ('w \<Rightarrow> sm_view) \<Rightarrow> 'w fleet \<Rightarrow> 'w fleet \<Rightarrow> bool"
  for timely kc sc fuel sem view where
  Tick: "fl_time f \<le> t \<Longrightarrow> t \<le> max_int64 \<Longrightarrow> fleet_step timely kc sc fuel sem view f (f\<lparr>fl_time := t\<rparr>)"
| Load: "fl_prog f i = Ret (e, s) \<Longrightarrow>
    fleet_step timely kc sc fuel sem view f
      (f\<lparr>fl_prog := (fl_prog f)(i := prog_bind (gs_Load kc sc s) (\<lambda>(r, s). Ret (None, s)))\<rparr>)"
| Save: "fl_prog f i = Ret (e, s) \<Longrightarrow>
    fleet_step timely kc sc fuel sem view f
      (f\<lparr>fl_prog := (fl_prog f)(i := gs_Save kc sc fuel ring s), fl_expected := (fl_expected f)(i := g_lastVersion s)\<rparr>)"
| Clock: "fl_prog f i = Now k \<Longrightarrow> fleet_step timely kc sc fuel sem view f (f\<lparr>fl_prog := (fl_prog f)(i := k (fl_time f))\<rparr>)"
| Sleep: "fl_prog f i = Wait w k \<Longrightarrow> fleet_step timely kc sc fuel sem view f (f\<lparr>fl_prog := (fl_prog f)(i := k err)\<rparr>)"
| Log: "fl_prog f i = Report m p \<Longrightarrow> fleet_step timely kc sc fuel sem view f (f\<lparr>fl_prog := (fl_prog f)(i := p)\<rparr>)"
| Rpc: "fl_prog f i = Call c k \<Longrightarrow> sem c (fl_world f) r w' \<Longrightarrow> (timely \<Longrightarrow> in_time c (fl_time f) (fl_deadline f i)) \<Longrightarrow>
    fleet_step timely kc sc fuel sem view f
      (f\<lparr>fl_world := w', fl_prog := (fl_prog f)(i := k r), fl_deadline := (fl_deadline f)(i := newd c r (fl_deadline f i)),
         fl_log := fl_log f @ (if vw_vers (view w') = vw_vers (view (fl_world f)) then []
                               else [(i, fl_expected f i, length (vw_vers (view (fl_world f))))])\<rparr>)"

definition on_expected :: "int \<Rightarrow> nat \<Rightarrow> bool" where
  "on_expected e n \<longleftrightarrow> e = KeyRingVersionUnknown \<or> int n = e"

definition node_safe :: "(nat \<Rightarrow> string) \<Rightarrow> string \<Rightarrow> (nat \<Rightarrow> string) \<Rightarrow> ('w \<Rightarrow> sm_view) \<Rightarrow> 'w fleet \<Rightarrow> nat \<Rightarrow> bool" where
  "node_safe etag N ids view f i \<longleftrightarrow>
     safe etag N (ids i) (\<lambda>v. on_expected (fl_expected f i) (length (vw_vers v)))
       (\<lambda>(e, s') t v d. store_ok N (ids i) s' \<and> clock_ok t) (fl_prog f i) (fl_time f) (view (fl_world f)) (fl_deadline f i)"

definition fleet_inv :: "(nat \<Rightarrow> string) \<Rightarrow> string \<Rightarrow> (nat \<Rightarrow> string) \<Rightarrow> ('w \<Rightarrow> sm_view) \<Rightarrow> 'w fleet \<Rightarrow> bool" where
  "fleet_inv etag N ids view f \<longleftrightarrow>
     clock_ok (fl_time f) \<and> (\<forall>i. node_safe etag N ids view f i) \<and> list_all (\<lambda>(i, e, n). on_expected e n) (fl_log f)"

lemma fleet_step_inv:
  assumes "gcp_ok etag N sem view" "inj ids" "fleet_step True kc sc fuel sem view f f'" "fleet_inv etag N ids view f"
  shows "fleet_inv etag N ids view f'"
  using assms(3)
proof cases
  case (Tick t)
  have rel: "(rely me)\<^sup>*\<^sup>* (fl_time f, v) (t, v)" for me v using Tick(2,3) by (intro r_into_rtranclp rely.tick)
  have "clock_ok t" using assms(4) Tick(2,3) by (auto simp: fleet_inv_def clock_ok_def)
  moreover have "node_safe etag N ids view f' i" for i
    using assms(4) by (auto simp: fleet_inv_def node_safe_def Tick(1) intro: safe_rely [OF _ rel])
  ultimately show ?thesis using assms(4) by (simp add: fleet_inv_def Tick(1))
next
  case (Load i e s)
  have c: "clock_ok (fl_time f)" and n: "node_safe etag N ids view f j" for j using assms(4) by (simp_all add: fleet_inv_def)
  have "store_ok N (ids i) s" using n [of i] Load(2) by (auto simp: node_safe_def)
  then have "node_safe etag N ids view f' i" unfolding node_safe_def Load(1) using safe_gs_Load c by simp
  then show ?thesis using assms(4) by (auto simp: fleet_inv_def node_safe_def Load(1))
next
  case (Save i e s ring)
  have c: "clock_ok (fl_time f)" and n: "node_safe etag N ids view f j" for j using assms(4) by (simp_all add: fleet_inv_def)
  have "store_ok N (ids i) s" using n [of i] Save(2) by (auto simp: node_safe_def)
  then have "node_safe etag N ids view f' i" unfolding node_safe_def Save(1)
    using c assms(1) by (auto simp: gcp_ok_def on_expected_def intro!: safe_gs_Save simp del: safe.simps)
  then show ?thesis using assms(4) by (auto simp: fleet_inv_def node_safe_def Save(1))
next
  case (Clock i k)
  have "node_safe etag N ids view f i" using assms(4) by (simp add: fleet_inv_def)
  then have "node_safe etag N ids view f' i" by (auto simp: node_safe_def Clock)
  then show ?thesis using assms(4) by (auto simp: fleet_inv_def node_safe_def Clock(1))
next
  case (Sleep i w k err)
  have "node_safe etag N ids view f i" using assms(4) by (simp add: fleet_inv_def)
  then have "node_safe etag N ids view f' i" by (auto simp: node_safe_def Sleep)
  then show ?thesis using assms(4) by (auto simp: fleet_inv_def node_safe_def Sleep(1))
next
  case (Log i m p)
  have "node_safe etag N ids view f i" using assms(4) by (simp add: fleet_inv_def)
  then have "node_safe etag N ids view f' i" by (auto simp: node_safe_def Log)
  then show ?thesis using assms(4) by (auto simp: fleet_inv_def node_safe_def Log(1))
next
  case (Rpc i c k r w')
  have eff: "call_effect etag N c (view (fl_world f)) r (view w')" "int (length (vw_vers (view (fl_world f)))) \<le> max_int64"
    using assms(1) Rpc(3) by (auto simp: gcp_ok_def)
  have "node_safe etag N ids view f i" using assms(4) by (simp add: fleet_inv_def)
  then have g: "guar (ids i) (fl_time f) (view (fl_world f)) (view w')"
    and w: "vw_vers (view w') \<noteq> vw_vers (view (fl_world f)) \<longrightarrow> on_expected (fl_expected f i) (length (vw_vers (view (fl_world f))))"
    and n: "node_safe etag N ids view f' i"
    using Rpc(4) eff unfolding node_safe_def Rpc(1,2) by auto
  have rel: "(rely (ids j))\<^sup>*\<^sup>* (fl_time f, view (fl_world f)) (fl_time f, view w')" if "j \<noteq> i" for j
    using that assms(2) g by (intro r_into_rtranclp rely.peer [of "ids i"]) (auto simp: inj_eq)
  have "node_safe etag N ids view f' j" for j
    using n assms(4) by (cases "j = i") (auto simp: fleet_inv_def node_safe_def Rpc(1) intro: safe_rely [OF _ rel])
  then show ?thesis using assms(4) w by (simp add: fleet_inv_def Rpc(1))
qed

definition fleet_start :: "string \<Rightarrow> (nat \<Rightarrow> string) \<Rightarrow> 'w fleet \<Rightarrow> bool" where
  "fleet_start N ids f \<longleftrightarrow>
     clock_ok (fl_time f) \<and> (\<forall>i. \<exists>e s. fl_prog f i = Ret (e, s) \<and> store_ok N (ids i) s) \<and> fl_log f = []"

lemma fleet_start_inv: "fleet_start N ids f \<Longrightarrow> fleet_inv etag N ids view f"
proof -
  assume st: "fleet_start N ids f"
  have "node_safe etag N ids view f i" for i
  proof -
    obtain e s where "fl_prog f i = Ret (e, s)" "store_ok N (ids i) s" using st unfolding fleet_start_def by blast
    then show ?thesis using st clock_rely by (fastforce simp: node_safe_def fleet_start_def)
  qed
  then show ?thesis using st by (simp add: fleet_inv_def fleet_start_def)
qed

subsection \<open>A service in memory and a scheduler\<close>

definition mem_etag :: "nat \<Rightarrow> string" where
  "mem_etag n = replicate n CHR ''e''"

fun mem_sm :: "string \<Rightarrow> sm_call \<Rightarrow> sm_view \<Rightarrow> sm_answer \<times> sm_view" where
  "mem_sm N (GetSecret n) v = (Secret (mem_etag (vw_rev v)) (vw_ann v), v)"
| "mem_sm N (UpdateSecret n e ann) v =
     (if e = mem_etag (vw_rev v) then (Secret (mem_etag (Suc (vw_rev v))) ann, v\<lparr>vw_rev := Suc (vw_rev v), vw_ann := ann\<rparr>)
      else (Failed FailedPrecondition, v))"
| "mem_sm N (AddSecretVersion n b crc) v = (Version (version_name N (Suc (length (vw_vers v)))), v\<lparr>vw_vers := vw_vers v @ [b]\<rparr>)"
| "mem_sm N (GetSecretVersion n) v =
     (if vw_vers v = [] then Failed NotFound else Version (version_name N (length (vw_vers v))), v)"
| "mem_sm N (AccessSecretVersion n) v =
     (if vw_vers v = [] then Failed NotFound else Payload (version_name N (length (vw_vers v))) (last (vw_vers v)) 0, v)"
| "mem_sm N (CreateSecret p i l m) v = (Failed AlreadyExists, v)"
| "mem_sm N (ListSecretVersions n) v = (Versions [] None, v)"
| "mem_sm N (DestroySecretVersion n) v = (Done, v)"

definition mem_sem :: "string \<Rightarrow> sm_call \<Rightarrow> sm_view \<Rightarrow> sm_answer \<Rightarrow> sm_view \<Rightarrow> bool" where
  "mem_sem N c v a v' \<longleftrightarrow> int (length (vw_vers v)) \<le> max_int64 \<and> mem_sm N c v = (a, v')"

lemma mem_gcp_ok: "gcp_ok mem_etag N (mem_sem N) (\<lambda>v. v)"
proof -
  have "inj mem_etag" by (rule injI) (simp add: mem_etag_def replicate_eq_replicate)
  moreover have "call_effect mem_etag N c v a v'" if "mem_sm N c v = (a, v')" for c v a v'
    using that by (cases c) (auto split: if_splits)
  ultimately show ?thesis by (simp add: gcp_ok_def mem_sem_def)
qed

datatype act = At go_time | Rotate nat KeyRing | Go nat

fun do_act :: "key_codec \<Rightarrow> snap_codec \<Rightarrow> nat \<Rightarrow> bool \<Rightarrow> string \<Rightarrow> act \<Rightarrow> sm_view fleet \<Rightarrow> sm_view fleet" where
  "do_act kc sc fuel timely N (At t) f = (if fl_time f \<le> t \<and> t \<le> max_int64 then f\<lparr>fl_time := t\<rparr> else f)"
| "do_act kc sc fuel timely N (Rotate i ring) f =
     (case fl_prog f i of
        Ret (e, s) \<Rightarrow> f\<lparr>fl_prog := (fl_prog f)(i := gs_Save kc sc fuel ring s), fl_expected := (fl_expected f)(i := g_lastVersion s)\<rparr>
      | _ \<Rightarrow> f)"
| "do_act kc sc fuel timely N (Go i) f =
     (case fl_prog f i of
        Now k \<Rightarrow> f\<lparr>fl_prog := (fl_prog f)(i := k (fl_time f))\<rparr>
      | Wait w k \<Rightarrow> f\<lparr>fl_prog := (fl_prog f)(i := k None)\<rparr>
      | Report m p \<Rightarrow> f\<lparr>fl_prog := (fl_prog f)(i := p)\<rparr>
      | Call c k \<Rightarrow>
          if int (length (vw_vers (fl_world f))) \<le> max_int64 \<and> (timely \<longrightarrow> in_time c (fl_time f) (fl_deadline f i)) then
            let (r, w') = mem_sm N c (fl_world f) in
            f\<lparr>fl_world := w', fl_prog := (fl_prog f)(i := k r), fl_deadline := (fl_deadline f)(i := newd c r (fl_deadline f i)),
              fl_log := fl_log f @ (if vw_vers w' = vw_vers (fl_world f) then [] else [(i, fl_expected f i, length (vw_vers (fl_world f)))])\<rparr>
          else f
      | Ret _ \<Rightarrow> f)"

lemma do_act_step: "(fleet_step timely kc sc fuel (mem_sem N) (\<lambda>v. v))\<^sup>*\<^sup>* f (do_act kc sc fuel timely N a f)"
proof (cases a)
  case (At t)
  then show ?thesis by (auto intro: r_into_rtranclp fleet_step.Tick)
next
  case (Rotate i ring)
  then show ?thesis by (auto split: prog.split intro: r_into_rtranclp fleet_step.Save)
next
  case (Go i)
  show ?thesis
  proof (cases "fl_prog f i")
    case (Call c k)
    obtain r w' where m: "mem_sm N c (fl_world f) = (r, w')" by fastforce
    show ?thesis using fleet_step.Rpc [OF Call, of "mem_sem N" r w' timely kc sc fuel "\<lambda>v. v"] m
      by (auto simp: Go Call mem_sem_def intro: r_into_rtranclp)
  qed (auto simp: Go intro: r_into_rtranclp fleet_step.Clock fleet_step.Sleep fleet_step.Log)
qed

definition do_acts :: "key_codec \<Rightarrow> snap_codec \<Rightarrow> nat \<Rightarrow> bool \<Rightarrow> string \<Rightarrow> act list \<Rightarrow> sm_view fleet \<Rightarrow> sm_view fleet" where
  "do_acts kc sc fuel timely N as f = fold (do_act kc sc fuel timely N) as f"

lemma do_acts_steps: "(fleet_step timely kc sc fuel (mem_sem N) (\<lambda>v. v))\<^sup>*\<^sup>* f (do_acts kc sc fuel timely N as f)"
  unfolding do_acts_def
proof (induction as arbitrary: f)
  case (Cons a as)
  then show ?case using do_act_step [of timely kc sc fuel N f a] by (simp add: rtranclp_trans)
qed simp

text \<open>Nodes that have loaded the first version, and a codec with a single text.\<close>

definition flat_text :: snap_codec where
  "flat_text = \<lparr>sc_Marshal = (\<lambda>_. Ok ''k''), sc_MarshalIndent = (\<lambda>_. Ok ''k''), sc_Unmarshal = (\<lambda>_. Err (Plain ''malformed''))\<rparr>"

definition node_id :: "nat \<Rightarrow> string" where
  "node_id i = replicate (Suc i) CHR ''n''"

definition node_store :: "nat \<Rightarrow> gcp_store" where
  "node_store i = \<lparr>g_secretName = ''s'', g_reconcileEvery = DefaultReconcileInterval, g_lockTTL = DefaultLockTTL, g_lockWait = DefaultLockWait,
     g_retainVersions = 0, g_nodeID = node_id i, g_replicaLocations = [], g_labels = [], g_lastVersion = 1, g_secretReady = True\<rparr>"

definition fleet0 :: "sm_view fleet" where
  "fleet0 = \<lparr>fl_time = 0, fl_world = \<lparr>vw_rev = 0, vw_ann = [], vw_vers = [''k'']\<rparr>, fl_prog = (\<lambda>i. Ret (None, node_store i)),
     fl_deadline = (\<lambda>_. 0), fl_expected = (\<lambda>_. 0), fl_log = []\<rparr>"

lemma fleet0_start: "fleet_start ''s'' node_id fleet0"
  by (simp add: fleet_start_def fleet0_def clock_ok_def store_ok_def node_store_def node_id_def DefaultLockTTL_def go_simps)

lemma node_id_inj: "inj node_id"
  by (rule injI) (simp add: node_id_def replicate_eq_replicate)

text \<open>Evaluating a schedule.\<close>

lemma version_read: "n < 100 \<Longrightarrow> parseVersionNumber (version_name N n) = Ok (int n)"
  unfolding version_name_def by (rule parseVersionNumber_name) (auto simp: go_simps)

lemma lease_read:
  "0 \<le> x \<Longrightarrow> x \<le> max_int64 \<Longrightarrow> me \<noteq> [] \<Longrightarrow>
   parseLease (lease_encode \<lparr>l_owner = me, l_expires = x\<rparr>) = Some \<lparr>l_owner = me, l_expires = x div 1000000 * 1000000\<rparr>"
  "parseLease [] = None" "lease_encode l \<noteq> []"
  by (subst parseLease_encode) (auto simp: go_simps parseLease_def strings_LastIndex_def lease_encode_def)

lemmas run_simps = do_acts_def fleet0_def gs_Save_def EncodeKeyRing_def flat_text_def maxPayloadBytes_def ensureSecret_def node_store_def
  acquireLock_def write_locked_def latestVersionNumber_def releaseLock_def setLockAnnotation_def take_lease_def retry_after_def held_by_other_def
  pruneVersions_def in_time_def newd_def lock_value_def version_read lease_read node_id_def DefaultLockTTL_def DefaultLockWait_def Let_def
  KeyRingVersionUnknown_def go_simps

text \<open>
  C11. The write lease protects rotations.  However the nodes of a fleet interleave and whichever
  calls fail or lose their answer, a version that a save adds to the secret comes directly after the
  version the saving node had seen last, as long as no node adds a version after the lease it took
  has run out: no other node's rotation is between the two.
\<close>

theorem lease_protects_rotations:
  assumes "gcp_ok etag N sem view" and "inj ids" and "fleet_start N ids f0"
    and "(fleet_step True kc sc fuel sem view)\<^sup>*\<^sup>* f0 f" and "(i, e, n) \<in> set (fl_log f)" and "e \<noteq> KeyRingVersionUnknown"
  shows "int n = e"
proof -
  have "fleet_inv etag N ids view f"
    using assms(4) fleet_start_inv [OF assms(3)]
    by (induction rule: rtranclp_induct) (auto intro: fleet_step_inv [OF assms(1,2)])
  then show ?thesis using assms(5,6) by (auto simp: fleet_inv_def list_all_iff on_expected_def)
qed

theorem lease_protects_rotations_witness:
  "\<exists>f. (fleet_step True plain_codec flat_text (Suc 0) (mem_sem ''s'') (\<lambda>v. v))\<^sup>*\<^sup>* fleet0 f \<and> fl_log f = [(0, 1, 1)] \<and> int 1 = (1 :: int)"
proof -
  let ?f = "do_acts plain_codec flat_text (Suc 0) True ''s'' [Rotate 0 NewKeyRing, Go 0, Go 0, Go 0, Go 0, Go 0, Go 0, Go 0] fleet0"
  have reach: "(fleet_step True plain_codec flat_text (Suc 0) (mem_sem ''s'') (\<lambda>v. v))\<^sup>*\<^sup>* fleet0 ?f" by (rule do_acts_steps)
  have log: "fl_log ?f = [(0, 1, 1)]" by (simp add: run_simps)
  have "int 1 = (1 :: int)"
    by (rule lease_protects_rotations [OF mem_gcp_ok node_id_inj fleet0_start reach]) (simp_all add: log KeyRingVersionUnknown_def)
  then show ?thesis using reach log by blast
qed

text \<open>
  Without that bound the version check under the lease does not keep a stale write out: a node
  that stalls between its check and its write for longer than its lease lets another node take the
  lease and rotate; the write of the first, made for the version it had seen before, then replaces
  that rotation, and both saves report success.
\<close>

theorem late_write_loses_rotation:
  "\<exists>f s0 s1. (fleet_step False plain_codec flat_text (Suc 0) (mem_sem ''s'') (\<lambda>v. v))\<^sup>*\<^sup>* fleet0 f \<and> fl_log f = [(1, 1, 1), (0, 1, 2)] \<and>
     fl_prog f 0 = Ret (None, s0) \<and> fl_prog f 1 = Ret (None, s1)"
proof -
  let ?f = "do_acts plain_codec flat_text (Suc 0) False ''s''
    [Rotate 0 NewKeyRing, Go 0, Go 0, Go 0, Go 0, Go 0, Go 0, At (31 * 1000000000),
     Rotate 1 NewKeyRing, Go 1, Go 1, Go 1, Go 1, Go 1, Go 1, Go 1, Go 1, Go 1, Go 0, Go 0, Go 0] fleet0"
  have "fl_log ?f = [(1, 1, Suc 0), (0, 1, Suc (Suc 0))] \<and> fl_prog ?f 0 = Ret (None, node_store 0\<lparr>g_lastVersion := 3\<rparr>) \<and>
    fl_prog ?f 1 = Ret (None, node_store 1\<lparr>g_lastVersion := 2\<rparr>)"
    by (simp add: run_simps)
  then show ?thesis using do_acts_steps by (metis One_nat_def Suc_1)
qed

end
