(* ===== verification/Identity.thy ===== *)
theory Identity
  imports Token
begin

text \<open>
  Who may manage the service: the published verification keys (\<^verbatim>\<open>src/auth/jwks.go\<close>), ID tokens of an
  OIDC provider (\<^verbatim>\<open>src/auth/oidc.go\<close>) and the verifier that combines them with the ring's own tokens
  (\<^verbatim>\<open>src/auth/composite.go\<close>).

  A public key of the ring is opaque; what the crypto packages read off it (modulus, exponent, SEC1
  bytes) is the argument \<open>pub_view\<close>.  The package go-oidc is a parameter: discovery, and the
  verification of an ID token for an audience at a time.  A value of type \<^verbatim>\<open>any\<close> is one of the kinds
  the code tells apart.
\<close>

subsection \<open>The published keys (jwks.go)\<close>

record JWK =
  jw_Kty :: string
  jw_Kid :: string
  jw_Alg :: string
  jw_Use :: string
  jw_Crv :: string
  jw_X :: string
  jw_Y :: string
  jw_N :: string
  jw_E :: string

record pub_view =
  pv_N :: "pubkey \<Rightarrow> bytes"
  pv_E :: "pubkey \<Rightarrow> int"
  pv_Bytes :: "pubkey \<Rightarrow> bytes result"

function exponent_loop :: "int \<Rightarrow> bytes \<Rightarrow> bytes" where
  "exponent_loop e buf = (if e > 0 then exponent_loop (e div 256) (char_of (nat (e mod 256)) # buf) else buf)"
  by auto
termination by (relation "measure (\<lambda>(e, buf). nat e)") auto

declare exponent_loop.simps [simp del]

definition encodeRSAExponent :: "int \<Rightarrow> string" where
  "encodeRSAExponent e =
     (let buf = exponent_loop e []; buf = (if length buf = 0 then [char_of (0 :: nat)] else buf) in b64_encode buf)"

definition keyToJWK :: "pub_view \<Rightarrow> Key \<Rightarrow> JWK option" where
  "keyToJWK pv k =
     (if k_Alg k = AlgEdDSA then
        (case k_Public k of
           Some (Ed_pub pub) \<Rightarrow>
             Some \<lparr>jw_Kty = ''OKP'', jw_Kid = k_ID k, jw_Alg = AlgEdDSA, jw_Use = ''sig'', jw_Crv = ''Ed25519'',
               jw_X = b64_encode pub, jw_Y = [], jw_N = [], jw_E = []\<rparr>
         | _ \<Rightarrow> None)
      else if k_Alg k = AlgRS256 then
        (case k_Public k of
           Some (RSA_pub bits n) \<Rightarrow>
             Some \<lparr>jw_Kty = ''RSA'', jw_Kid = k_ID k, jw_Alg = AlgRS256, jw_Use = ''sig'', jw_Crv = [], jw_X = [], jw_Y = [],
               jw_N = b64_encode (pv_N pv (RSA_pub bits n)), jw_E = encodeRSAExponent (pv_E pv (RSA_pub bits n))\<rparr>
         | _ \<Rightarrow> None)
      else if k_Alg k = AlgES256 \<or> k_Alg k = AlgES384 then
        (case k_Public k of
           Some (EC_pub c p) \<Rightarrow>
             (case pv_Bytes pv (EC_pub c p) of
                Err _ \<Rightarrow> None
              | Ok [] \<Rightarrow> None
              | Ok (tag # coords) \<Rightarrow>
                  if tag \<noteq> char_of (4 :: nat) \<or> length coords mod 2 \<noteq> 0 then None
                  else
                    let coordSize = length coords div 2 in
                    Some \<lparr>jw_Kty = ''EC'', jw_Kid = k_ID k, jw_Alg = k_Alg k, jw_Use = ''sig'',
                      jw_Crv = (if k_Alg k = AlgES384 then ''P-384'' else ''P-256''),
                      jw_X = b64_encode (take coordSize coords), jw_Y = b64_encode (drop coordSize coords), jw_N = [], jw_E = []\<rparr>)
         | _ \<Rightarrow> None)
      else None)"

definition jwksFromRing :: "pub_view \<Rightarrow> KeyRing option \<Rightarrow> JWK list" where
  "jwksFromRing pv ring =
     (case ring of
        None \<Rightarrow> []
      | Some ring \<Rightarrow>
          foldl (\<lambda>out k.
            if k_Role k = RoleRetired then out
            else case keyToJWK pv k of None \<Rightarrow> out | Some jwk \<Rightarrow> out @ [jwk]) [] (kr_List ring))"

subsection \<open>ID tokens (oidc.go)\<close>

record OIDCGrant =
  og_IfGroup :: string
  og_Scope :: string
  og_Verbs :: "Verb list"

record OIDCConfig =
  oc_Issuer :: string
  oc_Audience :: string
  oc_SubjectClaim :: string
  oc_ScopesClaim :: string
  oc_Grants :: "OIDCGrant list"

datatype any_val = AnyNil | AnyList "any_val list" | AnyStrings "string list" | AnyString string | AnyRaw bytes | AnyOther

record id_token =
  it_Subject :: string
  it_IssuedAt :: go_time
  it_Expiry :: go_time
  it_Claims :: "(string, any_val) gomap result"

record 'p OIDCVerifier =
  ov_cfg :: OIDCConfig
  ov_provider :: 'p

definition NewOIDCVerifier :: "(string \<Rightarrow> 'p result) \<Rightarrow> OIDCConfig \<Rightarrow> 'p OIDCVerifier result" where
  "NewOIDCVerifier discover cfg =
     (if oc_Issuer cfg = [] then Err (Plain ''auth: OIDCConfig.Issuer is required'')
      else if oc_Audience cfg = [] then Err (Plain ''auth: OIDCConfig.Audience is required'')
      else
        let cfg = (if oc_SubjectClaim cfg = [] then cfg\<lparr>oc_SubjectClaim := ''sub''\<rparr> else cfg);
            cfg = (if oc_ScopesClaim cfg = [] then cfg\<lparr>oc_ScopesClaim := ''groups''\<rparr> else cfg)
        in case discover (oc_Issuer cfg) of
             Err _ \<Rightarrow> Err (Plain ''auth: OIDC discovery %s: %w'')
           | Ok provider \<Rightarrow> Ok \<lparr>ov_cfg = cfg, ov_provider = provider\<rparr>)"

text \<open>The scan of \<^verbatim>\<open>indexOf\<close> at the positions where the needle still fits.\<close>

fun index_loop :: "string \<Rightarrow> string \<Rightarrow> int \<Rightarrow> int" where
  "index_loop needle [] i = (if needle = [] then i else -1)"
| "index_loop needle (c # s) i =
     (if length needle > length (c # s) then -1
      else if take (length needle) (c # s) = needle then i
      else index_loop needle s (i + 1))"

definition indexOf :: "string \<Rightarrow> string \<Rightarrow> int" where
  "indexOf s needle = (if needle = [] then 0 else index_loop needle s 0)"

definition containsAny :: "string \<Rightarrow> string list \<Rightarrow> bool" where
  "containsAny s needles \<longleftrightarrow> list_ex (\<lambda>n. indexOf s n \<ge> 0) needles"

definition translateOIDCError :: "go_error \<Rightarrow> go_error" where
  "translateOIDCError err =
     (let msg = err_Error err in
      if containsAny msg [''expired'', ''token is expired'', ''exp not satisfied''] then ErrExpired
      else if containsAny msg [''before issued at'', ''iat'', ''not yet valid'', ''used before issued''] then ErrNotYetValid
      else if containsAny msg [''expected audience'', ''aud''] then ErrTypeMismatch
      else if containsAny msg [''issuer did not match'', ''iss''] then ErrTypeMismatch
      else if containsAny msg [''failed to verify signature'', ''signature''] then ErrInvalidSignature
      else if containsAny msg [''unsupported'', ''alg''] then ErrUnsupportedAlg
      else ErrMalformedToken)"

text \<open>\<open>cur\<close> is the field under way, \<^verbatim>\<open>t[start:i]\<close>.\<close>

fun split_spaces :: "string \<Rightarrow> string \<Rightarrow> string list" where
  "split_spaces cur [] = (if cur \<noteq> [] then [cur] else [])"
| "split_spaces cur (c # t) =
     (if c = CHR '' '' then (if cur \<noteq> [] then cur # split_spaces [] t else split_spaces [] t)
      else split_spaces (cur @ [c]) t)"

definition extractStringList :: "(bytes \<Rightarrow> string list result) \<Rightarrow> (bytes \<Rightarrow> string result) \<Rightarrow> any_val \<Rightarrow> string list" where
  "extractStringList unStrings unString v =
     (case v of
        AnyNil \<Rightarrow> []
      | AnyList items \<Rightarrow> List.map_filter (\<lambda>item. case item of AnyString s \<Rightarrow> if s \<noteq> [] then Some s else None | _ \<Rightarrow> None) items
      | AnyStrings t \<Rightarrow> t
      | AnyString t \<Rightarrow> if t = [] then [] else split_spaces [] t
      | AnyRaw raw \<Rightarrow>
          (case unStrings raw of
             Ok arr \<Rightarrow> arr
           | Err _ \<Rightarrow> (case unString raw of Ok one \<Rightarrow> if one \<noteq> [] then [one] else [] | Err _ \<Rightarrow> []))
      | AnyOther \<Rightarrow> [])"

definition mapGrants :: "OIDCGrant list \<Rightarrow> string list \<Rightarrow> Scope list" where
  "mapGrants gs groups =
     (if gs = [] \<or> groups = [] then []
      else foldl (\<lambda>out g.
        if og_IfGroup g \<notin> set groups then out
        else if og_Scope g = [] \<or> og_Verbs g = [] then out
        else out @ [\<lparr>s_Pattern = og_Scope g, s_Verbs = og_Verbs g, s_Deny = False, s_compiled = None, s_compileErr = None\<rparr>]) [] gs)"

text \<open>
  \<open>lib\<close> is \<^verbatim>\<open>IDTokenVerifier.Verify\<close> of a provider for an audience at a time.  The JSON codecs of the
  scopes claim serve only raw JSON, which a decoded token does not contain.
\<close>

definition ov_Verify ::
  "('p \<Rightarrow> string \<Rightarrow> go_time \<Rightarrow> string \<Rightarrow> id_token result) \<Rightarrow> go_time \<Rightarrow> string \<Rightarrow> 'p OIDCVerifier \<Rightarrow> Claims result" where
  "ov_Verify lib now token v =
     (case lib (ov_provider v) (oc_Audience (ov_cfg v)) now token of
        Err err \<Rightarrow> Err (translateOIDCError err)
      | Ok idTok \<Rightarrow>
          (case it_Claims idTok of
             Err _ \<Rightarrow> Err ErrMalformedToken
           | Ok raw \<Rightarrow>
               let sub = (case map_of raw (oc_SubjectClaim (ov_cfg v)) of
                            Some (AnyString s) \<Rightarrow> if s = [] then it_Subject idTok else s
                          | _ \<Rightarrow> it_Subject idTok) in
               if sub = [] then Err ErrMalformedToken
               else
                 let groups = extractStringList (\<lambda>_. Err (Plain [])) (\<lambda>_. Err (Plain []))
                       (case map_of raw (oc_ScopesClaim (ov_cfg v)) of None \<Rightarrow> AnyNil | Some x \<Rightarrow> x);
                     scopes = mapGrants (oc_Grants (ov_cfg v)) groups in
                 Ok \<lparr>cl_Sub = sub, cl_Typ = TypeMgmt, cl_Chs = [], cl_Iat = time_Unix (it_IssuedAt idTok),
                     cl_Exp = time_Unix (it_Expiry idTok), cl_RateLimitOverride = None, cl_Scopes = scopes, cl_JTI = [], cl_FID = []\<rparr>))"

subsection \<open>Both verifiers (composite.go)\<close>

record 'p CompositeVerifier =
  cv_HMAC :: "Verifier option"
  cv_OIDC :: "'p OIDCVerifier option"

definition NewCompositeVerifier :: "Verifier option \<Rightarrow> 'p OIDCVerifier option \<Rightarrow> 'p CompositeVerifier result" where
  "NewCompositeVerifier hmac oidc =
     (if hmac = None then Err (Plain ''auth: CompositeVerifier requires an HMAC verifier'')
      else Ok \<lparr>cv_HMAC = hmac, cv_OIDC = oidc\<rparr>)"

definition cv_Verify ::
  "crypto \<Rightarrow> key_codec \<Rightarrow> claims_codec \<Rightarrow> ('p \<Rightarrow> string \<Rightarrow> go_time \<Rightarrow> string \<Rightarrow> id_token result) \<Rightarrow> go_time \<Rightarrow>
   string \<Rightarrow> token_type \<Rightarrow> 'p CompositeVerifier \<Rightarrow> Claims result \<times> 'p CompositeVerifier" where
  "cv_Verify cr kc cc lib now token expected c =
     (case cv_HMAC c of
        Some hmac \<Rightarrow>
          (case Verify cr kc cc token expected now hmac of
             (Ok claims, hmac) \<Rightarrow> (Ok claims, c\<lparr>cv_HMAC := Some hmac\<rparr>)
           | (Err err, hmac) \<Rightarrow>
               let c = c\<lparr>cv_HMAC := Some hmac\<rparr> in
               (case cv_OIDC c of
                  None \<Rightarrow> (Err err, c)
                | Some oidc \<Rightarrow>
                    if expected \<noteq> [] \<and> expected \<noteq> TypeMgmt then (Err err, c)
                    else case ov_Verify lib now token oidc of
                      Ok oidcClaims \<Rightarrow> (Ok oidcClaims, c)
                    | Err _ \<Rightarrow> (Err err, c)))
      | None \<Rightarrow>
          (case cv_OIDC c of
             Some oidc \<Rightarrow> (ov_Verify lib now token oidc, c)
           | None \<Rightarrow> (Err ErrMalformedToken, c)))"

definition HMACVerify ::
  "crypto \<Rightarrow> key_codec \<Rightarrow> claims_codec \<Rightarrow> string \<Rightarrow> token_type \<Rightarrow> go_time \<Rightarrow> 'p CompositeVerifier \<Rightarrow> Claims result \<times> 'p CompositeVerifier" where
  "HMACVerify cr kc cc token expected now c =
     (case cv_HMAC c of
        None \<Rightarrow> (Err (go_panic ''nil pointer dereference''), c)
      | Some hmac \<Rightarrow> map_prod id (\<lambda>hmac. c\<lparr>cv_HMAC := Some hmac\<rparr>) (Verify cr kc cc token expected now hmac))"

definition OIDCEnabled :: "'p CompositeVerifier option \<Rightarrow> bool" where
  "OIDCEnabled c \<longleftrightarrow> (case c of None \<Rightarrow> False | Some c \<Rightarrow> cv_OIDC c \<noteq> None)"

subsection \<open>The exponent\<close>

lemma exponent_loop_bytes: "exponent_loop e buf = be_bytes (nat e) @ buf"
proof (induction e buf rule: exponent_loop.induct)
  case (1 e buf)
  show ?case
  proof (cases "e > 0")
    case True
    then have n: "nat e div 256 = nat (e div 256)" "nat e mod 256 = nat (e mod 256)" by (simp_all add: nat_div_distrib nat_mod_distrib)
    have "be_bytes (nat e) = be_bytes (nat e div 256) @ [char_of (nat e mod 256)]" using True by (subst be_bytes.simps) simp
    then have b: "be_bytes (nat e) = be_bytes (nat (e div 256)) @ [char_of (nat (e mod 256))]" unfolding n .
    have "exponent_loop e buf = exponent_loop (e div 256) (char_of (nat (e mod 256)) # buf)" using True by (subst exponent_loop.simps) simp
    with 1 [OF True] b show ?thesis by simp
  qed (subst exponent_loop.simps, subst be_bytes.simps, simp)
qed

lemma be_bytes_minimal: "n \<noteq> 0 \<Longrightarrow> be_bytes n \<noteq> [] \<and> hd (be_bytes n) \<noteq> char_of (0 :: nat)"
proof (induction n rule: be_bytes.induct)
  case (1 n)
  show ?case
  proof (cases "n div 256 = 0")
    case True
    then have "be_bytes (n div 256) = []" by (subst be_bytes.simps) simp
    moreover have "n mod 256 = n" using True by (simp add: div_eq_0_iff)
    ultimately show ?thesis using 1(2) True by (subst (1 2) be_bytes.simps) (auto simp: char_of_eq_iff div_eq_0_iff take_bit_eq_mod)
  next
    case False
    with 1 show ?thesis by (subst (1 2) be_bytes.simps) simp
  qed
qed

text \<open>The exponent is written in the fewest bytes and read back.\<close>

lemma encodeRSAExponent_minimal:
  assumes "0 < e"
  shows "\<exists>bs. b64_decode (encodeRSAExponent e) = Some bs \<and> int (be_val bs) = e \<and> hd bs \<noteq> char_of (0 :: nat)"
proof -
  have ne: "nat e \<noteq> 0" using assms by simp
  have "encodeRSAExponent e = b64_encode (be_bytes (nat e))"
    using be_bytes_minimal [OF ne] by (simp add: encodeRSAExponent_def exponent_loop_bytes Let_def)
  then show ?thesis using assms be_bytes_minimal [OF ne] by (simp add: b64_decode_encode)
qed

subsection \<open>Groups and grants\<close>

lemma split_spaces_eq: "CHR '' '' \<notin> set cur \<Longrightarrow> split_spaces cur t = filter (\<lambda>f. f \<noteq> []) (strings_Split CHR '' '' (cur @ t))"
proof (induction cur t rule: split_spaces.induct)
  case (1 cur)
  then show ?case by (simp add: strings_Split_single)
next
  case (2 cur c t)
  then show ?case by (cases "c = CHR '' ''") (simp_all add: strings_Split_prefix)
qed

lemma foldl_collect: "foldl (\<lambda>out x. case f x of None \<Rightarrow> out | Some y \<Rightarrow> out @ [y]) acc xs = acc @ List.map_filter f xs"
  by (induction xs arbitrary: acc) (auto simp: List.map_filter_def split: option.split)

definition grant_scope :: "string list \<Rightarrow> OIDCGrant \<Rightarrow> Scope option" where
  "grant_scope groups g =
     (if og_IfGroup g \<notin> set groups \<or> og_Scope g = [] \<or> og_Verbs g = [] then None
      else Some \<lparr>s_Pattern = og_Scope g, s_Verbs = og_Verbs g, s_Deny = False, s_compiled = None, s_compileErr = None\<rparr>)"

lemma mapGrants_eq: "mapGrants gs groups = List.map_filter (grant_scope groups) gs"
proof -
  have "foldl (\<lambda>out g.
      if og_IfGroup g \<notin> set groups then out
      else if og_Scope g = [] \<or> og_Verbs g = [] then out
      else out @ [\<lparr>s_Pattern = og_Scope g, s_Verbs = og_Verbs g, s_Deny = False, s_compiled = None, s_compileErr = None\<rparr>]) [] gs =
    foldl (\<lambda>out g. case grant_scope groups g of None \<Rightarrow> out | Some y \<Rightarrow> out @ [y]) [] gs"
    by (rule arg_cong3 [where f = foldl]) (auto simp: grant_scope_def fun_eq_iff)
  moreover have "List.map_filter (grant_scope groups) gs = []" if "gs = [] \<or> groups = []"
    using that by (auto simp: List.map_filter_def grant_scope_def)
  ultimately show ?thesis unfolding mapGrants_def by (simp add: foldl_collect)
qed

subsection \<open>Properties\<close>

text \<open>The ring without its shared secrets and private keys.\<close>

definition public_part :: "Key \<Rightarrow> Key" where
  "public_part k = k\<lparr>k_Secret := [], k_Private := None\<rparr>"

definition without_secrets :: "KeyRing \<Rightarrow> KeyRing" where
  "without_secrets r = r\<lparr>kr_byID := map (map_prod id public_part) (kr_byID r)\<rparr>"

text \<open>\<^verbatim>\<open>ecdsa.PublicKey.Bytes\<close> gives the uncompressed SEC1 form of a well-formed key.\<close>

definition pub_view_ok :: "(privkey \<Rightarrow> bool) \<Rightarrow> pub_view \<Rightarrow> bool" where
  "pub_view_ok good pv \<longleftrightarrow>
     (\<forall>c p d. good (EC_priv c p d) \<longrightarrow> (\<exists>x y. pv_Bytes pv (EC_pub c p) = Ok (char_of (4 :: nat) # x @ y) \<and> length x = length y))"

definition published :: "pub_view \<Rightarrow> Key \<Rightarrow> JWK option" where
  "published pv k = (if k_Role k = RoleRetired then None else keyToJWK pv k)"

lemma jwksFromRing_eq: "jwksFromRing pv (Some r) = List.map_filter (published pv) (kr_List r)"
proof -
  have "(\<lambda>out k. if k_Role k = RoleRetired then out else case keyToJWK pv k of None \<Rightarrow> out | Some jwk \<Rightarrow> out @ [jwk]) =
    (\<lambda>out k. case published pv k of None \<Rightarrow> out | Some y \<Rightarrow> out @ [y])"
    by (auto simp: published_def fun_eq_iff)
  then show ?thesis by (simp add: jwksFromRing_def foldl_collect)
qed

lemma keyToJWK_kid: "keyToJWK pv k = Some j \<Longrightarrow> jw_Kid j = k_ID k \<and> IsAsymmetric (k_Alg k)"
  by (auto simp: keyToJWK_def IsAsymmetric_def Let_def split: if_splits option.splits pubkey.splits sum.splits list.splits)

lemma keyToJWK_some:
  assumes "key_ok kc good ident k" "pub_view_ok good pv" "IsAsymmetric (k_Alg k)"
  shows "\<exists>j. keyToJWK pv k = Some j"
proof -
  obtain p where p: "k_Public k = Some (priv_Public p)" "good p" "fits (k_Alg k) p"
    using assms(1,3) by (auto simp: key_ok_def material_ok_def IsAsymmetric_def go_simps split: if_splits)
  show ?thesis
  proof (cases p)
    case (EC_priv c q d)
    obtain x y where xy: "pv_Bytes pv (EC_pub c q) = Ok (char_of (4 :: nat) # x @ y)" "length x = length y"
      using assms(2) p(2) EC_priv unfolding pub_view_ok_def by blast
    have "k_Alg k = AlgES256 \<or> k_Alg k = AlgES384" using p(3) EC_priv by (auto simp: algForCurve_def split: curve.splits)
    then show ?thesis using p(1) xy EC_priv by (auto simp: keyToJWK_def Let_def go_simps)
  qed (use p in \<open>auto simp: keyToJWK_def go_simps\<close>)
qed

lemma public_part_fields:
  "k_ID (public_part k) = k_ID k" "k_Alg (public_part k) = k_Alg k" "k_Public (public_part k) = k_Public k"
  "k_Role (public_part k) = k_Role k" "k_CreatedAt (public_part k) = k_CreatedAt k"
  by (simp_all add: public_part_def)

lemma published_hidden: "published pv (public_part k) = published pv k"
  unfolding published_def keyToJWK_def public_part_fields ..

lemma List_without_secrets: "kr_List (without_secrets r) = map public_part (kr_List r)"
proof -
  have "map snd (map (map_prod id public_part) (kr_byID r)) = map public_part (map snd (kr_byID r))" by simp
  then show ?thesis
    unfolding kr_List_def without_secrets_def using sort_key_map [of k_CreatedAt public_part] by (simp add: public_part_fields del: map_map)
qed

lemma map_filter_image:
  assumes "\<And>x y. f x = Some y \<Longrightarrow> g y = h x"
  shows "set (map g (List.map_filter f xs)) = h ` {x \<in> set xs. f x \<noteq> None}"
proof (induction xs)
  case (Cons x xs)
  then show ?case using assms [of x] by (cases "f x") (auto simp: List.map_filter_def)
qed (simp add: List.map_filter_def)

lemma map_filter_map: "List.map_filter f (map g xs) = List.map_filter (\<lambda>x. f (g x)) xs"
  by (simp add: List.map_filter_def filter_map o_def)

text \<open>
  C28. The published key set is exactly right and leaks nothing: it lists, for every ring that key
  operations can lead to, the asymmetric keys that are not retired and no other key, and it is the
  same document whatever the shared secrets and private keys of the ring are.
\<close>

theorem jwks_publishes:
  assumes "(ring_step kc good)\<^sup>*\<^sup>* NewKeyRing r" and "pub_view_ok good pv"
  shows "set (map jw_Kid (jwksFromRing pv (Some r))) =
      {ident. \<exists>k. map_of (kr_byID r) ident = Some k \<and> k_Role k \<noteq> RoleRetired \<and> IsAsymmetric (k_Alg k)} \<and>
    jwksFromRing pv (Some (without_secrets r)) = jwksFromRing pv (Some r)"
proof
  have ok: "ring_ok kc good r" using assms(1) by (rule ring_ok_reach)
  have keys: "k \<in> set (kr_List r) \<longleftrightarrow> map_of (kr_byID r) (k_ID k) = Some k" for k
    using ring_keys(2) [OF ok] by (force simp: kr_List_def dest: map_of_SomeD)
  have pub: "published pv k \<noteq> None \<longleftrightarrow> k_Role k \<noteq> RoleRetired \<and> IsAsymmetric (k_Alg k)" if "k \<in> set (kr_List r)" for k
  proof -
    have "map_of (kr_byID r) (k_ID k) = Some k" using that keys by simp
    from keyToJWK_some [OF ring_okD(1) [OF ok this] assms(2)] show ?thesis
      using keyToJWK_kid [of pv k] by (cases "keyToJWK pv k") (auto simp: published_def)
  qed
  have "set (map jw_Kid (jwksFromRing pv (Some r))) = k_ID ` {k \<in> set (kr_List r). published pv k \<noteq> None}"
    unfolding jwksFromRing_eq by (rule map_filter_image) (use keyToJWK_kid in \<open>auto simp: published_def split: if_splits\<close>)
  also have "\<dots> = {ident. \<exists>k. map_of (kr_byID r) ident = Some k \<and> k_Role k \<noteq> RoleRetired \<and> IsAsymmetric (k_Alg k)}"
  proof (intro equalityI subsetI)
    fix ident assume "ident \<in> k_ID ` {k \<in> set (kr_List r). published pv k \<noteq> None}"
    then obtain k where k: "ident = k_ID k" "k \<in> set (kr_List r)" "published pv k \<noteq> None" by blast
    then show "ident \<in> {ident. \<exists>k. map_of (kr_byID r) ident = Some k \<and> k_Role k \<noteq> RoleRetired \<and> IsAsymmetric (k_Alg k)}"
      using pub [OF k(2)] keys [of k] by simp
  next
    fix ident assume "ident \<in> {ident. \<exists>k. map_of (kr_byID r) ident = Some k \<and> k_Role k \<noteq> RoleRetired \<and> IsAsymmetric (k_Alg k)}"
    then obtain k where k: "map_of (kr_byID r) ident = Some k" "k_Role k \<noteq> RoleRetired" "IsAsymmetric (k_Alg k)" by blast
    have own: "k_ID k = ident" using ring_okD(1) [OF ok k(1)] by (simp add: key_ok_def)
    then have "k \<in> set (kr_List r)" using k(1) keys by simp
    then show "ident \<in> k_ID ` {k \<in> set (kr_List r). published pv k \<noteq> None}"
      using pub k(2,3) own by (intro image_eqI [of _ _ k]) simp_all
  qed
  finally show "set (map jw_Kid (jwksFromRing pv (Some r))) =
    {ident. \<exists>k. map_of (kr_byID r) ident = Some k \<and> k_Role k \<noteq> RoleRetired \<and> IsAsymmetric (k_Alg k)}" .
  show "jwksFromRing pv (Some (without_secrets r)) = jwksFromRing pv (Some r)"
    by (simp add: jwksFromRing_eq List_without_secrets map_filter_map published_hidden)
qed

text \<open>For the witness: a ring with a shared secret and an Ed25519 key.\<close>

definition mixed_ring :: KeyRing where
  "mixed_ring = snd (AddEd25519 plain_codec ''e1'' (replicate 64 CHR ''p'') 1
     (snd (kr_Add plain_codec ''h1'' (replicate 32 CHR ''s'') 0 NewKeyRing)))"

lemma mixed_ring_reach: "(ring_step plain_codec ed_only)\<^sup>*\<^sup>* NewKeyRing mixed_ring"
proof -
  have "rfc3339_range 0" "rfc3339_range 1" by (simp_all add: rfc3339_range_def zero_time_def)
  then have "ring_step plain_codec ed_only NewKeyRing (snd (kr_Add plain_codec ''h1'' (replicate 32 CHR ''s'') 0 NewKeyRing))"
    "ring_step plain_codec ed_only (snd (kr_Add plain_codec ''h1'' (replicate 32 CHR ''s'') 0 NewKeyRing)) mixed_ring"
    unfolding mixed_ring_def by (auto intro: st_add st_ed simp: ed_only_def)
  then show ?thesis by (rule converse_rtranclp_into_rtranclp [OF _ r_into_rtranclp])
qed

definition no_view :: pub_view where
  "no_view = \<lparr>pv_N = (\<lambda>_. []), pv_E = (\<lambda>_. 0), pv_Bytes = (\<lambda>_. Err (Plain []))\<rparr>"

theorem jwks_publishes_witness:
  "set (map jw_Kid (jwksFromRing no_view (Some mixed_ring))) = {''e1''} \<and>
   jwksFromRing no_view (Some (without_secrets mixed_ring)) = jwksFromRing no_view (Some mixed_ring)"
proof -
  have "pub_view_ok ed_only no_view" by (simp add: pub_view_ok_def ed_only_def)
  from jwks_publishes [OF mixed_ring_reach this]
  show ?thesis
    by (auto simp: mixed_ring_def AddEd25519_def addAsymmetric_def kr_Add_def kr_install_def installHeader_def buildHeader_def plain_codec_def
        NewKeyRing_def alg_Valid_def IsAsymmetric_def Let_def go_simps split: if_splits)
qed

text \<open>The groups a token names.\<close>

definition token_groups :: "OIDCConfig \<Rightarrow> (string, any_val) gomap \<Rightarrow> string list" where
  "token_groups cfg raw = extractStringList (\<lambda>_. Err (Plain [])) (\<lambda>_. Err (Plain [])) (case map_of raw (oc_ScopesClaim cfg) of None \<Rightarrow> AnyNil | Some x \<Rightarrow> x)"

lemma ov_Verify_Ok:
  assumes "ov_Verify lib now token v = Ok c" "lib (ov_provider v) (oc_Audience (ov_cfg v)) now token = Ok idTok" "it_Claims idTok = Ok raw"
  shows "cl_Typ c = TypeMgmt" "cl_Sub c \<noteq> []" "cl_Chs c = []" "cl_Scopes c = mapGrants (oc_Grants (ov_cfg v)) (token_groups (ov_cfg v) raw)"
  using assms by (auto simp: ov_Verify_def token_groups_def Let_def split: if_splits)

lemma mapGrants_scopes:
  "(\<exists>s \<in> set (mapGrants gs groups). \<not> s_Deny s \<and> Claims.grants s n v) \<longleftrightarrow>
     (\<exists>g \<in> set gs. og_IfGroup g \<in> set groups \<and> v \<in> set (og_Verbs g) \<and> (\<exists>p. ParsePattern (og_Scope g) = Ok p \<and> Matches p n))"
  "s \<in> set (mapGrants gs groups) \<Longrightarrow> \<not> s_Deny s \<and> cache_ok s"
proof -
  have no: "ParsePattern [] \<noteq> Ok p" for p by (simp add: ParsePattern_def)
  show "(\<exists>s \<in> set (mapGrants gs groups). \<not> s_Deny s \<and> Claims.grants s n v) \<longleftrightarrow>
     (\<exists>g \<in> set gs. og_IfGroup g \<in> set groups \<and> v \<in> set (og_Verbs g) \<and> (\<exists>p. ParsePattern (og_Scope g) = Ok p \<and> Matches p n))"
  proof -
    have "(\<exists>s \<in> set (mapGrants gs groups). \<not> s_Deny s \<and> Claims.grants s n v) \<longleftrightarrow>
      (\<exists>g \<in> set gs. \<exists>s. grant_scope groups g = Some s \<and> \<not> s_Deny s \<and> Claims.grants s n v)"
      by (auto simp: mapGrants_eq List.map_filter_def) blast
    moreover have "(\<exists>s. grant_scope groups g = Some s \<and> \<not> s_Deny s \<and> Claims.grants s n v) \<longleftrightarrow>
      og_IfGroup g \<in> set groups \<and> v \<in> set (og_Verbs g) \<and> (\<exists>p. ParsePattern (og_Scope g) = Ok p \<and> Matches p n)" for g
      by (cases "og_Scope g = []"; cases "ParsePattern (og_Scope g)") (auto simp: grant_scope_def Claims.grants_def no)
    ultimately show ?thesis by simp
  qed
  show "s \<in> set (mapGrants gs groups) \<Longrightarrow> \<not> s_Deny s \<and> cache_ok s"
    by (auto simp: mapGrants_eq List.map_filter_def grant_scope_def cache_ok_def split: if_splits)
qed


definition ops_token :: id_token where
  "ops_token = \<lparr>it_Subject = ''u1'', it_IssuedAt = 0, it_Expiry = 3600 * second,
     it_Claims = Ok [(''email'', AnyString ''op@example.org''), (''groups'', AnyList [AnyString ''ops'', AnyOther])]\<rparr>"

definition ops_verifier :: "unit OIDCVerifier" where
  "ops_verifier = \<lparr>ov_cfg = \<lparr>oc_Issuer = ''https://idp'', oc_Audience = ''parsec'', oc_SubjectClaim = ''email'', oc_ScopesClaim = ''groups'',
     oc_Grants = [\<lparr>og_IfGroup = ''ops'', og_Scope = ''public:app.**'', og_Verbs = [VerbManage]\<rparr>]\<rparr>, ov_provider = ()\<rparr>"


end
