(* ===== verification/Service.thy ===== *)
theory Service
  imports Identity Lifecycle KeyRotation
begin

text \<open>
  The management surface: the bearer middleware (\<^verbatim>\<open>src/internal/server/http.go\<close>), the request context
  (\<^verbatim>\<open>src/contextkeys.go\<close>), the service methods (\<^verbatim>\<open>src/service/service.go\<close>, \<^verbatim>\<open>keys.go\<close>,
  \<^verbatim>\<open>revocations.go\<close>), their RPC adapters and the translation of errors (\<^verbatim>\<open>twirp_errors.go\<close>).

  A request is its path, its \<^verbatim>\<open>Authorization\<close> header and the decoded message.  The state collects
  what the methods reach through the facade: the ring is shared by the facade and the key operations.
  The stores, the limiter and the broker are the operations of \<open>svc_env\<close>, with the whole
  seconds of \<^verbatim>\<open>Duration.Seconds\<close>, which goes through floating point.  The manifest, the
  dead-letter methods and the encoding of messages are left out.
\<close>

subsection \<open>The request context (contextkeys.go)\<close>

record req_ctx =
  cx_Subject :: string
  cx_Claims :: "Claims option"
  cx_RemoteIP :: string

definition WithSubject :: "string \<Rightarrow> req_ctx \<Rightarrow> req_ctx" where
  "WithSubject sub ctx = (if sub = [] then ctx else ctx\<lparr>cx_Subject := sub\<rparr>)"

definition SubjectFromContext :: "req_ctx \<Rightarrow> string" where
  "SubjectFromContext ctx = cx_Subject ctx"

definition WithClaims :: "Claims option \<Rightarrow> req_ctx \<Rightarrow> req_ctx" where
  "WithClaims c ctx = (if c = None then ctx else ctx\<lparr>cx_Claims := c\<rparr>)"

definition ClaimsFromContext :: "req_ctx \<Rightarrow> Claims option" where
  "ClaimsFromContext ctx = cx_Claims ctx"

definition WithRemoteIP :: "string \<Rightarrow> req_ctx \<Rightarrow> req_ctx" where
  "WithRemoteIP ip ctx = (if ip = [] then ctx else ctx\<lparr>cx_RemoteIP := ip\<rparr>)"

definition RemoteIPFromContext :: "req_ctx \<Rightarrow> string" where
  "RemoteIPFromContext ctx = cx_RemoteIP ctx"

subsection \<open>The bearer middleware (http.go)\<close>

text \<open>\<^verbatim>\<open>strings.TrimSpace\<close> on ASCII text.\<close>

definition is_space :: "char \<Rightarrow> bool" where
  "is_space c \<longleftrightarrow> c \<in> {CHR 0x09, CHR 0x0A, CHR 0x0B, CHR 0x0C, CHR 0x0D, CHR '' ''}"

definition strings_TrimSpace :: "string \<Rightarrow> string" where
  "strings_TrimSpace s = rev (dropWhile is_space (rev (dropWhile is_space s)))"

definition bearerFromHeader :: "string \<Rightarrow> string" where
  "bearerFromHeader h =
     (let prefix = ''Bearer '' in
      if take (length prefix) h \<noteq> prefix then [] else strings_TrimSpace (drop (length prefix) h))"

definition authCode :: "go_error \<Rightarrow> string" where
  "authCode err =
     (let m = err_Error err in
      if m = err_Error ErrExpired then ''PARSEC_AUTH_EXPIRED''
      else if m = err_Error ErrInvalidSignature then ''PARSEC_AUTH_INVALID_SIGNATURE''
      else if m = err_Error ErrUnsupportedAlg then ''PARSEC_AUTH_UNSUPPORTED_ALG''
      else if m = err_Error ErrMalformedToken then ''PARSEC_AUTH_MALFORMED''
      else if m = err_Error ErrTypeMismatch then ''PARSEC_AUTH_TYPE_MISMATCH''
      else if m = err_Error ErrNotYetValid then ''PARSEC_AUTH_NOT_YET_VALID''
      else ''PARSEC_AUTH_DENIED'')"

text \<open>The verifiers share the facade's ring; their metrics hook is left out.\<close>

definition mgmt_verify ::
  "auth_env \<Rightarrow> ('p \<Rightarrow> string \<Rightarrow> go_time \<Rightarrow> string \<Rightarrow> id_token result) \<Rightarrow> 'p OIDCVerifier option \<Rightarrow> KeyRing \<Rightarrow> duration \<Rightarrow> go_time \<Rightarrow>
   string \<Rightarrow> Claims result" where
  "mgmt_verify env lib oidc ring leeway now token =
     (case oidc of
        Some v \<Rightarrow>
          fst (cv_Verify (ae_cr env) (ae_kc env) (ae_cc env) lib now token TypeMgmt
            \<lparr>cv_HMAC = Some \<lparr>v_ring = ring, v_Leeway = leeway, v_OnVerify = None\<rparr>, cv_OIDC = Some v\<rparr>)
      | None \<Rightarrow> verify_env env ring leeway token TypeMgmt now)"

definition MgmtValidator ::
  "auth_env \<Rightarrow> ('p \<Rightarrow> string \<Rightarrow> go_time \<Rightarrow> string \<Rightarrow> id_token result) \<Rightarrow> 'p OIDCVerifier option \<Rightarrow> KeyRing \<Rightarrow> duration \<Rightarrow> go_time \<Rightarrow>
   string \<Rightarrow> go_error option" where
  "MgmtValidator env lib oidc ring leeway now token =
     (case mgmt_verify env lib oidc ring leeway now token of Ok _ \<Rightarrow> None | Err err \<Rightarrow> Some err)"

definition MgmtExtractor ::
  "auth_env \<Rightarrow> ('p \<Rightarrow> string \<Rightarrow> go_time \<Rightarrow> string \<Rightarrow> id_token result) \<Rightarrow> 'p OIDCVerifier option \<Rightarrow> KeyRing \<Rightarrow> duration \<Rightarrow> go_time \<Rightarrow>
   string \<Rightarrow> string \<times> Claims option" where
  "MgmtExtractor env lib oidc ring leeway now token =
     (case mgmt_verify env lib oidc ring leeway now token of Err _ \<Rightarrow> ([], None) | Ok c \<Rightarrow> (cl_Sub c, Some c))"

definition ParsecServicePathPrefix :: string where
  "ParsecServicePathPrefix = ''/twirp/parsec.ParsecService/''"

definition publicTwirpMethods :: "string list" where
  "publicTwirpMethods = [ParsecServicePathPrefix @ ''Manifest'', ParsecServicePathPrefix @ ''RefreshToken'']"

text \<open>The refusal carries the code that is logged and the message of the response.\<close>

definition bearerMiddleware ::
  "(string \<Rightarrow> go_error option) option \<Rightarrow> (string \<Rightarrow> string \<times> Claims option) option \<Rightarrow> string \<Rightarrow> string \<Rightarrow> req_ctx \<Rightarrow>
   (string \<times> string) + req_ctx" where
  "bearerMiddleware validate extract path header ctx =
     (case validate of
        None \<Rightarrow> Inr ctx
      | Some validate \<Rightarrow>
          if path \<in> set publicTwirpMethods then Inr ctx
          else
            let bearer = bearerFromHeader header in
            if bearer = [] then Inl (''PARSEC_AUTH_MISSING'', ''missing bearer token'')
            else case validate bearer of
              Some err \<Rightarrow> Inl (authCode err, err_Error err)
            | None \<Rightarrow>
                (case extract of
                   None \<Rightarrow> Inr ctx
                 | Some extract \<Rightarrow>
                     let (sub, claims) = extract bearer in
                     if sub \<noteq> [] then
                       let ctx = WithSubject sub ctx;
                           ctx = (if claims \<noteq> None then WithClaims claims ctx else ctx)
                       in Inr ctx
                     else Inr ctx))"

subsection \<open>Errors on the wire (twirp_errors.go)\<close>

datatype twirp_code =
    TwInvalidArgument | TwNotFound | TwAlreadyExists | TwFailedPrecondition | TwPermissionDenied
  | TwUnauthenticated | TwUnavailable | TwResourceExhausted | TwInternal

fun toTwirpError :: "go_error \<Rightarrow> twirp_code \<times> string" where
  "toTwirpError (Plain m) = (TwInternal, m)"
| "toTwirpError (Coded c msg cause) =
     (case c of
        ChannelInvalid \<Rightarrow> (TwInvalidArgument, msg)
      | InvalidArgument \<Rightarrow> (TwInvalidArgument, msg)
      | ChannelTTLExceeds \<Rightarrow> (TwInvalidArgument, msg)
      | ChannelNotFound \<Rightarrow> (TwNotFound, msg)
      | ChannelExists \<Rightarrow> (TwAlreadyExists, msg)
      | ChannelClosed \<Rightarrow> (TwFailedPrecondition, msg)
      | AuthDenied \<Rightarrow> (TwPermissionDenied, msg)
      | AuthExpired \<Rightarrow> (TwUnauthenticated, msg)
      | BrokerNotReady \<Rightarrow> (TwUnavailable, msg)
      | SinkUnavailable \<Rightarrow> (TwUnavailable, msg)
      | SinkDLQOverflow \<Rightarrow> (TwUnavailable, msg)
      | SinkDLQNotFound \<Rightarrow> (TwNotFound, msg)
      | RateLimited \<Rightarrow> (TwResourceExhausted, msg)
      | _ \<Rightarrow> (TwInternal, err_Error (Coded c msg cause)))"

subsection \<open>The service\<close>

record ('s, 'f, 'l, 'b, 'r, 'w) svc_env =
  se_store :: "'s store_ops"
  se_refresh :: "'f refresh_ops"
  se_limiter :: "'l limiter_ops"
  se_broker :: "'b broker_ops"
  se_revs :: "'r revocation_ops"
  se_keys :: "'w keyring_store_ops"
  se_auth :: auth_env
  se_Seconds :: "duration \<Rightarrow> int"

record ('s, 'f, 'l, 'b, 'r, 'w) svc =
  sv_parsec :: "('s, 'f) parsec"
  sv_limits :: "'l limits"
  sv_broker :: 'b
  sv_revs :: "'r option"
  sv_keys :: "'w keys_state"

text \<open>What a request meets outside: its context's error, the clock readings, randomness and key generators.\<close>

record req_env =
  rq_validated :: go_time
  rq_extracted :: go_time
  rq_err :: "go_error option"
  rq_clk :: "nat \<Rightarrow> go_time"
  rq_rnd :: issue_rnd
  rq_gens :: "nat \<Rightarrow> generators"

definition svc_OpenPublicChannel ::
  "('s, 'f, 'l, 'b, 'r, 'w) svc_env \<Rightarrow> req_env \<Rightarrow> string \<Rightarrow> duration \<Rightarrow> ('s, 'f, 'l, 'b, 'r, 'w) svc \<Rightarrow>
   channel result \<times> ('s, 'f, 'l, 'b, 'r, 'w) svc" where
  "svc_OpenPublicChannel se rq name ttl sv =
     (case ps_OpenPublic (se_store se) name ttl (rq_clk rq 0) (sv_parsec sv) of (r, p) \<Rightarrow> (r, sv\<lparr>sv_parsec := p\<rparr>))"

definition svc_CreatePrivateChannel ::
  "('s, 'f, 'l, 'b, 'r, 'w) svc_env \<Rightarrow> req_env \<Rightarrow> string \<Rightarrow> string \<Rightarrow> duration \<Rightarrow> Scope list \<Rightarrow> ('s, 'f, 'l, 'b, 'r, 'w) svc \<Rightarrow>
   Credentials result \<times> ('s, 'f, 'l, 'b, 'r, 'w) svc" where
  "svc_CreatePrivateChannel se rq subjectID name ttl scopes sv =
     (case ps_CreatePrivate (se_store se) (se_auth se) (rq_rnd rq) subjectID name ttl scopes (rq_clk rq 0) (sv_parsec sv) of
        (r, p) \<Rightarrow> (r, sv\<lparr>sv_parsec := p\<rparr>))"

definition gateTokenIssue ::
  "('s, 'f, 'l, 'b, 'r, 'w) svc_env \<Rightarrow> req_env \<Rightarrow> req_ctx \<Rightarrow> ('s, 'f, 'l, 'b, 'r, 'w) svc \<Rightarrow>
   go_error option \<times> ('s, 'f, 'l, 'b, 'r, 'w) svc" where
  "gateTokenIssue se rq ctx sv =
     (let ip = RemoteIPFromContext ctx in
      if ip = [] then (None, sv)
      else case CheckRateLimit (se_limiter se) (rq_err rq) BucketTokenIssue ip None (rq_clk rq 0) (sv_limits sv) of
        (Err err, l) \<Rightarrow> (Some (err_Wrap Internal ''rate limiter error'' err), sv\<lparr>sv_limits := l\<rparr>)
      | (Ok dec, l) \<Rightarrow>
          (if \<not> d_Allowed dec then Some (err_New RateLimited ''token refresh rate limit exceeded'') else None, sv\<lparr>sv_limits := l\<rparr>))"

definition svc_RefreshAccess ::
  "('s, 'f, 'l, 'b, 'r, 'w) svc_env \<Rightarrow> req_env \<Rightarrow> req_ctx \<Rightarrow> string \<Rightarrow> ('s, 'f, 'l, 'b, 'r, 'w) svc \<Rightarrow>
   RefreshResult result \<times> ('s, 'f, 'l, 'b, 'r, 'w) svc" where
  "svc_RefreshAccess se rq ctx refreshToken sv =
     (case gateTokenIssue se rq ctx sv of
        (Some err, sv) \<Rightarrow> (Err err, sv)
      | (None, sv) \<Rightarrow>
          (case RefreshAccessCtx (se_store se) (se_refresh se) (se_auth se) (rq_rnd rq) (rq_clk rq) refreshToken (sv_parsec sv) of
             (r, p) \<Rightarrow> (r, sv\<lparr>sv_parsec := p\<rparr>)))"

definition svc_ListChannels :: "('s, 'f, 'l, 'b, 'r, 'w) svc_env \<Rightarrow> ('s, 'f, 'l, 'b, 'r, 'w) svc \<Rightarrow> channel list" where
  "svc_ListChannels se sv = mgr_List (se_store se) (ps_manager (sv_parsec sv))"

definition svc_GetChannel :: "('s, 'f, 'l, 'b, 'r, 'w) svc_env \<Rightarrow> string \<Rightarrow> ('s, 'f, 'l, 'b, 'r, 'w) svc \<Rightarrow> channel result" where
  "svc_GetChannel se name sv =
     (case ParseName name of Err err \<Rightarrow> Err err | Ok n \<Rightarrow> mgr_Get (se_store se) n (ps_manager (sv_parsec sv)))"

definition svc_DeleteChannel ::
  "('s, 'f, 'l, 'b, 'r, 'w) svc_env \<Rightarrow> req_env \<Rightarrow> string \<Rightarrow> ('s, 'f, 'l, 'b, 'r, 'w) svc \<Rightarrow>
   go_error option \<times> ('s, 'f, 'l, 'b, 'r, 'w) svc" where
  "svc_DeleteChannel se rq name sv =
     (case ParseName name of
        Err err \<Rightarrow> (Some err, sv)
      | Ok n \<Rightarrow>
          (case mgr_Delete (se_store se) n (rq_clk rq 0) (ps_manager (sv_parsec sv)) of
             (e, m) \<Rightarrow> (e, sv\<lparr>sv_parsec := (sv_parsec sv)\<lparr>ps_manager := m\<rparr>\<rparr>)))"

definition overrideFromContext :: "req_ctx \<Rightarrow> Limit option" where
  "overrideFromContext ctx = (case ClaimsFromContext ctx of None \<Rightarrow> None | Some c \<Rightarrow> cl_RateLimitOverride c)"

definition gatePublish ::
  "('s, 'f, 'l, 'b, 'r, 'w) svc_env \<Rightarrow> req_env \<Rightarrow> req_ctx \<Rightarrow> string \<Rightarrow> ('s, 'f, 'l, 'b, 'r, 'w) svc \<Rightarrow>
   go_error option \<times> ('s, 'f, 'l, 'b, 'r, 'w) svc" where
  "gatePublish se rq ctx name sv =
     (let key = SubjectFromContext ctx;
          key = (if key = [] then RemoteIPFromContext ctx else key) in
      if key = [] then (None, sv)
      else
        let override = overrideFromContext ctx in
        case (case ParseName name of
                Err err \<Rightarrow> CheckRateLimit (se_limiter se) (rq_err rq) BucketPublish key override (rq_clk rq 0) (sv_limits sv)
              | Ok parsed \<Rightarrow> CheckPublishLimit (se_limiter se) (rq_err rq) key parsed override (rq_clk rq 0) (sv_limits sv)) of
          (Err lerr, l) \<Rightarrow> (Some (err_Wrap Internal ''rate limiter error'' lerr), sv\<lparr>sv_limits := l\<rparr>)
        | (Ok dec, l) \<Rightarrow>
            (if \<not> d_Allowed dec then Some (err_New RateLimited ''publish rate limit exceeded'') else None, sv\<lparr>sv_limits := l\<rparr>))"

definition svc_Publish ::
  "('s, 'f, 'l, 'b, 'r, 'w) svc_env \<Rightarrow> req_env \<Rightarrow> req_ctx \<Rightarrow> string \<Rightarrow> bytes \<Rightarrow> ('s, 'f, 'l, 'b, 'r, 'w) svc \<Rightarrow>
   (int \<times> string) result \<times> ('s, 'f, 'l, 'b, 'r, 'w) svc" where
  "svc_Publish se rq ctx name data sv =
     (case gatePublish se rq ctx name sv of
        (Some err, sv) \<Rightarrow> (Err err, sv)
      | (None, sv) \<Rightarrow>
          (case ps_Publish (se_store se) (se_broker se) name data (rq_clk rq 1) (sv_parsec sv) (sv_broker sv) of
             (r, p, b) \<Rightarrow> (r, sv\<lparr>sv_parsec := p, sv_broker := b\<rparr>)))"

definition svc_Presence :: "('s, 'f, 'l, 'b, 'r, 'w) svc_env \<Rightarrow> string \<Rightarrow> ('s, 'f, 'l, 'b, 'r, 'w) svc \<Rightarrow> int result" where
  "svc_Presence se name sv =
     (case ParseName name of Err err \<Rightarrow> Err err | Ok n \<Rightarrow> bo_Presence (se_broker se) n (sv_broker sv))"

subsection \<open>Revoking (revocations.go)\<close>

definition svc_RevokeToken ::
  "('s, 'f, 'l, 'b, 'r, 'w) svc_env \<Rightarrow> req_env \<Rightarrow> string \<Rightarrow> string \<Rightarrow> string \<Rightarrow> ('s, 'f, 'l, 'b, 'r, 'w) svc \<Rightarrow>
   go_error option \<times> ('s, 'f, 'l, 'b, 'r, 'w) svc" where
  "svc_RevokeToken se rq tokenID userID reason sv =
     (if tokenID = [] then (Some (err_New InvalidArgument ''token_id required''), sv)
      else case sv_revs sv of
        None \<Rightarrow> (Some (err_New InvalidArgument ''revocation store not configured''), sv)
      | Some store \<Rightarrow>
          (case vo_Revoke (se_revs se) tokenID userID reason (rq_clk rq 0) store of
             (e, store) \<Rightarrow> (map_option (err_Wrap Internal ''revoke failed'') e, sv\<lparr>sv_revs := Some store\<rparr>)))"

definition svc_RevokeUser ::
  "('s, 'f, 'l, 'b, 'r, 'w) svc_env \<Rightarrow> req_env \<Rightarrow> string \<Rightarrow> string \<Rightarrow> ('s, 'f, 'l, 'b, 'r, 'w) svc \<Rightarrow>
   go_error option \<times> ('s, 'f, 'l, 'b, 'r, 'w) svc" where
  "svc_RevokeUser se rq userID reason sv =
     (if userID = [] then (Some (err_New InvalidArgument ''user_id required''), sv)
      else case sv_revs sv of
        None \<Rightarrow> (Some (err_New InvalidArgument ''revocation store not configured''), sv)
      | Some store \<Rightarrow>
          (case vo_RevokeAllForUser (se_revs se) userID (rq_clk rq 0) store of
             (e, store) \<Rightarrow> (map_option (err_Wrap Internal ''revoke-user failed'') e, sv\<lparr>sv_revs := Some store\<rparr>)))"

subsection \<open>Keys (keys.go)\<close>

record KeySummary =
  ky_ID :: string
  ky_Alg :: string
  ky_Role :: string
  ky_CreatedAt :: string
  ky_RetiredAt :: string

definition keyToSummary :: "key_codec \<Rightarrow> Key \<Rightarrow> KeySummary" where
  "keyToSummary kc k =
     \<lparr>ky_ID = k_ID k, ky_Alg = (if k_Alg k = [] then AlgHS256 else k_Alg k), ky_Role = k_Role k, ky_CreatedAt = kc_time kc (k_CreatedAt k),
      ky_RetiredAt = (case k_RetiredAt k of None \<Rightarrow> [] | Some t \<Rightarrow> kc_time kc t)\<rparr>"

definition svc_ListKeys ::
  "('s, 'f, 'l, 'b, 'r, 'w) svc_env \<Rightarrow> ('s, 'f, 'l, 'b, 'r, 'w) svc \<Rightarrow> string \<times> KeySummary list" where
  "svc_ListKeys se sv =
     (kr_ActiveID (ps_ring (sv_parsec sv)), map (keyToSummary (ae_kc (se_auth se))) (kr_List (ps_ring (sv_parsec sv))))"

text \<open>A key operation of the facade acts on its ring.\<close>

definition on_keys :: "('w keys_state \<Rightarrow> 'a \<times> 'w keys_state) \<Rightarrow> ('s, 'f, 'l, 'b, 'r, 'w) svc \<Rightarrow> 'a \<times> ('s, 'f, 'l, 'b, 'r, 'w) svc" where
  "on_keys f sv =
     (case f ((sv_keys sv)\<lparr>ky_ring := ps_ring (sv_parsec sv)\<rparr>) of
        (r, ks) \<Rightarrow> (r, sv\<lparr>sv_keys := ks, sv_parsec := (sv_parsec sv)\<lparr>ps_ring := ky_ring ks\<rparr>\<rparr>))"

definition svc_GenerateKey ::
  "('s, 'f, 'l, 'b, 'r, 'w) svc_env \<Rightarrow> req_env \<Rightarrow> Alg \<Rightarrow> ('s, 'f, 'l, 'b, 'r, 'w) svc \<Rightarrow>
   KeySummary result \<times> ('s, 'f, 'l, 'b, 'r, 'w) svc" where
  "svc_GenerateKey se rq alg sv =
     (case on_keys (GenerateKeyAlg (ae_kc (se_auth se)) (se_keys se) alg (rq_gens rq) (rq_clk rq)) sv of
        (Err err, sv) \<Rightarrow> (Err err, sv)
      | (Ok k, sv) \<Rightarrow> (Ok (keyToSummary (ae_kc (se_auth se)) k), sv))"

definition svc_PromoteKey ::
  "('s, 'f, 'l, 'b, 'r, 'w) svc_env \<Rightarrow> string \<Rightarrow> ('s, 'f, 'l, 'b, 'r, 'w) svc \<Rightarrow> go_error option \<times> ('s, 'f, 'l, 'b, 'r, 'w) svc" where
  "svc_PromoteKey se ident sv = on_keys (PromoteKey (ae_kc (se_auth se)) (se_keys se) ident) sv"

definition svc_RetireKey ::
  "('s, 'f, 'l, 'b, 'r, 'w) svc_env \<Rightarrow> req_env \<Rightarrow> string \<Rightarrow> ('s, 'f, 'l, 'b, 'r, 'w) svc \<Rightarrow>
   go_error option \<times> ('s, 'f, 'l, 'b, 'r, 'w) svc" where
  "svc_RetireKey se rq ident sv = on_keys (RetireKey (ae_kc (se_auth se)) (se_keys se) ident (rq_clk rq)) sv"

definition svc_ReloadKeys ::
  "('s, 'f, 'l, 'b, 'r, 'w) svc_env \<Rightarrow> ('s, 'f, 'l, 'b, 'r, 'w) svc \<Rightarrow> go_error option \<times> ('s, 'f, 'l, 'b, 'r, 'w) svc" where
  "svc_ReloadKeys se sv = on_keys (ReloadKeys (ae_kc (se_auth se)) (se_keys se)) sv"

definition svc_IssueMgmt ::
  "('s, 'f, 'l, 'b, 'r, 'w) svc_env \<Rightarrow> req_env \<Rightarrow> string \<Rightarrow> duration \<Rightarrow> ('s, 'f, 'l, 'b, 'r, 'w) svc \<Rightarrow> (string \<times> go_time \<times> string) result" where
  "svc_IssueMgmt se rq subject ttl sv =
     (case IssueMgmt (se_auth se) (ps_ring (sv_parsec sv)) (rq_rnd rq) subject ttl (rq_clk rq 0) of
        Err err \<Rightarrow> Err err
      | Ok (tok, exp) \<Rightarrow> Ok (tok, exp, kr_ActiveID (ps_ring (sv_parsec sv))))"

subsection \<open>The RPC adapters (adapter.go, keys\_adapter.go, revocations\_adapter.go)\<close>

record wire_scope =
  ws_Pattern :: string
  ws_Verbs :: "string list"
  ws_Deny :: bool

datatype rpc_request =
    ManifestRq
  | OpenPublicRq string int
  | CreatePrivateRq string string int "wire_scope option list"
  | RefreshTokenRq string
  | ListChannelsRq
  | GetChannelRq string
  | DeleteChannelRq string
  | PublishRq string bytes
  | PresenceRq string
  | ListKeysRq
  | GenerateKeyRq string
  | PromoteKeyRq string
  | RetireKeyRq string
  | ReloadKeysRq
  | IssueMgmtRq string int
  | RevokeTokenRq string string string
  | RevokeUserRq string string

fun rpc_method :: "rpc_request \<Rightarrow> string" where
  "rpc_method ManifestRq = ''Manifest''"
| "rpc_method (OpenPublicRq _ _) = ''OpenPublic''"
| "rpc_method (CreatePrivateRq _ _ _ _) = ''CreatePrivate''"
| "rpc_method (RefreshTokenRq _) = ''RefreshToken''"
| "rpc_method ListChannelsRq = ''ListChannels''"
| "rpc_method (GetChannelRq _) = ''GetChannel''"
| "rpc_method (DeleteChannelRq _) = ''DeleteChannel''"
| "rpc_method (PublishRq _ _) = ''Publish''"
| "rpc_method (PresenceRq _) = ''Presence''"
| "rpc_method ListKeysRq = ''ListKeys''"
| "rpc_method (GenerateKeyRq _) = ''GenerateKey''"
| "rpc_method (PromoteKeyRq _) = ''PromoteKey''"
| "rpc_method (RetireKeyRq _) = ''RetireKey''"
| "rpc_method ReloadKeysRq = ''ReloadKeys''"
| "rpc_method (IssueMgmtRq _ _) = ''IssueMgmt''"
| "rpc_method (RevokeTokenRq _ _ _) = ''RevokeToken''"
| "rpc_method (RevokeUserRq _ _) = ''RevokeUser''"

record wire_channel =
  wc_Name :: string
  wc_State :: State
  wc_TtlSeconds :: int
  wc_CreatedAt :: string
  wc_LastActive :: string

text \<open>The credentials, the refreshed tokens (with the refresh token when there is a new one), a management token.\<close>

datatype rpc_response =
    ManifestRs
  | EmptyRs
  | ChannelRs wire_channel
  | CredentialsRs string string string int int
  | RefreshRs string int bool "(string \<times> int) option"
  | ChannelsRs "wire_channel list"
  | PublishRs int string
  | PresenceRs int
  | KeysRs string "KeySummary list"
  | KeyRs KeySummary
  | MgmtRs string int string

definition channelToWire :: "('s, 'f, 'l, 'b, 'r, 'w) svc_env \<Rightarrow> channel \<Rightarrow> wire_channel" where
  "channelToWire se ch =
     \<lparr>wc_Name = name_String (c_Name ch), wc_State = c_State ch, wc_TtlSeconds = se_Seconds se (c_TTL ch),
      wc_CreatedAt = kc_time (ae_kc (se_auth se)) (c_CreatedAt ch), wc_LastActive = kc_time (ae_kc (se_auth se)) (c_LastActive ch)\<rparr>"

definition scopesFromWire :: "wire_scope option list \<Rightarrow> Scope list" where
  "scopesFromWire ins =
     List.map_filter (map_option (\<lambda>s. \<lparr>s_Pattern = ws_Pattern s, s_Verbs = ws_Verbs s, s_Deny = ws_Deny s, s_compiled = None, s_compileErr = None\<rparr>)) ins"

text \<open>\<^verbatim>\<open>time.Duration(n)*time.Second\<close> is an int64 product.\<close>

definition ttl_of :: "int \<Rightarrow> duration" where
  "ttl_of seconds = wrap64 (seconds * second)"

definition int32_of :: "int \<Rightarrow> int" where
  "int32_of n = (n + 2147483648) mod 4294967296 - 2147483648"

definition to_response :: "('a \<Rightarrow> rpc_response) \<Rightarrow> 'a result \<Rightarrow> twirp_code \<times> string + rpc_response" where
  "to_response f r = (case r of Err err \<Rightarrow> Inl (toTwirpError err) | Ok x \<Rightarrow> Inr (f x))"

definition done_response :: "go_error option \<Rightarrow> twirp_code \<times> string + rpc_response" where
  "done_response e = (case e of Some err \<Rightarrow> Inl (toTwirpError err) | None \<Rightarrow> Inr EmptyRs)"

fun rpc_call ::
  "('s, 'f, 'l, 'b, 'r, 'w) svc_env \<Rightarrow> req_env \<Rightarrow> req_ctx \<Rightarrow> rpc_request \<Rightarrow> ('s, 'f, 'l, 'b, 'r, 'w) svc \<Rightarrow>
   (twirp_code \<times> string + rpc_response) \<times> ('s, 'f, 'l, 'b, 'r, 'w) svc" where
  "rpc_call se rq ctx ManifestRq sv = (Inr ManifestRs, sv)"
| "rpc_call se rq ctx (OpenPublicRq name ttl) sv =
     map_prod (to_response (\<lambda>ch. ChannelRs (channelToWire se ch))) id (svc_OpenPublicChannel se rq name (ttl_of ttl) sv)"
| "rpc_call se rq ctx (CreatePrivateRq subject name ttl scopes) sv =
     map_prod (to_response (\<lambda>c. CredentialsRs (name_String (cr_Name c)) (cr_AccessToken c) (cr_RefreshToken c)
         (time_Unix (cr_AccessExpires c)) (time_Unix (cr_RefreshExpires c)))) id
       (svc_CreatePrivateChannel se rq subject name (ttl_of ttl) (scopesFromWire scopes) sv)"
| "rpc_call se rq ctx (RefreshTokenRq tok) sv =
     map_prod (to_response (\<lambda>res. RefreshRs (rr_AccessToken res) (time_Unix (rr_AccessExpires res)) (rr_Rotated res)
         (if rr_RefreshToken res \<noteq> [] then Some (rr_RefreshToken res, time_Unix (rr_RefreshExpires res)) else None))) id
       (svc_RefreshAccess se rq ctx tok sv)"
| "rpc_call se rq ctx ListChannelsRq sv = (Inr (ChannelsRs (map (channelToWire se) (svc_ListChannels se sv))), sv)"
| "rpc_call se rq ctx (GetChannelRq name) sv = (to_response (\<lambda>ch. ChannelRs (channelToWire se ch)) (svc_GetChannel se name sv), sv)"
| "rpc_call se rq ctx (DeleteChannelRq name) sv = map_prod done_response id (svc_DeleteChannel se rq name sv)"
| "rpc_call se rq ctx (PublishRq name data) sv =
     map_prod (to_response (\<lambda>(offset, epoch). PublishRs offset epoch)) id (svc_Publish se rq ctx name data sv)"
| "rpc_call se rq ctx (PresenceRq name) sv = (to_response (\<lambda>n. PresenceRs (int32_of n)) (svc_Presence se name sv), sv)"
| "rpc_call se rq ctx ListKeysRq sv = (Inr (case svc_ListKeys se sv of (active, keys) \<Rightarrow> KeysRs active keys), sv)"
| "rpc_call se rq ctx (GenerateKeyRq alg) sv = map_prod (to_response KeyRs) id (svc_GenerateKey se rq alg sv)"
| "rpc_call se rq ctx (PromoteKeyRq ident) sv = map_prod done_response id (svc_PromoteKey se ident sv)"
| "rpc_call se rq ctx (RetireKeyRq ident) sv = map_prod done_response id (svc_RetireKey se rq ident sv)"
| "rpc_call se rq ctx ReloadKeysRq sv = map_prod done_response id (svc_ReloadKeys se sv)"
| "rpc_call se rq ctx (IssueMgmtRq subject ttl) sv =
     (to_response (\<lambda>(tok, exp, kid). MgmtRs tok (time_Unix exp) kid) (svc_IssueMgmt se rq subject (ttl_of ttl) sv), sv)"
| "rpc_call se rq ctx (RevokeTokenRq tokenID userID reason) sv = map_prod done_response id (svc_RevokeToken se rq tokenID userID reason sv)"
| "rpc_call se rq ctx (RevokeUserRq userID reason) sv = map_prod done_response id (svc_RevokeUser se rq userID reason sv)"

text \<open>
  The route of the RPC surface: the remote address, the bearer, then the method.  A request that the
  middleware refuses is answered with its message.
\<close>

datatype http_result = Unauthorized string | Answer "twirp_code \<times> string + rpc_response"

definition serve ::
  "('s, 'f, 'l, 'b, 'r, 'w) svc_env \<Rightarrow> ('p \<Rightarrow> string \<Rightarrow> go_time \<Rightarrow> string \<Rightarrow> id_token result) \<Rightarrow> 'p OIDCVerifier option \<Rightarrow> req_env \<Rightarrow>
   string \<Rightarrow> string \<Rightarrow> rpc_request \<Rightarrow> ('s, 'f, 'l, 'b, 'r, 'w) svc \<Rightarrow> http_result \<times> ('s, 'f, 'l, 'b, 'r, 'w) svc" where
  "serve se lib oidc rq ip header req sv =
     (let p = sv_parsec sv in
      case bearerMiddleware (Some (MgmtValidator (se_auth se) lib oidc (ps_ring p) (ps_leeway p) (rq_validated rq)))
             (Some (MgmtExtractor (se_auth se) lib oidc (ps_ring p) (ps_leeway p) (rq_extracted rq)))
             (ParsecServicePathPrefix @ rpc_method req) header
             (WithRemoteIP ip \<lparr>cx_Subject = [], cx_Claims = None, cx_RemoteIP = []\<rparr>) of
        Inl (code, msg) \<Rightarrow> (Unauthorized msg, sv)
      | Inr ctx \<Rightarrow> map_prod Answer id (rpc_call se rq ctx req sv))"

subsection \<open>Who gets in\<close>

lemma mgmt_verify_iff:
  "(\<exists>c. mgmt_verify env lib oidc ring leeway now tok = Ok c) \<longleftrightarrow>
     (\<exists>c. verify_env env ring leeway tok TypeMgmt now = Ok c) \<or> (\<exists>v c. oidc = Some v \<and> ov_Verify lib now tok v = Ok c)"
  by (auto simp: mgmt_verify_def cv_Verify_def Verify_def verify_env_def Let_def split: option.splits sum.splits)

lemma validator_None: "MgmtValidator env lib oidc ring leeway now tok = None \<longleftrightarrow> (\<exists>c. mgmt_verify env lib oidc ring leeway now tok = Ok c)"
  by (auto simp: MgmtValidator_def split: sum.splits)

lemma public_methods:
  "ParsecServicePathPrefix @ rpc_method req \<in> set publicTwirpMethods \<longleftrightarrow> req = ManifestRq \<or> (\<exists>t. req = RefreshTokenRq t)"
  by (cases req) (simp_all add: publicTwirpMethods_def)

lemma middleware_Inr:
  "(\<exists>ctx'. bearerMiddleware (Some val) ext path header ctx = Inr ctx') \<longleftrightarrow>
     path \<in> set publicTwirpMethods \<or> bearerFromHeader header \<noteq> [] \<and> val (bearerFromHeader header) = None"
  by (auto simp: bearerMiddleware_def Let_def split: option.splits prod.splits)

lemma serve_answers:
  "(\<exists>a. fst (serve se lib oidc rq ip header req sv) = Answer a) \<longleftrightarrow>
     req = ManifestRq \<or> (\<exists>t. req = RefreshTokenRq t) \<or>
     bearerFromHeader header \<noteq> [] \<and>
       (\<exists>c. mgmt_verify (se_auth se) lib oidc (ps_ring (sv_parsec sv)) (ps_leeway (sv_parsec sv)) (rq_validated rq) (bearerFromHeader header) = Ok c)"
proof -
  let ?val = "MgmtValidator (se_auth se) lib oidc (ps_ring (sv_parsec sv)) (ps_leeway (sv_parsec sv)) (rq_validated rq)"
  let ?M = "bearerMiddleware (Some ?val) (Some (MgmtExtractor (se_auth se) lib oidc (ps_ring (sv_parsec sv)) (ps_leeway (sv_parsec sv)) (rq_extracted rq)))
    (ParsecServicePathPrefix @ rpc_method req) header (WithRemoteIP ip \<lparr>cx_Subject = [], cx_Claims = None, cx_RemoteIP = []\<rparr>)"
  have "(\<exists>a. fst (serve se lib oidc rq ip header req sv) = Answer a) \<longleftrightarrow> (\<exists>ctx'. ?M = Inr ctx')"
    by (cases ?M) (auto simp: serve_def Let_def)
  then show ?thesis by (simp add: middleware_Inr public_methods validator_None disj_assoc)
qed

lemma serve_refuses: "fst (serve se lib oidc rq ip header req sv) = Unauthorized m \<Longrightarrow> snd (serve se lib oidc rq ip header req sv) = sv"
  by (auto simp: serve_def Let_def split: sum.splits prod.splits)

lemma verify_mgmt:
  "verify_env env ring leeway tok TypeMgmt now = Ok c \<longleftrightarrow> verify_env env ring leeway tok [] now = Ok c \<and> cl_Typ c = TypeMgmt"
  unfolding verify_env_def by (auto intro: verify_type elim: verify_sound simp: TypeMgmt_def)

lemma b64_no_space: "c \<in> set (b64_encode s) \<Longrightarrow> \<not> is_space c"
proof -
  have all: "those (map b64_val xs) = Some vs \<Longrightarrow> x \<in> set xs \<Longrightarrow> b64_val x \<noteq> None" for xs vs x
    by (induction xs arbitrary: vs) (auto split: option.splits)
  assume "c \<in> set (b64_encode s)"
  then have "b64_val c \<noteq> None" using b64_encode_vals [of s] all by blast
  then show ?thesis by (auto simp: is_space_def b64_val_def Let_def)
qed

lemma TrimSpace_id: "(\<And>c. c \<in> set s \<Longrightarrow> \<not> is_space c) \<Longrightarrow> strings_TrimSpace s = s"
proof -
  assume a: "\<And>c. c \<in> set s \<Longrightarrow> \<not> is_space c"
  have "dropWhile is_space s = s" "dropWhile is_space (rev s) = rev s"
    using a by (metis dropWhile_eq_self_iff list.set_sel(1), metis dropWhile_eq_self_iff list.set_sel(1) set_rev)
  then show ?thesis by (simp add: strings_TrimSpace_def)
qed

lemma signed_bearer:
  assumes "ring_ok (ae_kc env) good ring" "header_codec_ok (ae_kc env)" "ascii (kr_active ring)" "sign_env env rnd ring c = Ok tok"
  shows "bearerFromHeader (''Bearer '' @ tok) = tok" "tok \<noteq> []"
proof -
  obtain k payload sig where k: "kr_Active ring = Ok k"
    and tok: "tok = (k_headerB64 k @ ''.'' @ b64_encode payload) @ ''.'' @ b64_encode sig"
    using assms(4) by (auto simp: sign_env_def elim!: Sign_Ok)
  then have "map_of (kr_byID ring) (kr_active ring) = Some k"
    by (auto simp: kr_Active_def split: if_splits option.splits)
  from key_header [OF ring_okD(1) [OF assms(1) this] assms(2,3)]
  obtain b where "k_headerB64 k = b64_encode b" by metis
  then have "\<not> is_space x" if "x \<in> set tok" for x
    using that b64_no_space by (auto simp: tok is_space_def)
  then show "bearerFromHeader (''Bearer '' @ tok) = tok" by (simp add: bearerFromHeader_def TrimSpace_id)
  show "tok \<noteq> []" by (simp add: tok)
qed

subsection \<open>Properties\<close>

text \<open>
  C9. The management methods are closed: a request to a method other than the manifest and the refresh
  of a token reaches its handler if and only if its bearer is a token signed by a key of the ring
  that is in force and of type mgmt, so no access or refresh token, or an ID token the configured
  provider accepts.  A refused request changes nothing.
\<close>

theorem management_needs_credentials:
  assumes "req \<noteq> ManifestRq" and "\<And>t. req \<noteq> RefreshTokenRq t"
  shows "((\<exists>a. fst (serve se lib oidc rq ip header req sv) = Answer a) \<longleftrightarrow>
      bearerFromHeader header \<noteq> [] \<and>
      ((\<exists>c. verify_env (se_auth se) (ps_ring (sv_parsec sv)) (ps_leeway (sv_parsec sv)) (bearerFromHeader header) [] (rq_validated rq) = Ok c \<and>
          cl_Typ c = TypeMgmt) \<or>
       (\<exists>v c. oidc = Some v \<and> ov_Verify lib (rq_validated rq) (bearerFromHeader header) v = Ok c))) \<and>
    (\<forall>m. fst (serve se lib oidc rq ip header req sv) = Unauthorized m \<longrightarrow> snd (serve se lib oidc rq ip header req sv) = sv)"
  using assms serve_refuses by (auto simp: serve_answers mgmt_verify_iff verify_mgmt)

text \<open>For the witnesses: a service with the in-memory stores and a key store that is not configured.\<close>

definition day_claims :: Claims where
  "day_claims = \<lparr>cl_Sub = ''op'', cl_Typ = TypeMgmt, cl_Chs = [], cl_Iat = 100, cl_Exp = 86500, cl_RateLimitOverride = None, cl_Scopes = [],
     cl_JTI = [], cl_FID = []\<rparr>"

definition mem_env :: "(MemoryStore, MemoryRefreshStore, MemoryLimiter, unit, MemoryRevocations, unit) svc_env" where
  "mem_env = \<lparr>se_store = MemoryStore_ops, se_refresh = MemoryRefreshStore_ops, se_limiter = MemoryLimiter_ops,
     se_broker = \<lparr>bo_Publish = (\<lambda>_ _ _ b. (Ok (0, []), b)), bo_Presence = (\<lambda>_ _. Ok 0)\<rparr>, se_revs = MemoryRevocations_ops,
     se_keys = \<lparr>ks_Load = (\<lambda>w. (Err ErrNotExist, w)), ks_Save = (\<lambda>_ w. (None, w)), ks_Ensure = None\<rparr>, se_auth = toy_env [day_claims],
     se_Seconds = (\<lambda>d. d div second)\<rparr>"

definition mem_svc :: "(MemoryStore, MemoryRefreshStore, MemoryLimiter, unit, MemoryRevocations, unit) svc" where
  "mem_svc = \<lparr>sv_parsec = fresh_parsec, sv_limits = no_limits, sv_broker = (), sv_revs = Some NewMemoryRevocations,
     sv_keys = \<lparr>ky_ring = one_key, ky_store = None, ky_jwks = False, ky_rotations = []\<rparr>\<rparr>"

definition no_idp :: "unit \<Rightarrow> string \<Rightarrow> go_time \<Rightarrow> string \<Rightarrow> id_token result" where
  "no_idp p aud now tok = Err (Plain ''no provider'')"

definition at_second :: "int \<Rightarrow> req_env" where
  "at_second t = \<lparr>rq_validated = t * second, rq_extracted = t * second, rq_err = None, rq_clk = (\<lambda>_. t * second), rq_rnd = sample_rnd,
     rq_gens = (\<lambda>_. \<lparr>g_id = None, g_secret = None, g_ed = Err (Plain []), g_rsa = Err (Plain []), g_ec = Err (Plain [])\<rparr>)\<rparr>"

theorem management_needs_credentials_witness:
  "fst (serve mem_env no_idp None (at_second 200) [] ''Basic abc'' ListKeysRq mem_svc) = Unauthorized ''missing bearer token'' \<and>
   snd (serve mem_env no_idp None (at_second 200) [] ''Basic abc'' ListKeysRq mem_svc) = mem_svc"
proof -
  have "fst (serve mem_env no_idp None (at_second 200) [] ''Basic abc'' ListKeysRq mem_svc) = Unauthorized ''missing bearer token''"
    by (simp add: serve_def bearerMiddleware_def bearerFromHeader_def publicTwirpMethods_def)
  then show ?thesis using management_needs_credentials [of ListKeysRq mem_env no_idp None "at_second 200" "[]" "''Basic abc''" mem_svc] by simp
qed

text \<open>
  C13. A management token that the service issues opens the management surface: presented as a bearer it
  lets every request through from the second it was issued until the second it expires, whatever has
  happened to the service meanwhile, as long as the keys are the same.
\<close>

theorem issued_mgmt_token_manages:
  assumes "(ring_step (ae_kc (se_auth se)) good)\<^sup>*\<^sup>* NewKeyRing (ps_ring (sv_parsec sv))" and "env_ok (se_auth se) good"
    and "ascii (kr_active (ps_ring (sv_parsec sv)))" and "ascii subject"
    and "svc_IssueMgmt se rq0 subject ttl sv = Ok (tok, exp, kid)"
    and "ps_ring (sv_parsec sv') = ps_ring (sv_parsec sv)" and "ps_leeway (sv_parsec sv') = 0"
    and "time_Unix (rq_clk rq0 0) * second \<le> rq_validated rq" and "rq_validated rq \<le> time_Unix exp * second"
  shows "\<exists>a. fst (serve se lib oidc rq ip (''Bearer '' @ tok) req sv') = Answer a"
proof -
  have ring: "ring_ok (ae_kc (se_auth se)) good (ps_ring (sv_parsec sv))" using assms(1) by (rule ring_ok_reach)
  let ?c = "\<lparr>cl_Sub = subject, cl_Typ = TypeMgmt, cl_Chs = [], cl_Iat = time_Unix (rq_clk rq0 0), cl_Exp = time_Unix exp,
            cl_RateLimitOverride = None, cl_Scopes = [], cl_JTI = [], cl_FID = []\<rparr>"
  have sign: "sign_env (se_auth se) (ir_sig1 (rq_rnd rq0)) (ps_ring (sv_parsec sv)) ?c = Ok tok"
    using assms(5) by (auto simp: svc_IssueMgmt_def IssueMgmt_def Let_def split: sum.splits)
  have "claims_ascii ?c" using assms(4) by (simp add: claims_ascii_def ascii_def go_simps)
  from sign_env_verifies [OF ring assms(2,3) this sign, of "rq_validated rq"] assms(8,9)
  have "\<exists>c. verify_env (se_auth se) (ps_ring (sv_parsec sv')) 0 tok TypeMgmt (rq_validated rq) = Ok c"
    by (simp add: IssuedAt_def ExpiresAt_def assms(6))
  then have "\<exists>c. mgmt_verify (se_auth se) lib oidc (ps_ring (sv_parsec sv')) (ps_leeway (sv_parsec sv')) (rq_validated rq) tok = Ok c"
    unfolding mgmt_verify_iff assms(7) by blast
  then show ?thesis
    using signed_bearer [OF ring _ assms(3) sign] assms(2) by (simp add: serve_answers env_ok_def)
qed

theorem issued_mgmt_token_manages_witness:
  "\<exists>tok exp a. svc_IssueMgmt mem_env (at_second 100) ''op'' 0 mem_svc = Ok (tok, exp, kr_ActiveID one_key) \<and>
     fst (serve mem_env no_idp None (at_second 200) [] (''Bearer '' @ tok) ListKeysRq mem_svc) = Answer a"
proof -
  obtain tok where "sign_env (toy_env [day_claims]) [] one_key day_claims = Ok tok"
    by (rule toy_sign [of day_claims "[day_claims]"]) (simp_all add: day_claims_def type_Valid_def)
  then have m: "svc_IssueMgmt mem_env (at_second 100) ''op'' 0 mem_svc = Ok (tok, 86500 * second, kr_ActiveID one_key)"
    by (simp add: svc_IssueMgmt_def IssueMgmt_def mem_env_def mem_svc_def at_second_def fresh_parsec_def sample_rnd_def time_Unix_def day_claims_def)
  have ring: "ps_ring (sv_parsec mem_svc) = one_key" "ps_leeway (sv_parsec mem_svc) = 0" by (simp_all add: mem_svc_def fresh_parsec_def)
  have run: "(ring_step (ae_kc (se_auth mem_env)) ed_only)\<^sup>*\<^sup>* NewKeyRing (ps_ring (sv_parsec mem_svc))"
    unfolding ring using one_key_reach by (simp add: mem_env_def toy_env_def)
  have env: "env_ok (se_auth mem_env) ed_only" by (simp add: mem_env_def toy_env_ok)
  have a: "ascii (kr_active (ps_ring (sv_parsec mem_svc)))" "ascii ''op''" unfolding ring by (rule one_key_ascii) (simp add: ascii_def)
  have "\<exists>a. fst (serve mem_env no_idp None (at_second 200) [] (''Bearer '' @ tok) ListKeysRq mem_svc) = Answer a"
    by (rule issued_mgmt_token_manages [OF run env a m refl ring(2)]) (simp_all add: at_second_def time_Unix_def)
  with m show ?thesis by blast
qed

text \<open>
  An operator whose ID token names no group gets every management method, although the grants give
  such an operator nothing: no method looks at the scopes of the bearer.
\<close>

theorem ungranted_operator_manages:
  assumes "lib (ov_provider v) (oc_Audience (ov_cfg v)) (rq_validated rq) (bearerFromHeader header) = Ok idTok"
    and "it_Claims idTok = Ok raw" and "map_of raw (oc_ScopesClaim (ov_cfg v)) = None" and "it_Subject idTok \<noteq> []"
    and "bearerFromHeader header \<noteq> []"
  shows "(\<exists>c. ov_Verify lib (rq_validated rq) (bearerFromHeader header) v = Ok c \<and> (\<forall>ch verb. \<not> fst (claims_Authorizes ch verb c))) \<and>
    (\<exists>a. fst (serve se lib (Some v) rq ip header req sv) = Answer a)"
proof -
  have "(case map_of raw (oc_SubjectClaim (ov_cfg v)) of
      Some (AnyString s) \<Rightarrow> if s = [] then it_Subject idTok else s | _ \<Rightarrow> it_Subject idTok) \<noteq> []"
    using assms(4) by (simp split: option.split any_val.split)
  then have "\<exists>c. ov_Verify lib (rq_validated rq) (bearerFromHeader header) v = Ok c"
    by (simp add: ov_Verify_def assms(1,2) Let_def del: case_prod_conv)
  then obtain c where c: "ov_Verify lib (rq_validated rq) (bearerFromHeader header) v = Ok c" ..
  have "cl_Scopes c = []" "cl_Chs c = []"
    using ov_Verify_Ok(3,4) [OF c assms(1,2)] assms(3) by (simp_all add: token_groups_def extractStringList_def mapGrants_def)
  then have "\<not> fst (claims_Authorizes ch verb c)" for ch verb by (simp add: claims_Authorizes_def)
  then show ?thesis using c assms(5) by (auto simp: serve_answers mgmt_verify_iff)
qed

text \<open>A lifetime of 585 years in seconds wraps around to a third of a second and passes every bound.\<close>

lemma huge_ttl_wraps: "ttl_of 18446744074 = 290448384"
  by (simp add: ttl_of_def wrap64_def)

end
