(* ===== verification/Spec2Isabelle.thy ===== *)
theory Spec2Isabelle
  imports Lifecycle Cache Schema SinkKinds RedisTokens RedisLimiter RedisChannels EventBus GcpFleet Service
begin

text \<open>
  A verification library for Parsec (\<^verbatim>\<open>src/\<close>), a real-time channel service: operators open channels
  and hand out tokens through an RPC surface, subscribers present the tokens to a websocket broker,
  and any number of nodes share their state through Redis or a cloud secret.

  \<^bold>\<open>How the parts interact.\<close>  The facade (\<^verbatim>\<open>parsec.go\<close>) owns a channel manager, a ring of signing
  keys, an issuer and a verifier of tokens, a refresh store, a revocation list and a rate limiter.
  The broker asks its subscribe authorizer about every subscription; the management surface
  (\<^verbatim>\<open>service/\<close> behind \<^verbatim>\<open>internal/server/http.go\<close>) lets operators create channels, publish, rotate keys
  and revoke tokens.  Each store has an in-process implementation and one that nodes share.

  \<^bold>\<open>Conventions.\<close>  \<open>Prelude\<close>, \<open>GoStrings\<close> and \<open>Encoding\<close> fix them: a Go string or byte slice is a
  \<^typ>\<open>string\<close>, a time or duration an \<^typ>\<open>int\<close> of nanoseconds with the wrap-around of int64 written out
  where the code can meet it, a map an association list whose order is the order of iteration, an
  error a value.  An operation takes the state as its last argument and returns it; the clock,
  randomness and the answers of the outside are arguments.  A Go interface is a record of
  operations, its contract a locale, and each implementation an interpretation of it.

  \<^bold>\<open>Theories and code.\<close>

  \<^item> Channels: \<open>ChannelName\<close> and \<open>ChannelPattern\<close> (\<^verbatim>\<open>channels/name.go\<close>, \<^verbatim>\<open>pattern.go\<close>): parsing is exact and
    the matching loop decides the declarative match.  \<open>ChannelStore\<close> and \<open>ChannelManager\<close>
    (\<^verbatim>\<open>memory_store.go\<close>, \<^verbatim>\<open>manager.go\<close>, \<^verbatim>\<open>events.go\<close>): the manager over any store that refines a registry;
    its invariant, its events, and that a deleted name stays deleted.  \<open>RedisChannels\<close> and \<open>EventBus\<close>
    (\<^verbatim>\<open>redis_store.go\<close>, \<^verbatim>\<open>redis_eventbus.go\<close>): the store on Redis with its Lua scripts is linearizable
    against the same registry, and every node hears of the events of the others.
  \<^item> Keys: \<open>KeyRing\<close> (\<^verbatim>\<open>auth/keyring.go\<close>) with its invariant and snapshots; \<open>KeyStore\<close> (the codec, the
    files, the store interface) with crash safety; \<open>KeyRotation\<close> (the facade's mutations of the ring);
    \<open>RedisKeys\<close> (\<^verbatim>\<open>auth/redis_keyringstore.go\<close>): no rotation is lost, and where one is;  \<open>GcpStore\<close> and
    \<open>GcpFleet\<close> (\<^verbatim>\<open>stores/gcpsecretmanager/\<close>): the write lease, by rely and guarantee over programs of
    calls.
  \<^item> Tokens: \<open>Claims\<close>, \<open>Token\<close>, \<open>Issuer\<close> (\<^verbatim>\<open>auth/claims.go\<close>, \<^verbatim>\<open>scope.go\<close>, \<^verbatim>\<open>signer.go\<close>, \<^verbatim>\<open>verifier.go\<close>,
    \<^verbatim>\<open>issuer.go\<close>): what is signed verifies, what verifies was signed, and scopes decide as specified.
    \<open>RefreshStore\<close>, \<open>Revocations\<close>, \<open>RedisTokens\<close>: single use and revocation, in process and on Redis.
    \<open>TokenBroker\<close> (\<^verbatim>\<open>tokenbroker/broker.go\<close>): tokens stay within what the authorizer granted.
    \<open>Identity\<close> (\<^verbatim>\<open>auth/jwks.go\<close>, \<^verbatim>\<open>oidc.go\<close>, \<^verbatim>\<open>composite.go\<close>): the published keys, ID tokens and their grants.
  \<^item> Limits: \<open>RateLimit\<close> (\<^verbatim>\<open>ratelimit/types.go\<close>, \<^verbatim>\<open>memory.go\<close>) and \<open>RedisLimiter\<close> (\<^verbatim>\<open>redis.go\<close> with its Lua
    script): a sliding window never admits more than its budget.  \<open>FacadeLimits\<close>: the buckets the
    facade charges.
  \<^item> The facade and its surface: \<open>Subscribe\<close> (\<^verbatim>\<open>auth/subscribe_authorizer.go\<close> and the wiring in
    \<^verbatim>\<open>parsec.go\<close>), \<open>Facade\<close> and \<open>Lifecycle\<close> (creating, refreshing, publishing), \<open>Service\<close> (the bearer
    middleware, the service methods, their adapters), and the last section here.
  \<^item> Payloads and delivery: \<open>Envelope\<close> (sequence numbers and gaps), \<open>JsonSchema\<close> and \<open>Schema\<close> (the schema
    registry), \<open>Cache\<close> (an LRU cache over a linked list refines an abstract one), \<open>Sinks\<close> and \<open>SinkKinds\<close>
    (retries, dead letters, webhook, Slack, email).

  \<^bold>\<open>What is assumed.\<close>  Cryptographic primitives, JSON, PEM and time layouts are records of functions
  with the round trips the code relies on (\<open>crypto_ok\<close>, \<open>key_codec_ok\<close>, \<open>claims_codec_ok\<close> and so on).
  Redis is a parameter with the documented effect of each command, other nodes interfering between
  any two (\<open>redis_ok\<close>, \<open>kv_ok\<close>, \<open>zset_ok\<close>, \<open>chan_redis\<close>); so are Secret Manager (\<open>gcp_ok\<close>), go-oidc and
  the websocket node.  Every hypothesis is met by a concrete instance in the witness of the theorem
  that has it.

  \<^bold>\<open>Loops, bounds and fuel.\<close>  Loops are structural recursion or have a termination proof; those with a
  fixed number of attempts (optimistic transactions, key mutations, sending with retries) recurse on
  what is left.  Only the wait for the write lease has fuel, and \<open>GcpStore\<close> shows that a number of
  attempts that covers the configured wait in steps of the shortest backoff is never used up.

  \<^bold>\<open>Not modelled, and why.\<close>  Generated RPC code (\<^verbatim>\<open>rpc/\<close>), the websocket node and its wrapper (\<^verbatim>\<open>broker/\<close>, a
  third-party package), the command line, configuration files, process start-up and the remaining
  HTTP plumbing (\<^verbatim>\<open>internal/\<close>, \<^verbatim>\<open>cmd/\<close>: input and output around the operations above), telemetry and
  metrics (they observe and do not decide), the client libraries, the manifest and code generation,
  the dead-letter queue on Redis streams, and the loops of goroutines, whose single steps are
  modelled instead.  The construction of a facade from its options is modelled only as far as the
  stores and limits it wires.
\<close>

subsection \<open>Revocation through the management surface\<close>

text \<open>Requests answered one after the other, each at a time of its own.\<close>

inductive mgmt_step ::
  "('s, 'f, 'l, 'b, 'r, 'w) svc_env \<Rightarrow> ('p \<Rightarrow> string \<Rightarrow> go_time \<Rightarrow> string \<Rightarrow> id_token result) \<Rightarrow> 'p OIDCVerifier option \<Rightarrow>
   go_time \<times> ('s, 'f, 'l, 'b, 'r, 'w) svc \<Rightarrow> go_time \<times> ('s, 'f, 'l, 'b, 'r, 'w) svc \<Rightarrow> bool" for se lib oidc where
  request: "t \<le> rq_clk rq 0 \<Longrightarrow> rq_clk rq 0 \<le> t' \<Longrightarrow>
    mgmt_step se lib oidc (t, sv) (t', snd (serve se lib oidc rq ip header req sv))"

text \<open>Only the two revoking methods touch the revocations.\<close>

lemma rpc_call_revs:
  "sv_revs (snd (rpc_call se rq ctx req sv)) =
     (case req of
        RevokeTokenRq tokenID userID reason \<Rightarrow> sv_revs (snd (svc_RevokeToken se rq tokenID userID reason sv))
      | RevokeUserRq userID reason \<Rightarrow> sv_revs (snd (svc_RevokeUser se rq userID reason sv))
      | _ \<Rightarrow> sv_revs sv)"
  by (cases req)
    (simp_all add: svc_OpenPublicChannel_def svc_CreatePrivateChannel_def svc_RefreshAccess_def gateTokenIssue_def svc_DeleteChannel_def
      svc_Publish_def gatePublish_def svc_GenerateKey_def svc_PromoteKey_def svc_RetireKey_def svc_ReloadKeys_def on_keys_def Let_def
      split: prod.split sum.split option.split)

lemma serve_revs:
  "sv_revs (snd (serve se lib oidc rq ip header req sv)) = sv_revs sv \<or>
   (\<exists>ctx. sv_revs (snd (serve se lib oidc rq ip header req sv)) = sv_revs (snd (rpc_call se rq ctx req sv)))"
  by (auto simp: serve_def Let_def split: sum.split)

definition revoked_since :: "string \<Rightarrow> go_time \<Rightarrow> duration \<Rightarrow> ('s, 'f, 'l, 'b, MemoryRevocations, 'w) svc \<Rightarrow> bool" where
  "revoked_since jti t0 keep sv \<longleftrightarrow>
     (\<exists>revs r. sv_revs sv = Some revs \<and> mr_maxTTL revs = keep \<and> map_of (mr_byToken revs) jti = Some r \<and> t0 \<le> rev_At r)"

lemma revoked_since_step:
  assumes "se_revs se = MemoryRevocations_ops" "mgmt_step se lib oidc (t, sv) (t', sv')" "t0 \<le> t" "revoked_since jti t0 keep sv"
  shows "t \<le> t' \<and> revoked_since jti t0 keep sv'"
  using assms(2)
proof cases
  case (request rq ip header req)
  have kept: "revoked_since jti t0 keep sv'" if "sv_revs sv' = sv_revs (snd (rpc_call se rq ctx req sv))" for ctx
    using that [unfolded rpc_call_revs] assms(1,3,4) request(2)
    by (cases req)
      (auto simp: revoked_since_def svc_RevokeToken_def svc_RevokeUser_def MemoryRevocations_ops_def mr_Revoke_def
        mr_RevokeAllForUser_def map_of_update_apply split: if_splits)
  have "sv_revs sv' = sv_revs sv \<Longrightarrow> revoked_since jti t0 keep sv'" using assms(4) by (simp add: revoked_since_def)
  then show ?thesis using serve_revs [of se lib oidc rq ip header req sv] kept request by auto
qed

lemma revoked_since_run:
  assumes "se_revs se = MemoryRevocations_ops" "(mgmt_step se lib oidc)\<^sup>*\<^sup>* (t, sv) (t', sv')" "t0 \<le> t" "revoked_since jti t0 keep sv"
  shows "t \<le> t' \<and> revoked_since jti t0 keep sv'"
  using assms(2)
proof (induction "(t', sv')" arbitrary: t' sv' rule: rtranclp_induct)
  case base
  then show ?case using assms(4) by simp
next
  case (step y)
  obtain t1 sv1 where y: "y = (t1, sv1)" by (cases y)
  have "t \<le> t1 \<and> revoked_since jti t0 keep sv1" using step.hyps(3) [OF y] .
  then show ?case using revoked_since_step [OF assms(1) step.hyps(2) [unfolded y], of t0 jti keep] assms(3) by simp
qed

text \<open>
  C23. An operator's revocation takes effect at once and lasts: after the service has answered a request
  to revoke the id of a token, and whatever management requests follow, no subscribe to a private
  channel passes with that token until the retention of the revocation list is over.
\<close>

theorem operator_revocation_lasts:
  assumes "se_revs se = MemoryRevocations_ops" and "sv_revs sv = Some revs"
    and "serve se lib oidc rq ip header (RevokeTokenRq jti u why) sv = (Answer (Inr EmptyRs), sv1)"
    and "(mgmt_step se lib oidc)\<^sup>*\<^sup>* (rq_clk rq 0, sv1) (t', sv2)"
    and "IsPrivate ch" and "verify_env (se_auth se) ring leeway token TypeAccess now2 = Ok c" and "cl_JTI c = jti"
    and "time_Sub now2 (rq_clk rq 0) \<le> mr_maxTTL revs"
  shows "fst (SubscribeAuthorizer sops lops (se_revs se) (se_auth se) ring leeway manager (sv_revs sv2) ctx now1 now2 userID ch token p) \<noteq> None"
proof -
  have e: "done_response (fst (svc_RevokeToken se rq jti u why sv)) = Inr EmptyRs" "sv1 = snd (svc_RevokeToken se rq jti u why sv)"
    using assms(3) by (cases "svc_RevokeToken se rq jti u why sv"; auto simp: serve_def Let_def split: sum.splits prod.splits)+
  then have ok: "jti \<noteq> []" "revoked_since jti (rq_clk rq 0) (mr_maxTTL revs) sv1"
    using assms(1,2)
    by (auto simp: done_response_def svc_RevokeToken_def revoked_since_def MemoryRevocations_ops_def mr_Revoke_def split: if_splits option.splits)
  obtain revs2 r where revs2: "sv_revs sv2 = Some revs2" "mr_maxTTL revs2 = mr_maxTTL revs" "map_of (mr_byToken revs2) jti = Some r"
    "rq_clk rq 0 \<le> rev_At r"
    using revoked_since_run [OF assms(1,4) _ ok(2)] by (auto simp: revoked_since_def)
  have "time_Sub now2 (rev_At r) \<le> time_Sub now2 (rq_clk rq 0)" using revs2(4) by (auto simp: time_Sub_def)
  then have "vo_IsRevoked (se_revs se) (cl_JTI c) now2 revs2 = Ok True"
    using assms(1,7,8) revs2 by (simp add: MemoryRevocations_ops_def mr_IsRevoked_def)
  then have "check_revoked (se_revs se) c now2 revs2 \<noteq> None" using ok(1) assms(7) by (simp add: check_revoked_None)
  then show ?thesis using assms(5,6) revs2(1) by (auto simp: SubscribeAuthorizer_None)
qed

definition revoking_env :: "(MemoryStore, MemoryRefreshStore, MemoryLimiter, unit, MemoryRevocations, unit) svc_env" where
  "revoking_env = mem_env\<lparr>se_auth := toy_env [day_claims, pair_claims TypeAccess 400 ''id'' []]\<rparr>"

theorem operator_revocation_lasts_witness:
  "\<exists>bearer token sv1. serve revoking_env no_idp None (at_second 200) [] (''Bearer '' @ bearer) (RevokeTokenRq ''id'' [] []) mem_svc = (Answer (Inr EmptyRs), sv1) \<and>
     (\<exists>c. verify_env (se_auth revoking_env) one_key 0 token TypeAccess (300 * second) = Ok c \<and> cl_JTI c = ''id'') \<and>
     fst (SubscribeAuthorizer MemoryStore_ops MemoryLimiter_ops (se_revs revoking_env) (se_auth revoking_env) one_key 0 mgr_start (sv_revs sv1) None
       (300 * second) (300 * second) ''u'' sample_private token no_limits) \<noteq> None"
proof -
  let ?cs = "[day_claims, pair_claims TypeAccess 400 ''id'' []]" and ?se = revoking_env
  have auth: "se_auth ?se = toy_env ?cs" "se_revs ?se = MemoryRevocations_ops" by (simp_all add: revoking_env_def mem_env_def)
  obtain bearer where b: "sign_env (toy_env ?cs) [] one_key day_claims = Ok bearer"
    by (rule toy_sign [of day_claims ?cs]) (simp_all add: day_claims_def type_Valid_def)
  obtain token where tk: "sign_env (toy_env ?cs) [] one_key (pair_claims TypeAccess 400 ''id'' []) = Ok token"
    by (rule toy_sign [of "pair_claims TypeAccess 400 ''id'' []" ?cs]) (simp_all add: pair_claims_def type_Valid_def)
  have ring: "ring_ok (ae_kc (toy_env ?cs)) ed_only one_key" using ring_ok_reach [OF one_key_reach] by (simp add: toy_env_def)
  have asc: "claims_ascii day_claims" "claims_ascii (pair_claims TypeAccess 400 ''id'' [])"
    by (simp_all add: claims_ascii_def day_claims_def pair_claims_def ascii_def go_simps)
  have vb: "verify_env (toy_env ?cs) one_key 0 bearer TypeMgmt (200 * second) = Ok (strip_claims day_claims)"
    using sign_env_verifies [OF ring toy_env_ok one_key_ascii asc(1) b, of "200 * second"] by (simp add: day_claims_def IssuedAt_def ExpiresAt_def)
  have vt: "verify_env (toy_env ?cs) one_key 0 token TypeAccess (300 * second) = Ok (strip_claims (pair_claims TypeAccess 400 ''id'' []))"
    using sign_env_verifies [OF ring toy_env_ok one_key_ascii asc(2) tk, of "300 * second"] by (simp add: pair_claims_def IssuedAt_def ExpiresAt_def)
  have rv: "sv_revs mem_svc = Some NewMemoryRevocations" by (simp add: mem_svc_def)
  note sb = signed_bearer [OF ring _ one_key_ascii b]
  have "fst (serve ?se no_idp None (at_second 200) [] (''Bearer '' @ bearer) (RevokeTokenRq ''id'' [] []) mem_svc) = Answer (Inr EmptyRs)"
    using vb sb toy_env_ok [of ?cs ed_only]
    by (simp add: serve_def bearerMiddleware_def publicTwirpMethods_def MgmtValidator_def mgmt_verify_def auth mem_svc_def fresh_parsec_def at_second_def
        svc_RevokeToken_def done_response_def MemoryRevocations_ops_def mr_Revoke_def env_ok_def split_beta Let_def)
  then obtain sv1 where sv1: "serve ?se no_idp None (at_second 200) [] (''Bearer '' @ bearer) (RevokeTokenRq ''id'' [] []) mem_svc = (Answer (Inr EmptyRs), sv1)"
    by (metis prod.collapse)
  have "fst (SubscribeAuthorizer MemoryStore_ops MemoryLimiter_ops (se_revs ?se) (se_auth ?se) one_key 0 mgr_start (sv_revs sv1) None
       (300 * second) (300 * second) ''u'' sample_private token no_limits) \<noteq> None"
    by (rule operator_revocation_lasts [OF auth(2) rv sv1 rtranclp.rtrancl_refl _ vt [folded auth(1)]])
      (simp_all add: sample_private_def IsPrivate_def strip_claims_def pair_claims_def at_second_def NewMemoryRevocations_def
        time_Sub_def go_simps)
  then show ?thesis using sv1 vt auth by (fastforce simp: strip_claims_def pair_claims_def)
qed

end
